(* ===== verification/Prelude.thy ===== *)
theory Prelude
  imports Main "HOL-Library.AList" "HOL-Library.Sublist" "HOL-Library.Multiset"
begin

text \<open>
  Shared vocabulary of the development: fallible results, JavaScript strings and their
  \<open>trim\<close>, \<open>split\<close>, \<open>join\<close>, stable sorting under a comparator, and the insertion-ordered
  \<open>Map\<close> with its bounded, one-shot ledger discipline.

  Strings are lists of \<^typ>\<open>char\<close>, so a string holds the code units 0 to 255: on that range a
  JavaScript code unit, a code point and a list element are the same thing, and the character
  classes the sources use (\<open>\s\<close>, \<open>\p{L}\<close>, control characters) are written out exactly.
  A JavaScript \<open>Map\<close> is an association list in insertion order: \<open>AList.update\<close> overwrites in
  place or appends, as \<open>Map.set\<close> does, and \<open>AList.delete\<close> is \<open>Map.delete\<close>.
\<close>

named_theorems result_simps \<open>unfolding of bound results\<close>
named_theorems path_simps \<open>splitting and joining of slash paths\<close>

section \<open>Fallible results\<close>

text \<open>A computation that throws is a sum: \<open>Inl\<close> the error, \<open>Inr\<close> the value.\<close>

primrec bind_result :: "'e + 'a \<Rightarrow> ('a \<Rightarrow> 'e + 'b) \<Rightarrow> 'e + 'b" where
  "bind_result (Inl e) f = Inl e"
| "bind_result (Inr a) f = f a"

primrec is_ok :: "'e + 'a \<Rightarrow> bool" where
  "is_ok (Inl e) = False"
| "is_ok (Inr a) = True"

fun map_result :: "('a \<Rightarrow> 'e + 'b) \<Rightarrow> 'a list \<Rightarrow> 'e + 'b list" where
  "map_result f [] = Inr []"
| "map_result f (x # xs) =
     bind_result (f x) (\<lambda>y. bind_result (map_result f xs) (\<lambda>ys. Inr (y # ys)))"

lemma bind_result_Inr_iff [result_simps]:
  "bind_result m f = Inr b \<longleftrightarrow> (\<exists>a. m = Inr a \<and> f a = Inr b)"
  by (cases m) auto

lemma bind_result_Inl_iff [result_simps]:
  "bind_result m f = Inl e \<longleftrightarrow> m = Inl e \<or> (\<exists>a. m = Inr a \<and> f a = Inl e)"
  by (cases m) auto

lemma is_ok_iff: "is_ok r \<longleftrightarrow> (\<exists>a. r = Inr a)"
  by (cases r) auto

lemma map_result_Inr_map: "(\<And>x. x \<in> set xs \<Longrightarrow> f x = Inr (g x)) \<Longrightarrow> map_result f xs = Inr (map g xs)"
  by (induction xs) auto

lemma map_result_Inr_length: "map_result f xs = Inr ys \<Longrightarrow> length ys = length xs"
  by (induction xs arbitrary: ys) (auto simp: result_simps)

section \<open>Strings\<close>

definition is_ws :: "char \<Rightarrow> bool" where
  "is_ws c = (let n = of_char c :: nat in (9 \<le> n \<and> n \<le> 13) \<or> n = 32 \<or> n = 160)"

definition is_control :: "char \<Rightarrow> bool" where
  "is_control c = (let n = of_char c :: nat in n \<le> 31 \<or> n = 127)"

definition is_digit :: "char \<Rightarrow> bool" where
  "is_digit c = (let n = of_char c :: nat in 48 \<le> n \<and> n \<le> 57)"

definition is_upper_ascii :: "char \<Rightarrow> bool" where
  "is_upper_ascii c = (let n = of_char c :: nat in 65 \<le> n \<and> n \<le> 90)"

definition is_lower_ascii :: "char \<Rightarrow> bool" where
  "is_lower_ascii c = (let n = of_char c :: nat in 97 \<le> n \<and> n \<le> 122)"

definition is_alpha_ascii :: "char \<Rightarrow> bool" where
  "is_alpha_ascii c \<longleftrightarrow> is_upper_ascii c \<or> is_lower_ascii c"

text \<open>\<open>[A-Za-z_]\<close> and \<open>[A-Za-z0-9_]\<close>.\<close>

definition is_name_start :: "char \<Rightarrow> bool" where
  "is_name_start c \<longleftrightarrow> is_alpha_ascii c \<or> c = CHR ''_''"

definition is_name_char :: "char \<Rightarrow> bool" where
  "is_name_char c \<longleftrightarrow> is_name_start c \<or> is_digit c"

definition trim :: "string \<Rightarrow> string" where
  "trim s = rev (dropWhile is_ws (rev (dropWhile is_ws s)))"

text \<open>\<open>text.split(c)\<close> for a one-character separator, and \<open>parts.join(sep)\<close>.\<close>

fun split_on :: "char \<Rightarrow> string \<Rightarrow> string list" where
  "split_on c [] = [[]]"
| "split_on c (x # xs) =
     (if x = c then [] # split_on c xs
      else (case split_on c xs of [] \<Rightarrow> [[x]] | p # ps \<Rightarrow> (x # p) # ps))"

fun join :: "string \<Rightarrow> string list \<Rightarrow> string" where
  "join sep [] = []"
| "join sep [p] = p"
| "join sep (p # q # ps) = p @ sep @ join sep (q # ps)"

lemma split_on_not_Nil [simp]: "split_on c s \<noteq> []"
  by (induction s) (auto split: list.splits)

lemma split_on_no_sep: "c \<notin> set s \<Longrightarrow> split_on c s = [s]"
  by (induction s) auto

lemma split_on_append_sep: "c \<notin> set p \<Longrightarrow> split_on c (p @ c # s) = p # split_on c s"
  by (induction p) auto

lemma split_on_parts: "p \<in> set (split_on c s) \<Longrightarrow> c \<notin> set p"
  by (induction s arbitrary: p) (auto split: list.splits if_splits)

lemma join_Cons: "ps \<noteq> [] \<Longrightarrow> join sep (p # ps) = p @ sep @ join sep ps"
  by (cases ps) auto

lemma join_split_on [path_simps]: "join [c] (split_on c s) = s"
proof (induction s)
  case (Cons x xs)
  then show ?case
    by (cases "split_on c xs"; cases "tl (split_on c xs)") (auto simp: join_Cons)
qed simp

lemma split_on_join [path_simps]:
  "ps \<noteq> [] \<Longrightarrow> (\<And>p. p \<in> set ps \<Longrightarrow> c \<notin> set p) \<Longrightarrow> split_on c (join [c] ps) = ps"
proof (induction ps)
  case (Cons p ps)
  then show ?case
    by (cases ps) (auto simp: split_on_no_sep split_on_append_sep)
qed simp

lemma join_inject:
  assumes "ps \<noteq> []" "qs \<noteq> []" "\<And>p. p \<in> set ps \<union> set qs \<Longrightarrow> c \<notin> set p"
    and "join [c] ps = join [c] qs"
  shows "ps = qs"
  by (metis UnCI assms split_on_join)

lemma join_append: "ps \<noteq> [] \<Longrightarrow> qs \<noteq> [] \<Longrightarrow> join sep (ps @ qs) = join sep ps @ sep @ join sep qs"
proof (induction ps)
  case (Cons p ps)
  then show ?case by (cases ps) (auto simp: join_Cons)
qed simp

lemma set_split_on: "p \<in> set (split_on c s) \<Longrightarrow> set p \<subseteq> set s"
proof (induction s arbitrary: p)
  case (Cons x xs)
  then show ?case by (fastforce split: list.splits if_splits)
qed simp

lemma dropWhile_rev_unchanged: "xs = [] \<or> \<not> P (last xs) \<Longrightarrow> dropWhile P (rev xs) = rev xs"
  by (cases xs rule: rev_cases) auto

lemma trim_unchanged: "s \<noteq> [] \<Longrightarrow> \<not> is_ws (hd s) \<Longrightarrow> \<not> is_ws (last s) \<Longrightarrow> trim s = s"
proof -
  assume "s \<noteq> []" "\<not> is_ws (hd s)" "\<not> is_ws (last s)"
  then have "dropWhile is_ws s = s"
    by (cases s) auto
  with \<open>\<not> is_ws (last s)\<close> show ?thesis
    by (simp add: trim_def dropWhile_rev_unchanged)
qed

lemma set_trim: "set (trim s) \<subseteq> set s"
  by (auto simp: trim_def dest!: set_dropWhileD)

lemma trim_last: "trim s \<noteq> [] \<Longrightarrow> \<not> is_ws (last (trim s))"
  by (metis hd_dropWhile hd_rev rev_is_Nil_conv trim_def rev_rev_ident dropWhile_eq_Nil_conv)

lemma hd_dropWhile_rev_dropWhile:
  "rev (dropWhile P (rev (dropWhile P s))) \<noteq> [] \<Longrightarrow>
    \<not> P (hd (rev (dropWhile P (rev (dropWhile P s)))))"
proof -
  assume ne: "rev (dropWhile P (rev (dropWhile P s))) \<noteq> []"
  obtain t where t: "dropWhile P s = rev (dropWhile P (rev (dropWhile P s))) @ t"
    by (metis rev_append rev_rev_ident takeWhile_dropWhile_id)
  with ne have "hd (dropWhile P s) = hd (rev (dropWhile P (rev (dropWhile P s))))"
    by (metis hd_append2)
  moreover from ne have "dropWhile P s \<noteq> []"
    by (metis dropWhile.simps(1) rev.simps(1))
  ultimately show ?thesis
    by (metis hd_dropWhile dropWhile_eq_Nil_conv)
qed

lemma trim_hd: "trim s \<noteq> [] \<Longrightarrow> \<not> is_ws (hd (trim s))"
  unfolding trim_def by (rule hd_dropWhile_rev_dropWhile)

lemma trim_trim: "trim (trim s) = trim s"
  by (cases "trim s = []") (simp_all add: trim_unchanged trim_hd trim_last trim_def [of "[]"])

text \<open>The length of the UTF-8 encoding: code units from 128 to 255 take two bytes.\<close>

definition utf8_length :: "string \<Rightarrow> nat" where
  "utf8_length s = sum_list (map (\<lambda>c. if (of_char c :: nat) < 128 then 1 else 2) s)"

lemma utf8_length_append [simp]: "utf8_length (s @ t) = utf8_length s + utf8_length t"
  by (simp add: utf8_length_def)

lemma utf8_length_ge: "length s \<le> utf8_length s"
  by (induction s) (auto simp: utf8_length_def)

section \<open>Stable sorting under a comparator\<close>

text \<open>
  \<open>Array.prototype.sort\<close> is stable, so for a consistent comparator its result is the one an
  insertion sort that inserts before equal elements produces.
\<close>

fun insert_by :: "('a \<Rightarrow> 'a \<Rightarrow> int) \<Rightarrow> 'a \<Rightarrow> 'a list \<Rightarrow> 'a list" where
  "insert_by cmp x [] = [x]"
| "insert_by cmp x (y # ys) = (if cmp x y \<le> 0 then x # y # ys else y # insert_by cmp x ys)"

definition sort_by :: "('a \<Rightarrow> 'a \<Rightarrow> int) \<Rightarrow> 'a list \<Rightarrow> 'a list" where
  "sort_by cmp xs = foldr (insert_by cmp) xs []"

lemma mset_insert_by [simp]: "mset (insert_by cmp x xs) = add_mset x (mset xs)"
  by (induction xs) auto

lemma mset_sort_by [simp]: "mset (sort_by cmp xs) = mset xs"
  by (induction xs) (auto simp: sort_by_def)

lemma set_sort_by [simp]: "set (sort_by cmp xs) = set xs"
  by (metis mset_sort_by set_mset_mset)

lemma set_insert_by [simp]: "set (insert_by cmp x xs) = insert x (set xs)"
  by (metis mset_insert_by set_mset_mset set_mset_add_mset_insert)

lemma length_sort_by [simp]: "length (sort_by cmp xs) = length xs"
  by (metis mset_sort_by size_mset)

lemma sort_by_Nil [simp]: "sort_by cmp [] = []"
  by (simp add: sort_by_def)

lemma sort_by_Cons: "sort_by cmp (x # xs) = insert_by cmp x (sort_by cmp xs)"
  by (simp add: sort_by_def)

text \<open>What a comparator handed to \<open>sort\<close> has to satisfy.\<close>

locale comparator =
  fixes cmp :: "'a \<Rightarrow> 'a \<Rightarrow> int"
  assumes cmp_total: "cmp x y \<le> 0 \<or> cmp y x \<le> 0"
    and cmp_trans: "cmp x y \<le> 0 \<Longrightarrow> cmp y z \<le> 0 \<Longrightarrow> cmp x z \<le> 0"
begin

lemma sorted_insert_by:
  "sorted_wrt (\<lambda>a b. cmp a b \<le> 0) xs \<Longrightarrow> sorted_wrt (\<lambda>a b. cmp a b \<le> 0) (insert_by cmp x xs)"
proof (induction xs)
  case (Cons y ys)
  then show ?case
    using cmp_total [of x y] by (auto intro: cmp_trans)
qed simp

lemma sorted_sort_by: "sorted_wrt (\<lambda>a b. cmp a b \<le> 0) (sort_by cmp xs)"
  by (induction xs) (auto simp: sort_by_Cons sorted_insert_by)

end

text \<open>Code-unit order of strings: \<open>left < right ? -1 : left > right ? 1 : 0\<close>.\<close>

fun code_unit_le :: "string \<Rightarrow> string \<Rightarrow> bool" where
  "code_unit_le [] t = True"
| "code_unit_le (x # xs) [] = False"
| "code_unit_le (x # xs) (y # ys) =
     ((of_char x :: nat) < of_char y \<or> x = y \<and> code_unit_le xs ys)"

definition code_unit_cmp :: "string \<Rightarrow> string \<Rightarrow> int" where
  "code_unit_cmp s t = (if s = t then 0 else if code_unit_le s t then -1 else 1)"

lemma of_char_nat_inject [simp]: "(of_char x :: nat) = of_char y \<longleftrightarrow> x = y"
  by (simp add: of_char_eq_iff)

lemma code_unit_le_refl [simp]: "code_unit_le s s"
  by (induction s) auto

lemma code_unit_le_total: "code_unit_le s t \<or> code_unit_le t s"
proof (induction s t rule: code_unit_le.induct)
  case (3 x xs y ys)
  consider "(of_char x :: nat) < of_char y" | "(of_char y :: nat) < of_char x" | "x = y"
    by (metis nat_neq_iff of_char_nat_inject)
  then show ?case using 3 by cases auto
qed auto

lemma code_unit_le_trans: "code_unit_le s t \<Longrightarrow> code_unit_le t u \<Longrightarrow> code_unit_le s u"
proof (induction s t arbitrary: u rule: code_unit_le.induct)
  case (3 x xs y ys)
  then show ?case by (cases u) auto
qed auto

lemma code_unit_le_antisym: "code_unit_le s t \<Longrightarrow> code_unit_le t s \<Longrightarrow> s = t"
  by (induction s t rule: code_unit_le.induct) (auto elim: code_unit_le.elims)

lemma code_unit_cmp_le_iff: "code_unit_cmp s t \<le> 0 \<longleftrightarrow> code_unit_le s t"
  by (simp add: code_unit_cmp_def)

interpretation code_units: comparator code_unit_cmp
proof
  show "code_unit_cmp x y \<le> 0 \<or> code_unit_cmp y x \<le> 0" for x y
    using code_unit_le_total [of x y] by (simp add: code_unit_cmp_le_iff)
qed (auto simp: code_unit_cmp_le_iff intro: code_unit_le_trans)

section \<open>Bounded one-shot ledgers\<close>

text \<open>
  Three components keep what happened under a key in a \<open>Map\<close> of bounded size until one reader
  takes it: insert, evicting the oldest key when the map is full, and read-and-delete. The first
  key of the map is \<open>keys().next().value\<close>.
\<close>

definition evict_oldest :: "('k \<times> 'v) list \<Rightarrow> ('k \<times> 'v) list" where
  "evict_oldest m = (case m of [] \<Rightarrow> [] | (k, _) # _ \<Rightarrow> AList.delete k m)"

definition ledger_put :: "nat \<Rightarrow> 'k \<Rightarrow> 'v \<Rightarrow> ('k \<times> 'v) list \<Rightarrow> ('k \<times> 'v) list" where
  "ledger_put cap k v m = AList.update k v (if cap \<le> length m then evict_oldest m else m)"

definition ledger_take :: "'k \<Rightarrow> ('k \<times> 'v) list \<Rightarrow> 'v option \<times> ('k \<times> 'v) list" where
  "ledger_take k m = (map_of m k, AList.delete k m)"

definition ledger_ok :: "nat \<Rightarrow> ('k \<times> 'v) list \<Rightarrow> bool" where
  "ledger_ok cap m \<longleftrightarrow> distinct (map fst m) \<and> length m \<le> cap"

lemma length_alist_delete: "length (AList.delete k m) \<le> length m"
  by (simp add: AList.delete_eq)

lemma alist_delete_head: "distinct (map fst ((k, v) # m)) \<Longrightarrow> AList.delete k ((k, v) # m) = m"
  by (force simp: AList.delete_eq filter_id_conv)

lemma evict_oldest_tl: "distinct (map fst m) \<Longrightarrow> evict_oldest m = tl m"
  by (cases m) (auto simp: evict_oldest_def alist_delete_head)

lemma length_alist_update: "length (AList.update k v m) \<le> Suc (length m)"
  by (induction m) auto

lemma distinct_tl_fst: "distinct (map fst m) \<Longrightarrow> distinct (map fst (tl m))"
  by (cases m) auto

text \<open>The contract of such a ledger, and what its one reader may rely on.\<close>

locale one_shot_ledger =
  fixes ok :: "'m \<Rightarrow> bool"
    and lookup :: "'m \<Rightarrow> 'k \<Rightarrow> 'v option"
    and put :: "'k \<Rightarrow> 'v \<Rightarrow> 'm \<Rightarrow> 'm"
    and take_out :: "'k \<Rightarrow> 'm \<Rightarrow> 'v option \<times> 'm"
  assumes ok_put: "ok m \<Longrightarrow> ok (put k v m)"
    and ok_take: "ok m \<Longrightarrow> ok (snd (take_out k m))"
    and lookup_put_same: "ok m \<Longrightarrow> lookup (put k v m) k = Some v"
    and lookup_put_other: "ok m \<Longrightarrow> k' \<noteq> k \<Longrightarrow>
      lookup (put k v m) k' = lookup m k' \<or> lookup (put k v m) k' = None"
    and take_value: "ok m \<Longrightarrow> fst (take_out k m) = lookup m k"
    and take_rest: "ok m \<Longrightarrow> lookup (snd (take_out k m)) = (lookup m)(k := None)"
begin

lemma take_after_put: "ok m \<Longrightarrow> fst (take_out k (put k v m)) = Some v"
  by (simp add: take_value ok_put lookup_put_same)

lemma take_once: "ok m \<Longrightarrow> fst (take_out k (snd (take_out k m))) = None"
  by (simp add: take_value ok_take take_rest)

lemma put_never_invents: "ok m \<Longrightarrow> lookup (put k v m) k' = Some w \<Longrightarrow> (k' = k \<and> w = v) \<or> lookup m k' = Some w"
  by (cases "k' = k") (auto simp: lookup_put_same dest: lookup_put_other [of m k' k v])

end

lemma ledger_ok_put: "0 < cap \<Longrightarrow> ledger_ok cap m \<Longrightarrow> ledger_ok cap (ledger_put cap k v m)"
proof -
  assume a: "0 < cap" "ledger_ok cap m"
  then have d: "distinct (map fst m)" "length m \<le> cap"
    by (auto simp: ledger_ok_def)
  show ?thesis
  proof (cases "cap \<le> length m")
    case True
    then have "Suc (length (tl m)) \<le> cap"
      using a d by (cases m) auto
    with True d show ?thesis
      using length_alist_update [of k v "tl m"]
      by (simp add: ledger_ok_def ledger_put_def evict_oldest_tl distinct_update distinct_tl_fst)
  next
    case False
    with d show ?thesis
      using length_alist_update [of k v m]
      by (simp add: ledger_ok_def ledger_put_def distinct_update)
  qed
qed

lemma ledger_ok_take: "ledger_ok cap m \<Longrightarrow> ledger_ok cap (snd (ledger_take k m))"
  using length_alist_delete [of k m]
  by (auto simp: ledger_ok_def ledger_take_def AList.distinct_delete intro: le_trans)

lemma map_of_tl_cases:
  "distinct (map fst m) \<Longrightarrow> map_of (tl m) k = map_of m k \<or> map_of (tl m) k = None"
  by (cases m) (auto simp: map_of_eq_None_iff)

lemma ledger_one_shot: "0 < cap \<Longrightarrow> one_shot_ledger (ledger_ok cap) map_of (ledger_put cap) ledger_take"
proof (unfold_locales, goal_cases)
  case (4 m k' k v)
  then show ?case
    using map_of_tl_cases [of m k']
    by (auto simp: ledger_put_def ledger_ok_def update_conv' evict_oldest_tl)
next
  case (1 m k v)
  then show ?case by (rule ledger_ok_put)
next
  case (2 m k)
  then show ?case by (simp add: ledger_ok_take)
qed (auto simp: ledger_put_def ledger_take_def update_conv' delete_conv')

subsection \<open>How long an entry lasts\<close>

text \<open>An entry with at most \<open>n\<close> entries after it.\<close>

definition recent :: "'k \<Rightarrow> 'v \<Rightarrow> nat \<Rightarrow> ('k \<times> 'v) list \<Rightarrow> bool" where
  "recent k v n m \<longleftrightarrow> (\<exists>pre suf. m = pre @ (k, v) # suf \<and> length suf \<le> n)"

lemma alist_update_fresh: "k \<notin> fst ` set m \<Longrightarrow> AList.update k v m = m @ [(k, v)]"
  by (induction m) auto

lemma recent_put_fresh:
  assumes "ledger_ok cap m" "k \<notin> fst ` set m"
  shows "recent k v 0 (ledger_put cap k v m)"
proof -
  have "k \<notin> fst ` set (tl m)"
    using assms(2) by (cases m) auto
  then show ?thesis
    using assms by (auto simp: recent_def ledger_put_def evict_oldest_tl ledger_ok_def alist_update_fresh)
qed

lemma recent_update: "j \<noteq> k \<Longrightarrow> recent k v n m \<Longrightarrow> recent k v (Suc n) (AList.update j w m)"
proof -
  assume j: "j \<noteq> k" and r: "recent k v n m"
  then obtain pre suf where m: "m = pre @ (k, v) # suf" "length suf \<le> n"
    by (auto simp: recent_def)
  have "\<exists>pre' suf'. AList.update j w (pre @ (k, v) # suf) = pre' @ (k, v) # suf' \<and> length suf' \<le> Suc (length suf)"
  proof (induction pre)
    case Nil
    then show ?case
      using j length_alist_update [of j w suf] by (simp, metis append_Nil)
  next
    case (Cons e pre)
    then obtain pre' suf' where
      "AList.update j w (pre @ (k, v) # suf) = pre' @ (k, v) # suf'" "length suf' \<le> Suc (length suf)"
      by blast
    then show ?case
      by (cases e; cases "fst e = j")
        (force intro: exI [of _ "(j, w) # pre"] exI [of _ "e # pre'"])+
  qed
  with m show ?thesis
    by (auto simp: recent_def intro: le_trans)
qed

lemma recent_put_other:
  assumes "ledger_ok cap m" "j \<noteq> k" "recent k v n m" "Suc n < cap"
  shows "recent k v (Suc n) (ledger_put cap j w m)"
proof -
  obtain pre suf where m: "m = pre @ (k, v) # suf" "length suf \<le> n"
    using assms(3) by (auto simp: recent_def)
  have "recent k v n (if cap \<le> length m then evict_oldest m else m)"
  proof (cases "cap \<le> length m")
    case True
    with m assms(4) obtain p pre' where "pre = p # pre'"
      by (cases pre) auto
    with m True assms(1) show ?thesis
      by (auto simp: recent_def evict_oldest_tl ledger_ok_def)
  qed (use assms(3) in simp)
  with assms(2) show ?thesis
    unfolding ledger_put_def by (rule recent_update)
qed

lemma recent_lookup: "distinct (map fst m) \<Longrightarrow> recent k v n m \<Longrightarrow> map_of m k = Some v"
  by (auto simp: recent_def)

lemma ledger_put_keys: "ledger_ok cap m \<Longrightarrow> fst ` set (ledger_put cap k v m) \<subseteq> insert k (fst ` set m)"
  by (auto simp: ledger_put_def dom_update [unfolded dom_map_of_conv_image_fst] evict_oldest_tl ledger_ok_def
      image_iff split: if_splits) (metis list.sel(2) list.set_sel(2) fst_conv image_iff)+

end
