(* ===== verification/Content_Codec.thy ===== *)
theory Content_Codec
  imports Prelude
begin

text \<open>
  \<open>src/workspace/content-codec.ts\<close>: opaque bytes cross the string-valued workspace port in one
  reversible base64 envelope. A byte is a \<^typ>\<open>char\<close>, as it is in the binary string that
  \<open>btoa\<close> and \<open>atob\<close> take. Both are written out from the HTML standard (\<open>atob\<close> is the
  forgiving decoder: ASCII white space is dropped, the padding is optional). \<open>TextDecoder\<close> in its
  fatal mode is the parameter \<open>decode_text\<close> (\<open>None\<close> when it throws); nothing is assumed of it,
  because the encoder checks the round trip itself. \<open>TextEncoder\<close> is \<open>utf8_encode\<close>.
\<close>

section \<open>UTF-8 and base64\<close>

definition utf8_char :: "char \<Rightarrow> char list" where
  "utf8_char c = (let n = of_char c :: nat in
     if n < 128 then [c] else [char_of (192 + n div 64), char_of (128 + n mod 64)])"

definition utf8_encode :: "string \<Rightarrow> char list" where
  "utf8_encode s = concat (map utf8_char s)"

definition b64_alphabet :: string where
  "b64_alphabet = ''ABCDEFGHIJKLMNOPQRSTUVWXYZabcdefghijklmnopqrstuvwxyz0123456789+/''"

definition b64_char :: "nat \<Rightarrow> char" where
  "b64_char n = b64_alphabet ! n"

definition b64_index :: "char \<Rightarrow> nat option" where
  "b64_index c = map_of (zip b64_alphabet [0..<64]) c"

fun btoa :: "char list \<Rightarrow> string" where
  "btoa [] = []"
| "btoa [a] = (let x = of_char a :: nat in
     [b64_char (x div 4), b64_char (x mod 4 * 16), CHR ''='', CHR ''=''])"
| "btoa [a, b] = (let x = of_char a :: nat; y = of_char b :: nat in
     [b64_char (x div 4), b64_char (x mod 4 * 16 + y div 16), b64_char (y mod 16 * 4), CHR ''=''])"
| "btoa (a # b # c # rest) =
     (let x = of_char a :: nat; y = of_char b :: nat; z = of_char c :: nat in
      [b64_char (x div 4), b64_char (x mod 4 * 16 + y div 16), b64_char (y mod 16 * 4 + z div 64),
       b64_char (z mod 64)] @ btoa rest)"

fun b64_bytes :: "nat list \<Rightarrow> char list" where
  "b64_bytes (w # x # y # z # rest) =
     char_of (w * 4 + x div 16) # char_of (x mod 16 * 16 + y div 4) # char_of (y mod 4 * 64 + z)
     # b64_bytes rest"
| "b64_bytes [w, x, y] = [char_of (w * 4 + x div 16), char_of (x mod 16 * 16 + y div 4)]"
| "b64_bytes [w, x] = [char_of (w * 4 + x div 16)]"
| "b64_bytes [w] = []"
| "b64_bytes [] = []"

definition strip_padding :: "string \<Rightarrow> string" where
  "strip_padding t = (if suffix ''=='' t then take (length t - 2) t
                      else if suffix ''='' t then take (length t - 1) t else t)"

definition is_b64_space :: "char \<Rightarrow> bool" where
  "is_b64_space c = ((of_char c :: nat) \<in> {9, 10, 12, 13, 32})"

definition atob :: "string \<Rightarrow> char list option" where
  "atob s =
    (let t = filter (\<lambda>c. \<not> is_b64_space c) s;
         u = (if length t mod 4 = 0 then strip_padding t else t)
     in if length u mod 4 = 1 \<or> list_ex (\<lambda>c. b64_index c = None) u then None
        else Some (b64_bytes (map (\<lambda>c. the (b64_index c)) u)))"

section \<open>The codec\<close>

definition BINARY_PREFIX :: string where
  "BINARY_PREFIX = ''airship-git-binary-v1:''"

datatype codec_error = InvalidBase64

definition isWorkspaceBinaryEnvelope :: "string \<Rightarrow> bool" where
  "isWorkspaceBinaryEnvelope content = prefix BINARY_PREFIX content"

definition encodeWorkspaceBytes :: "(char list \<Rightarrow> string option) \<Rightarrow> char list \<Rightarrow> string" where
  "encodeWorkspaceBytes decode_text bytes =
    (case decode_text bytes of
       Some text \<Rightarrow>
         if CHR 0x00 \<notin> set text \<and> \<not> prefix BINARY_PREFIX text \<and> utf8_encode text = bytes
         then text else BINARY_PREFIX @ btoa bytes
     | None \<Rightarrow> BINARY_PREFIX @ btoa bytes)"

definition decodeWorkspaceBytes :: "string \<Rightarrow> codec_error + char list" where
  "decodeWorkspaceBytes content =
    (if \<not> isWorkspaceBinaryEnvelope content then Inr (utf8_encode content)
     else (case atob (drop (length BINARY_PREFIX) content) of
             None \<Rightarrow> Inl InvalidBase64
           | Some bytes \<Rightarrow> Inr bytes))"

definition workspaceContentByteLength :: "string \<Rightarrow> nat" where
  "workspaceContentByteLength content =
    (if \<not> isWorkspaceBinaryEnvelope content then length (utf8_encode content)
     else
       let encoded = length content - length BINARY_PREFIX in
       if encoded = 0 then 0
       else if encoded mod 4 \<noteq> 0 then length (utf8_encode content)
       else
         let padding = (if suffix ''=='' content then 2 else if suffix ''='' content then 1 else 0)
         in encoded div 4 * 3 - padding)"

section \<open>Base64 round trip\<close>

lemma length_utf8_encode: "length (utf8_encode s) = utf8_length s"
  by (induction s) (auto simp: utf8_encode_def utf8_char_def utf8_length_def Let_def)

lemma b64_index_char_all: "list_all (\<lambda>n. b64_index (b64_char n) = Some n) [0..<64]"
  by code_simp

lemma b64_char_plain_all:
  "list_all (\<lambda>n. b64_char n \<noteq> CHR ''='' \<and> \<not> is_b64_space (b64_char n)) [0..<64]"
  by code_simp

lemma b64_index_char [simp]: "n < 64 \<Longrightarrow> b64_index (b64_char n) = Some n"
  using b64_index_char_all by (simp add: list_all_iff)

lemma b64_char_plain [simp]:
  "n < 64 \<Longrightarrow> b64_char n \<noteq> CHR ''=''" "n < 64 \<Longrightarrow> \<not> is_b64_space (b64_char n)"
  using b64_char_plain_all by (simp_all add: list_all_iff)

lemma of_char_less [simp]: "(of_char c :: nat) < 256"
  by (metis of_char_mod_256 mod_less_divisor zero_less_numeral)

lemma char_of_of_char_eq: "n = of_char c \<Longrightarrow> char_of (n :: nat) = c"
  by simp

text \<open>The index list behind \<open>btoa\<close>, without padding.\<close>

fun b64_indices :: "char list \<Rightarrow> nat list" where
  "b64_indices [] = []"
| "b64_indices [a] = (let x = of_char a :: nat in [x div 4, x mod 4 * 16])"
| "b64_indices [a, b] = (let x = of_char a :: nat; y = of_char b :: nat in
     [x div 4, x mod 4 * 16 + y div 16, y mod 16 * 4])"
| "b64_indices (a # b # c # rest) =
     (let x = of_char a :: nat; y = of_char b :: nat; z = of_char c :: nat in
      [x div 4, x mod 4 * 16 + y div 16, y mod 16 * 4 + z div 64, z mod 64] @ b64_indices rest)"

fun b64_padding :: "char list \<Rightarrow> string" where
  "b64_padding [a] = ''==''"
| "b64_padding [a, b] = ''=''"
| "b64_padding (a # b # c # rest) = b64_padding rest"
| "b64_padding [] = []"

lemma index_bounds:
  "(of_char a :: nat) div 4 < 64" "(of_char a :: nat) mod 4 * 16 < 64"
  "(of_char a :: nat) mod 4 * 16 + of_char b div 16 < 64"
  "(of_char b :: nat) mod 16 * 4 < 64" "(of_char b :: nat) mod 16 * 4 + of_char c div 64 < 64"
  "(of_char c :: nat) mod 64 < 64"
proof -
  have "x div 4 < 64" "x div 16 < 16" "x div 64 < 4" if "x < 256" for x :: nat
    using that by (simp_all add: less_mult_imp_div_less)
  then have d: "(of_char a :: nat) div 4 < 64" "(of_char b :: nat) div 16 < 16"
    "(of_char c :: nat) div 64 < 4"
    by simp_all
  have m: "(of_char a :: nat) mod 4 \<le> 3" "(of_char b :: nat) mod 16 \<le> 15"
    "(of_char c :: nat) mod 64 < 64"
    by (simp_all add: less_Suc_eq_le [symmetric])
  from d m show "(of_char a :: nat) div 4 < 64" "(of_char a :: nat) mod 4 * 16 < 64"
    "(of_char a :: nat) mod 4 * 16 + of_char b div 16 < 64"
    "(of_char b :: nat) mod 16 * 4 < 64" "(of_char b :: nat) mod 16 * 4 + of_char c div 64 < 64"
    "(of_char c :: nat) mod 64 < 64"
    by linarith+
qed

lemma b64_indices_bound: "n \<in> set (b64_indices bs) \<Longrightarrow> n < 64"
  by (induction bs rule: b64_indices.induct) (auto simp: Let_def index_bounds)

lemma btoa_indices: "btoa bs = map b64_char (b64_indices bs) @ b64_padding bs"
  by (induction bs rule: btoa.induct) (auto simp: Let_def)

lemma length_btoa_mod: "length (btoa bs) mod 4 = 0"
  by (induction bs rule: btoa.induct) (auto simp: Let_def)

lemma length_btoa: "length (btoa bs) div 4 * 3 = length bs + length (b64_padding bs)"
proof (induction bs rule: btoa.induct)
  case (4 a b c rest)
  then have "(4 + length (btoa rest)) div 4 * 3 = 3 + (length rest + length (b64_padding rest))"
    by (simp add: div_add_self1)
  then show ?case by (simp add: Let_def)
qed (simp_all add: Let_def)

lemma b64_padding_cases: "b64_padding bs = [] \<or> b64_padding bs = ''='' \<or> b64_padding bs = ''==''"
  by (induction bs rule: b64_padding.induct) auto

lemma three_bytes:
  assumes "x < 256" "y < 256" "(z :: nat) < 256"
  shows "x div 4 * 4 + (x mod 4 * 16 + y div 16) div 16 = x"
    and "(x mod 4 * 16 + y div 16) mod 16 * 16 + (y mod 16 * 4 + z div 64) div 4 = y"
    and "(y mod 16 * 4 + z div 64) mod 4 * 64 + z mod 64 = z"
proof -
  have y: "y div 16 < 16" and z: "z div 64 < 4"
    using assms by (simp_all add: less_mult_imp_div_less)
  then show "x div 4 * 4 + (x mod 4 * 16 + y div 16) div 16 = x" by simp
  have "(x mod 4 * 16 + y div 16) mod 16 = y div 16" "(y mod 16 * 4 + z div 64) div 4 = y mod 16"
    using y z by simp_all
  then show "(x mod 4 * 16 + y div 16) mod 16 * 16 + (y mod 16 * 4 + z div 64) div 4 = y" by simp
  have "(y mod 16 * 4 + z div 64) mod 4 = z div 64" using z by simp
  then show "(y mod 16 * 4 + z div 64) mod 4 * 64 + z mod 64 = z" by simp
qed

lemma b64_bytes_indices: "b64_bytes (b64_indices bs) = bs"
proof (induction bs rule: b64_indices.induct)
  case (2 a)
  show ?case using three_bytes(1) [of "of_char a" 0 0] by (simp add: Let_def)
next
  case (3 a b)
  show ?case
    using three_bytes(1) [of "of_char a" "of_char b" 0] three_bytes(2) [of "of_char a" "of_char b" 0]
    by (simp add: Let_def)
next
  case (4 a b c rest)
  then show ?case
    using three_bytes [of "of_char a" "of_char b" "of_char c"] by (simp add: Let_def)
qed simp

lemma length_indices_mod: "length (b64_indices bs) mod 4 \<noteq> 1"
  by (induction bs rule: b64_indices.induct) (auto simp: Let_def)

lemma map_char_no_pad:
  "xs = map b64_char (b64_indices bs) \<Longrightarrow> \<not> suffix ''='' xs"
proof
  assume xs: "xs = map b64_char (b64_indices bs)" and "suffix ''='' xs"
  then have "CHR ''='' \<in> set xs" by (metis in_set_conv_decomp suffixE)
  with xs obtain n where "n \<in> set (b64_indices bs)" "CHR ''='' = b64_char n" by auto
  then show False by (metis b64_char_plain(1) b64_indices_bound)
qed

lemma suffix_eq_eq: "suffix ''=='' t \<Longrightarrow> suffix ''='' t"
  by (auto simp: suffix_def)

lemma suffix_snoc_eq: "suffix ''=='' (t @ ''='') \<longleftrightarrow> suffix ''='' t"
  using snoc_suffix_snoc [of "''=''" "CHR ''=''" t "CHR ''=''"] by simp

lemma strip_padding_btoa: "strip_padding (btoa bs) = map b64_char (b64_indices bs)"
proof -
  define xs where "xs = map b64_char (b64_indices bs)"
  then have no: "\<not> suffix ''='' xs" "\<not> suffix ''=='' xs"
    using map_char_no_pad suffix_eq_eq by blast+
  consider "b64_padding bs = []" | "b64_padding bs = ''=''" | "b64_padding bs = ''==''"
    using b64_padding_cases by blast
  then show ?thesis
  proof cases
    case 3
    then show ?thesis by (simp add: btoa_indices strip_padding_def suffix_def)
  next
    case 2
    then show ?thesis
      using no suffix_snoc_eq [of xs] by (simp add: btoa_indices strip_padding_def xs_def suffix_def)
  qed (use no in \<open>simp add: btoa_indices strip_padding_def xs_def\<close>)
qed

lemma btoa_no_space: "filter (\<lambda>c. \<not> is_b64_space c) (btoa bs) = btoa bs"
proof -
  have "\<not> is_b64_space c" if "c \<in> set (btoa bs)" for c
  proof -
    from that consider n where "n < 64" "c = b64_char n" | "c = CHR ''=''"
      using b64_padding_cases [of bs] b64_indices_bound [of _ bs] by (auto simp: btoa_indices)
    then show ?thesis by cases (simp_all add: is_b64_space_def [of "CHR ''=''"])
  qed
  then show ?thesis by (simp add: filter_id_conv)
qed

lemma atob_btoa: "atob (btoa bs) = Some bs"
proof -
  have "map (\<lambda>c. the (b64_index c)) (map b64_char (b64_indices bs)) = b64_indices bs"
    using b64_indices_bound by (simp add: map_idI)
  moreover have "\<not> list_ex (\<lambda>c. b64_index c = None) (map b64_char (b64_indices bs))"
    using b64_indices_bound by (fastforce simp: list_ex_iff)
  moreover have "length (btoa bs) mod 4 = 0" by (rule length_btoa_mod)
  ultimately show ?thesis
    using length_indices_mod [of bs]
    by (simp add: atob_def btoa_no_space Let_def strip_padding_btoa b64_bytes_indices)
qed

section \<open>Properties\<close>

text \<open>C22: Storing bytes and reading them back gives the same bytes, whatever the text decoder
  does: a byte string that is not the exact encoding of an unambiguous text goes through the base64
  envelope, and the envelope decodes to it.\<close>

theorem workspace_bytes_round_trip:
  "decodeWorkspaceBytes (encodeWorkspaceBytes decode_text bytes) = Inr bytes"
proof -
  have "decodeWorkspaceBytes (BINARY_PREFIX @ btoa bytes) = Inr bytes"
    by (simp add: decodeWorkspaceBytes_def isWorkspaceBinaryEnvelope_def atob_btoa)
  then show ?thesis
    by (auto simp: encodeWorkspaceBytes_def decodeWorkspaceBytes_def isWorkspaceBinaryEnvelope_def
        split: option.splits)
qed

lemma envelope_length:
  "workspaceContentByteLength (BINARY_PREFIX @ btoa bytes) = length bytes"
proof (cases "btoa bytes = []")
  case True
  then have "bytes = []" by (cases bytes rule: btoa.cases) (auto simp: Let_def)
  with True show ?thesis
    by (simp add: workspaceContentByteLength_def isWorkspaceBinaryEnvelope_def)
next
  case False
  define xs where "xs = map b64_char (b64_indices bytes)"
  have no: "\<not> suffix ''='' (BINARY_PREFIX @ xs)"
    using map_char_no_pad [OF xs_def] by (cases xs rule: rev_cases) (auto simp: BINARY_PREFIX_def suffix_def)
  have pad: "(if suffix ''=='' (BINARY_PREFIX @ btoa bytes) then 2
      else if suffix ''='' (BINARY_PREFIX @ btoa bytes) then 1 else 0) = length (b64_padding bytes)"
  proof -
    consider "b64_padding bytes = []" | "b64_padding bytes = ''=''" | "b64_padding bytes = ''==''"
      using b64_padding_cases by blast
    then show ?thesis
    proof cases
      case 1
      then show ?thesis using no suffix_eq_eq by (auto simp: btoa_indices xs_def)
    next
      case 2
      then show ?thesis
        using no suffix_snoc_eq [of "BINARY_PREFIX @ xs"]
        by (simp add: btoa_indices xs_def [symmetric] suffix_def)
    next
      case 3
      then show ?thesis by (simp add: btoa_indices suffix_def)
    qed
  qed
  show ?thesis
    using False length_btoa [of bytes]
    by (simp add: workspaceContentByteLength_def isWorkspaceBinaryEnvelope_def length_btoa_mod Let_def pad)
qed

text \<open>The length the workspace records for an encoded object, computed from the envelope's
  length without decoding it, is the number of bytes that were stored.\<close>

theorem recorded_byte_length_exact:
  "workspaceContentByteLength (encodeWorkspaceBytes decode_text bytes) = length bytes"
proof -
  have "workspaceContentByteLength t = length (utf8_encode t)" if "\<not> prefix BINARY_PREFIX t" for t
    using that by (simp add: workspaceContentByteLength_def isWorkspaceBinaryEnvelope_def)
  then show ?thesis
    by (auto simp: encodeWorkspaceBytes_def envelope_length split: option.splits)
qed

end
