(* ===== verification/Workspace_Path.thy ===== *)
theory Workspace_Path
  imports Prelude
begin

text \<open>
  Workspace addresses: \<open>src/workspace/contracts.ts\<close> (path normalisation and the reserved
  namespaces), \<open>src/workspace/addressing.ts\<close> (the shell's spelling of a path) and the path
  helpers of \<open>src/workspace/tree.ts\<close>. A path that the code refuses by throwing is an \<open>Inl\<close>.
\<close>

section \<open>Normalisation\<close>

datatype path_error = InvalidPathText | DotSegment | OutsideWorkspace

definition normalizeWorkspacePath :: "string \<Rightarrow> path_error + string" where
  "normalizeWorkspacePath input =
    (let trimmed = trim input in
     if trimmed = [] \<or> CHR 0x00 \<in> set trimmed \<or> CHR 0x5C \<in> set trimmed \<or> list_ex is_control trimmed
     then Inl InvalidPathText
     else
       let rooted = (if prefix ''/'' trimmed then trimmed else ''/workspace/'' @ trimmed);
           parts = filter (\<lambda>part. part \<noteq> []) (split_on CHR ''/'' rooted)
       in if list_ex (\<lambda>part. part = ''.'' \<or> part = ''..'') parts then Inl DotSegment
          else
            let normalized = ''/'' @ join ''/'' parts in
            if normalized \<noteq> ''/workspace'' \<and> \<not> prefix ''/workspace/'' normalized
            then Inl OutsideWorkspace
            else Inr normalized)"

section \<open>Reserved namespaces\<close>

definition CONTEXT_ROUTING_MIRROR_PATH :: string where
  "CONTEXT_ROUTING_MIRROR_PATH = ''/workspace/.airship/context/routing-mirror.v2.json''"

definition isAirshipReservedPath :: "string \<Rightarrow> path_error + bool" where
  "isAirshipReservedPath path = bind_result (normalizeWorkspacePath path) (\<lambda>normalized.
     Inr (normalized = ''/workspace/.airship'' \<or> prefix ''/workspace/.airship/'' normalized))"

definition LOCAL_FOLDER_MOUNT_ROOT :: string where
  "LOCAL_FOLDER_MOUNT_ROOT = ''/workspace/local''"

definition LOCAL_FOLDER_ATTACHMENT_KEY :: string where
  "LOCAL_FOLDER_ATTACHMENT_KEY = ''airship.workspace.local-folder.v1''"

definition localFolderAttachmentKey :: "string \<Rightarrow> string" where
  "localFolderAttachmentKey profileId = LOCAL_FOLDER_ATTACHMENT_KEY @ ''.'' @ profileId"

definition isLocalFolderMountPath :: "string \<Rightarrow> path_error + bool" where
  "isLocalFolderMountPath path = bind_result (normalizeWorkspacePath path) (\<lambda>normalized.
     Inr (normalized = LOCAL_FOLDER_MOUNT_ROOT \<or> prefix (LOCAL_FOLDER_MOUNT_ROOT @ ''/'') normalized))"

definition isLegacyGitCheckpointPath :: "string \<Rightarrow> path_error + bool" where
  "isLegacyGitCheckpointPath path = bind_result (normalizeWorkspacePath path) (\<lambda>normalized.
     Inr (normalized = ''/workspace/.airship/git'' \<or> prefix ''/workspace/.airship/git/'' normalized))"

text \<open>\<open>a || b\<close> on calls that may throw: the second call happens only when the first is false.\<close>

definition or_else :: "'e + bool \<Rightarrow> 'e + bool \<Rightarrow> 'e + bool" where
  "or_else a b = bind_result a (\<lambda>x. if x then Inr True else b)"

definition isGitWorkspaceControlPlanePath :: "string \<Rightarrow> path_error + bool" where
  "isGitWorkspaceControlPlanePath path = bind_result (normalizeWorkspacePath path) (\<lambda>normalized.
     or_else (isLegacyGitCheckpointPath normalized)
       (Inr (list_ex (\<lambda>segment. segment = ''.git'') (split_on CHR ''/'' normalized))))"

definition isBrowserGitControlPlanePath :: "string \<Rightarrow> path_error + bool" where
  "isBrowserGitControlPlanePath path = bind_result (normalizeWorkspacePath path) (\<lambda>normalized.
     Inr (normalized = ''/workspace/.airship/browser-git-repositories.v1.json''
       \<or> sublist ''/.git/'' normalized
       \<or> suffix ''/.git'' normalized))"

definition isWorkspaceControlPlanePath :: "string \<Rightarrow> path_error + bool" where
  "isWorkspaceControlPlanePath path = bind_result (normalizeWorkspacePath path) (\<lambda>normalized.
     or_else (isGitWorkspaceControlPlanePath normalized)
       (or_else (isBrowserGitControlPlanePath normalized) (isAirshipReservedPath normalized)))"

section \<open>The shell's spelling\<close>

definition AIRSHIP_WORKSPACE_ROOT :: string where
  "AIRSHIP_WORKSPACE_ROOT = ''/workspace''"

definition TERMINAL_SHELL_HOME :: string where
  "TERMINAL_SHELL_HOME = ''/home/airship-node''"

definition TERMINAL_WORKSPACE_MOUNT :: string where
  "TERMINAL_WORKSPACE_MOUNT = ''airship-workspace''"

definition TERMINAL_SHELL_ROOT :: string where
  "TERMINAL_SHELL_ROOT = TERMINAL_SHELL_HOME @ ''/'' @ TERMINAL_WORKSPACE_MOUNT"

definition terminalShellPath :: "string \<Rightarrow> string" where
  "terminalShellPath workspacePath =
    (case normalizeWorkspacePath workspacePath of
       Inl _ \<Rightarrow> TERMINAL_SHELL_ROOT
     | Inr normalized \<Rightarrow>
         (let relative = (if normalized = AIRSHIP_WORKSPACE_ROOT then []
                          else drop (length AIRSHIP_WORKSPACE_ROOT + 1) normalized)
          in if relative \<noteq> [] then TERMINAL_SHELL_ROOT @ ''/'' @ relative else TERMINAL_SHELL_ROOT))"

definition workspaceAddressNote :: "string \<Rightarrow> string" where
  "workspaceAddressNote workspacePath =
    (let normalized = (case normalizeWorkspacePath workspacePath of
                         Inl _ \<Rightarrow> AIRSHIP_WORKSPACE_ROOT | Inr q \<Rightarrow> q)
     in terminalShellPath normalized @ '' in the shell is the same directory as '' @ normalized
        @ '' in Explorer, the Editor and Source Control, except a folder you attached from this device.'')"

section \<open>Parent and base name\<close>

text \<open>\<open>text.lastIndexOf('/')\<close>, for a text that has a slash.\<close>

definition last_slash :: "string \<Rightarrow> nat" where
  "last_slash s = length s - 1 - length (takeWhile (\<lambda>c. c \<noteq> CHR ''/'') (rev s))"

definition workspaceParentPath :: "string \<Rightarrow> path_error + string" where
  "workspaceParentPath path = bind_result (normalizeWorkspacePath path) (\<lambda>normalized.
     Inr (if normalized = ''/workspace'' then normalized
          else (let lastSlash = last_slash normalized in
                if lastSlash \<le> length ''/workspace'' then ''/workspace'' else take lastSlash normalized)))"

definition workspaceBaseName :: "string \<Rightarrow> path_error + string" where
  "workspaceBaseName path = bind_result (normalizeWorkspacePath path) (\<lambda>normalized.
     Inr (if normalized = ''/workspace'' then ''workspace''
          else drop (last_slash normalized + 1) normalized))"

section \<open>The canonical form\<close>

text \<open>
  What a normalised path is: the workspace root followed by segments, each a name with no slash,
  no backslash and no control character, and never a dot segment.
\<close>

definition good_segment :: "string \<Rightarrow> bool" where
  "good_segment s \<longleftrightarrow> s \<noteq> [] \<and> s \<noteq> ''.'' \<and> s \<noteq> ''..'' \<and> CHR ''/'' \<notin> set s \<and> CHR 0x5C \<notin> set s
     \<and> \<not> list_ex is_control s"

definition abs_path :: "string list \<Rightarrow> string" where
  "abs_path segs = ''/'' @ join ''/'' (''workspace'' # segs)"

definition no_trailing_space :: "string list \<Rightarrow> bool" where
  "no_trailing_space segs \<longleftrightarrow> segs = [] \<or> \<not> is_ws (last (last segs))"

lemma good_segment_workspace: "good_segment ''workspace''"
  by (simp add: good_segment_def is_control_def)

lemma good_segment_no_slash: "list_all good_segment segs \<Longrightarrow> p \<in> set (''workspace'' # segs) \<Longrightarrow> CHR ''/'' \<notin> set p"
proof -
  assume "list_all good_segment segs" and p: "p \<in> set (''workspace'' # segs)"
  then have "\<forall>s \<in> set segs. good_segment s" by (simp add: list_all_iff)
  moreover from p have "p = ''workspace'' \<or> p \<in> set segs" by (rule set_ConsD)
  ultimately have "good_segment p" using good_segment_workspace by blast
  then show ?thesis unfolding good_segment_def by blast
qed

lemma split_abs_path [path_simps]:
  "list_all good_segment segs \<Longrightarrow> split_on CHR ''/'' (abs_path segs) = [] # ''workspace'' # segs"
proof -
  assume a: "list_all good_segment segs"
  have "split_on CHR ''/'' (join ''/'' (''workspace'' # segs)) = ''workspace'' # segs"
    by (rule split_on_join) (use good_segment_no_slash [OF a] in blast)+
  then show ?thesis by (simp add: abs_path_def)
qed

lemma abs_path_inject:
  "list_all good_segment segs \<Longrightarrow> list_all good_segment segs' \<Longrightarrow>
    abs_path segs = abs_path segs' \<longleftrightarrow> segs = segs'"
  by (metis list.inject split_abs_path)

lemma abs_path_Nil [simp]: "abs_path [] = ''/workspace''"
  by (simp add: abs_path_def)

lemma abs_path_Cons: "abs_path (s # segs) = ''/workspace/'' @ join ''/'' (s # segs)"
  by (simp add: abs_path_def)

lemma abs_path_snoc: "abs_path (segs @ [s]) = abs_path segs @ ''/'' @ s"
  using join_append [of "''workspace'' # segs" "[s]" "''/''"] by (simp add: abs_path_def)

lemma abs_path_append: "ext \<noteq> [] \<Longrightarrow> abs_path (segs @ ext) = abs_path segs @ ''/'' @ join ''/'' ext"
  using join_append [of "''workspace'' # segs" ext "''/''"] by (simp add: abs_path_def)

lemma abs_path_ne [simp]: "abs_path segs \<noteq> []"
  by (simp add: abs_path_def)

lemma hd_abs_path [simp]: "hd (abs_path segs) = CHR ''/''"
  by (simp add: abs_path_def)

lemma prefix_slash_abs_path [simp]: "prefix ''/'' (abs_path segs)"
  by (simp add: abs_path_def)

lemma last_abs_path:
  "list_all good_segment segs \<Longrightarrow>
    last (abs_path segs) = (if segs = [] then CHR ''e'' else last (last segs))"
proof (cases segs rule: rev_cases)
  case (snoc ys y)
  moreover assume "list_all good_segment segs"
  ultimately have "y \<noteq> []" by (auto simp: good_segment_def)
  with snoc show ?thesis by (simp add: abs_path_snoc)
qed simp

lemma last_abs_path_ws:
  "list_all good_segment segs \<Longrightarrow> is_ws (last (abs_path segs)) \<longleftrightarrow> \<not> no_trailing_space segs"
  by (auto simp: last_abs_path no_trailing_space_def is_ws_def)

lemma set_join: "set (join sep ps) \<subseteq> set sep \<union> \<Union> (set ` set ps)"
proof (induction ps)
  case (Cons p ps)
  then show ?case by (cases ps) (auto simp: join_Cons)
qed simp

lemma set_abs_path: "set (abs_path segs) \<subseteq> set ''/workspace'' \<union> \<Union> (set ` set segs)"
proof -
  have "set (abs_path segs) = insert CHR ''/'' (set (join ''/'' (''workspace'' # segs)))"
    by (simp only: abs_path_def set_append list.set) simp
  also have "\<dots> \<subseteq> insert CHR ''/'' (set ''/'' \<union> \<Union> (set ` set (''workspace'' # segs)))"
    using set_join by (rule insert_mono)
  also have "\<dots> \<subseteq> set ''/workspace'' \<union> \<Union> (set ` set segs)"
    by auto
  finally show ?thesis .
qed

lemma abs_path_clean:
  assumes "list_all good_segment segs"
  shows "CHR 0x5C \<notin> set (abs_path segs)" and "\<not> list_ex is_control (abs_path segs)"
proof -
  have "\<forall>c \<in> set (abs_path segs). c \<noteq> CHR 0x5C \<and> \<not> is_control c"
  proof
    fix c assume "c \<in> set (abs_path segs)"
    then consider "c \<in> set ''/workspace''" | s where "s \<in> set segs" "c \<in> set s"
      using set_abs_path by fastforce
    then show "c \<noteq> CHR 0x5C \<and> \<not> is_control c"
    proof cases
      case 1
      then show ?thesis by (auto simp: is_control_def)
    next
      case 2
      with assms have "good_segment s" by (simp add: list_all_iff)
      with 2 show ?thesis by (auto simp: good_segment_def list_ex_iff)
    qed
  qed
  then show "CHR 0x5C \<notin> set (abs_path segs)" and "\<not> list_ex is_control (abs_path segs)"
    by (auto simp: list_ex_iff)
qed

lemma control_nul: "is_control CHR 0x00"
  by (simp add: is_control_def)

lemma prefix_workspace_parts:
  assumes "\<And>p. p \<in> set parts \<Longrightarrow> CHR ''/'' \<notin> set p"
    and "''/'' @ join ''/'' parts = ''/workspace'' \<or> prefix ''/workspace/'' (''/'' @ join ''/'' parts)"
  shows "\<exists>segs. parts = ''workspace'' # segs"
proof -
  from assms(2) have "parts \<noteq> []" by auto
  from assms(2) obtain r where r: "join ''/'' parts = ''workspace'' @ r" "r = [] \<or> hd r = CHR ''/''"
    by (auto elim!: prefixE)
  have "hd (split_on CHR ''/'' (''workspace'' @ r)) = ''workspace''"
    using r(2) by (cases r) (auto simp: split_on_no_sep)
  moreover from \<open>parts \<noteq> []\<close> assms(1) have "split_on CHR ''/'' (join ''/'' parts) = parts"
    by (intro split_on_join) auto
  ultimately show ?thesis
    using r(1) \<open>parts \<noteq> []\<close> by (cases parts) auto
qed

lemma set_workspace_clean: "\<forall>c \<in> set ''/workspace/''. c \<noteq> CHR 0x5C \<and> \<not> is_control c"
  by (simp add: is_control_def)

lemma all_set_rooted:
  "\<forall>c \<in> set w. P c \<Longrightarrow> (\<And>c. c \<in> set t \<Longrightarrow> P c) \<Longrightarrow> \<forall>c \<in> set (if b then t else w @ t). P c"
  by auto

text \<open>Every accepted path is of the canonical form.\<close>

lemma normalize_Inr_canonical:
  assumes "normalizeWorkspacePath p = Inr q"
  shows "\<exists>segs. q = abs_path segs \<and> list_all good_segment segs"
proof -
  let ?t = "trim p"
  let ?rooted = "if prefix ''/'' ?t then ?t else ''/workspace/'' @ ?t"
  let ?parts = "filter (\<lambda>part. part \<noteq> []) (split_on CHR ''/'' ?rooted)"
  have clean: "CHR 0x5C \<notin> set ?t" "\<not> list_ex is_control ?t"
    and dots: "\<not> list_ex (\<lambda>part. part = ''.'' \<or> part = ''..'') ?parts"
    and q: "q = ''/'' @ join ''/'' ?parts"
    and root: "q = ''/workspace'' \<or> prefix ''/workspace/'' q"
    using assms unfolding normalizeWorkspacePath_def Let_def by (auto split: if_splits)
  have sep: "\<And>x. x \<in> set ?parts \<Longrightarrow> CHR ''/'' \<notin> set x"
    using split_on_parts by auto
  from q root obtain segs where segs: "?parts = ''workspace'' # segs"
    using prefix_workspace_parts [OF sep] by blast
  have "good_segment s" if "s \<in> set segs" for s
  proof -
    from that segs have s: "s \<in> set ?parts" by (metis list.set_intros(2))
    then have "s \<in> set (split_on CHR ''/'' ?rooted)" by simp
    then have sub: "set s \<subseteq> set ?rooted" by (rule set_split_on)
    have rooted: "\<forall>c \<in> set ?rooted. c \<noteq> CHR 0x5C \<and> \<not> is_control c"
      by (rule all_set_rooted [OF set_workspace_clean]) (use clean in \<open>auto simp: list_ex_iff\<close>)
    from s dots have "s \<noteq> []" "s \<noteq> ''.''" "s \<noteq> ''..''"
      by (auto simp: list_ex_iff)
    moreover have "CHR ''/'' \<notin> set s" using s sep by blast
    moreover have "CHR 0x5C \<notin> set s" "\<not> list_ex is_control s"
      using sub rooted by (auto simp: list_ex_iff)
    ultimately show ?thesis by (simp add: good_segment_def)
  qed
  then have "list_all good_segment segs" by (simp add: list_all_iff)
  with q segs show ?thesis by (auto simp: abs_path_def)
qed

text \<open>A canonical path that does not end in white space is a fixed point.\<close>

lemma normalize_abs_path [path_simps]:
  assumes "list_all good_segment segs" and "no_trailing_space segs"
  shows "normalizeWorkspacePath (abs_path segs) = Inr (abs_path segs)"
proof -
  have "trim (abs_path segs) = abs_path segs"
    using assms by (intro trim_unchanged) (auto simp: last_abs_path_ws, simp add: is_ws_def)
  moreover have "filter (\<lambda>part. part \<noteq> []) (split_on CHR ''/'' (abs_path segs)) = ''workspace'' # segs"
    using assms(1) by (auto simp: split_abs_path list_all_iff good_segment_def filter_id_conv)
  moreover have "\<not> list_ex (\<lambda>part. part = ''.'' \<or> part = ''..'') (''workspace'' # segs)"
    using assms(1) by (auto simp: list_all_iff list_ex_iff good_segment_def)
  moreover have "CHR 0x00 \<notin> set (abs_path segs)"
    using abs_path_clean(2) [OF assms(1)] control_nul by (auto simp: list_ex_iff)
  moreover have "abs_path segs = ''/workspace'' \<or> prefix ''/workspace/'' (abs_path segs)"
    by (cases segs) (auto simp: abs_path_Cons)
  ultimately show ?thesis
    using abs_path_clean [OF assms(1)]
    by (auto simp: normalizeWorkspacePath_def Let_def abs_path_def)
qed

lemma length_join_filter: "length (join [c] (filter (\<lambda>p. p \<noteq> []) ps)) \<le> length (join [c] ps)"
proof (induction ps)
  case (Cons p ps)
  then show ?case
    by (cases "ps = []"; cases "filter (\<lambda>p. p \<noteq> []) ps = []") (auto simp: join_Cons)
qed simp

lemma length_trim_ws: "s \<noteq> [] \<Longrightarrow> is_ws (last s) \<Longrightarrow> length (trim s) < length s"
proof -
  assume s: "s \<noteq> []" "is_ws (last s)"
  show ?thesis
  proof (cases "dropWhile is_ws s = []")
    case False
    then have "is_ws (last (dropWhile is_ws s))"
      using s by (metis last_appendR takeWhile_dropWhile_id)
    with False obtain a b where "rev (dropWhile is_ws s) = a # b" "is_ws a"
      by (metis hd_rev list.exhaust list.sel(1) rev_is_Nil_conv)
    moreover from this have "length b < length s"
      by (metis Suc_le_lessD length_Cons length_dropWhile_le length_rev)
    ultimately show ?thesis
      by (auto simp: trim_def intro: le_less_trans [OF length_dropWhile_le])
  next
    case True
    then have "trim s = []" by (simp only: trim_def) simp
    with s show ?thesis by simp
  qed
qed

lemma normalize_shorter:
  assumes "normalizeWorkspacePath p = Inr q" and "prefix ''/'' (trim p)"
  shows "length q \<le> length (trim p)"
proof -
  from assms(2) obtain r where r: "trim p = CHR ''/'' # r" by (auto elim: prefixE)
  have q: "q = ''/'' @ join ''/'' (filter (\<lambda>part. part \<noteq> []) (split_on CHR ''/'' (trim p)))"
    using assms unfolding normalizeWorkspacePath_def Let_def by (auto split: if_splits)
  have "length (join ''/'' (filter (\<lambda>part. part \<noteq> []) (split_on CHR ''/'' r))) \<le> length r"
    using length_join_filter [of "CHR ''/''" "split_on CHR ''/'' r"] by (simp add: join_split_on)
  with q r show ?thesis by simp
qed

lemma normalize_fixed_point_iff:
  assumes "list_all good_segment segs"
  shows "normalizeWorkspacePath (abs_path segs) = Inr (abs_path segs) \<longleftrightarrow> no_trailing_space segs"
proof
  assume fixed: "normalizeWorkspacePath (abs_path segs) = Inr (abs_path segs)"
  show "no_trailing_space segs"
  proof (rule ccontr)
    assume "\<not> no_trailing_space segs"
    then have "is_ws (last (abs_path segs))" using assms last_abs_path_ws by blast
    then have shorter: "length (trim (abs_path segs)) < length (abs_path segs)"
      by (simp add: length_trim_ws)
    have "dropWhile is_ws (abs_path segs) = abs_path segs"
      by (simp add: abs_path_def is_ws_def)
    then have "prefix (trim (abs_path segs)) (abs_path segs)"
      by (metis append_eq_conv_conj prefix_def rev_append rev_rev_ident takeWhile_dropWhile_id trim_def)
    moreover have "trim (abs_path segs) \<noteq> []"
      using fixed by (auto simp: normalizeWorkspacePath_def Let_def)
    ultimately have "prefix ''/'' (trim (abs_path segs))"
      by (cases "trim (abs_path segs)") (auto simp: abs_path_def)
    with fixed shorter show False
      using normalize_shorter by fastforce
  qed
qed (use assms normalize_abs_path in blast)


section \<open>Membership in a reserved directory\<close>

text \<open>
  The code decides membership textually: the path equals the directory, or starts with the
  directory and a slash. On canonical paths this is the segment-prefix relation.
\<close>

lemma split_on_append: "split_on c (a @ c # b) = split_on c a @ split_on c b"
proof (induction a)
  case (Cons x xs)
  then show ?case by (cases "split_on c xs") auto
qed simp

lemma split_parts_head: "split_on CHR ''/'' (''/'' @ s) = [] # split_on CHR ''/'' s"
  by simp

lemma under_directory_iff [path_simps]:
  assumes "list_all good_segment segs" "list_all good_segment base"
  shows "abs_path segs = abs_path base \<or> prefix (abs_path base @ ''/'') (abs_path segs)
    \<longleftrightarrow> prefix base segs"
proof
  assume "abs_path segs = abs_path base \<or> prefix (abs_path base @ ''/'') (abs_path segs)"
  then show "prefix base segs"
  proof
    assume "abs_path segs = abs_path base"
    with assms show ?thesis by (simp add: abs_path_inject)
  next
    assume "prefix (abs_path base @ ''/'') (abs_path segs)"
    then obtain r where "abs_path segs = abs_path base @ CHR ''/'' # r"
      by (auto elim: prefixE)
    then have "[] # ''workspace'' # segs = ([] # ''workspace'' # base) @ split_on CHR ''/'' r"
      using assms split_abs_path split_on_append by metis
    then show ?thesis by (auto simp: prefix_def)
  qed
next
  assume "prefix base segs"
  then obtain ext where "segs = base @ ext" by (auto elim: prefixE)
  then show "abs_path segs = abs_path base \<or> prefix (abs_path base @ ''/'') (abs_path segs)"
    by (cases "ext = []") (auto simp: abs_path_append prefix_def)
qed

lemma prefix_singleton_iff: "prefix [x] segs \<longleftrightarrow> segs \<noteq> [] \<and> hd segs = x"
  by (cases segs) auto

lemma good_segment_literals:
  "list_all good_segment [''.airship'']" "list_all good_segment [''.airship'', ''git'']"
  "list_all good_segment [''local'']"
  "list_all good_segment [''.airship'', ''browser-git-repositories.v1.json'']"
  by (simp_all add: good_segment_def is_control_def)

lemma abs_path_literals:
  "''/workspace/.airship'' = abs_path [''.airship'']"
  "''/workspace/.airship/'' = abs_path [''.airship''] @ ''/''"
  "''/workspace/.airship/git'' = abs_path [''.airship'', ''git'']"
  "''/workspace/.airship/git/'' = abs_path [''.airship'', ''git''] @ ''/''"
  "''/workspace/local'' = abs_path [''local'']"
  "''/workspace/.airship/browser-git-repositories.v1.json'' =
     abs_path [''.airship'', ''browser-git-repositories.v1.json'']"
  by (simp_all add: abs_path_def)

lemma airshipReserved_abs_path:
  assumes "list_all good_segment segs" "no_trailing_space segs"
  shows "isAirshipReservedPath (abs_path segs) = Inr (prefix [''.airship''] segs)"
  using under_directory_iff [OF assms(1) good_segment_literals(1)]
  by (simp add: isAirshipReservedPath_def normalize_abs_path [OF assms] abs_path_literals)

lemma legacyGitCheckpoint_abs_path:
  assumes "list_all good_segment segs" "no_trailing_space segs"
  shows "isLegacyGitCheckpointPath (abs_path segs) = Inr (prefix [''.airship'', ''git''] segs)"
  using under_directory_iff [OF assms(1) good_segment_literals(2)]
  by (simp add: isLegacyGitCheckpointPath_def normalize_abs_path [OF assms] abs_path_literals)

lemma localFolderMount_abs_path:
  assumes "list_all good_segment segs" "no_trailing_space segs"
  shows "isLocalFolderMountPath (abs_path segs) = Inr (prefix [''local''] segs)"
  using under_directory_iff [OF assms(1) good_segment_literals(3)]
  by (simp add: isLocalFolderMountPath_def normalize_abs_path [OF assms] abs_path_literals
      LOCAL_FOLDER_MOUNT_ROOT_def)

lemma split_on_mem_iff_git:
  assumes "sublist ''/.git/'' s \<or> suffix ''/.git'' s"
  shows "''.git'' \<in> set (split_on CHR ''/'' s)"
  using assms
proof
  assume "sublist ''/.git/'' s"
  then obtain a b where "s = a @ CHR ''/'' # (''.git'' @ CHR ''/'' # b)"
    by (auto simp: sublist_def)
  then show ?thesis by (simp add: split_on_append split_on_append [where a = "''.git''", simplified])
next
  assume "suffix ''/.git'' s"
  then obtain a where "s = a @ CHR ''/'' # ''.git''"
    by (auto simp: suffix_def)
  then show ?thesis by (simp add: split_on_append)
qed

lemma git_segment_iff:
  "list_all good_segment segs \<Longrightarrow>
    list_ex (\<lambda>s. s = ''.git'') (split_on CHR ''/'' (abs_path segs)) \<longleftrightarrow> ''.git'' \<in> set segs"
  by (simp add: split_abs_path list_ex_iff)

lemma browserGit_abs_path:
  assumes "list_all good_segment segs" "no_trailing_space segs"
    and "isBrowserGitControlPlanePath (abs_path segs) = Inr True"
  shows "''.git'' \<in> set segs \<or> prefix [''.airship''] segs"
proof -
  from assms(3) consider "abs_path segs = abs_path [''.airship'', ''browser-git-repositories.v1.json'']"
    | "sublist ''/.git/'' (abs_path segs) \<or> suffix ''/.git'' (abs_path segs)"
    by (auto simp: isBrowserGitControlPlanePath_def normalize_abs_path [OF assms(1,2)] abs_path_literals)
  then show ?thesis
  proof cases
    case 1
    then have "segs = [''.airship'', ''browser-git-repositories.v1.json'']"
      using assms(1) good_segment_literals(4) abs_path_inject by blast
    then show ?thesis by simp
  next
    case 2
    then show ?thesis
      using split_on_mem_iff_git [of "abs_path segs"] assms(1) by (simp add: split_abs_path)
  qed
qed

lemma browserGit_total:
  "list_all good_segment segs \<Longrightarrow> no_trailing_space segs \<Longrightarrow>
    \<exists>b. isBrowserGitControlPlanePath (abs_path segs) = Inr b"
  by (simp add: isBrowserGitControlPlanePath_def normalize_abs_path)

section \<open>Properties\<close>

lemma controlPlane_abs_path:
  assumes "list_all good_segment segs" "no_trailing_space segs"
  shows "isWorkspaceControlPlanePath (abs_path segs)
    = Inr (''.git'' \<in> set segs \<or> prefix [''.airship''] segs)"
proof -
  note norm = normalize_abs_path [OF assms]
  have git: "isGitWorkspaceControlPlanePath (abs_path segs)
      = Inr (prefix [''.airship'', ''git''] segs \<or> ''.git'' \<in> set segs)"
    by (simp add: isGitWorkspaceControlPlanePath_def norm or_else_def
        legacyGitCheckpoint_abs_path [OF assms] git_segment_iff [OF assms(1)])
  obtain b where b: "isBrowserGitControlPlanePath (abs_path segs) = Inr b"
    using browserGit_total [OF assms] by blast
  have "b \<Longrightarrow> ''.git'' \<in> set segs \<or> prefix [''.airship''] segs"
    using browserGit_abs_path [OF assms] b by simp
  moreover have "prefix [''.airship'', ''git''] segs \<Longrightarrow> prefix [''.airship''] segs"
    by (cases segs) auto
  ultimately show ?thesis
    by (auto simp: isWorkspaceControlPlanePath_def norm or_else_def git b
        airshipReserved_abs_path [OF assms])
qed

lemma terminalShellPath_abs_path:
  assumes "list_all good_segment segs" "no_trailing_space segs"
  shows "terminalShellPath (abs_path segs) =
    (if segs = [] then TERMINAL_SHELL_ROOT else TERMINAL_SHELL_ROOT @ ''/'' @ join ''/'' segs)"
proof (cases segs)
  case Nil
  then show ?thesis
    using normalize_abs_path [OF assms]
    by (simp add: terminalShellPath_def AIRSHIP_WORKSPACE_ROOT_def)
next
  case (Cons s ss)
  then have "join ''/'' segs \<noteq> []"
    using assms(1) by (cases ss) (auto simp: good_segment_def)
  with Cons show ?thesis
    using normalize_abs_path [OF assms]
    by (simp add: terminalShellPath_def AIRSHIP_WORKSPACE_ROOT_def abs_path_Cons)
qed

lemma takeWhile_rev_segment:
  "good_segment s \<Longrightarrow> takeWhile (\<lambda>c. c \<noteq> CHR ''/'') (rev (abs_path segs @ ''/'' @ s)) = rev s"
proof -
  assume "good_segment s"
  then have "takeWhile (\<lambda>c. c \<noteq> CHR ''/'') (rev s @ CHR ''/'' # rev (abs_path segs)) = rev s"
    by (subst takeWhile_append2) (auto simp: good_segment_def)
  then show ?thesis by simp
qed

lemma last_slash_snoc: "good_segment s \<Longrightarrow> last_slash (abs_path (segs @ [s])) = length (abs_path segs)"
  by (simp add: last_slash_def abs_path_snoc takeWhile_rev_segment [simplified])

lemma length_abs_path_ge: "length ''/workspace'' \<le> length (abs_path segs)"
  by (cases segs) (simp_all add: abs_path_Cons)

text \<open>C20: Whatever \<open>normalizeWorkspacePath\<close> accepts is confined to the workspace and canonical: the
  root followed by segments without slashes, backslashes, control characters or dot segments. It is
  a fixed point of a second normalisation exactly when it does not end in white space, so
  normalisation is not idempotent on a path such as \<open>/workspace/a /\<close>.\<close>

theorem normalize_canonical:
  assumes "normalizeWorkspacePath p = Inr q"
  shows "(\<exists>segs. q = abs_path segs \<and> list_all good_segment segs) \<and>
    (normalizeWorkspacePath q = Inr q \<longleftrightarrow> \<not> is_ws (last q))"
  using assms normalize_Inr_canonical normalize_fixed_point_iff last_abs_path_ws by blast

theorem normalize_canonical_witness:
  "normalizeWorkspacePath ''/workspace//a /'' = Inr ''/workspace/a '' \<and>
   normalizeWorkspacePath ''/workspace/a '' \<noteq> Inr ''/workspace/a ''"
proof -
  have norm: "normalizeWorkspacePath ''/workspace//a /'' = Inr ''/workspace/a ''" by code_simp
  have "is_ws (last ''/workspace/a '')" by (simp add: is_ws_def)
  with normalize_canonical [OF norm] norm show ?thesis by simp
qed

text \<open>On a canonical path the control-plane test is true exactly when some segment is
  \<open>.git\<close> or the first segment is \<open>.airship\<close>, and the local-folder mount test exactly
  when the first segment is \<open>local\<close>: the textual prefix tests never confuse a directory with a
  sibling whose name merely starts the same way.\<close>

theorem reserved_paths_by_segment:
  assumes "list_all good_segment segs" "no_trailing_space segs"
  shows "isWorkspaceControlPlanePath (abs_path segs)
      = Inr (''.git'' \<in> set segs \<or> (segs \<noteq> [] \<and> hd segs = ''.airship'')) \<and>
    isLocalFolderMountPath (abs_path segs) = Inr (segs \<noteq> [] \<and> hd segs = ''local'')"
  using controlPlane_abs_path [OF assms] localFolderMount_abs_path [OF assms]
  by (simp add: prefix_singleton_iff)

theorem reserved_paths_by_segment_witness:
  "isWorkspaceControlPlanePath ''/workspace/.airshipx/.git'' = Inr True \<and>
   isWorkspaceControlPlanePath ''/workspace/.airshipx'' = Inr False"
proof -
  have g: "list_all good_segment [''.airshipx'', ''.git'']" "list_all good_segment [''.airshipx'']"
    by (simp_all add: good_segment_def is_control_def)
  have n: "no_trailing_space [''.airshipx'', ''.git'']" "no_trailing_space [''.airshipx'']"
    by (simp_all add: no_trailing_space_def is_ws_def)
  have "isWorkspaceControlPlanePath (abs_path [''.airshipx'', ''.git'']) = Inr True"
    using reserved_paths_by_segment [OF g(1) n(1)] by simp
  moreover have "isWorkspaceControlPlanePath (abs_path [''.airshipx'']) = Inr False"
    using reserved_paths_by_segment [OF g(2) n(2)] by simp
  ultimately show ?thesis by (simp add: abs_path_def)
qed

text \<open>The shell's spelling of a workspace path identifies the path: two canonical paths have
  the same shell path only when they are the same path.\<close>

theorem terminalShellPath_injective:
  assumes "list_all good_segment segs" "no_trailing_space segs"
    and "list_all good_segment segs'" "no_trailing_space segs'"
  shows "terminalShellPath (abs_path segs) = terminalShellPath (abs_path segs')
    \<longleftrightarrow> abs_path segs = abs_path segs'"
proof
  assume eq: "terminalShellPath (abs_path segs) = terminalShellPath (abs_path segs')"
  have "segs = segs'"
  proof (cases "segs = [] \<or> segs' = []")
    case True
    with eq show ?thesis
      by (auto simp: terminalShellPath_abs_path assms split: if_splits)
  next
    case False
    with eq have "join ''/'' segs = join ''/'' segs'"
      by (simp add: terminalShellPath_abs_path assms)
    with False show ?thesis
      using assms(1,3) by (intro join_inject [of _ _ "CHR ''/''"]) (auto simp: list_all_iff good_segment_def)
  qed
  then show "abs_path segs = abs_path segs'" by simp
qed simp

theorem terminalShellPath_injective_witness:
  "terminalShellPath ''/workspace/a/b'' \<noteq> terminalShellPath ''/workspace/a''"
proof -
  have g: "list_all good_segment [''a'', ''b'']" "list_all good_segment [''a'']"
    by (simp_all add: good_segment_def is_control_def)
  have n: "no_trailing_space [''a'', ''b'']" "no_trailing_space [''a'']"
    by (simp_all add: no_trailing_space_def is_ws_def)
  show ?thesis
    using terminalShellPath_injective [OF g(1) n(1) g(2) n(2)] by (simp add: abs_path_def)
qed

text \<open>\<open>workspaceParentPath\<close> and \<open>workspaceBaseName\<close> take a canonical path apart: the parent
  is the path without its last segment, and the base name is that segment.\<close>

theorem parent_and_base_name:
  assumes "list_all good_segment (segs @ [s])" "\<not> is_ws (last s)"
  shows "workspaceParentPath (abs_path (segs @ [s])) = Inr (abs_path segs) \<and>
    workspaceBaseName (abs_path (segs @ [s])) = Inr s"
proof -
  from assms have s: "good_segment s" and nts: "no_trailing_space (segs @ [s])"
    by (auto simp: no_trailing_space_def)
  have nr: "abs_path (segs @ [s]) \<noteq> ''/workspace''"
    using length_abs_path_ge [of segs] by (auto simp: abs_path_snoc dest: arg_cong [where f = length])
  have "abs_path segs = ''/workspace''" if "length (abs_path segs) \<le> length ''/workspace''"
    using that by (cases segs) (auto simp: abs_path_Cons)
  moreover have "take (length (abs_path segs)) (abs_path (segs @ [s])) = abs_path segs"
    and "drop (length (abs_path segs) + 1) (abs_path (segs @ [s])) = s"
    by (simp_all add: abs_path_snoc)
  ultimately show ?thesis
    using nr by (auto simp: workspaceParentPath_def workspaceBaseName_def
        normalize_abs_path [OF assms(1) nts] last_slash_snoc [OF s] Let_def)
qed

theorem parent_and_base_name_witness:
  "workspaceParentPath ''/workspace/src/a.ts'' = Inr ''/workspace/src'' \<and>
   workspaceBaseName ''/workspace/src/a.ts'' = Inr ''a.ts''"
proof -
  have g: "list_all good_segment ([''src''] @ [''a.ts''])"
    by (simp add: good_segment_def is_control_def)
  have n: "\<not> is_ws (last ''a.ts'')"
    by (simp add: is_ws_def)
  show ?thesis using parent_and_base_name [OF g n] by (simp add: abs_path_def)
qed

end
