(* ===== verification/Memory_Workspace.thy ===== *)
theory Memory_Workspace
  imports Workspace_Path Content_Codec
begin

text \<open>
  The workspace port (\<open>src/workspace/contracts.ts\<close>), its page-memory implementation
  (\<open>src/workspace/memory.ts\<close>) and the compare-and-swap move built on the port
  (\<open>src/workspace/mutations.ts\<close>).

  The files are a \<open>Map\<close> from path to file. What the code draws from outside, a fresh revision
  (\<open>randomUuid\<close>) and the time (\<open>new Date().toISOString()\<close>), is the argument \<open>stamp\<close> of
  \<open>write\<close>. \<open>localeCompare\<close> is the comparator argument of \<open>list\<close>, the lossy
  \<open>TextDecoder\<close> the argument \<open>decode_lossy\<close> of \<open>readBounded\<close>.
\<close>

section \<open>Data\<close>

record workspace_entry =
  wf_path :: string
  wf_revision :: string
  wf_updatedAt :: string
  wf_size :: nat
  wf_contentByteLength :: "nat option"

record workspace_file = workspace_entry +
  wf_content :: string

text \<open>\<open>expectedRevision\<close>: absent, \<open>null\<close> (the file must not exist), or a revision.\<close>

datatype expected_revision = AnyRevision | MustBeAbsent | MustBe string

datatype workspace_error =
    BadPath path_error
  | CannotWriteRoot
  | FileAlreadyExists
  | RevisionConflict
  | BadReadBound
  | CannotMoveRoot
  | SameFile
  | NoSuchFile string
  | RollbackConflict workspace_error
  | OutsideProfile
  | InvalidProfile

type_synonym files = "(string \<times> workspace_file) list"

type_synonym stamp = "string \<times> string"

definition checked_path :: "string \<Rightarrow> workspace_error + string" where
  "checked_path p = (case normalizeWorkspacePath p of Inl e \<Rightarrow> Inl (BadPath e) | Inr q \<Rightarrow> Inr q)"

definition workspaceEntryByteLength :: "'a workspace_entry_scheme \<Rightarrow> nat" where
  "workspaceEntryByteLength entry =
     (case wf_contentByteLength entry of Some n \<Rightarrow> n | None \<Rightarrow> wf_size entry)"

section \<open>Operations\<close>

definition checkRevision :: "workspace_file option \<Rightarrow> expected_revision \<Rightarrow> workspace_error + unit" where
  "checkRevision file expected =
    (case expected of
       AnyRevision \<Rightarrow> Inr ()
     | MustBeAbsent \<Rightarrow> if file \<noteq> None then Inl FileAlreadyExists else Inr ()
     | MustBe r \<Rightarrow> if map_option wf_revision file \<noteq> Some r then Inl RevisionConflict else Inr ())"

definition mem_read :: "files \<Rightarrow> string \<Rightarrow> workspace_error + workspace_file option" where
  "mem_read fs p = bind_result (checked_path p) (\<lambda>normalized. Inr (map_of fs normalized))"

definition mem_readBounded ::
    "(char list \<Rightarrow> string) \<Rightarrow> files \<Rightarrow> string \<Rightarrow> int \<Rightarrow> workspace_error + workspace_file option" where
  "mem_readBounded decode_lossy fs p maxBytes =
    (if maxBytes < 1 then Inl BadReadBound
     else bind_result (checked_path p) (\<lambda>normalized.
       case map_of fs normalized of
         None \<Rightarrow> Inr None
       | Some file \<Rightarrow>
           (let bytes = utf8_encode (wf_content file) in
            if int (length bytes) \<le> maxBytes then Inr (Some file)
            else Inr (Some (file\<lparr>wf_content := decode_lossy (take (nat maxBytes) bytes)\<rparr>)))))"

definition entry_of :: "workspace_file \<Rightarrow> workspace_entry" where
  "entry_of file = workspace_entry.truncate file"

definition mem_list ::
    "(string \<Rightarrow> string \<Rightarrow> int) \<Rightarrow> files \<Rightarrow> string \<Rightarrow> workspace_error + workspace_entry list" where
  "mem_list localeCompare fs p = bind_result (checked_path p) (\<lambda>prefix_path.
     Inr (sort_by (\<lambda>left right. localeCompare (wf_path left) (wf_path right))
       (map entry_of
         (filter (\<lambda>file. wf_path file = prefix_path \<or> prefix (prefix_path @ ''/'') (wf_path file))
           (map snd fs)))))"

definition new_file :: "string \<Rightarrow> string \<Rightarrow> stamp \<Rightarrow> workspace_file" where
  "new_file p c stamp =
    \<lparr>wf_path = p, wf_revision = fst stamp, wf_updatedAt = snd stamp,
     wf_size = length (utf8_encode c), wf_contentByteLength = Some (workspaceContentByteLength c),
     wf_content = c\<rparr>"

definition mem_write ::
    "files \<Rightarrow> string \<Rightarrow> string \<Rightarrow> expected_revision \<Rightarrow> stamp \<Rightarrow> workspace_error + workspace_file \<times> files" where
  "mem_write fs p content expected stamp = bind_result (checked_path p) (\<lambda>normalized.
     if normalized = ''/workspace'' then Inl CannotWriteRoot
     else bind_result (checkRevision (map_of fs normalized) expected) (\<lambda>_.
       let file = new_file normalized content stamp
       in Inr (file, AList.update normalized file fs)))"

definition mem_remove :: "files \<Rightarrow> string \<Rightarrow> expected_revision \<Rightarrow> workspace_error + files" where
  "mem_remove fs p expected = bind_result (checked_path p) (\<lambda>normalized.
     case map_of fs normalized of
       None \<Rightarrow> Inr fs
     | Some current \<Rightarrow> bind_result (checkRevision (Some current) expected) (\<lambda>_.
         Inr (AList.delete normalized fs)))"

section \<open>Moving a file through the port\<close>

text \<open>
  \<open>moveWorkspaceFile\<close> awaits the port between its steps, and another writer may act there. The
  move is a function of the port's operations and of what others do to the store after the read
  (\<open>env1\<close>), after the target is created (\<open>env2\<close>) and before the rollback (\<open>env3\<close>). It
  returns the outcome together with the store it leaves.
\<close>

definition moveWorkspaceFile ::
    "('w \<Rightarrow> string \<Rightarrow> workspace_error + workspace_file option) \<Rightarrow>
     ('w \<Rightarrow> string \<Rightarrow> string \<Rightarrow> expected_revision \<Rightarrow> stamp \<Rightarrow> workspace_error + workspace_file \<times> 'w) \<Rightarrow>
     ('w \<Rightarrow> string \<Rightarrow> expected_revision \<Rightarrow> workspace_error + 'w) \<Rightarrow>
     ('w \<Rightarrow> 'w) \<Rightarrow> ('w \<Rightarrow> 'w) \<Rightarrow> ('w \<Rightarrow> 'w) \<Rightarrow>
     'w \<Rightarrow> string \<Rightarrow> string \<Rightarrow> stamp \<Rightarrow> (workspace_error + workspace_file) \<times> 'w" where
  "moveWorkspaceFile rd wr rm env1 env2 env3 w sourcePath targetPath stamp =
    (case checked_path sourcePath of
       Inl e \<Rightarrow> (Inl e, w)
     | Inr source \<Rightarrow>
    (case checked_path targetPath of
       Inl e \<Rightarrow> (Inl e, w)
     | Inr target \<Rightarrow>
    (if source = ''/workspace'' \<or> target = ''/workspace'' then (Inl CannotMoveRoot, w)
     else if source = target then (Inl SameFile, w)
     else case rd w source of
       Inl e \<Rightarrow> (Inl e, w)
     | Inr None \<Rightarrow> (Inl (NoSuchFile source), w)
     | Inr (Some file) \<Rightarrow>
    (case wr (env1 w) target (wf_content file) MustBeAbsent stamp of
       Inl e \<Rightarrow> (Inl e, env1 w)
     | Inr (created, w1) \<Rightarrow>
    (case rm (env2 w1) source (MustBe (wf_revision file)) of
       Inr w2 \<Rightarrow> (Inr created, w2)
     | Inl e \<Rightarrow>
    (case rm (env3 (env2 w1)) target (MustBe (wf_revision created)) of
       Inl _ \<Rightarrow> (Inl (RollbackConflict e), env3 (env2 w1))
     | Inr w3 \<Rightarrow> (Inl e, w3)))))))"

section \<open>The contract of a workspace port\<close>

text \<open>
  An address is a canonical path below the root. On addresses a port is a store with compare-and-
  swap writes and removals: \<open>matches\<close> says when an expected revision accepts the current file.
\<close>

definition address :: "string \<Rightarrow> bool" where
  "address p \<longleftrightarrow> normalizeWorkspacePath p = Inr p \<and> p \<noteq> ''/workspace''"

definition matches :: "workspace_file option \<Rightarrow> expected_revision \<Rightarrow> bool" where
  "matches file expected \<longleftrightarrow> is_ok (checkRevision file expected)"

locale workspace_port =
  fixes inv :: "'w \<Rightarrow> bool"
    and rd :: "'w \<Rightarrow> string \<Rightarrow> workspace_error + workspace_file option"
    and wr :: "'w \<Rightarrow> string \<Rightarrow> string \<Rightarrow> expected_revision \<Rightarrow> stamp \<Rightarrow> workspace_error + workspace_file \<times> 'w"
    and rm :: "'w \<Rightarrow> string \<Rightarrow> expected_revision \<Rightarrow> workspace_error + 'w"
  assumes read_total: "inv w \<Longrightarrow> address p \<Longrightarrow> \<exists>f. rd w p = Inr f"
    and read_path: "inv w \<Longrightarrow> address p \<Longrightarrow> rd w p = Inr (Some h) \<Longrightarrow> wf_path h = p"
    and write_accepts: "inv w \<Longrightarrow> address p \<Longrightarrow> rd w p = Inr f \<Longrightarrow> is_ok (wr w p c x st) \<longleftrightarrow> matches f x"
    and write_stores: "inv w \<Longrightarrow> address p \<Longrightarrow> wr w p c x st = Inr (g, w') \<Longrightarrow>
      inv w' \<and> g = new_file p c st \<and> rd w' p = Inr (Some g) \<and> (\<forall>q. address q \<and> q \<noteq> p \<longrightarrow> rd w' q = rd w q)"
    and remove_accepts: "inv w \<Longrightarrow> address p \<Longrightarrow> rd w p = Inr f \<Longrightarrow>
      is_ok (rm w p x) \<longleftrightarrow> f = None \<or> matches f x"
    and remove_erases: "inv w \<Longrightarrow> address p \<Longrightarrow> rm w p x = Inr w' \<Longrightarrow>
      inv w' \<and> rd w' p = Inr None \<and> (\<forall>q. address q \<and> q \<noteq> p \<longrightarrow> rd w' q = rd w q)"
begin

lemma write_creates:
  assumes "inv w" "address p" "rd w p = Inr None"
  shows "\<exists>w'. wr w p c MustBeAbsent st = Inr (new_file p c st, w')"
proof -
  have "matches None MustBeAbsent" by (simp add: matches_def checkRevision_def)
  then obtain f w' where "wr w p c MustBeAbsent st = Inr (f, w')"
    using write_accepts [OF assms, of c MustBeAbsent st]
    by (cases "wr w p c MustBeAbsent st") auto
  then show ?thesis using write_stores assms by blast
qed

lemma write_refuses_existing:
  "inv w \<Longrightarrow> address p \<Longrightarrow> rd w p = Inr (Some f) \<Longrightarrow> \<exists>e. wr w p c MustBeAbsent st = Inl e"
  using write_accepts [of w p "Some f" c MustBeAbsent st]
  by (cases "wr w p c MustBeAbsent st") (auto simp: matches_def checkRevision_def)

lemma remove_current:
  "inv w \<Longrightarrow> address p \<Longrightarrow> rd w p = Inr (Some f) \<Longrightarrow> \<exists>w'. rm w p (MustBe (wf_revision f)) = Inr w'"
  using remove_accepts [of w p "Some f" "MustBe (wf_revision f)"]
  by (auto simp: matches_def checkRevision_def is_ok_iff)

lemma remove_stale:
  "inv w \<Longrightarrow> address p \<Longrightarrow> rd w p = Inr (Some f) \<Longrightarrow> wf_revision f \<noteq> r \<Longrightarrow> \<exists>e. rm w p (MustBe r) = Inl e"
  using remove_accepts [of w p "Some f" "MustBe r"]
  by (cases "rm w p (MustBe r)") (auto simp: matches_def checkRevision_def)

text \<open>An undisturbed move carries the content over and removes the source.\<close>

lemma move_succeeds:
  assumes "inv w" "address s" "address t" "s \<noteq> t"
    and "rd w s = Inr (Some f)" "rd w t = Inr None"
  shows "\<exists>w'. moveWorkspaceFile rd wr rm id id id w s t st = (Inr (new_file t (wf_content f) st), w')
    \<and> inv w' \<and> rd w' s = Inr None \<and> rd w' t = Inr (Some (new_file t (wf_content f) st))
    \<and> (\<forall>q. address q \<and> q \<noteq> s \<and> q \<noteq> t \<longrightarrow> rd w' q = rd w q)"
proof -
  have path: "checked_path s = Inr s" "checked_path t = Inr t" "s \<noteq> ''/workspace''" "t \<noteq> ''/workspace''"
    using assms by (auto simp: address_def checked_path_def)
  obtain w1 where w1: "wr w t (wf_content f) MustBeAbsent st = Inr (new_file t (wf_content f) st, w1)"
    using write_creates assms by blast
  then have s1: "inv w1" "rd w1 t = Inr (Some (new_file t (wf_content f) st))" "rd w1 s = Inr (Some f)"
    "\<forall>q. address q \<and> q \<noteq> t \<longrightarrow> rd w1 q = rd w q"
    using write_stores [OF assms(1,3) w1] assms by auto
  then obtain w2 where w2: "rm w1 s (MustBe (wf_revision f)) = Inr w2"
    using remove_current assms(2) by blast
  then have "inv w2" "rd w2 s = Inr None" "\<forall>q. address q \<and> q \<noteq> s \<longrightarrow> rd w2 q = rd w1 q"
    using remove_erases [OF s1(1) assms(2) w2] by auto
  with s1 w1 w2 path assms show ?thesis
    by (auto simp: moveWorkspaceFile_def)
qed

text \<open>A move onto an existing file changes nothing.\<close>

lemma move_refuses_existing_target:
  assumes "inv w" "address s" "address t" "s \<noteq> t"
    and "rd w s = Inr (Some f)" "rd w t = Inr (Some g)"
  shows "\<exists>e. moveWorkspaceFile rd wr rm id id id w s t st = (Inl e, w)"
proof -
  have path: "checked_path s = Inr s" "checked_path t = Inr t" "s \<noteq> ''/workspace''" "t \<noteq> ''/workspace''"
    using assms by (auto simp: address_def checked_path_def)
  obtain e where "wr w t (wf_content f) MustBeAbsent st = Inl e"
    using write_refuses_existing assms by blast
  with path assms show ?thesis by (simp add: moveWorkspaceFile_def)
qed

text \<open>A source that another writer changed meanwhile is kept, and the new target is rolled back.\<close>

lemma move_rolls_back:
  assumes "inv w" "address s" "address t" "s \<noteq> t"
    and "rd w s = Inr (Some f)" "rd w t = Inr None"
    and env: "\<And>v. inv v \<Longrightarrow> inv (env v)" "\<And>v. inv v \<Longrightarrow> rd (env v) t = rd v t"
      "\<And>v. inv v \<Longrightarrow> rd (env v) s = Inr (Some g)"
    and g: "wf_revision g \<noteq> wf_revision f"
  shows "\<exists>e w'. moveWorkspaceFile rd wr rm id env id w s t st = (Inl e, w')
    \<and> inv w' \<and> rd w' s = Inr (Some g) \<and> rd w' t = Inr None"
proof -
  have path: "checked_path s = Inr s" "checked_path t = Inr t" "s \<noteq> ''/workspace''" "t \<noteq> ''/workspace''"
    using assms by (auto simp: address_def checked_path_def)
  obtain w1 where w1: "wr w t (wf_content f) MustBeAbsent st = Inr (new_file t (wf_content f) st, w1)"
    using write_creates assms by blast
  then have s1: "inv w1" "rd w1 t = Inr (Some (new_file t (wf_content f) st))"
    using write_stores [OF assms(1,3) w1] by auto
  then have s2: "inv (env w1)" "rd (env w1) t = Inr (Some (new_file t (wf_content f) st))"
    "rd (env w1) s = Inr (Some g)"
    using env by auto
  obtain e where e: "rm (env w1) s (MustBe (wf_revision f)) = Inl e"
    using remove_stale [OF s2(1) assms(2) s2(3) g] by blast
  obtain w3 where w3: "rm (env w1) t (MustBe (wf_revision (new_file t (wf_content f) st))) = Inr w3"
    using remove_current [OF s2(1) assms(3) s2(2)] by blast
  have "inv w3 \<and> rd w3 t = Inr None \<and> rd w3 s = Inr (Some g)"
    using remove_erases [OF s2(1) assms(3) w3] assms(2,4) s2(3) by auto
  with w1 e w3 path assms(4,5) show ?thesis
    by (auto simp: moveWorkspaceFile_def)
qed

end


section \<open>The page-memory workspace fulfils the contract\<close>

definition canonical_key :: "string \<Rightarrow> bool" where
  "canonical_key k \<longleftrightarrow> (\<exists>segs. k = abs_path segs \<and> list_all good_segment segs \<and> segs \<noteq> [])"

definition file_ok :: "string \<Rightarrow> workspace_file \<Rightarrow> bool" where
  "file_ok k f \<longleftrightarrow> wf_path f = k \<and> canonical_key k \<and> wf_size f = length (utf8_encode (wf_content f))
     \<and> wf_contentByteLength f = Some (workspaceContentByteLength (wf_content f))"

definition files_ok :: "files \<Rightarrow> bool" where
  "files_ok fs \<longleftrightarrow> distinct (map fst fs) \<and> (\<forall>(k, f) \<in> set fs. file_ok k f)"

lemma files_ok_empty: "files_ok []"
  by (simp add: files_ok_def)

lemma files_ok_lookup: "files_ok fs \<Longrightarrow> map_of fs k = Some f \<Longrightarrow> file_ok k f"
  by (auto simp: files_ok_def dest!: map_of_SomeD)

lemma checked_path_canonical:
  "checked_path p = Inr q \<Longrightarrow> q \<noteq> ''/workspace'' \<Longrightarrow> canonical_key q"
  using normalize_Inr_canonical [of p q]
  by (force simp: checked_path_def canonical_key_def split: sum.splits)

lemma checked_path_address [simp]: "address p \<Longrightarrow> checked_path p = Inr p"
  by (simp add: address_def checked_path_def)

lemma file_ok_new_file: "canonical_key k \<Longrightarrow> file_ok k (new_file k c st)"
  by (simp add: file_ok_def new_file_def)

lemma set_alist_update: "x \<in> set (AList.update k v m) \<Longrightarrow> x = (k, v) \<or> x \<in> set m"
  by (induction m) (auto split: if_splits)

lemma files_ok_update: "files_ok fs \<Longrightarrow> file_ok k f \<Longrightarrow> files_ok (AList.update k f fs)"
  by (auto simp: files_ok_def distinct_update dest!: set_alist_update)

lemma files_ok_delete: "files_ok fs \<Longrightarrow> files_ok (AList.delete k fs)"
  by (simp add: files_ok_def AList.distinct_delete) (auto simp: AList.delete_eq)

lemma mem_write_ok: "files_ok fs \<Longrightarrow> mem_write fs p c x st = Inr (f, fs') \<Longrightarrow> files_ok fs'"
  by (auto simp: mem_write_def result_simps Let_def split: if_splits
      intro!: files_ok_update file_ok_new_file checked_path_canonical)

lemma mem_remove_ok: "files_ok fs \<Longrightarrow> mem_remove fs p x = Inr fs' \<Longrightarrow> files_ok fs'"
  by (auto simp: mem_remove_def result_simps files_ok_delete split: option.splits)

interpretation memory: workspace_port files_ok mem_read mem_write mem_remove
proof (unfold_locales, goal_cases)
  case (1 w p)
  then show ?case by (simp add: mem_read_def)
next
  case (2 w p h)
  then show ?case by (auto simp: mem_read_def dest: files_ok_lookup simp: file_ok_def)
next
  case (3 w p f c x st)
  then show ?case
    by (auto simp: mem_read_def mem_write_def matches_def is_ok_iff result_simps Let_def address_def
        checked_path_def)
next
  case (4 w p c x st g w')
  then have "files_ok w'" using mem_write_ok by blast
  with 4 show ?case
    by (auto simp: mem_write_def mem_read_def result_simps Let_def update_conv' address_def
        checked_path_def split: if_splits)
next
  case (5 w p f x)
  then show ?case
    by (auto simp: mem_read_def mem_remove_def matches_def is_ok_iff result_simps split: option.splits)
next
  case (6 w p x w')
  then have "files_ok w'" using mem_remove_ok by blast
  with 6 show ?case
    by (auto simp: mem_remove_def mem_read_def result_simps delete_conv' split: option.splits)
qed

lemma listed_under_iff:
  assumes "files_ok fs" "list_all good_segment base" "no_trailing_space base"
  shows "mem_list lc fs (abs_path base) = Inr es \<Longrightarrow>
    set (map wf_path es) = {abs_path segs | segs. abs_path segs \<in> fst ` set fs \<and> list_all good_segment segs
      \<and> prefix base segs}"
proof -
  assume es: "mem_list lc fs (abs_path base) = Inr es"
  have paths: "set (map wf_path es) =
      {wf_path f | f k. (k, f) \<in> set fs \<and>
        (wf_path f = abs_path base \<or> prefix (abs_path base @ ''/'') (wf_path f))}"
    using es assms(2,3)
    by (force simp: mem_list_def checked_path_def normalize_abs_path entry_of_def workspace_entry.truncate_def)
  have key: "wf_path f = k \<and> (\<exists>segs. k = abs_path segs \<and> list_all good_segment segs)"
    if "(k, f) \<in> set fs" for k f
    using assms(1) that by (auto simp: files_ok_def file_ok_def canonical_key_def)
  show ?thesis
    unfolding paths
  proof (intro set_eqI iffI)
    fix x assume "x \<in> {wf_path f | f k. (k, f) \<in> set fs \<and>
        (wf_path f = abs_path base \<or> prefix (abs_path base @ ''/'') (wf_path f))}"
    then obtain f k where f: "(k, f) \<in> set fs" "x = wf_path f"
      "wf_path f = abs_path base \<or> prefix (abs_path base @ ''/'') (wf_path f)" by blast
    with key obtain segs where segs: "x = abs_path segs" "k = x" "list_all good_segment segs" by metis
    then have "prefix base segs" using f under_directory_iff [OF _ assms(2)] by metis
    moreover have "abs_path segs \<in> fst ` set fs" using f(1) segs by force
    ultimately show "x \<in> {abs_path segs | segs. abs_path segs \<in> fst ` set fs
        \<and> list_all good_segment segs \<and> prefix base segs}"
      using segs by blast
  next
    fix x assume "x \<in> {abs_path segs | segs. abs_path segs \<in> fst ` set fs
        \<and> list_all good_segment segs \<and> prefix base segs}"
    then obtain segs f where segs: "x = abs_path segs" "(x, f) \<in> set fs" "list_all good_segment segs"
      "prefix base segs" by force
    then have "x = abs_path base \<or> prefix (abs_path base @ ''/'') x"
      using under_directory_iff [OF segs(3) assms(2)] by simp
    with key [OF segs(2)] segs(2) show "x \<in> {wf_path f | f k. (k, f) \<in> set fs \<and>
        (wf_path f = abs_path base \<or> prefix (abs_path base @ ''/'') (wf_path f))}"
      by blast
  qed
qed

section \<open>Properties\<close>

text \<open>Every write and removal keeps the page-memory workspace well formed, whatever path the
  caller names: keys are canonical paths below the root and are unique, each file carries its own
  key as path, and the recorded sizes are those of its content.\<close>

theorem mem_operations_preserve:
  assumes "files_ok fs"
  shows "(\<forall>f fs'. mem_write fs p c x st = Inr (f, fs') \<longrightarrow> files_ok fs') \<and>
    (\<forall>fs'. mem_remove fs p x = Inr fs' \<longrightarrow> files_ok fs')"
  using assms mem_write_ok mem_remove_ok by blast

theorem mem_operations_preserve_witness:
  "files_ok (AList.update ''/workspace/a'' (new_file ''/workspace/a'' ''x'' (''r1'', ''t1'')) [])"
proof -
  have w: "mem_write [] ''a'' ''x'' MustBeAbsent (''r1'', ''t1'') =
    Inr (new_file ''/workspace/a'' ''x'' (''r1'', ''t1''),
         AList.update ''/workspace/a'' (new_file ''/workspace/a'' ''x'' (''r1'', ''t1'')) [])"
    by code_simp
  show ?thesis using mem_operations_preserve [OF files_ok_empty] w by blast
qed





text \<open>Listing a directory returns exactly the stored files at or below it: the files whose
  segments extend the directory's segments.\<close>

theorem list_is_directory_contents:
  assumes "files_ok fs" "list_all good_segment base" "no_trailing_space base"
    and "mem_list lc fs (abs_path base) = Inr es"
  shows "set (map wf_path es) = {abs_path segs | segs. abs_path segs \<in> fst ` set fs
    \<and> list_all good_segment segs \<and> prefix base segs}"
  using listed_under_iff [OF assms(1-3)] assms(4) by blast

theorem list_is_directory_contents_witness:
  "\<exists>es. mem_list code_unit_cmp [] ''/workspace'' = Inr es \<and> set (map wf_path es) = {}"
proof -
  have l: "mem_list code_unit_cmp [] (abs_path []) = Inr []"
    by (simp add: mem_list_def checked_path_def normalize_abs_path [of "[]", simplified] no_trailing_space_def)
  have "set (map wf_path ([] :: workspace_entry list)) = {abs_path segs | segs.
      abs_path segs \<in> fst ` set ([] :: files) \<and> list_all good_segment segs \<and> prefix [] segs}"
    by (rule list_is_directory_contents [OF files_ok_empty _ _ l]) (simp_all add: no_trailing_space_def)
  with l show ?thesis by simp
qed

text \<open>A file written under a path whose last segment ends in white space before a trailing
  slash is stored and listed under a path that cannot be read back: the listed path, given to
  \<open>read\<close>, addresses a different key.\<close>

theorem trailing_space_file_unreadable:
  "\<exists>f fs. mem_write [] ''/workspace/a /'' c AnyRevision st = Inr (f, fs)
     \<and> wf_path f = ''/workspace/a '' \<and> map_of fs (wf_path f) = Some f
     \<and> mem_read fs (wf_path f) = Inr None"
proof -
  have n: "checked_path ''/workspace/a /'' = Inr ''/workspace/a ''"
    "checked_path ''/workspace/a '' = Inr ''/workspace/a''"
    by code_simp+
  show ?thesis
    by (simp add: mem_write_def mem_read_def n checkRevision_def Let_def new_file_def)
qed

end
