(* ===== verification/Profile_Workspace.thy ===== *)
theory Profile_Workspace
  imports Memory_Workspace
begin

text \<open>
  \<open>src/workspace/profile-scope.ts\<close>: one Profile's storage namespace presented as an ordinary
  workspace, and the one-time adoption of files that predate the namespaces. The port over a backing
  port is a function of the backing operations; \<open>root\<close> is its \<open>backingRoot\<close>.
\<close>

section \<open>Names of profiles\<close>

text \<open>\<open>encodeURIComponent\<close>: the unreserved characters stay, every other UTF-8 byte is escaped.\<close>

definition uri_unreserved :: "char \<Rightarrow> bool" where
  "uri_unreserved c \<longleftrightarrow> is_alpha_ascii c \<or> is_digit c \<or> c \<in> set ''-_.!~*()'' \<or> c = CHR 0x27"

definition hex_digit :: "nat \<Rightarrow> char" where
  "hex_digit n = ''0123456789ABCDEF'' ! n"

definition uri_byte :: "char \<Rightarrow> string" where
  "uri_byte b = (if uri_unreserved b then [b]
     else [CHR ''%'', hex_digit (of_char b div 16), hex_digit (of_char b mod 16)])"

definition encodeURIComponent :: "string \<Rightarrow> string" where
  "encodeURIComponent s = concat (map uri_byte (utf8_encode s))"

definition normalizeProfileId :: "string \<Rightarrow> workspace_error + string" where
  "normalizeProfileId value =
    (let profileId = trim value in
     if profileId = [] \<or> length profileId > 256 \<or> list_ex is_control profileId then Inl InvalidProfile
     else Inr profileId)"

definition profileWorkspaceIdentity :: "string \<Rightarrow> string \<Rightarrow> workspace_error + string" where
  "profileWorkspaceIdentity backingWorkspaceId profileId =
    (let authority = trim backingWorkspaceId in
     if authority = [] \<or> length authority > 1536 \<or> list_ex is_control authority then Inl InvalidProfile
     else bind_result (normalizeProfileId profileId) (\<lambda>pid.
       Inr (authority @ ''::airship-profile='' @ encodeURIComponent pid)))"

section \<open>The namespace of a profile\<close>

definition PROFILE_WORKSPACE_ROOT :: string where
  "PROFILE_WORKSPACE_ROOT = ''/workspace/.airship/profile-workspaces/v1''"

definition isProfileWorkspacePath :: "string \<Rightarrow> workspace_error + bool" where
  "isProfileWorkspacePath path = bind_result (checked_path path) (\<lambda>normalized.
     Inr (normalized = PROFILE_WORKSPACE_ROOT \<or> prefix (PROFILE_WORKSPACE_ROOT @ ''/'') normalized))"

definition profileFacingWorkspacePath :: "string \<Rightarrow> workspace_error + string option" where
  "profileFacingWorkspacePath storagePath = bind_result (checked_path storagePath) (\<lambda>normalized.
     if \<not> prefix (PROFILE_WORKSPACE_ROOT @ ''/'') normalized then Inr None
     else
       let relative = drop (length PROFILE_WORKSPACE_ROOT + 1) normalized in
       if CHR ''/'' \<notin> set relative then Inr (Some ''/workspace'')
       else Inr (Some (''/workspace/'' @ tl (dropWhile (\<lambda>c. c \<noteq> CHR ''/'') relative))))"

text \<open>The constructor: the validated profile id fixes the backing root.\<close>

definition ProfileWorkspacePort :: "string \<Rightarrow> workspace_error + string" where
  "ProfileWorkspacePort profileId = bind_result (normalizeProfileId profileId) (\<lambda>pid.
     Inr (PROFILE_WORKSPACE_ROOT @ ''/p-'' @ encodeURIComponent pid))"

definition toBacking :: "string \<Rightarrow> string \<Rightarrow> workspace_error + string" where
  "toBacking root path = bind_result (checked_path path) (\<lambda>normalized.
     Inr (if normalized = ''/workspace'' then root
          else root @ drop (length ''/workspace'') normalized))"

definition fromBackingPath :: "string \<Rightarrow> string \<Rightarrow> workspace_error + string" where
  "fromBackingPath root path = bind_result (checked_path path) (\<lambda>normalized.
     if normalized \<noteq> root \<and> \<not> prefix (root @ ''/'') normalized then Inl OutsideProfile
     else Inr (if normalized = root then ''/workspace''
               else ''/workspace'' @ drop (length root) normalized))"

definition fromBacking ::
    "string \<Rightarrow> 'a workspace_entry_scheme \<Rightarrow> workspace_error + 'a workspace_entry_scheme" where
  "fromBacking root file = bind_result (fromBackingPath root (wf_path file)) (\<lambda>p.
     Inr (file\<lparr>wf_path := p\<rparr>))"

fun fromBackingOption ::
    "string \<Rightarrow> workspace_file option \<Rightarrow> workspace_error + workspace_file option" where
  "fromBackingOption root None = Inr None"
| "fromBackingOption root (Some file) = bind_result (fromBacking root file) (\<lambda>f. Inr (Some f))"

definition prof_read ::
    "('w \<Rightarrow> string \<Rightarrow> workspace_error + workspace_file option) \<Rightarrow> string \<Rightarrow>
     'w \<Rightarrow> string \<Rightarrow> workspace_error + workspace_file option" where
  "prof_read rd root w path = bind_result (toBacking root path) (\<lambda>b.
     bind_result (rd w b) (fromBackingOption root))"

definition prof_readBounded ::
    "('w \<Rightarrow> string \<Rightarrow> workspace_error + workspace_file option) \<Rightarrow>
     ('w \<Rightarrow> string \<Rightarrow> int \<Rightarrow> workspace_error + workspace_file option) option \<Rightarrow> string \<Rightarrow>
     'w \<Rightarrow> string \<Rightarrow> int \<Rightarrow> workspace_error + workspace_file option" where
  "prof_readBounded rd readBounded root w path maxBytes =
     bind_result (toBacking root path) (\<lambda>b.
       bind_result (case readBounded of Some rb \<Rightarrow> rb w b maxBytes | None \<Rightarrow> rd w b)
         (fromBackingOption root))"

definition prof_list ::
    "(string \<Rightarrow> string \<Rightarrow> int) \<Rightarrow> ('w \<Rightarrow> string \<Rightarrow> workspace_error + workspace_entry list) \<Rightarrow> string \<Rightarrow>
     'w \<Rightarrow> string \<Rightarrow> workspace_error + workspace_entry list" where
  "prof_list localeCompare ls root w path = bind_result (toBacking root path) (\<lambda>b.
     bind_result (ls w b) (\<lambda>entries.
       bind_result (map_result (fromBacking root) entries) (\<lambda>shown.
         Inr (sort_by (\<lambda>left right. localeCompare (wf_path left) (wf_path right)) shown))))"

definition prof_write ::
    "('w \<Rightarrow> string \<Rightarrow> string \<Rightarrow> expected_revision \<Rightarrow> stamp \<Rightarrow> workspace_error + workspace_file \<times> 'w) \<Rightarrow>
     string \<Rightarrow> 'w \<Rightarrow> string \<Rightarrow> string \<Rightarrow> expected_revision \<Rightarrow> stamp \<Rightarrow>
     workspace_error + workspace_file \<times> 'w" where
  "prof_write wr root w path content expected stamp = bind_result (toBacking root path) (\<lambda>b.
     bind_result (wr w b content expected stamp) (\<lambda>(file, w').
       bind_result (fromBacking root file) (\<lambda>f. Inr (f, w'))))"

definition prof_remove ::
    "('w \<Rightarrow> string \<Rightarrow> expected_revision \<Rightarrow> workspace_error + 'w) \<Rightarrow> string \<Rightarrow>
     'w \<Rightarrow> string \<Rightarrow> expected_revision \<Rightarrow> workspace_error + 'w" where
  "prof_remove rm root w path expected = bind_result (toBacking root path) (\<lambda>b. rm w b expected)"

section \<open>Adoption of pre-namespace files\<close>

definition isGlobalAuthorityPath :: "string \<Rightarrow> workspace_error + bool" where
  "isGlobalAuthorityPath path = bind_result (checked_path path) (\<lambda>normalized.
     Inr (normalized = CONTEXT_ROUTING_MIRROR_PATH))"

fun filter_result :: "('a \<Rightarrow> 'e + bool) \<Rightarrow> 'a list \<Rightarrow> 'e + 'a list" where
  "filter_result f [] = Inr []"
| "filter_result f (x # xs) = bind_result (f x) (\<lambda>keep.
     bind_result (filter_result f xs) (\<lambda>ys. Inr (if keep then x # ys else ys)))"

text \<open>The loop over the legacy entries; \<open>fresh\<close> gives the stamp of the copy written for a path.\<close>

fun adopt_entries ::
    "string \<Rightarrow> (string \<Rightarrow> stamp) \<Rightarrow> workspace_entry list \<Rightarrow> files \<Rightarrow> workspace_error + string list \<times> files" where
  "adopt_entries root fresh [] fs = Inr ([], fs)"
| "adopt_entries root fresh (entry # rest) fs =
     bind_result (mem_read fs (wf_path entry)) (\<lambda>found.
       case found of
         None \<Rightarrow> adopt_entries root fresh rest fs
       | Some file \<Rightarrow>
           bind_result (prof_read mem_read root fs (wf_path file)) (\<lambda>existing.
           bind_result
             (if existing = None
              then map_sum id snd (prof_write mem_write root fs (wf_path file) (wf_content file)
                     MustBeAbsent (fresh (wf_path file)))
              else Inr fs) (\<lambda>fs1.
           bind_result (mem_remove fs1 (wf_path entry) (MustBe (wf_revision file))) (\<lambda>fs2.
           bind_result (adopt_entries root fresh rest fs2) (\<lambda>(adopted, fs3).
             Inr (wf_path file # adopted, fs3))))))"

definition adoptLegacyRootWorkspace ::
    "(string \<Rightarrow> string \<Rightarrow> int) \<Rightarrow> (string \<Rightarrow> stamp) \<Rightarrow> files \<Rightarrow> string \<Rightarrow>
     workspace_error + string list \<times> files" where
  "adoptLegacyRootWorkspace localeCompare fresh fs profileId =
    bind_result (mem_list localeCompare fs ''/workspace'') (\<lambda>entries.
    bind_result (filter_result (\<lambda>entry. map_sum id Not (isProfileWorkspacePath (wf_path entry))) entries)
      (\<lambda>unscoped.
    bind_result (filter_result (\<lambda>entry. map_sum id Not (isGlobalAuthorityPath (wf_path entry))) unscoped)
      (\<lambda>legacy.
     if legacy = [] then Inr ([], fs)
     else bind_result (ProfileWorkspacePort profileId) (\<lambda>root. adopt_entries root fresh legacy fs))))"


section \<open>The escaped profile id is a faithful path segment\<close>

definition hex_value :: "char \<Rightarrow> nat" where
  "hex_value c = the (map_of (zip ''0123456789ABCDEF'' [0..<16]) c)"

fun uri_bytes :: "string \<Rightarrow> char list" where
  "uri_bytes (c # h # l # r) =
     (if c = CHR ''%'' then char_of (16 * hex_value h + hex_value l) # uri_bytes r
      else c # uri_bytes (h # l # r))"
| "uri_bytes (c # r) = c # uri_bytes r"
| "uri_bytes [] = []"

fun utf8_decode :: "char list \<Rightarrow> string" where
  "utf8_decode (b # c # r) =
     (if (of_char b :: nat) < 128 then b # utf8_decode (c # r)
      else char_of ((of_char b - 192) * 64 + (of_char c - 128) :: nat) # utf8_decode r)"
| "utf8_decode [b] = [b]"
| "utf8_decode [] = []"

lemma hex_digit_all: "list_all (\<lambda>n. hex_value (hex_digit n) = n \<and> uri_unreserved (hex_digit n)) [0..<16]"
  by code_simp

lemma hex_digit [simp]: "n < 16 \<Longrightarrow> hex_value (hex_digit n) = n" "n < 16 \<Longrightarrow> uri_unreserved (hex_digit n)"
  using hex_digit_all by (simp_all add: list_all_iff)

lemma of_char_div_16 [simp]: "(of_char b :: nat) div 16 < 16"
  by (simp add: less_mult_imp_div_less)

lemma uri_bytes_plain: "c \<noteq> CHR ''%'' \<Longrightarrow> uri_bytes (c # r) = c # uri_bytes r"
  by (cases "c # r" rule: uri_bytes.cases) auto

lemma uri_unreserved_percent [simp]: "\<not> uri_unreserved CHR ''%''"
  by (simp add: uri_unreserved_def is_alpha_ascii_def is_upper_ascii_def is_lower_ascii_def is_digit_def)

lemma uri_bytes_byte: "uri_bytes (uri_byte b @ r) = b # uri_bytes r"
  by (cases "uri_unreserved b") (auto simp: uri_byte_def intro!: uri_bytes_plain)

lemma uri_bytes_concat: "uri_bytes (concat (map uri_byte bs)) = bs"
  by (induction bs) (auto simp: uri_bytes_byte)

lemma utf8_decode_plain: "(of_char c :: nat) < 128 \<Longrightarrow> utf8_decode (c # r) = c # utf8_decode r"
  by (cases r) auto

lemma utf8_decode_char: "utf8_decode (utf8_char c @ r) = c # utf8_decode r"
proof (cases "(of_char c :: nat) < 128")
  case False
  let ?n = "of_char c :: nat"
  have "?n div 64 < 4" by (simp add: less_mult_imp_div_less)
  then have "of_char (char_of (192 + ?n div 64) :: char) = 192 + ?n div 64"
    "of_char (char_of (128 + ?n mod 64) :: char) = 128 + ?n mod 64"
    by (simp_all add: of_char_of)
  with False show ?thesis by (simp add: utf8_char_def Let_def)
qed (simp add: utf8_char_def utf8_decode_plain)

lemma utf8_decode_encode: "utf8_decode (utf8_encode s) = s"
  by (induction s) (auto simp: utf8_encode_def utf8_decode_char)

lemma encodeURIComponent_inject: "encodeURIComponent s = encodeURIComponent t \<longleftrightarrow> s = t"
  by (metis encodeURIComponent_def uri_bytes_concat utf8_decode_encode)

lemma uri_safe_char:
  "uri_unreserved c \<or> c = CHR ''%'' \<Longrightarrow>
    c \<noteq> CHR ''/'' \<and> c \<noteq> CHR 0x5C \<and> \<not> is_control c \<and> \<not> is_ws c"
  by (auto simp: uri_unreserved_def is_alpha_ascii_def is_upper_ascii_def is_lower_ascii_def
      is_digit_def is_control_def is_ws_def Let_def)

lemma uri_byte_safe: "c \<in> set (uri_byte b) \<Longrightarrow> uri_unreserved c \<or> c = CHR ''%''"
  by (auto simp: uri_byte_def split: if_splits)

lemma encodeURIComponent_safe:
  "c \<in> set (encodeURIComponent s) \<Longrightarrow>
    c \<noteq> CHR ''/'' \<and> c \<noteq> CHR 0x5C \<and> \<not> is_control c \<and> \<not> is_ws c"
proof (rule uri_safe_char)
  assume "c \<in> set (encodeURIComponent s)"
  then obtain b where "c \<in> set (uri_byte b)" by (auto simp: encodeURIComponent_def)
  then show "uri_unreserved c \<or> c = CHR ''%''" by (rule uri_byte_safe)
qed

definition profile_segs :: "string \<Rightarrow> string list" where
  "profile_segs pid = [''.airship'', ''profile-workspaces'', ''v1'', ''p-'' @ encodeURIComponent pid]"

lemma profile_segs_inject: "profile_segs a = profile_segs b \<longleftrightarrow> a = b"
  by (simp add: profile_segs_def encodeURIComponent_inject)

lemma profile_segs_good: "list_all good_segment (profile_segs pid)"
proof -
  have "good_segment (''p-'' @ encodeURIComponent pid)"
    using encodeURIComponent_safe [of _ pid]
    by (auto simp: good_segment_def list_ex_iff is_control_def [of "CHR ''p''"] is_control_def [of "CHR ''-''"])
  then show ?thesis
    by (simp add: profile_segs_def) (simp add: good_segment_def is_control_def)
qed

lemma profile_segs_trailing: "no_trailing_space (profile_segs pid)"
proof (cases "encodeURIComponent pid = []")
  case False
  then have "\<not> is_ws (last (encodeURIComponent pid))"
    using encodeURIComponent_safe last_in_set by blast
  with False show ?thesis by (simp add: no_trailing_space_def profile_segs_def)
qed (simp add: no_trailing_space_def profile_segs_def is_ws_def)

lemma ProfileWorkspacePort_root:
  "ProfileWorkspacePort profileId = Inr root \<longleftrightarrow>
    (\<exists>pid. normalizeProfileId profileId = Inr pid \<and> root = abs_path (profile_segs pid))"
  by (auto simp: ProfileWorkspacePort_def result_simps PROFILE_WORKSPACE_ROOT_def abs_path_def profile_segs_def)

section \<open>Addresses through the namespace\<close>

lemma address_iff:
  "address p \<longleftrightarrow> (\<exists>segs. p = abs_path segs \<and> list_all good_segment segs \<and> segs \<noteq> [] \<and> no_trailing_space segs)"
proof
  assume "address p"
  then have p: "normalizeWorkspacePath p = Inr p" "p \<noteq> ''/workspace''" by (auto simp: address_def)
  obtain segs where segs: "p = abs_path segs" "list_all good_segment segs"
    using normalize_Inr_canonical [OF p(1)] by blast
  with p show "\<exists>segs. p = abs_path segs \<and> list_all good_segment segs \<and> segs \<noteq> [] \<and> no_trailing_space segs"
    using normalize_fixed_point_iff [OF segs(2)] abs_path_Nil by metis
next
  assume "\<exists>segs. p = abs_path segs \<and> list_all good_segment segs \<and> segs \<noteq> [] \<and> no_trailing_space segs"
  then show "address p"
    using normalize_abs_path abs_path_inject [of _ "[]"] by (auto simp: address_def)
qed

definition rstrip :: "string \<Rightarrow> string" where
  "rstrip s = rev (dropWhile is_ws (rev s))"

lemma trim_abs_path_snoc: "trim (abs_path segs @ ''/'' @ s) = abs_path segs @ ''/'' @ rstrip s"
proof -
  have "dropWhile is_ws (abs_path segs @ ''/'' @ s) = abs_path segs @ ''/'' @ s"
    by (simp add: abs_path_def is_ws_def)
  moreover have "dropWhile is_ws (rev s @ CHR ''/'' # r) = dropWhile is_ws (rev s) @ CHR ''/'' # r" for r
    by (auto simp: dropWhile_append is_ws_def)
  ultimately show ?thesis by (simp add: trim_def rstrip_def)
qed

lemma set_rstrip: "set (rstrip s) \<subseteq> set s"
  by (auto simp: rstrip_def dest: set_dropWhileD)

lemma normalize_abs_path_cases:
  assumes "list_all good_segment (segs @ [s])" "normalizeWorkspacePath (abs_path (segs @ [s])) = Inr q"
  shows "\<exists>ext. q = abs_path (segs @ ext) \<and> list_all good_segment ext"
proof -
  have sep: "CHR ''/'' \<notin> set (rstrip s)"
    using assms(1) set_rstrip [of s] by (auto simp: good_segment_def)
  let ?t = "abs_path segs @ ''/'' @ rstrip s"
  have t: "trim (abs_path (segs @ [s])) = ?t" by (simp only: abs_path_snoc trim_abs_path_snoc)
  have "split_on CHR ''/'' ?t = ([] # ''workspace'' # segs) @ [rstrip s]"
    using split_on_append [of "CHR ''/''" "abs_path segs" "rstrip s"] assms(1) sep
    by (simp add: split_abs_path split_on_no_sep)
  moreover have "filter (\<lambda>part. part \<noteq> []) segs = segs"
    using assms(1) by (auto simp: list_all_iff good_segment_def filter_id_conv)
  ultimately have parts: "filter (\<lambda>part. part \<noteq> []) (split_on CHR ''/'' ?t)
      = ''workspace'' # segs @ (if rstrip s = [] then [] else [rstrip s])"
    by simp
  have "prefix ''/'' ?t" by simp
  with assms(2) t parts have q: "q = abs_path (segs @ (if rstrip s = [] then [] else [rstrip s]))"
    unfolding normalizeWorkspacePath_def Let_def by (auto simp: abs_path_def split: if_splits)
  moreover have "list_all good_segment (if rstrip s = [] then [] else [rstrip s])"
  proof -
    obtain segs' where "q = abs_path segs'" "list_all good_segment segs'"
      using normalize_Inr_canonical [OF assms(2)] by blast
    moreover have "split_on CHR ''/'' q = [] # ''workspace'' # segs @ (if rstrip s = [] then [] else [rstrip s])"
      using assms(1) sep q split_on_append [of "CHR ''/''" "abs_path segs" "rstrip s"]
      by (simp add: split_abs_path abs_path_snoc split_on_no_sep)
    ultimately show ?thesis by (auto simp: split_abs_path)
  qed
  ultimately show ?thesis by blast
qed

lemma abs_path_tail:
  "segs \<noteq> [] \<Longrightarrow> drop (length ''/workspace'') (abs_path segs) = ''/'' @ join ''/'' segs"
  "segs \<noteq> [] \<Longrightarrow> abs_path segs \<noteq> ''/workspace''"
  by (cases segs; simp add: abs_path_Cons)+

lemma checked_abs_path:
  "list_all good_segment segs \<Longrightarrow> no_trailing_space segs \<Longrightarrow> checked_path (abs_path segs) = Inr (abs_path segs)"
  by (simp add: checked_path_def normalize_abs_path)

lemma toBacking_abs_path:
  assumes "list_all good_segment segs" "no_trailing_space segs"
  shows "toBacking (abs_path rsegs) (abs_path segs) = Inr (abs_path (rsegs @ segs))"
proof (cases "segs = []")
  case False
  then show ?thesis
    unfolding toBacking_def checked_abs_path [OF assms] bind_result.simps
    using abs_path_tail [of segs] abs_path_append [of segs rsegs] by simp
qed (use checked_abs_path [OF assms] in \<open>simp add: toBacking_def\<close>)

lemma fromBackingPath_abs_path:
  assumes "list_all good_segment (rsegs @ segs)" "no_trailing_space (rsegs @ segs)"
  shows "fromBackingPath (abs_path rsegs) (abs_path (rsegs @ segs)) = Inr (abs_path segs)"
proof (cases "segs = []")
  case True
  then show ?thesis using checked_abs_path [OF assms] by (simp add: fromBackingPath_def)
next
  case False
  then have "abs_path (rsegs @ segs) = abs_path rsegs @ ''/'' @ join ''/'' segs"
    and "abs_path segs = ''/workspace'' @ ''/'' @ join ''/'' segs"
    using abs_path_append [of segs rsegs] abs_path_append [of segs "[]"] by simp_all
  then show ?thesis
    unfolding fromBackingPath_def checked_abs_path [OF assms] bind_result.simps by simp
qed

text \<open>Whatever path a caller names, the key the backing store finally uses lies in the namespace.\<close>

lemma toBacking_confined:
  assumes "list_all good_segment rsegs" "no_trailing_space rsegs"
    and "toBacking (abs_path rsegs) p = Inr b" "checked_path b = Inr k"
  shows "\<exists>segs. k = abs_path (rsegs @ segs) \<and> list_all good_segment segs"
proof -
  obtain n where n: "checked_path p = Inr n"
    and b: "b = (if n = ''/workspace'' then abs_path rsegs else abs_path rsegs @ drop (length ''/workspace'') n)"
    using assms(3) by (auto simp: toBacking_def result_simps)
  obtain segs where segs: "n = abs_path segs" "list_all good_segment segs"
    using normalize_Inr_canonical [of p n] n by (auto simp: checked_path_def split: sum.splits)
  show ?thesis
  proof (cases segs rule: rev_cases)
    case Nil
    with segs b have "b = abs_path rsegs" by simp
    then have "k = abs_path (rsegs @ [])" using checked_abs_path [OF assms(1,2)] assms(4) by simp
    then show ?thesis by (intro exI [of _ "[]"]) simp
  next
    case (snoc ss s)
    then obtain t ts where "segs = t # ts" by (metis Nil_is_append_conv neq_Nil_conv not_Cons_self2)
    then have "n = ''/workspace/'' @ join ''/'' segs" by (simp add: segs abs_path_Cons)
    then have "b = abs_path (rsegs @ segs)"
      using b abs_path_append [of segs rsegs] snoc by simp
    moreover have "list_all good_segment ((rsegs @ ss) @ [s])" using assms(1) segs snoc by simp
    ultimately obtain ext where "k = abs_path ((rsegs @ ss) @ ext)" "list_all good_segment ext"
      using normalize_abs_path_cases [of "rsegs @ ss" s k] assms(4) snoc
      by (auto simp: checked_path_def split: sum.splits)
    then show ?thesis using segs snoc by (intro exI [of _ "ss @ ext"]) simp
  qed
qed


section \<open>A profile is a workspace, and profiles are isolated\<close>

locale profile_port = workspace_port +
  fixes rsegs :: "string list"
  assumes root_good: "list_all good_segment rsegs" and root_trailing: "no_trailing_space rsegs"
begin

lemma backing_address:
  "address p \<Longrightarrow> \<exists>segs. p = abs_path segs \<and> list_all good_segment segs \<and> segs \<noteq> []
    \<and> toBacking (abs_path rsegs) p = Inr (abs_path (rsegs @ segs)) \<and> address (abs_path (rsegs @ segs))
    \<and> fromBackingPath (abs_path rsegs) (abs_path (rsegs @ segs)) = Inr p"
proof -
  assume "address p"
  then obtain segs where segs: "p = abs_path segs" "list_all good_segment segs" "segs \<noteq> []" "no_trailing_space segs"
    by (auto simp: address_iff)
  then have all: "list_all good_segment (rsegs @ segs)" "no_trailing_space (rsegs @ segs)"
    using root_good by (auto simp: no_trailing_space_def)
  with segs have "address (abs_path (rsegs @ segs))" by (auto simp: address_iff)
  with segs all show ?thesis
    using toBacking_abs_path [OF segs(2,4)] fromBackingPath_abs_path [OF all] by blast
qed

lemma prof_read_unfold:
  assumes "inv w" "address p"
  obtains b where "toBacking (abs_path rsegs) p = Inr b" "address b"
    "fromBackingPath (abs_path rsegs) b = Inr p"
    "\<And>f. rd w b = Inr f \<Longrightarrow>
       prof_read rd (abs_path rsegs) w p = Inr (map_option (\<lambda>f. f\<lparr>wf_path := p\<rparr>) f)"
proof -
  obtain b where b: "toBacking (abs_path rsegs) p = Inr b" "address b"
    "fromBackingPath (abs_path rsegs) b = Inr p"
    using backing_address [OF assms(2)] by blast
  moreover have "prof_read rd (abs_path rsegs) w p = Inr (map_option (\<lambda>f. f\<lparr>wf_path := p\<rparr>) f)"
    if "rd w b = Inr f" for f
    using that b read_path [OF assms(1) b(2)]
    by (cases f) (auto simp: prof_read_def fromBacking_def)
  ultimately show ?thesis using that by blast
qed

lemma backing_distinct:
  assumes "address p" "address q" "p \<noteq> q" "toBacking (abs_path rsegs) p = Inr b" "toBacking (abs_path rsegs) q = Inr d"
  shows "b \<noteq> d"
  using backing_address [OF assms(1)] backing_address [OF assms(2)] assms(3-5) by auto

lemma matches_path: "matches (map_option (\<lambda>f. f\<lparr>wf_path := p\<rparr>) f) x \<longleftrightarrow> matches f x"
  by (cases f; cases x) (auto simp: matches_def checkRevision_def)

lemma prof_frame:
  assumes "inv w" "inv w'" "address q" "address p" "q \<noteq> p"
    and "toBacking (abs_path rsegs) p = Inr b" "\<forall>d. address d \<and> d \<noteq> b \<longrightarrow> rd w' d = rd w d"
  shows "prof_read rd (abs_path rsegs) w' q = prof_read rd (abs_path rsegs) w q"
proof -
  obtain d where d: "toBacking (abs_path rsegs) q = Inr d" "address d"
    using backing_address [OF assms(3)] by blast
  then have "d \<noteq> b" using backing_distinct assms(3-6) by metis
  with assms(7) d show ?thesis by (simp add: prof_read_def)
qed

end

sublocale profile_port \<subseteq> prof: workspace_port inv "prof_read rd (abs_path rsegs)"
  "prof_write wr (abs_path rsegs)" "prof_remove rm (abs_path rsegs)"
proof (unfold_locales, goal_cases)
  case (1 w p)
  then show ?case using prof_read_unfold read_total by metis
next
  case (2 w p h)
  obtain b where b: "address b"
    and r: "\<And>f. rd w b = Inr f \<Longrightarrow> prof_read rd (abs_path rsegs) w p = Inr (map_option (\<lambda>f. f\<lparr>wf_path := p\<rparr>) f)"
    using prof_read_unfold [OF 2(1,2)] by blast
  obtain f where "rd w b = Inr f" using read_total 2(1) b by blast
  with r 2(3) show ?case by (cases f) auto
next
  case (3 w p f c x st)
  obtain b where b: "toBacking (abs_path rsegs) p = Inr b" "address b" "fromBackingPath (abs_path rsegs) b = Inr p"
    and r: "\<And>f. rd w b = Inr f \<Longrightarrow> prof_read rd (abs_path rsegs) w p = Inr (map_option (\<lambda>f. f\<lparr>wf_path := p\<rparr>) f)"
    using prof_read_unfold [OF 3(1,2)] by blast
  obtain f' where f': "rd w b = Inr f'" using read_total 3(1) b(2) by blast
  have "wf_path (new_file b c st) = b" by (simp add: new_file_def)
  then have "is_ok (prof_write wr (abs_path rsegs) w p c x st) \<longleftrightarrow> is_ok (wr w b c x st)"
    using b(1,3) write_stores [OF 3(1) b(2), of c x st]
    by (cases "wr w b c x st") (auto simp: prof_write_def fromBacking_def)
  then show ?case
    using 3 f' r [OF f'] write_accepts [OF 3(1) b(2) f', of c x st] matches_path [of p f' x] by auto
next
  case (4 w p c x st g w')
  obtain b where b: "toBacking (abs_path rsegs) p = Inr b" "address b" "fromBackingPath (abs_path rsegs) b = Inr p"
    using backing_address [OF 4(2)] by blast
  obtain f where f: "wr w b c x st = Inr (f, w')" "fromBacking (abs_path rsegs) f = Inr g"
    using 4(3) b by (auto simp: prof_write_def result_simps)
  note stored = write_stores [OF 4(1) b(2) f(1)]
  then have g: "g = new_file p c st" using f(2) b(3) by (auto simp: fromBacking_def new_file_def)
  have inv': "inv w'" using stored by simp
  have "prof_read rd (abs_path rsegs) w' p = Inr (Some g)"
    using stored b f(2) by (simp add: prof_read_def)
  moreover have "prof_read rd (abs_path rsegs) w' q = prof_read rd (abs_path rsegs) w q"
    if "address q" "q \<noteq> p" for q
    using prof_frame [OF 4(1) inv' that(1) 4(2) that(2) b(1)] stored by blast
  ultimately show ?case using inv' g by blast
next
  case (5 w p f x)
  obtain b where b: "toBacking (abs_path rsegs) p = Inr b" "address b"
    and r: "\<And>f. rd w b = Inr f \<Longrightarrow> prof_read rd (abs_path rsegs) w p = Inr (map_option (\<lambda>f. f\<lparr>wf_path := p\<rparr>) f)"
    using prof_read_unfold [OF 5(1,2)] by blast
  obtain f' where f': "rd w b = Inr f'" using read_total 5(1) b(2) by blast
  then show ?case
    using 5(3) b(1) r [OF f'] remove_accepts [OF 5(1) b(2) f', of x] matches_path [of p f' x]
    by (auto simp: prof_remove_def)
next
  case (6 w p x w')
  obtain b where b: "toBacking (abs_path rsegs) p = Inr b" "address b"
    using backing_address [OF 6(2)] by blast
  have "rm w b x = Inr w'" using 6(3) b by (simp add: prof_remove_def)
  note erased = remove_erases [OF 6(1) b(2) this]
  then have "prof_read rd (abs_path rsegs) w' p = Inr None" using b by (simp add: prof_read_def)
  moreover have "prof_read rd (abs_path rsegs) w' q = prof_read rd (abs_path rsegs) w q"
    if "address q" "q \<noteq> p" for q
    using prof_frame [OF 6(1) _ that(1) 6(2) that(2) b(1)] erased by blast
  ultimately show ?case using erased by blast
qed

interpretation profile: profile_port files_ok mem_read mem_write mem_remove "profile_segs pid" for pid
  by unfold_locales (rule profile_segs_good, rule profile_segs_trailing)


lemma mem_write_key:
  "mem_write fs b c x st = Inr (f, fs') \<Longrightarrow> \<exists>k. checked_path b = Inr k \<and> fs' = AList.update k f fs"
  by (auto simp: mem_write_def result_simps Let_def split: if_splits)

lemma mem_remove_key:
  "mem_remove fs b x = Inr fs' \<Longrightarrow> \<exists>k. checked_path b = Inr k \<and> (fs' = fs \<or> fs' = AList.delete k fs)"
  by (auto simp: mem_remove_def result_simps split: option.splits)

lemma namespaces_disjoint:
  "list_all good_segment s \<Longrightarrow> list_all good_segment t \<Longrightarrow> a \<noteq> b \<Longrightarrow>
    abs_path (profile_segs a @ s) \<noteq> abs_path (profile_segs b @ t)"
  using abs_path_inject [of "profile_segs a @ s" "profile_segs b @ t"] profile_segs_good profile_segs_inject [of a b]
  by (auto simp: profile_segs_def)

text \<open>A read through one profile is untouched by a change of a key in another profile's namespace.\<close>

lemma read_other_namespace:
  assumes "a \<noteq> b" "list_all good_segment s"
    and "\<And>k. k \<noteq> abs_path (profile_segs a @ s) \<Longrightarrow> map_of fs' k = map_of fs k"
  shows "prof_read mem_read (abs_path (profile_segs b)) fs' q = prof_read mem_read (abs_path (profile_segs b)) fs q"
proof (cases "toBacking (abs_path (profile_segs b)) q")
  case (Inr d)
  have "mem_read fs' d = mem_read fs d"
  proof (cases "checked_path d")
    case (Inr k)
    with toBacking_confined [OF profile_segs_good profile_segs_trailing \<open>toBacking _ q = Inr d\<close>]
    obtain t where "k = abs_path (profile_segs b @ t)" "list_all good_segment t" by blast
    with namespaces_disjoint [of s t a b] assms have "map_of fs' k = map_of fs k" by metis
    with Inr show ?thesis by (simp add: mem_read_def)
  qed (simp add: mem_read_def)
  with Inr show ?thesis by (simp add: prof_read_def)
qed (simp add: prof_read_def)

section \<open>Properties\<close>

text \<open>C16: Profiles are isolated. Nothing a port of one profile writes or removes, under any path
  whatever, changes what a port of a profile with a different identity reads under any path.\<close>

theorem profile_isolation:
  assumes "normalizeProfileId ida = Inr a" "normalizeProfileId idb = Inr b" "a \<noteq> b"
    and "ProfileWorkspacePort ida = Inr ra" "ProfileWorkspacePort idb = Inr rb"
  shows "(\<forall>f fs'. prof_write mem_write ra fs p c x st = Inr (f, fs') \<longrightarrow>
      prof_read mem_read rb fs' q = prof_read mem_read rb fs q) \<and>
    (\<forall>fs'. prof_remove mem_remove ra fs p x = Inr fs' \<longrightarrow>
      prof_read mem_read rb fs' q = prof_read mem_read rb fs q)"
proof -
  have ra: "ra = abs_path (profile_segs a)" and rb: "rb = abs_path (profile_segs b)"
    using assms by (auto simp: ProfileWorkspacePort_root)
  note confined = toBacking_confined [OF profile_segs_good profile_segs_trailing]
  have "prof_read mem_read rb fs' q = prof_read mem_read rb fs q"
    if w: "prof_write mem_write ra fs p c x st = Inr (f, fs')" for f fs'
  proof -
    obtain d g where d: "toBacking ra p = Inr d" "mem_write fs d c x st = Inr (g, fs')"
      using w by (auto simp: prof_write_def result_simps split: prod.splits)
    then obtain k where k: "checked_path d = Inr k" "fs' = AList.update k g fs"
      using mem_write_key by blast
    then obtain s where s: "k = abs_path (profile_segs a @ s)" "list_all good_segment s"
      using confined d(1) ra by blast
    show ?thesis unfolding rb
      by (rule read_other_namespace [OF assms(3) s(2)]) (simp add: k(2) s(1) update_conv')
  qed
  moreover have "prof_read mem_read rb fs' q = prof_read mem_read rb fs q"
    if r: "prof_remove mem_remove ra fs p x = Inr fs'" for fs'
  proof -
    obtain d where d: "toBacking ra p = Inr d" "mem_remove fs d x = Inr fs'"
      using r by (auto simp: prof_remove_def result_simps)
    then obtain k where k: "checked_path d = Inr k" "fs' = fs \<or> fs' = AList.delete k fs"
      using mem_remove_key by blast
    then obtain s where s: "k = abs_path (profile_segs a @ s)" "list_all good_segment s"
      using confined d(1) ra by blast
    show ?thesis unfolding rb
      by (rule read_other_namespace [OF assms(3) s(2)]) (use k(2) s(1) in \<open>auto simp: delete_conv'\<close>)
  qed
  ultimately show ?thesis by blast
qed

theorem profile_isolation_witness:
  "\<exists>f fs'. prof_write mem_write ''/workspace/.airship/profile-workspaces/v1/p-a'' [] ''/workspace/x'' ''c''
      MustBeAbsent (''r'', ''t'') = Inr (f, fs')
    \<and> prof_read mem_read ''/workspace/.airship/profile-workspaces/v1/p-b'' fs' ''/workspace/x'' = Inr None"
proof -
  have ids: "normalizeProfileId ''a'' = Inr ''a''" "normalizeProfileId ''b'' = Inr ''b''"
    and ports: "ProfileWorkspacePort ''a'' = Inr ''/workspace/.airship/profile-workspaces/v1/p-a''"
      "ProfileWorkspacePort ''b'' = Inr ''/workspace/.airship/profile-workspaces/v1/p-b''"
    and r: "prof_read mem_read ''/workspace/.airship/profile-workspaces/v1/p-b'' [] ''/workspace/x'' = Inr None"
    and ok: "is_ok (prof_write mem_write ''/workspace/.airship/profile-workspaces/v1/p-a'' [] ''/workspace/x'' ''c''
      MustBeAbsent (''r'', ''t''))"
    by code_simp+
  then obtain f fs' where w: "prof_write mem_write ''/workspace/.airship/profile-workspaces/v1/p-a'' []
      ''/workspace/x'' ''c'' MustBeAbsent (''r'', ''t'') = Inr (f, fs')"
    by (auto simp: is_ok_iff)
  with profile_isolation [OF ids _ ports] r show ?thesis by fastforce
qed

text \<open>C27: A profile's port is itself a workspace with the compare-and-swap contract of the store
  behind it: on addresses a write succeeds exactly when the expected revision accepts the file the
  profile sees, the file it returns and stores carries the profile's own path, and other addresses
  of the profile are unchanged.\<close>

theorem profile_compare_and_swap:
  assumes "files_ok fs" "address p" "ProfileWorkspacePort ident = Inr root"
    and "prof_read mem_read root fs p = Inr cur"
  shows "(is_ok (prof_write mem_write root fs p c x st) \<longleftrightarrow> matches cur x) \<and>
    (is_ok (prof_remove mem_remove root fs p x) \<longleftrightarrow> cur = None \<or> matches cur x) \<and>
    (\<forall>f fs' q. prof_write mem_write root fs p c x st = Inr (f, fs') \<and> address q \<longrightarrow>
      prof_read mem_read root fs' q = (if q = p then Inr (Some (new_file p c st)) else prof_read mem_read root fs q)) \<and>
    (\<forall>fs' q. prof_remove mem_remove root fs p x = Inr fs' \<and> address q \<longrightarrow>
      prof_read mem_read root fs' q = (if q = p then Inr None else prof_read mem_read root fs q))"
proof -
  obtain pid where "root = abs_path (profile_segs pid)"
    using assms(3) by (auto simp: ProfileWorkspacePort_root)
  with assms show ?thesis
    using profile.prof.write_accepts [OF assms(1,2), of pid cur c x st]
      profile.prof.remove_accepts [OF assms(1,2), of pid cur x]
      profile.prof.write_stores [OF assms(1,2), of pid c x st]
      profile.prof.remove_erases [OF assms(1,2), of pid x]
    by auto
qed

theorem profile_compare_and_swap_witness:
  "\<not> is_ok (prof_write mem_write ''/workspace/.airship/profile-workspaces/v1/p-a'' [] ''/workspace/x'' ''c''
     (MustBe ''r0'') (''r'', ''t''))"
proof -
  have a: "address ''/workspace/x''"
    and p: "ProfileWorkspacePort ''a'' = Inr ''/workspace/.airship/profile-workspaces/v1/p-a''"
    and r: "prof_read mem_read ''/workspace/.airship/profile-workspaces/v1/p-a'' [] ''/workspace/x'' = Inr None"
    and m: "\<not> matches None (MustBe ''r0'')"
    by code_simp+
  show ?thesis using profile_compare_and_swap [OF files_ok_empty a p r] m by blast
qed

end
