(* ===== verification/Json.thy ===== *)
theory Json
  imports Prelude
begin

text \<open>
  JSON values and their canonical text (\<open>core/hash.ts\<close>: \<open>stableStringify\<close>, the preimage of every
  digest), and the admission test that keeps everything else out of the journal
  (\<open>core/journal.ts\<close>: \<open>isJsonValue\<close>).

  Numbers are integers, which are the numbers the journal itself writes. An object is its entries in
  order. A value handed in by a caller may be something JSON cannot hold; \<open>js_value\<close> has a
  constructor for each such thing, and a reference to an object that encloses it is \<open>Back k\<close>, \<open>k\<close>
  levels up: the walk of \<open>isJsonValue\<close> stops exactly there, so a cyclic graph is represented by its
  unfolding cut at those references.
\<close>

datatype json =
    JNull | JBool bool | JNum int | JStr string
  | JArr "json list" | JObj "(string \<times> json) list"

datatype js_value =
    VUndefined | VNull | VBool bool | VNum int | VNonFinite | VBigInt int | VStr string
  | VArr "js_value list" | VObj "(string \<times> js_value) list" | VExotic | VBack nat

section \<open>Text\<close>

definition digit_char :: "nat \<Rightarrow> char" where
  "digit_char n = char_of (48 + n)"

fun dec_nat :: "nat \<Rightarrow> string" where
  "dec_nat n = (if n < 10 then [digit_char n] else dec_nat (n div 10) @ [digit_char (n mod 10)])"

definition dec_int :: "int \<Rightarrow> string" where
  "dec_int i = (if i < 0 then CHR ''-'' # dec_nat (nat (- i)) else dec_nat (nat i))"

definition hex_lower :: "nat \<Rightarrow> char" where
  "hex_lower n = (if n < 10 then char_of (48 + n) else char_of (87 + n))"

text \<open>The escapes \<open>JSON.stringify\<close> writes inside a string.\<close>

definition json_short_escapes :: "(char \<times> char) list" where
  "json_short_escapes =
    [(CHR 0x22, CHR 0x22), (CHR 0x5C, CHR 0x5C), (CHR 0x08, CHR ''b''), (CHR 0x0C, CHR ''f''),
     (CHR 0x0A, CHR ''n''), (CHR 0x0D, CHR ''r''), (CHR 0x09, CHR ''t'')]"

definition json_escape :: "char \<Rightarrow> string" where
  "json_escape c =
    (case map_of json_short_escapes c of
       Some l \<Rightarrow> [CHR 0x5C, l]
     | None \<Rightarrow> let n = of_char c :: nat in
         if n < 32 then [CHR 0x5C, CHR ''u'', CHR ''0'', CHR ''0'', hex_lower (n div 16), hex_lower (n mod 16)]
         else [c])"

definition json_quote :: "string \<Rightarrow> string" where
  "json_quote s = CHR 0x22 # concat (map json_escape s) @ [CHR 0x22]"

definition cmp_keys :: "string \<times> 'a \<Rightarrow> string \<times> 'a \<Rightarrow> int" where
  "cmp_keys l r = code_unit_cmp (fst l) (fst r)"

lemma size_json_entry: "e \<in> set es \<Longrightarrow> size (snd e) < Suc (size_list (size_prod (\<lambda>_. 0) size) es)"
  by (induction es) auto

lemma size_json_item: "v \<in> set vs \<Longrightarrow> size v < Suc (size_list size vs)"
  by (induction vs) auto

function (sequential) stableStringify :: "json \<Rightarrow> string" where
  "stableStringify JNull = ''null''"
| "stableStringify (JBool b) = (if b then ''true'' else ''false'')"
| "stableStringify (JNum i) = dec_int i"
| "stableStringify (JStr s) = json_quote s"
| "stableStringify (JArr vs) = CHR ''['' # join '','' (map stableStringify vs) @ '']''"
| "stableStringify (JObj es) =
     CHR ''{'' # join '','' (map (\<lambda>e. json_quote (fst e) @ CHR '':'' # stableStringify (snd e))
       (sort_by cmp_keys es)) @ ''}''"
  by pat_completeness auto
termination
  by (relation "measure size") (auto intro: size_json_item size_json_entry)

text \<open>\<open>String(value)\<close> of a JSON value.\<close>

fun js_String :: "json \<Rightarrow> string" where
  "js_String JNull = ''null''"
| "js_String (JBool b) = (if b then ''true'' else ''false'')"
| "js_String (JNum i) = dec_int i"
| "js_String (JStr s) = s"
| "js_String (JArr vs) = join '','' (map (\<lambda>v. if v = JNull then [] else js_String v) vs)"
| "js_String (JObj es) = ''[object Object]''"

text \<open>Reading a property: \<open>record?.key\<close>, undefined on anything that is not a plain object.\<close>

fun obj_get :: "string \<Rightarrow> json \<Rightarrow> json option" where
  "obj_get k (JObj es) = map_of es k"
| "obj_get k _ = None"

section \<open>Admission\<close>

text \<open>
  The walk keeps a stack of visits; \<open>Exit\<close> closes the object whose children were pushed above it.
\<close>

datatype visit = Visit js_value | Exit

fun visit_size :: "visit \<Rightarrow> nat" where
  "visit_size (Visit v) = 2 * size v + 2"
| "visit_size Exit = 1"

lemma visit_children_size:
  "sum_list (map (visit_size \<circ> Visit) vs) \<le> 2 * size_list size vs"
  "sum_list (map (visit_size \<circ> Visit \<circ> snd) es) \<le> 2 * size_list (size_prod (\<lambda>_. 0) size) es"
  by (induction vs) (simp, auto, induction es, auto)

function (sequential) isJsonValue_loop :: "visit list \<Rightarrow> bool" where
  "isJsonValue_loop [] = True"
| "isJsonValue_loop (Exit # pending) = isJsonValue_loop pending"
| "isJsonValue_loop (Visit v # pending) =
    (case v of
       VNull \<Rightarrow> isJsonValue_loop pending
     | VStr _ \<Rightarrow> isJsonValue_loop pending
     | VBool _ \<Rightarrow> isJsonValue_loop pending
     | VNum _ \<Rightarrow> isJsonValue_loop pending
     | VNonFinite \<Rightarrow> False
     | VUndefined \<Rightarrow> False
     | VBigInt _ \<Rightarrow> False
     | VBack _ \<Rightarrow> False
     | VExotic \<Rightarrow> False
     | VArr vs \<Rightarrow> isJsonValue_loop (map Visit vs @ Exit # pending)
     | VObj es \<Rightarrow> isJsonValue_loop (map (Visit \<circ> snd) es @ Exit # pending))"
  by pat_completeness auto
termination
proof (relation "measure (\<lambda>p. sum_list (map visit_size p))", goal_cases)
  case (7 v pending vs)
  then show ?case using visit_children_size(1) [of vs] by simp
next
  case (8 v pending es)
  then show ?case using visit_children_size(2) [of es] by (simp add: comp_assoc)
qed auto

definition isJsonValue :: "js_value \<Rightarrow> bool" where
  "isJsonValue v = isJsonValue_loop [Visit v]"

text \<open>The JSON value an admitted value is, and the value of a JSON value.\<close>

fun to_json :: "js_value \<Rightarrow> json" where
  "to_json (VBool b) = JBool b"
| "to_json (VNum i) = JNum i"
| "to_json (VStr s) = JStr s"
| "to_json (VArr vs) = JArr (map to_json vs)"
| "to_json (VObj es) = JObj (map (\<lambda>e. (fst e, to_json (snd e))) es)"
| "to_json _ = JNull"

fun of_json :: "json \<Rightarrow> js_value" where
  "of_json JNull = VNull"
| "of_json (JBool b) = VBool b"
| "of_json (JNum i) = VNum i"
| "of_json (JStr s) = VStr s"
| "of_json (JArr vs) = VArr (map of_json vs)"
| "of_json (JObj es) = VObj (map (\<lambda>e. (fst e, of_json (snd e))) es)"

section \<open>What the admission test admits\<close>

definition admitted :: "js_value \<Rightarrow> bool" where
  "admitted v \<longleftrightarrow> of_json (to_json v) = v"

lemma map_id_iff: "map f xs = xs \<longleftrightarrow> (\<forall>x\<in>set xs. f x = x)"
  by (induction xs) auto

lemma admitted_simps [simp]:
  "admitted VNull" "admitted (VBool b)" "admitted (VNum i)" "admitted (VStr s)"
  "\<not> admitted VNonFinite" "\<not> admitted VUndefined" "\<not> admitted (VBigInt i)"
  "\<not> admitted VExotic" "\<not> admitted (VBack k)"
  "admitted (VArr vs) \<longleftrightarrow> list_all admitted vs"
  "admitted (VObj es) \<longleftrightarrow> list_all (admitted \<circ> snd) es"
  by (auto simp: admitted_def list_all_iff map_id_iff prod_eq_iff)

lemma isJsonValue_loop_iff:
  "isJsonValue_loop pending \<longleftrightarrow> list_all (\<lambda>p. case p of Exit \<Rightarrow> True | Visit v \<Rightarrow> admitted v) pending"
proof (induction pending rule: isJsonValue_loop.induct)
  case (3 v pending)
  then show ?case
    by (cases v) (simp_all add: list.pred_map comp_def)
qed simp_all

lemma of_json_inverse [simp]: "to_json (of_json j) = j"
  by (induction j) (auto intro!: map_idI simp: prod_eq_iff prod_set_defs)

lemma isJsonValue_admitted: "isJsonValue v \<longleftrightarrow> admitted v"
  by (simp add: isJsonValue_def isJsonValue_loop_iff)

section \<open>The canonical text determines the value\<close>

subsection \<open>Numbers\<close>

definition digit_value :: "char \<Rightarrow> nat" where
  "digit_value c = of_char c - 48"

lemma digit_char_value: "n < 10 \<Longrightarrow> digit_value (digit_char n) = n" "n < 10 \<Longrightarrow> is_digit (digit_char n)"
  by (auto simp: digit_value_def digit_char_def is_digit_def)

lemmas dec_nat_rec = dec_nat.simps
declare dec_nat.simps [simp del]

lemma dec_nat_digits: "c \<in> set (dec_nat n) \<Longrightarrow> is_digit c"
proof (induction n rule: dec_nat.induct)
  case (1 n)
  then show ?case
    by (subst (asm) dec_nat_rec) (auto simp: digit_char_value split: if_splits)
qed

lemma dec_nat_not_Nil [simp]: "dec_nat n \<noteq> []"
  by (subst dec_nat_rec) simp

lemma dec_nat_value: "foldl (\<lambda>a c. 10 * a + digit_value c) 0 (dec_nat n) = n"
proof (induction n rule: dec_nat.induct)
  case (1 n)
  then show ?case
    by (subst dec_nat_rec) (auto simp: digit_char_value)
qed

lemma dec_nat_inject: "dec_nat m = dec_nat n \<longleftrightarrow> m = n"
  by (metis dec_nat_value)

text \<open>What may follow a value: the end of the text or a separator.\<close>

definition delim :: "string \<Rightarrow> bool" where
  "delim r \<longleftrightarrow> (case r of [] \<Rightarrow> True | c # _ \<Rightarrow> c = CHR '','' \<or> c = CHR '']'' \<or> c = CHR ''}'')"

lemma delim_simps [simp]: "delim []" "delim (CHR '','' # r)" "delim (CHR '']'' # r)" "delim (CHR ''}'' # r)"
  by (auto simp: delim_def)

lemma takeWhile_digits: "delim r \<Longrightarrow> takeWhile is_digit (dec_nat n @ r) = dec_nat n"
proof -
  assume "delim r"
  then have "takeWhile is_digit r = []"
    by (cases r) (auto simp: delim_def is_digit_def)
  then show ?thesis
    by (simp add: takeWhile_append2 dec_nat_digits)
qed

lemma dec_nat_prefix:
  assumes "dec_nat m @ r = dec_nat n @ s" "delim r" "delim s"
  shows "m = n \<and> r = s"
  by (metis assms takeWhile_digits dec_nat_inject same_append_eq)

lemma dec_nat_hd: "is_digit (hd (dec_nat n))"
  by (rule dec_nat_digits [of _ n]) simp

lemma dec_int_prefix:
  assumes "dec_int i @ r = dec_int j @ s" "delim r" "delim s"
  shows "i = j \<and> r = s"
proof -
  have minus: "\<not> is_digit (CHR ''-'')" by (simp add: is_digit_def)
  have *: "CHR ''-'' # x \<noteq> dec_nat n @ y" for x n y
    by (metis append_is_Nil_conv dec_nat_hd dec_nat_not_Nil hd_append2 list.sel(1) minus)
  show ?thesis
  proof (cases "i < 0"; cases "j < 0")
    assume "i < 0" "j < 0"
    with assms show ?thesis
      using dec_nat_prefix [of "nat (- i)" r "nat (- j)" s] by (simp add: dec_int_def eq_nat_nat_iff)
  next
    assume "\<not> i < 0" "\<not> j < 0"
    with assms show ?thesis
      using dec_nat_prefix [of "nat i" r "nat j" s] by (simp add: dec_int_def eq_nat_nat_iff)
  qed (use assms(1) * in \<open>simp_all add: dec_int_def, metis+\<close>)
qed

subsection \<open>Strings\<close>

lemma hex_lower_inject: "m < 16 \<Longrightarrow> n < 16 \<Longrightarrow> hex_lower m = hex_lower n \<longleftrightarrow> m = n"
proof -
  assume "m < 16" "n < 16"
  then have "(of_char (hex_lower m) :: nat) = (if m < 10 then 48 + m else 87 + m)"
    "(of_char (hex_lower n) :: nat) = (if n < 10 then 48 + n else 87 + n)"
    by (auto simp: hex_lower_def)
  then show ?thesis
    using of_char_nat_inject [of "hex_lower m" "hex_lower n"] by (simp split: if_splits)
qed

lemma div_mod_16_inject: "m div 16 = n div 16 \<Longrightarrow> m mod 16 = n mod 16 \<Longrightarrow> m = (n :: nat)"
  by (metis div_mult_mod_eq)

lemma json_short_inject:
  "map_of json_short_escapes c = Some l \<Longrightarrow> map_of json_short_escapes d = Some l \<Longrightarrow> c = d"
proof -
  assume a: "map_of json_short_escapes c = Some l" "map_of json_short_escapes d = Some l"
  have "distinct (map snd json_short_escapes)"
    by (simp add: json_short_escapes_def)
  then show ?thesis
    using a map_of_SomeD by (metis distinct_map inj_onD prod.inject snd_conv)
qed

lemma json_short_not_u: "map_of json_short_escapes c \<noteq> Some (CHR ''u'')"
proof
  assume "map_of json_short_escapes c = Some (CHR ''u'')"
  then have "CHR ''u'' \<in> snd ` set json_short_escapes"
    by (metis map_of_SomeD image_eqI snd_conv)
  then show False by (simp add: json_short_escapes_def)
qed

lemma json_short_quote:
  "map_of json_short_escapes (CHR 0x22) \<noteq> None" "map_of json_short_escapes (CHR 0x5C) \<noteq> None"
  by (simp_all add: json_short_escapes_def)

lemma json_escape_cases:
  obtains (letter) l where "json_escape c = [CHR 0x5C, l]" "l \<noteq> CHR ''u''" "map_of json_short_escapes c = Some l"
  | (code) "json_escape c = [CHR 0x5C, CHR ''u'', CHR ''0'', CHR ''0'',
      hex_lower (of_char c div 16), hex_lower (of_char c mod 16)]" "(of_char c :: nat) < 32"
  | (plain) "json_escape c = [c]" "c \<noteq> CHR 0x5C" "c \<noteq> CHR 0x22"
proof (cases "map_of json_short_escapes c")
  case None
  then have "c \<noteq> CHR 0x5C" "c \<noteq> CHR 0x22"
    using json_short_quote by metis+
  with None code plain show thesis
    by (cases "(of_char c :: nat) < 32") (simp_all add: json_escape_def Let_def)
next
  case (Some l)
  then have "json_escape c = [CHR 0x5C, l]" "l \<noteq> CHR ''u''"
    using json_short_not_u by (auto simp: json_escape_def)
  with Some letter show thesis by blast
qed

lemma json_escape_prefix: "json_escape c @ x = json_escape d @ y \<Longrightarrow> c = d \<and> x = y"
proof -
  assume eq: "json_escape c @ x = json_escape d @ y"
  show ?thesis
  proof (cases c rule: json_escape_cases)
    case (letter l)
    with eq show ?thesis
      by (cases d rule: json_escape_cases) (simp_all, metis json_short_inject)
  next
    case code
    show ?thesis
    proof (cases d rule: json_escape_cases)
      case code': code
      have hex: "hex_lower (of_char c div 16) = hex_lower (of_char d div 16)"
        "hex_lower (of_char c mod 16) = hex_lower (of_char d mod 16)" and "x = y"
        using eq code(1) code'(1) by simp_all
      have "(of_char c :: nat) div 16 < 16" "(of_char d :: nat) div 16 < 16"
        using code(2) code'(2) by simp_all
      then have "(of_char c :: nat) div 16 = of_char d div 16" "(of_char c :: nat) mod 16 = of_char d mod 16"
        using hex hex_lower_inject by simp_all
      then have "(of_char c :: nat) = of_char d"
        by (rule div_mod_16_inject)
      with \<open>x = y\<close> show ?thesis by simp
    qed (use eq code in simp_all)
  next
    case plain
    with eq show ?thesis
      by (cases d rule: json_escape_cases) simp_all
  qed
qed

lemma json_escape_hd: "json_escape c @ x \<noteq> CHR 0x22 # y"
  by (cases c rule: json_escape_cases) simp_all

lemma json_body_prefix:
  "concat (map json_escape s) @ CHR 0x22 # x = concat (map json_escape t) @ CHR 0x22 # y \<Longrightarrow> s = t \<and> x = y"
proof (induction s arbitrary: t)
  case Nil
  then show ?case
    by (cases t) (auto simp: json_escape_hd [symmetric])
next
  case (Cons c s)
  then obtain d t' where t: "t = d # t'"
    by (cases t) (auto simp: json_escape_hd)
  with Cons.prems have "json_escape c @ concat (map json_escape s) @ CHR 0x22 # x =
      json_escape d @ concat (map json_escape t') @ CHR 0x22 # y"
    by simp
  then have "c = d" "concat (map json_escape s) @ CHR 0x22 # x = concat (map json_escape t') @ CHR 0x22 # y"
    using json_escape_prefix by blast+
  with Cons.IH t show ?case by simp
qed

lemma json_quote_prefix: "json_quote s @ x = json_quote t @ y \<Longrightarrow> s = t \<and> x = y"
  unfolding json_quote_def append_Cons append_assoc append_Nil list.inject
  by (drule conjunct2) (rule json_body_prefix)

subsection \<open>Lists of items\<close>

lemma join_map_Cons:
  "join sep (map e (x # xs)) @ r = e x @ (if xs = [] then r else sep @ join sep (map e xs) @ r)"
  by (cases xs) auto

text \<open>
  A comma-separated list of items, each of which can be told from what follows it, closed by a
  bracket no item starts with, determines the items.
\<close>

lemma join_items_prefix:
  assumes c: "c \<noteq> CHR '',''" "delim [c]"
    and start: "\<And>x s. e x \<noteq> [] \<and> hd (e x) \<noteq> c"
    and item: "\<And>x y r s. x \<in> set xs \<Longrightarrow> delim r \<Longrightarrow> delim s \<Longrightarrow> e x @ r = e y @ s \<Longrightarrow> g x = g y \<and> r = s"
    and eq: "join '','' (map e xs) @ c # r = join '','' (map e ys) @ c # s"
  shows "map g xs = map g ys \<and> r = s"
  using item eq
proof (induction xs arbitrary: ys)
  case Nil
  have "c # r \<noteq> e y @ z" for y z
    using start [of y] by (cases "e y") auto
  with Nil.prems(2) show ?case
    by (cases ys) (auto simp del: list.map(2) simp: join_map_Cons)
next
  case (Cons x xs)
  have "e x @ z \<noteq> c # s" for z
    using start [of x] by (cases "e x") auto
  with Cons.prems(2) obtain y ys' where ys: "ys = y # ys'"
    by (cases ys) (auto simp del: list.map(2) simp: join_map_Cons)
  define rest where "rest us v = (if us = [] then c # v else '','' @ join '','' (map e us) @ c # v)" for us v
  have delim: "delim (rest us v)" for us v
    using c(2) by (cases us) (simp_all add: rest_def delim_def)
  have "e x @ rest xs r = e y @ rest ys' s"
    using Cons.prems(2) ys by (simp only: join_map_Cons rest_def)
  then have *: "g x = g y" "rest xs r = rest ys' s"
    using Cons.prems(1) [of x "rest xs r" "rest ys' s" y] delim by simp_all
  then have "join '','' (map e xs) @ c # r = join '','' (map e ys') @ c # s"
    using c(1) by (cases "xs = []"; cases "ys' = []") (simp_all add: rest_def)
  with Cons.IH [of ys'] Cons.prems(1) have "map g xs = map g ys' \<and> r = s"
    by (metis list.set_intros(2))
  with * ys show ?case by simp
qed

subsection \<open>Canonical form\<close>

text \<open>The value with every object's entries in code-unit order of their keys, and its plain text.\<close>

function (sequential) canon :: "json \<Rightarrow> json" where
  "canon (JArr vs) = JArr (map canon vs)"
| "canon (JObj es) = JObj (map (\<lambda>e. (fst e, canon (snd e))) (sort_by cmp_keys es))"
| "canon j = j"
  by pat_completeness auto
termination
  by (relation "measure size") (auto intro: size_json_item size_json_entry)

fun raw_text :: "json \<Rightarrow> string" where
  "raw_text JNull = ''null''"
| "raw_text (JBool b) = (if b then ''true'' else ''false'')"
| "raw_text (JNum i) = dec_int i"
| "raw_text (JStr s) = json_quote s"
| "raw_text (JArr vs) = CHR ''['' # join '','' (map raw_text vs) @ '']''"
| "raw_text (JObj es) =
     CHR ''{'' # join '','' (map (\<lambda>e. json_quote (fst e) @ CHR '':'' # raw_text (snd e)) es) @ ''}''"

lemma stableStringify_canon: "stableStringify j = raw_text (canon j)"
proof (induction j rule: stableStringify.induct)
  case (5 vs)
  then have "map stableStringify vs = map (raw_text \<circ> canon) vs"
    by (intro map_cong) simp_all
  then show ?case by (simp only: stableStringify.simps canon.simps raw_text.simps map_map)
next
  case (6 es)
  then have "map (\<lambda>e. json_quote (fst e) @ CHR '':'' # stableStringify (snd e)) (sort_by cmp_keys es) =
      map (\<lambda>e. json_quote (fst e) @ CHR '':'' # raw_text (canon (snd e))) (sort_by cmp_keys es)"
    by (intro map_cong) simp_all
  then show ?case
    by (simp only: stableStringify.simps canon.simps raw_text.simps map_map comp_def fst_conv snd_conv)
qed simp_all

lemma dec_int_hd:
  obtains c z where "dec_int i = c # z" "is_digit c \<or> c = CHR ''-''"
proof (cases "i < 0")
  case False
  then show thesis
    using that [of "hd (dec_nat (nat i))" "tl (dec_nat (nat i))"] dec_nat_hd [of "nat i"]
    by (simp add: dec_int_def)
qed (use that in \<open>simp add: dec_int_def\<close>)

datatype json_kind = KNull | KTrue | KFalse | KNum | KStr | KArr | KObj

fun kind_of :: "json \<Rightarrow> json_kind" where
  "kind_of JNull = KNull"
| "kind_of (JBool b) = (if b then KTrue else KFalse)"
| "kind_of (JNum _) = KNum"
| "kind_of (JStr _) = KStr"
| "kind_of (JArr _) = KArr"
| "kind_of (JObj _) = KObj"

definition kind_of_hd :: "char \<Rightarrow> json_kind" where
  "kind_of_hd c = (if c = CHR ''n'' then KNull else if c = CHR ''t'' then KTrue else if c = CHR ''f'' then KFalse
     else if c = CHR 0x22 then KStr else if c = CHR ''['' then KArr else if c = CHR ''{'' then KObj else KNum)"

lemma kind_of_hd_num: "is_digit c \<or> c = CHR ''-'' \<Longrightarrow> kind_of_hd c = KNum"
  by (auto simp: kind_of_hd_def is_digit_def)

lemma raw_text_kind: "raw_text j \<noteq> [] \<and> kind_of_hd (hd (raw_text j)) = kind_of j"
proof (cases j)
  case (JNum i)
  then show ?thesis
    by (metis dec_int_hd hd_append2 kind_of.simps(3) kind_of_hd_num list.distinct(1) list.sel(1) raw_text.simps(3))
qed (simp_all add: kind_of_hd_def json_quote_def)

lemma raw_text_same_kind: "raw_text i @ r = raw_text j @ s \<Longrightarrow> kind_of i = kind_of j"
  by (metis hd_append2 raw_text_kind)

lemma raw_text_hd: "raw_text j \<noteq> [] \<and> hd (raw_text j) \<noteq> CHR '']''"
proof
  show "hd (raw_text j) \<noteq> CHR '']''"
  proof
    assume eq: "hd (raw_text j) = CHR '']''"
    then have "kind_of j = KNum"
      using raw_text_kind [of j] by (simp add: kind_of_hd_def)
    then obtain i where "j = JNum i"
      by (cases j) (auto split: if_splits)
    moreover obtain c z where "dec_int i = c # z" "is_digit c \<or> c = CHR ''-''"
      by (rule dec_int_hd)
    ultimately show False
      using eq by (auto simp: is_digit_def)
  qed
qed (simp add: raw_text_kind)

text \<open>The text of a value, followed by a separator, determines the value and where it ends.\<close>

lemma raw_text_prefix:
  "raw_text i @ r = raw_text j @ s \<Longrightarrow> delim r \<Longrightarrow> delim s \<Longrightarrow> i = j \<and> r = s"
proof (induction i arbitrary: j r s)
  case JNull
  then show ?case
    using raw_text_same_kind [OF JNull(1)] by (cases j) (auto split: if_splits)
next
  case (JBool b)
  then show ?case
    using raw_text_same_kind [OF JBool(1)] by (cases j) (auto split: if_splits)
next
  case (JNum n)
  then obtain m where "j = JNum m"
    using raw_text_same_kind [OF JNum(1)] by (cases j) (auto split: if_splits)
  with JNum.prems show ?case
    using dec_int_prefix [of n r m s] by simp
next
  case (JStr x)
  then obtain y where "j = JStr y"
    using raw_text_same_kind [OF JStr(1)] by (cases j) (auto split: if_splits)
  with JStr.prems(1) show ?case
    using json_quote_prefix [of x r y s] by simp
next
  case (JArr xs)
  then obtain ys where j: "j = JArr ys"
    using raw_text_same_kind [OF JArr(2)] by (cases j) (auto split: if_splits)
  have "map id xs = map id ys \<and> r = s"
  proof (rule join_items_prefix [where c = "CHR '']''" and e = raw_text])
    show "join '','' (map raw_text xs) @ CHR '']'' # r = join '','' (map raw_text ys) @ CHR '']'' # s"
      using JArr.prems(1) j by simp
    show "id x = id y \<and> r' = s'" if "x \<in> set xs" "delim r'" "delim s'" "raw_text x @ r' = raw_text y @ s'"
      for x y r' s'
      using JArr.IH that by simp
  qed (simp_all add: raw_text_hd)
  with j show ?case by simp
next
  case (JObj xs)
  then obtain ys where j: "j = JObj ys"
    using raw_text_same_kind [OF JObj(2)] by (cases j) (auto split: if_splits)
  let ?e = "\<lambda>e. json_quote (fst e) @ CHR '':'' # raw_text (snd e)"
  have "map id xs = map id ys \<and> r = s"
  proof (rule join_items_prefix [where c = "CHR ''}''" and e = ?e])
    show "join '','' (map ?e xs) @ CHR ''}'' # r = join '','' (map ?e ys) @ CHR ''}'' # s"
      using JObj.prems(1) j by simp
    show "id x = id y \<and> r' = s'" if x: "x \<in> set xs" and d: "delim r'" "delim s'" and eq: "?e x @ r' = ?e y @ s'"
      for x y r' s'
    proof -
      have "fst x = fst y" "raw_text (snd x) @ r' = raw_text (snd y) @ s'"
        using json_quote_prefix [of "fst x" _ "fst y"] eq by auto
      then show ?thesis
        using JObj.IH [OF x, of "snd x"] d by (simp add: prod_eq_iff snds.intros)
    qed
  qed (simp_all add: json_quote_def)
  with j show ?case by simp
qed

lemma stableStringify_eq_iff: "stableStringify a = stableStringify b \<longleftrightarrow> canon a = canon b"
  using raw_text_prefix [of "canon a" "[]" "canon b" "[]"] by (auto simp: stableStringify_canon)

subsection \<open>Key order\<close>

lemma cmp_keys_le_iff: "cmp_keys a b \<le> 0 \<longleftrightarrow> code_unit_le (fst a) (fst b)"
  by (simp add: cmp_keys_def code_unit_cmp_le_iff)

interpretation keys: comparator cmp_keys
proof
  show "cmp_keys x y \<le> 0 \<or> cmp_keys y x \<le> 0" for x y :: "string \<times> 'a"
    using code_unit_le_total [of "fst x" "fst y"] by (simp add: cmp_keys_le_iff)
qed (auto simp: cmp_keys_le_iff intro: code_unit_le_trans)

lemma sorted_wrt_same_mset:
  assumes anti: "\<And>x y. x \<in> set xs \<Longrightarrow> y \<in> set xs \<Longrightarrow> R x y \<Longrightarrow> R y x \<Longrightarrow> x = y" and refl: "\<And>x. R x x"
    and "sorted_wrt R xs" "sorted_wrt R ys" "mset xs = mset ys"
  shows "xs = ys"
  using assms(3-5) anti
proof (induction xs arbitrary: ys)
  case (Cons x xs)
  then obtain y ys' where ys: "ys = y # ys'"
    by (cases ys) auto
  have sets: "set (x # xs) = set ys"
    using Cons.prems(3) by (metis set_mset_mset)
  have "x = y"
  proof (rule Cons.prems(4))
    show "R x y" using Cons.prems(1) sets ys refl by (cases "y = x") auto
    have "x \<in> set (y # ys')" using sets ys by auto
    then show "R y x" using Cons.prems(2) ys refl by (cases "y = x") auto
  qed (use sets ys in auto)
  with Cons.prems ys Cons.IH [of ys'] show ?case by auto
qed simp

lemma sort_by_keys_unique:
  assumes "distinct (map fst xs)" "mset xs = mset ys"
  shows "sort_by cmp_keys xs = sort_by cmp_keys ys"
proof (rule sorted_wrt_same_mset)
  show "x = y" if "x \<in> set (sort_by cmp_keys xs)" "y \<in> set (sort_by cmp_keys xs)"
    "cmp_keys x y \<le> 0" "cmp_keys y x \<le> 0" for x y
    using that assms(1) code_unit_le_antisym [of "fst x" "fst y"]
    by (metis cmp_keys_le_iff eq_key_imp_eq_value prod.collapse set_sort_by)
  show "cmp_keys x x \<le> 0" for x :: "string \<times> 'a"
    by (simp add: cmp_keys_le_iff)
qed (use assms(2) in \<open>simp_all add: keys.sorted_sort_by\<close>)

text \<open>Objects with the same canonical form agree, up to canonical form, on every property.\<close>

lemma canon_obj_get:
  assumes eq: "canon (JObj es) = canon (JObj fs)" and d: "distinct (map fst es)" "distinct (map fst fs)"
  shows "map_option canon (obj_get k (JObj es)) = map_option canon (obj_get k (JObj fs))"
proof -
  let ?c = "\<lambda>e. (fst e, canon (snd e))"
  have "map ?c (sort_by cmp_keys es) = map ?c (sort_by cmp_keys fs)"
    using eq by simp
  then have "mset (map ?c (sort_by cmp_keys es)) = mset (map ?c (sort_by cmp_keys fs))"
    by simp
  then have "mset (map ?c es) = mset (map ?c fs)"
    by simp
  then have "set (map ?c es) = set (map ?c fs)"
    by (metis set_mset_mset)
  moreover have "distinct (map fst (map ?c es))" "distinct (map fst (map ?c fs))"
    using d by (simp_all add: comp_def)
  ultimately have "map_of (map ?c es) = map_of (map ?c fs)"
    by (metis map_of_inject_set)
  moreover have "map_of (map ?c xs) k = map_option canon (map_of xs k)" for xs
    by (induction xs) auto
  ultimately show ?thesis by (metis obj_get.simps(1))
qed

text \<open>C15: The canonical text is a sound digest preimage. Two JSON values have the same text exactly
  when they are the same value up to the order of object entries: no two different values share a
  preimage, and the order in which an object's keys were set does not change it.\<close>

theorem stableStringify_canonical:
  "(stableStringify a = stableStringify b \<longleftrightarrow> canon a = canon b) \<and>
   (distinct (map fst es) \<and> mset es = mset es' \<longrightarrow> canon (JObj es) = canon (JObj es'))"
  by (simp add: stableStringify_eq_iff sort_by_keys_unique)

theorem stableStringify_canonical_witness:
  "stableStringify (JObj [(''b'', JNum 1), (''a'', JNum (-12))]) =
     stableStringify (JObj [(''a'', JNum (-12)), (''b'', JNum 1)]) \<and>
   stableStringify (JObj [(''b'', JNum 1)]) \<noteq> stableStringify (JObj [(''b'', JStr ''1'')])"
  using stableStringify_canonical [of "JObj [(''b'', JNum 1), (''a'', JNum (-12))]"
      "JObj [(''a'', JNum (-12)), (''b'', JNum 1)]"
      "[(''b'', JNum 1), (''a'', JNum (-12))]" "[(''a'', JNum (-12)), (''b'', JNum 1)]"]
    stableStringify_canonical [of "JObj [(''b'', JNum 1)]" "JObj [(''b'', JStr ''1'')]" "[]" "[]"]
  by (simp add: sort_by_def)

text \<open>The journal admits exactly the values JSON can hold: a payload passes \<open>isJsonValue\<close> if and
  only if it is the value of some JSON document, so undefined, non-finite numbers, big integers,
  non-plain objects and cycles are refused wherever they are nested.\<close>

theorem isJsonValue_exact: "isJsonValue v \<longleftrightarrow> (\<exists>j. v = of_json j)"
  by (metis isJsonValue_admitted admitted_def of_json_inverse)

end
