(* ===== verification/Context_Policy.thy ===== *)
theory Context_Policy
  imports Json Complex_Main
begin

text \<open>
  The context-compression policy a session pins (\<open>core/context-policy.ts\<close>). A policy arrives as an
  untyped JSON value and is either brought into canonical form or refused; the ratios of the runtime
  options are stored in the policy as whole basis points.

  A JavaScript number is a finite rational or not finite. The sources only compare ratios with the
  bounds 0.8, 0.85 and 0.4 and with each other, multiply them by 10,000 and round, and divide whole
  basis points by 10,000; correctly rounded double arithmetic agrees with the rationals on these
  comparisons for every ratio that is a whole number of basis points.
\<close>

datatype js_number = Finite rat | NotFinite

datatype policy_error =
    IntegerOutOfRange string
  | ThresholdOutOfRange
  | TargetRatioOutOfRange
  | InvalidProvenance
  | InvalidSummarizer
  | InvalidPolicy

definition INFERENCE_CONTEXT_SUMMARIZER_ID :: string where
  "INFERENCE_CONTEXT_SUMMARIZER_ID = ''airship/inference-transport-summary-v1''"

datatype catalog_field = ContextTokens | MaxModelTokens

datatype window_source = ProviderCatalog catalog_field | RuntimeConfig string

datatype failure_mode = ExtractiveFallbackOnFailure | RetainHistory

datatype summarizer = ExtractiveFallback | InferenceTransport failure_mode

record session_context_policy =
  cp_contextWindowTokens :: int
  cp_source :: window_source
  cp_thresholdBasisPoints :: int
  cp_targetRatioBasisPoints :: int
  cp_preserveRecentTurns :: int
  cp_maxSummaryDeltaBytes :: int
  cp_summarizer :: summarizer

record compression_options =
  co_contextWindowTokens :: "js_number option"
  co_threshold :: "js_number option"
  co_targetRatio :: "js_number option"
  co_preserveRecentTurns :: "js_number option"
  co_maxSummaryDeltaBytes :: "js_number option"

record resolved_options =
  ro_contextWindowTokens :: int
  ro_threshold :: rat
  ro_targetRatio :: rat
  ro_preserveRecentTurns :: int
  ro_maxSummaryDeltaBytes :: int

section \<open>Runtime options\<close>

definition max_safe_integer :: int where
  "max_safe_integer = 2 ^ 53 - 1"

text \<open>\<open>Number.isSafeInteger(value)\<close>, returning the integer.\<close>

fun safe_int_of :: "js_number \<Rightarrow> int option" where
  "safe_int_of NotFinite = None"
| "safe_int_of (Finite r) =
     (if of_int \<lfloor>r\<rfloor> = r \<and> \<bar>\<lfloor>r\<rfloor>\<bar> \<le> max_safe_integer then Some \<lfloor>r\<rfloor> else None)"

definition integer_within :: "js_number \<Rightarrow> int \<Rightarrow> int \<Rightarrow> string \<Rightarrow> policy_error + int" where
  "integer_within v lo hi label =
    (case safe_int_of v of
       None \<Rightarrow> Inl (IntegerOutOfRange label)
     | Some i \<Rightarrow> if i < lo \<or> i > hi then Inl (IntegerOutOfRange label) else Inr i)"

definition or_default :: "js_number option \<Rightarrow> rat \<Rightarrow> js_number" where
  "or_default v d = (case v of None \<Rightarrow> Finite d | Some n \<Rightarrow> n)"

fun check_threshold :: "js_number \<Rightarrow> policy_error + rat" where
  "check_threshold NotFinite = Inl ThresholdOutOfRange"
| "check_threshold (Finite t) = (if t < 8 / 10 \<or> t > 85 / 100 then Inl ThresholdOutOfRange else Inr t)"

fun check_target :: "rat \<Rightarrow> js_number \<Rightarrow> policy_error + rat" where
  "check_target threshold NotFinite = Inl TargetRatioOutOfRange"
| "check_target threshold (Finite t) =
     (if t < 4 / 10 \<or> t \<ge> threshold then Inl TargetRatioOutOfRange else Inr t)"

definition resolveContextCompressionOptions :: "compression_options \<Rightarrow> policy_error + resolved_options" where
  "resolveContextCompressionOptions opts =
    bind_result (integer_within (or_default (co_contextWindowTokens opts) 32768) 2048 4194304 ''Context window'') (\<lambda>window.
    bind_result (check_threshold (or_default (co_threshold opts) (82 / 100))) (\<lambda>threshold.
    bind_result (check_target threshold (or_default (co_targetRatio opts) (62 / 100))) (\<lambda>target.
    bind_result (integer_within (or_default (co_preserveRecentTurns opts) 2) 1 32 ''Preserved turn count'') (\<lambda>turns.
    bind_result (integer_within (or_default (co_maxSummaryDeltaBytes opts) 12288) 512 65536 ''Summary delta size'') (\<lambda>delta.
    Inr \<lparr>ro_contextWindowTokens = window, ro_threshold = threshold, ro_targetRatio = target,
         ro_preserveRecentTurns = turns, ro_maxSummaryDeltaBytes = delta\<rparr>)))))"

section \<open>Canonical policies\<close>

definition boundedSafeString :: "string \<Rightarrow> nat \<Rightarrow> bool" where
  "boundedSafeString s maximum \<longleftrightarrow> 0 < length s \<and> length s \<le> maximum \<and> \<not> list_ex is_control s"

definition canonicalContextWindowSource :: "json \<Rightarrow> window_source option" where
  "canonicalContextWindowSource v =
    (if obj_get ''kind'' v = Some (JStr ''provider-catalog'') \<and> obj_get ''field'' v = Some (JStr ''contextTokens'')
       then Some (ProviderCatalog ContextTokens)
     else if obj_get ''kind'' v = Some (JStr ''provider-catalog'') \<and> obj_get ''field'' v = Some (JStr ''maxModelTokens'')
       then Some (ProviderCatalog MaxModelTokens)
     else if obj_get ''kind'' v = Some (JStr ''runtime-config'')
       then (case obj_get ''label'' v of
               Some (JStr s) \<Rightarrow> if boundedSafeString s 256 then Some (RuntimeConfig s) else None
             | _ \<Rightarrow> None)
     else None)"

definition canonicalSessionSummarizerPolicy :: "json \<Rightarrow> summarizer option" where
  "canonicalSessionSummarizerPolicy v =
    (if obj_get ''mode'' v = Some (JStr ''extractive-fallback'') then Some ExtractiveFallback
     else if obj_get ''mode'' v = Some (JStr ''inference-transport'') \<and>
       obj_get ''adapterId'' v = Some (JStr INFERENCE_CONTEXT_SUMMARIZER_ID)
       then if obj_get ''onFailure'' v = Some (JStr ''extractive-fallback'')
              then Some (InferenceTransport ExtractiveFallbackOnFailure)
            else if obj_get ''onFailure'' v = Some (JStr ''retain-history'')
              then Some (InferenceTransport RetainHistory)
            else None
     else None)"

text \<open>\<open>safeInteger(value, minimum, maximum)\<close>, returning the integer.\<close>

fun safeInteger :: "json option \<Rightarrow> int \<Rightarrow> int \<Rightarrow> int option" where
  "safeInteger (Some (JNum i)) lo hi =
     (if \<bar>i\<bar> \<le> max_safe_integer \<and> lo \<le> i \<and> i \<le> hi then Some i else None)"
| "safeInteger _ lo hi = None"

definition get_or_null :: "string \<Rightarrow> json \<Rightarrow> json" where
  "get_or_null k v = (case obj_get k v of None \<Rightarrow> JNull | Some w \<Rightarrow> w)"

definition canonicalSessionContextPolicy :: "json \<Rightarrow> session_context_policy option" where
  "canonicalSessionContextPolicy v =
    (let compression = get_or_null ''compression'' v;
         source = canonicalContextWindowSource (get_or_null ''contextWindowSource'' v);
         summarizer = canonicalSessionSummarizerPolicy (get_or_null ''summarizer'' compression)
     in if obj_get ''version'' v \<noteq> Some (JNum 1) then None
        else case (safeInteger (obj_get ''contextWindowTokens'' v) 2048 4194304, source) of
          (Some window, Some src) \<Rightarrow>
            if obj_get ''strategy'' compression \<noteq> Some (JStr ''iterative-reference-delta-v1'') then None
            else (case safeInteger (obj_get ''thresholdBasisPoints'' compression) 8000 8500 of
              None \<Rightarrow> None
            | Some threshold \<Rightarrow>
              (case (safeInteger (obj_get ''targetRatioBasisPoints'' compression) 4000 (threshold - 1),
                     safeInteger (obj_get ''preserveRecentTurns'' compression) 1 32,
                     safeInteger (obj_get ''maxSummaryDeltaBytes'' compression) 512 65536, summarizer) of
                 (Some target, Some turns, Some delta, Some summ) \<Rightarrow>
                   Some \<lparr>cp_contextWindowTokens = window, cp_source = src, cp_thresholdBasisPoints = threshold,
                     cp_targetRatioBasisPoints = target, cp_preserveRecentTurns = turns,
                     cp_maxSummaryDeltaBytes = delta, cp_summarizer = summ\<rparr>
               | _ \<Rightarrow> None))
        | _ \<Rightarrow> None)"

section \<open>Policies as JSON\<close>

fun source_json :: "window_source \<Rightarrow> json" where
  "source_json (ProviderCatalog ContextTokens) =
     JObj [(''kind'', JStr ''provider-catalog''), (''field'', JStr ''contextTokens'')]"
| "source_json (ProviderCatalog MaxModelTokens) =
     JObj [(''kind'', JStr ''provider-catalog''), (''field'', JStr ''maxModelTokens'')]"
| "source_json (RuntimeConfig label) = JObj [(''kind'', JStr ''runtime-config''), (''label'', JStr label)]"

fun summarizer_json :: "summarizer \<Rightarrow> json" where
  "summarizer_json ExtractiveFallback = JObj [(''mode'', JStr ''extractive-fallback'')]"
| "summarizer_json (InferenceTransport onFailure) =
     JObj [(''mode'', JStr ''inference-transport''), (''adapterId'', JStr INFERENCE_CONTEXT_SUMMARIZER_ID),
       (''onFailure'', JStr (case onFailure of ExtractiveFallbackOnFailure \<Rightarrow> ''extractive-fallback''
                                             | RetainHistory \<Rightarrow> ''retain-history''))]"

definition policy_json :: "session_context_policy \<Rightarrow> json" where
  "policy_json p = JObj [(''version'', JNum 1), (''contextWindowTokens'', JNum (cp_contextWindowTokens p)),
     (''contextWindowSource'', source_json (cp_source p)),
     (''compression'', JObj [(''strategy'', JStr ''iterative-reference-delta-v1''),
        (''thresholdBasisPoints'', JNum (cp_thresholdBasisPoints p)),
        (''targetRatioBasisPoints'', JNum (cp_targetRatioBasisPoints p)),
        (''preserveRecentTurns'', JNum (cp_preserveRecentTurns p)),
        (''maxSummaryDeltaBytes'', JNum (cp_maxSummaryDeltaBytes p)),
        (''summarizer'', summarizer_json (cp_summarizer p))])]"

section \<open>Creation, comparison and use\<close>

text \<open>\<open>Math.round\<close>: to the nearest integer, halves upwards.\<close>

definition math_round :: "rat \<Rightarrow> int" where
  "math_round r = \<lfloor>r + 1 / 2\<rfloor>"

definition createSessionContextPolicy ::
  "js_number \<Rightarrow> json \<Rightarrow> compression_options \<Rightarrow> json option \<Rightarrow> policy_error + session_context_policy" where
  "createSessionContextPolicy tokens source compression summarizer =
    bind_result (resolveContextCompressionOptions (compression\<lparr>co_contextWindowTokens := Some tokens\<rparr>)) (\<lambda>resolved.
      case canonicalContextWindowSource source of
        None \<Rightarrow> Inl InvalidProvenance
      | Some src \<Rightarrow>
          (case canonicalSessionSummarizerPolicy
             (case summarizer of None \<Rightarrow> JObj [(''mode'', JStr ''extractive-fallback'')] | Some s \<Rightarrow> s) of
             None \<Rightarrow> Inl InvalidSummarizer
           | Some summ \<Rightarrow>
               Inr \<lparr>cp_contextWindowTokens = ro_contextWindowTokens resolved, cp_source = src,
                 cp_thresholdBasisPoints = math_round (ro_threshold resolved * 10000),
                 cp_targetRatioBasisPoints = math_round (ro_targetRatio resolved * 10000),
                 cp_preserveRecentTurns = ro_preserveRecentTurns resolved,
                 cp_maxSummaryDeltaBytes = ro_maxSummaryDeltaBytes resolved, cp_summarizer = summ\<rparr>))"

definition contextCompressionOptionsFromPolicy :: "json \<Rightarrow> policy_error + resolved_options" where
  "contextCompressionOptionsFromPolicy policy =
    (case canonicalSessionContextPolicy policy of
       None \<Rightarrow> Inl InvalidPolicy
     | Some p \<Rightarrow> resolveContextCompressionOptions
         \<lparr>co_contextWindowTokens = Some (Finite (of_int (cp_contextWindowTokens p))),
          co_threshold = Some (Finite (of_int (cp_thresholdBasisPoints p) / 10000)),
          co_targetRatio = Some (Finite (of_int (cp_targetRatioBasisPoints p) / 10000)),
          co_preserveRecentTurns = Some (Finite (of_int (cp_preserveRecentTurns p))),
          co_maxSummaryDeltaBytes = Some (Finite (of_int (cp_maxSummaryDeltaBytes p)))\<rparr>)"

fun contextWindowSourcesMatch :: "window_source \<Rightarrow> window_source \<Rightarrow> bool" where
  "contextWindowSourcesMatch (ProviderCatalog f) (ProviderCatalog g) = (f = g)"
| "contextWindowSourcesMatch (RuntimeConfig l) (RuntimeConfig m) = (l = m)"
| "contextWindowSourcesMatch _ _ = False"

fun summarizerPoliciesMatch :: "summarizer \<Rightarrow> summarizer \<Rightarrow> bool" where
  "summarizerPoliciesMatch ExtractiveFallback ExtractiveFallback = True"
| "summarizerPoliciesMatch (InferenceTransport f) (InferenceTransport g) = (f = g)"
| "summarizerPoliciesMatch _ _ = False"

fun sessionContextPoliciesMatch :: "json option \<Rightarrow> json option \<Rightarrow> bool" where
  "sessionContextPoliciesMatch None None = True"
| "sessionContextPoliciesMatch None (Some _) = False"
| "sessionContextPoliciesMatch (Some _) None = False"
| "sessionContextPoliciesMatch (Some actual) (Some expected) =
    (case (canonicalSessionContextPolicy actual, canonicalSessionContextPolicy expected) of
       (Some l, Some r) \<Rightarrow>
         cp_contextWindowTokens l = cp_contextWindowTokens r \<and>
         contextWindowSourcesMatch (cp_source l) (cp_source r) \<and>
         cp_thresholdBasisPoints l = cp_thresholdBasisPoints r \<and>
         cp_targetRatioBasisPoints l = cp_targetRatioBasisPoints r \<and>
         cp_preserveRecentTurns l = cp_preserveRecentTurns r \<and>
         cp_maxSummaryDeltaBytes l = cp_maxSummaryDeltaBytes r \<and>
         summarizerPoliciesMatch (cp_summarizer l) (cp_summarizer r)
     | _ \<Rightarrow> False)"

section \<open>Well-formed policies\<close>

definition policy_ok :: "session_context_policy \<Rightarrow> bool" where
  "policy_ok p \<longleftrightarrow>
    2048 \<le> cp_contextWindowTokens p \<and> cp_contextWindowTokens p \<le> 4194304 \<and>
    8000 \<le> cp_thresholdBasisPoints p \<and> cp_thresholdBasisPoints p \<le> 8500 \<and>
    4000 \<le> cp_targetRatioBasisPoints p \<and> cp_targetRatioBasisPoints p < cp_thresholdBasisPoints p \<and>
    1 \<le> cp_preserveRecentTurns p \<and> cp_preserveRecentTurns p \<le> 32 \<and>
    512 \<le> cp_maxSummaryDeltaBytes p \<and> cp_maxSummaryDeltaBytes p \<le> 65536 \<and>
    (case cp_source p of RuntimeConfig l \<Rightarrow> boundedSafeString l 256 | _ \<Rightarrow> True)"

lemma contextWindowSourcesMatch_eq: "contextWindowSourcesMatch a b \<longleftrightarrow> a = b"
  by (cases "(a, b)" rule: contextWindowSourcesMatch.cases) auto

lemma summarizerPoliciesMatch_eq: "summarizerPoliciesMatch a b \<longleftrightarrow> a = b"
  by (cases "(a, b)" rule: summarizerPoliciesMatch.cases) auto

lemma safeInteger_Some: "safeInteger v lo hi = Some i \<Longrightarrow> lo \<le> i \<and> i \<le> hi"
  by (cases "(v, lo, hi)" rule: safeInteger.cases) (auto split: if_splits)

lemma canonical_source_ok:
  "canonicalContextWindowSource v = Some s \<Longrightarrow> (case s of RuntimeConfig l \<Rightarrow> boundedSafeString l 256 | _ \<Rightarrow> True)"
  by (auto simp: canonicalContextWindowSource_def split: if_splits option.splits json.splits)

lemma canonical_policy_ok: "canonicalSessionContextPolicy v = Some p \<Longrightarrow> policy_ok p"
  by (auto simp: canonicalSessionContextPolicy_def Let_def policy_ok_def
      split: if_splits option.splits dest!: safeInteger_Some canonical_source_ok)

lemma canonical_source_json:
  "(case s of RuntimeConfig l \<Rightarrow> boundedSafeString l 256 | _ \<Rightarrow> True) \<Longrightarrow>
    canonicalContextWindowSource (source_json s) = Some s"
  by (cases s rule: source_json.cases) (simp_all add: canonicalContextWindowSource_def)

lemma canonical_summarizer_json: "canonicalSessionSummarizerPolicy (summarizer_json s) = Some s"
  by (cases s) (simp_all add: canonicalSessionSummarizerPolicy_def split: failure_mode.splits)

lemma canonical_policy_json: "policy_ok p \<Longrightarrow> canonicalSessionContextPolicy (policy_json p) = Some p"
  by (simp add: canonicalSessionContextPolicy_def policy_json_def get_or_null_def canonical_source_json
      canonical_summarizer_json policy_ok_def max_safe_integer_def)

section \<open>Properties\<close>

lemma safe_int_of_int: "\<bar>i\<bar> \<le> max_safe_integer \<Longrightarrow> safe_int_of (Finite (of_int i)) = Some i"
  by simp

lemma integer_within_Inr: "integer_within v lo hi label = Inr i \<Longrightarrow> lo \<le> i \<and> i \<le> hi"
  by (auto simp: integer_within_def split: option.splits if_splits)

lemma integer_within_of_int:
  "lo \<le> i \<Longrightarrow> i \<le> hi \<Longrightarrow> - max_safe_integer \<le> lo \<Longrightarrow> hi \<le> max_safe_integer \<Longrightarrow>
    integer_within (Finite (of_int i)) lo hi label = Inr i"
  by (simp add: integer_within_def abs_le_iff)

lemma math_round_mono: "r \<le> s \<Longrightarrow> math_round r \<le> math_round s"
  unfolding math_round_def by (rule floor_mono) simp

lemma math_round_of_int: "math_round (of_int i) = i"
  by (simp add: math_round_def floor_eq_iff)

lemma math_round_bounds: "of_int lo \<le> r \<Longrightarrow> r \<le> of_int hi \<Longrightarrow> lo \<le> math_round r \<and> math_round r \<le> hi"
  by (metis math_round_mono math_round_of_int)

lemma check_threshold_Inr: "check_threshold v = Inr t \<Longrightarrow> 8 / 10 \<le> t \<and> t \<le> 85 / 100"
  by (cases v) (auto split: if_splits)

lemma check_target_Inr: "check_target th v = Inr t \<Longrightarrow> 4 / 10 \<le> t \<and> t < th"
  by (cases v) (auto split: if_splits)

lemma resolve_Inr:
  assumes "resolveContextCompressionOptions opts = Inr r"
  shows "2048 \<le> ro_contextWindowTokens r" "ro_contextWindowTokens r \<le> 4194304"
    and "8 / 10 \<le> ro_threshold r" "ro_threshold r \<le> 85 / 100"
    and "4 / 10 \<le> ro_targetRatio r" "ro_targetRatio r < ro_threshold r"
    and "1 \<le> ro_preserveRecentTurns r" "ro_preserveRecentTurns r \<le> 32"
    and "512 \<le> ro_maxSummaryDeltaBytes r" "ro_maxSummaryDeltaBytes r \<le> 65536"
  using assms unfolding resolveContextCompressionOptions_def
  by (auto simp: result_simps dest!: integer_within_Inr check_threshold_Inr check_target_Inr)

lemma options_of_policy:
  assumes "policy_ok p" "canonicalSessionContextPolicy v = Some p"
  shows "contextCompressionOptionsFromPolicy v =
    Inr \<lparr>ro_contextWindowTokens = cp_contextWindowTokens p,
      ro_threshold = of_int (cp_thresholdBasisPoints p) / 10000,
      ro_targetRatio = of_int (cp_targetRatioBasisPoints p) / 10000,
      ro_preserveRecentTurns = cp_preserveRecentTurns p,
      ro_maxSummaryDeltaBytes = cp_maxSummaryDeltaBytes p\<rparr>"
proof -
  let ?t = "of_int (cp_thresholdBasisPoints p) / 10000 :: rat"
  let ?g = "of_int (cp_targetRatioBasisPoints p) / 10000 :: rat"
  have "check_threshold (Finite ?t) = Inr ?t" "check_target ?t (Finite ?g) = Inr ?g"
    using assms(1) by (auto simp: policy_ok_def field_simps)
  then show ?thesis
    using assms by (simp add: contextCompressionOptionsFromPolicy_def resolveContextCompressionOptions_def
        or_default_def policy_ok_def integer_within_of_int max_safe_integer_def)
qed

text \<open>C24: A policy that survives canonicalisation is well formed, is read back from its own JSON form
  unchanged, and always yields compression options, whose ratios are exactly the basis points it
  stores: a session never pins a policy the compressor would later refuse.\<close>

theorem canonical_policy_usable:
  assumes "canonicalSessionContextPolicy v = Some p"
  shows "policy_ok p \<and> canonicalSessionContextPolicy (policy_json p) = Some p \<and>
    (\<exists>r. contextCompressionOptionsFromPolicy v = Inr r \<and>
      math_round (ro_threshold r * 10000) = cp_thresholdBasisPoints p \<and>
      math_round (ro_targetRatio r * 10000) = cp_targetRatioBasisPoints p \<and>
      ro_targetRatio r < ro_threshold r)"
proof -
  have ok: "policy_ok p"
    using assms by (rule canonical_policy_ok)
  then have "cp_targetRatioBasisPoints p < cp_thresholdBasisPoints p"
    by (simp add: policy_ok_def)
  with ok assms show ?thesis
    by (simp add: canonical_policy_json options_of_policy math_round_of_int divide_strict_right_mono)
qed

definition example_policy :: session_context_policy where
  "example_policy = \<lparr>cp_contextWindowTokens = 32768, cp_source = ProviderCatalog ContextTokens,
     cp_thresholdBasisPoints = 8200, cp_targetRatioBasisPoints = 6200, cp_preserveRecentTurns = 2,
     cp_maxSummaryDeltaBytes = 12288, cp_summarizer = InferenceTransport RetainHistory\<rparr>"

theorem canonical_policy_usable_witness:
  "policy_ok example_policy \<and> is_ok (contextCompressionOptionsFromPolicy (policy_json example_policy))"
proof -
  have "canonicalSessionContextPolicy (policy_json example_policy) = Some example_policy"
    by (rule canonical_policy_json) (simp add: policy_ok_def example_policy_def)
  from canonical_policy_usable [OF this] show ?thesis by auto
qed

text \<open>Two pinned policies match exactly when both are valid and canonicalise to the same policy;
  malformed data never matches, not even itself.\<close>

theorem policies_match_iff:
  "sessionContextPoliciesMatch (Some a) (Some b) \<longleftrightarrow>
    (\<exists>p. canonicalSessionContextPolicy a = Some p \<and> canonicalSessionContextPolicy b = Some p)"
  by (auto simp: contextWindowSourcesMatch_eq summarizerPoliciesMatch_eq split: option.splits)

lemma create_Inr:
  assumes "createSessionContextPolicy tokens source compression summ = Inr p"
  shows "policy_ok p \<longleftrightarrow> cp_targetRatioBasisPoints p < cp_thresholdBasisPoints p"
    and "cp_targetRatioBasisPoints p \<le> cp_thresholdBasisPoints p"
proof -
  obtain r src s where r: "resolveContextCompressionOptions (compression\<lparr>co_contextWindowTokens := Some tokens\<rparr>) = Inr r"
    and src: "canonicalContextWindowSource source = Some src"
    and p: "p = \<lparr>cp_contextWindowTokens = ro_contextWindowTokens r, cp_source = src,
                 cp_thresholdBasisPoints = math_round (ro_threshold r * 10000),
                 cp_targetRatioBasisPoints = math_round (ro_targetRatio r * 10000),
                 cp_preserveRecentTurns = ro_preserveRecentTurns r,
                 cp_maxSummaryDeltaBytes = ro_maxSummaryDeltaBytes r, cp_summarizer = s\<rparr>"
    using assms unfolding createSessionContextPolicy_def result_simps
    by (elim exE conjE) (auto split: option.split_asm)
  note b = resolve_Inr [OF r]
  have "8000 \<le> math_round (ro_threshold r * 10000) \<and> math_round (ro_threshold r * 10000) \<le> 8500"
    using b(3,4) by (intro math_round_bounds) (simp_all add: field_simps)
  moreover have "4000 \<le> math_round (ro_targetRatio r * 10000) \<and> math_round (ro_targetRatio r * 10000) \<le> 8500"
    using b(4-6) by (intro math_round_bounds) (simp_all add: field_simps)
  ultimately show "policy_ok p \<longleftrightarrow> cp_targetRatioBasisPoints p < cp_thresholdBasisPoints p"
    using b src canonical_source_ok [OF src] by (simp add: policy_ok_def p)
  show "cp_targetRatioBasisPoints p \<le> cp_thresholdBasisPoints p"
    using b(6) by (simp add: p math_round_mono)
qed

text \<open>A policy \<open>createSessionContextPolicy\<close> builds is canonical exactly when its two ratios are
  still apart after rounding to basis points. They need not be: for the threshold 0.82 and the target
  ratio 0.81999, which the options check accepts, the created policy is one every later reader of the
  session refuses.\<close>

theorem created_policy_canonical_iff:
  assumes "createSessionContextPolicy tokens source compression summ = Inr p"
  shows "canonicalSessionContextPolicy (policy_json p) = Some p \<longleftrightarrow>
      cp_targetRatioBasisPoints p \<noteq> cp_thresholdBasisPoints p"
  using create_Inr [OF assms] canonical_policy_ok [of "policy_json p" p] canonical_policy_json [of p]
  by auto

definition close_ratio_options :: compression_options where
  "close_ratio_options = \<lparr>co_contextWindowTokens = None, co_threshold = Some (Finite (82 / 100)),
     co_targetRatio = Some (Finite (81999 / 100000)), co_preserveRecentTurns = None,
     co_maxSummaryDeltaBytes = None\<rparr>"

lemma close_ratio_created:
  "createSessionContextPolicy (Finite 32768) (source_json (ProviderCatalog ContextTokens)) close_ratio_options None =
    Inr (example_policy\<lparr>cp_targetRatioBasisPoints := 8200, cp_summarizer := ExtractiveFallback\<rparr>)"
proof -
  have w: "integer_within (Finite 32768) 2048 4194304 l = Inr 32768"
    "integer_within (Finite 2) 1 32 l = Inr 2" "integer_within (Finite 12288) 512 65536 l = Inr 12288" for l
    by (simp_all add: integer_within_def max_safe_integer_def)
  have "math_round 8200 = 8200" "math_round (81999 / 10) = 8200"
    by (simp_all add: math_round_def floor_eq_iff)
  then show ?thesis
    by (simp add: createSessionContextPolicy_def resolveContextCompressionOptions_def close_ratio_options_def
        or_default_def w canonicalContextWindowSource_def canonicalSessionSummarizerPolicy_def example_policy_def)
qed

theorem created_policy_canonical_iff_witness:
  "\<exists>p. createSessionContextPolicy (Finite 32768) (source_json (ProviderCatalog ContextTokens)) close_ratio_options None = Inr p
    \<and> canonicalSessionContextPolicy (policy_json p) \<noteq> Some p"
  using created_policy_canonical_iff [OF close_ratio_created] close_ratio_created
  by (simp add: example_policy_def)

end
