(* ===== verification/Journal.thy ===== *)
theory Journal
  imports Context_Policy
begin

text \<open>
  The event journal (\<open>core/journal.ts\<close>): the hash-chained history of a session, the record projected
  from it, and the operations of \<open>EventJournal\<close> over an arbitrary \<open>JournalBackend\<close>.

  The backend is a record of functions, the TypeScript interface itself; the journal operations take
  it as an argument. SHA-256 comes from the platform's crypto and is the parameter \<open>sha\<close>; the event
  identifiers and timestamps come from the parameter \<open>fresh\<close>, whose \<open>i\<close>-th value is what the
  \<open>i\<close>-th pair of calls of \<open>id()\<close> and \<open>now()\<close> returns. An abort signal says at which checkpoint it is
  seen aborted. Between reading the head and the compare-and-set of an append another client of the
  same backend may run: that is the parameter \<open>env\<close>.
\<close>

section \<open>Data\<close>

record 'p event_draft =
  ev_type :: string
  ev_turnId :: "string option"
  ev_operationId :: "string option"
  ev_payload :: 'p

record durable_event = "json event_draft" +
  ev_eventId :: string
  ev_sessionId :: string
  ev_sequence :: int
  ev_recordedAt :: string
  ev_previousDigest :: string
  ev_digest :: string

text \<open>The manifest: the two fields the journal reads, and the others as they are.\<close>

record session_manifest =
  mf_model :: string
  mf_contextPolicy :: "session_context_policy option"
  mf_fields :: "(string \<times> json) list"

text \<open>
  The overrides: absent is \<open>None\<close>; a context policy may also be the explicit \<open>null\<close>, \<open>Some None\<close>. The
  approval mode is whatever JSON value the projection stored.
\<close>

record session_record =
  sr_id :: string
  sr_title :: string
  sr_manifest :: session_manifest
  sr_createdAt :: string
  sr_updatedAt :: string
  sr_headSequence :: int
  sr_headDigest :: string
  sr_headIncarnation :: "string option"
  sr_importedAt :: "string option"
  sr_approvalModeOverride :: "json option"
  sr_modelOverride :: "string option"
  sr_contextPolicyOverride :: "session_context_policy option option"

record journal_head =
  jh_sequence :: int
  jh_digest :: string
  jh_incarnation :: "string option"

datatype journal_error =
    JournalConflict string
  | UnknownSession string
  | SessionExists string
  | BrokenChain
  | EventsMissing
  | PayloadNotJson
  | SecondCreationEvent
  | EmptyFencedAppend
  | InvalidTitle
  | InvalidApprovalMode
  | InvalidModel
  | InvalidContextPolicy
  | Aborted

text \<open>The \<open>JournalBackend\<close> interface over a backend state \<open>'b\<close>; the flag of an append is \<open>replay\<close>.\<close>

record 'b journal_backend =
  jb_createSession :: "session_record \<Rightarrow> 'b \<Rightarrow> journal_error + 'b"
  jb_getSession :: "'b \<Rightarrow> string \<Rightarrow> session_record option"
  jb_readEvents :: "'b \<Rightarrow> string \<Rightarrow> int \<Rightarrow> durable_event list"
  jb_append :: "string \<Rightarrow> journal_head \<Rightarrow> durable_event list \<Rightarrow> bool \<Rightarrow> 'b \<Rightarrow> journal_error + (session_record \<times> 'b)"
  jb_deleteSession :: "string \<Rightarrow> journal_head \<Rightarrow> 'b \<Rightarrow> journal_error + 'b"

datatype checkpoint = WhileQueued | AtStart | BeforeAppend

type_synonym signal = "checkpoint \<Rightarrow> bool"

abbreviation no_signal :: signal where
  "no_signal \<equiv> \<lambda>_. False"

section \<open>Projections\<close>

text \<open>The loop \<open>for (index = length - 1; index >= 0; index -= 1)\<close> that returns at the first hit.\<close>

fun first_hit :: "('a \<Rightarrow> 'b option) \<Rightarrow> 'a list \<Rightarrow> 'b option" where
  "first_hit f [] = None"
| "first_hit f (x # xs) = (case f x of Some y \<Rightarrow> Some y | None \<Rightarrow> first_hit f xs)"

definition last_hit :: "('a \<Rightarrow> 'b option) \<Rightarrow> 'a list \<Rightarrow> 'b option" where
  "last_hit f xs = first_hit f (rev xs)"

definition SESSION_BOOKKEEPING_EVENT_TYPES :: "string list" where
  "SESSION_BOOKKEEPING_EVENT_TYPES =
    [''profile.active-conversation.selected'', ''profile.favorite-order.moved'',
     ''session.favorite.changed'', ''session.re-pinned'']"

definition lastRecencyAdvancingEvent :: "durable_event list \<Rightarrow> durable_event option" where
  "lastRecencyAdvancingEvent =
    last_hit (\<lambda>e. if ev_type e \<in> set SESSION_BOOKKEEPING_EVENT_TYPES then None else Some e)"

definition projectedSessionTitle :: "durable_event list \<Rightarrow> string \<Rightarrow> string" where
  "projectedSessionTitle events fallback =
    (case last_hit (\<lambda>e. if ev_type e = ''session.renamed''
        then (case obj_get ''title'' (ev_payload e) of Some (JStr t) \<Rightarrow> Some t | _ \<Rightarrow> None) else None) events of
       Some t \<Rightarrow> t | None \<Rightarrow> fallback)"

definition is_printable_ascii :: "char \<Rightarrow> bool" where
  "is_printable_ascii c = (let n = of_char c :: nat in 32 \<le> n \<and> n \<le> 126)"

definition validSessionModelId :: "string \<Rightarrow> bool" where
  "validSessionModelId model \<longleftrightarrow>
     0 < length (trim model) \<and> length model \<le> 256 \<and> model \<noteq> [] \<and> list_all is_printable_ascii model"

definition projectedSessionModel :: "durable_event list \<Rightarrow> string option \<Rightarrow> string option" where
  "projectedSessionModel events fallback =
    (case last_hit (\<lambda>e. if ev_type e = ''session.model-changed''
        then (case obj_get ''model'' (ev_payload e) of
                Some (JStr m) \<Rightarrow> if validSessionModelId m then Some m else None | _ \<Rightarrow> None) else None) events of
       Some m \<Rightarrow> Some m | None \<Rightarrow> fallback)"

definition projectedSessionContextPolicy ::
  "durable_event list \<Rightarrow> session_context_policy option option \<Rightarrow> session_context_policy option option" where
  "projectedSessionContextPolicy events fallback =
    (case last_hit (\<lambda>e. if ev_type e = ''session.model-changed''
        then (case obj_get ''contextPolicy'' (ev_payload e) of
                None \<Rightarrow> None
              | Some policy \<Rightarrow>
                  if policy = JNull then Some None
                  else (case canonicalSessionContextPolicy policy of
                          Some p \<Rightarrow> Some (Some p) | None \<Rightarrow> None)) else None) events of
       Some p \<Rightarrow> Some p | None \<Rightarrow> fallback)"

definition APPROVAL_MODES :: "string list" where
  "APPROVAL_MODES = [''ask-first'', ''auto-approve'', ''full-access'']"

text \<open>The list is searched for \<open>String(payload.approvalMode)\<close>; what is returned is the value itself.\<close>

definition projectedSessionApprovalMode :: "durable_event list \<Rightarrow> json option \<Rightarrow> json option" where
  "projectedSessionApprovalMode events fallback =
    (case last_hit (\<lambda>e. if ev_type e = ''session.approval-policy-changed''
        then (case obj_get ''approvalMode'' (ev_payload e) of
                Some v \<Rightarrow> if js_String v \<in> set APPROVAL_MODES then Some v else None
              | None \<Rightarrow> None) else None) events of
       Some v \<Rightarrow> Some v | None \<Rightarrow> fallback)"

text \<open>The pins an append projects, applied to the record they are spread into.\<close>

definition projectedSessionPins :: "durable_event list \<Rightarrow> session_record \<Rightarrow> session_record" where
  "projectedSessionPins events current = current\<lparr>
     sr_approvalModeOverride := projectedSessionApprovalMode events (sr_approvalModeOverride current),
     sr_modelOverride := projectedSessionModel events (sr_modelOverride current),
     sr_contextPolicyOverride := projectedSessionContextPolicy events (sr_contextPolicyOverride current)\<rparr>"

definition effectiveSessionModel :: "session_record \<Rightarrow> string" where
  "effectiveSessionModel s = (case sr_modelOverride s of Some m \<Rightarrow> m | None \<Rightarrow> mf_model (sr_manifest s))"

definition effectiveSessionContextPolicy :: "session_record \<Rightarrow> session_context_policy option" where
  "effectiveSessionContextPolicy s =
    (case sr_contextPolicyOverride s of None \<Rightarrow> mf_contextPolicy (sr_manifest s) | Some p \<Rightarrow> p)"

section \<open>Sealing\<close>

definition snapshotJournalHead :: "journal_head \<Rightarrow> journal_head" where
  "snapshotJournalHead h = h\<lparr>jh_incarnation :=
     (case jh_incarnation h of Some i \<Rightarrow> if i = [] then None else Some i | None \<Rightarrow> None)\<rparr>"

definition snapshotEventDraft :: "js_value event_draft \<Rightarrow> journal_error + json event_draft" where
  "snapshotEventDraft d =
    (if isJsonValue (ev_payload d)
     then Inr \<lparr>ev_type = ev_type d, ev_turnId = ev_turnId d, ev_operationId = ev_operationId d,
               ev_payload = to_json (ev_payload d)\<rparr>
     else Inl PayloadNotJson)"

definition snapshotEventDrafts :: "js_value event_draft list \<Rightarrow> journal_error + json event_draft list" where
  "snapshotEventDrafts = map_result snapshotEventDraft"

definition or_null :: "string option \<Rightarrow> json" where
  "or_null s = (case s of None \<Rightarrow> JNull | Some x \<Rightarrow> JStr x)"

definition digestInput :: "string \<Rightarrow> string \<Rightarrow> int \<Rightarrow> string \<Rightarrow> string \<Rightarrow> (json, 'x) event_draft_scheme \<Rightarrow> json" where
  "digestInput eventId sessionId sequence recordedAt previousDigest d =
    JObj [(''version'', JNum 1), (''eventId'', JStr eventId), (''sessionId'', JStr sessionId),
      (''sequence'', JNum sequence), (''recordedAt'', JStr recordedAt),
      (''previousDigest'', JStr previousDigest), (''type'', JStr (ev_type d)),
      (''turnId'', or_null (ev_turnId d)), (''operationId'', or_null (ev_operationId d)),
      (''payload'', ev_payload d)]"

text \<open>The loop of \<open>commitAtHead\<close> that mints and seals the events, \<open>i\<close> counting the calls of \<open>fresh\<close>.\<close>

fun seal_events ::
  "(string \<Rightarrow> string) \<Rightarrow> (nat \<Rightarrow> string \<times> string) \<Rightarrow> nat \<Rightarrow> string \<Rightarrow> int \<Rightarrow> string \<Rightarrow>
    json event_draft list \<Rightarrow> durable_event list" where
  "seal_events sha fresh i sessionId sequence previousDigest [] = []"
| "seal_events sha fresh i sessionId sequence previousDigest (d # ds) =
    (let (eventId, recordedAt) = fresh i;
         digest = sha (stableStringify (digestInput eventId sessionId (sequence + 1) recordedAt previousDigest d))
     in \<lparr>ev_type = ev_type d, ev_turnId = ev_turnId d, ev_operationId = ev_operationId d, ev_payload = ev_payload d,
         ev_eventId = eventId, ev_sessionId = sessionId, ev_sequence = sequence + 1, ev_recordedAt = recordedAt,
         ev_previousDigest = previousDigest, ev_digest = digest\<rparr>
        # seal_events sha fresh (Suc i) sessionId (sequence + 1) digest ds)"

section \<open>The operations of the journal\<close>

definition commitAtHead ::
  "'b journal_backend \<Rightarrow> (string \<Rightarrow> string) \<Rightarrow> (nat \<Rightarrow> string \<times> string) \<Rightarrow> nat \<Rightarrow> string \<Rightarrow> journal_head \<Rightarrow>
    json event_draft list \<Rightarrow> signal \<Rightarrow> 'b \<Rightarrow> journal_error + (durable_event list \<times> session_record \<times> 'b)" where
  "commitAtHead backend sha fresh i sessionId expectedHead drafts preAdmission b =
    (if preAdmission AtStart then Inl Aborted
     else let head = snapshotJournalHead expectedHead;
              events = seal_events sha fresh i sessionId (jh_sequence head) (jh_digest head) drafts
       in if preAdmission BeforeAppend then Inl Aborted
          else bind_result (jb_append backend sessionId head events False b)
            (\<lambda>(session, b'). Inr (events, session, b')))"

definition head_of :: "session_record \<Rightarrow> journal_head" where
  "head_of s = \<lparr>jh_sequence = sr_headSequence s, jh_digest = sr_headDigest s,
     jh_incarnation = (case sr_headIncarnation s of Some i \<Rightarrow> if i = [] then None else Some i | None \<Rightarrow> None)\<rparr>"

definition commit ::
  "'b journal_backend \<Rightarrow> (string \<Rightarrow> string) \<Rightarrow> (nat \<Rightarrow> string \<times> string) \<Rightarrow> nat \<Rightarrow> ('b \<Rightarrow> 'b) \<Rightarrow> string \<Rightarrow>
    json event_draft list \<Rightarrow> signal \<Rightarrow> 'b \<Rightarrow> journal_error + (durable_event list \<times> 'b)" where
  "commit backend sha fresh i env sessionId drafts signal b =
    (if signal AtStart then Inl Aborted
     else case jb_getSession backend b sessionId of
       None \<Rightarrow> Inl (UnknownSession sessionId)
     | Some session \<Rightarrow>
         bind_result (commitAtHead backend sha fresh i sessionId (head_of session) drafts no_signal (env b))
           (\<lambda>(events, _, b'). Inr (events, b')))"

text \<open>
  \<open>append\<close> and \<open>appendAtHead\<close>; \<open>pending\<close> says whether an earlier write of the session is still queued,
  in which case the caller's signal can withdraw the write before it starts.
\<close>

definition journal_append ::
  "'b journal_backend \<Rightarrow> (string \<Rightarrow> string) \<Rightarrow> (nat \<Rightarrow> string \<times> string) \<Rightarrow> nat \<Rightarrow> ('b \<Rightarrow> 'b) \<Rightarrow> bool \<Rightarrow> string \<Rightarrow>
    js_value event_draft list \<Rightarrow> signal \<Rightarrow> 'b \<Rightarrow> journal_error + (durable_event list \<times> 'b)" where
  "journal_append backend sha fresh i env pending sessionId drafts signal b =
    (if drafts = [] then Inr ([], b)
     else bind_result (snapshotEventDrafts drafts) (\<lambda>snapshots.
       if pending \<and> signal WhileQueued then Inl Aborted
       else commit backend sha fresh i env sessionId snapshots signal b))"

definition appendAtHead ::
  "'b journal_backend \<Rightarrow> (string \<Rightarrow> string) \<Rightarrow> (nat \<Rightarrow> string \<times> string) \<Rightarrow> nat \<Rightarrow> bool \<Rightarrow> string \<Rightarrow> journal_head \<Rightarrow>
    js_value event_draft list \<Rightarrow> signal \<Rightarrow> 'b \<Rightarrow> journal_error + (durable_event list \<times> session_record \<times> 'b)" where
  "appendAtHead backend sha fresh i pending sessionId expectedHead drafts signal b =
    (if drafts = [] then Inl EmptyFencedAppend
     else bind_result (snapshotEventDrafts drafts) (\<lambda>snapshots.
       if pending \<and> signal WhileQueued then Inl Aborted
       else commitAtHead backend sha fresh i sessionId (snapshotJournalHead expectedHead) snapshots signal b))"

definition manifest_json :: "session_manifest \<Rightarrow> json" where
  "manifest_json m = JObj (mf_fields m @ (''model'', JStr (mf_model m)) #
     (case mf_contextPolicy m of None \<Rightarrow> [] | Some p \<Rightarrow> [(''contextPolicy'', policy_json p)]))"

definition plain_draft :: "string \<Rightarrow> json \<Rightarrow> js_value event_draft" where
  "plain_draft ty payload = \<lparr>ev_type = ty, ev_turnId = None, ev_operationId = None, ev_payload = of_json payload\<rparr>"

definition owned_draft :: "json event_draft \<Rightarrow> js_value event_draft" where
  "owned_draft d = \<lparr>ev_type = ev_type d, ev_turnId = ev_turnId d, ev_operationId = ev_operationId d,
     ev_payload = of_json (ev_payload d)\<rparr>"

definition new_session :: "string \<Rightarrow> string \<Rightarrow> session_manifest \<Rightarrow> string \<Rightarrow> session_record" where
  "new_session sessionId title manifest createdAt =
    \<lparr>sr_id = sessionId, sr_title = title, sr_manifest = manifest, sr_createdAt = createdAt, sr_updatedAt = createdAt,
     sr_headSequence = 0, sr_headDigest = ''genesis'', sr_headIncarnation = None, sr_importedAt = None,
     sr_approvalModeOverride = None, sr_modelOverride = None, sr_contextPolicyOverride = None\<rparr>"

definition journal_createSession ::
  "'b journal_backend \<Rightarrow> (string \<Rightarrow> string) \<Rightarrow> (nat \<Rightarrow> string \<times> string) \<Rightarrow> nat \<Rightarrow> ('b \<Rightarrow> 'b) \<Rightarrow> string \<Rightarrow> session_manifest \<Rightarrow>
    (session_record \<Rightarrow> js_value event_draft list) option \<Rightarrow> 'b \<Rightarrow> journal_error + (session_record \<times> 'b)" where
  "journal_createSession backend sha fresh i env title manifest initialize b =
    (let (sessionId, createdAt) = fresh i;
         session = new_session sessionId title manifest createdAt
     in bind_result (case initialize of None \<Rightarrow> Inr [] | Some f \<Rightarrow> snapshotEventDrafts (f session)) (\<lambda>initialized.
        if list_ex (\<lambda>e. ev_type e = ''session.created'') initialized then Inl SecondCreationEvent
        else bind_result (jb_createSession backend session b) (\<lambda>b1.
          bind_result (journal_append backend sha fresh (Suc i) env False sessionId
            (plain_draft ''session.created'' (JObj [(''title'', JStr title), (''manifest'', manifest_json manifest)])
              # map owned_draft initialized) no_signal b1) (\<lambda>(_, b2).
          Inr (case jb_getSession backend b2 sessionId of Some s \<Rightarrow> s | None \<Rightarrow> session, b2)))))"

text \<open>The single-event operations append one draft and return the record read back.\<close>

definition append_and_read ::
  "'b journal_backend \<Rightarrow> (string \<Rightarrow> string) \<Rightarrow> (nat \<Rightarrow> string \<times> string) \<Rightarrow> nat \<Rightarrow> ('b \<Rightarrow> 'b) \<Rightarrow> bool \<Rightarrow> string \<Rightarrow>
    js_value event_draft \<Rightarrow> signal \<Rightarrow> 'b \<Rightarrow> journal_error + (session_record \<times> 'b)" where
  "append_and_read backend sha fresh i env pending sessionId draft signal b =
    bind_result (journal_append backend sha fresh i env pending sessionId [draft] signal b) (\<lambda>(_, b').
      case jb_getSession backend b' sessionId of
        Some s \<Rightarrow> Inr (s, b') | None \<Rightarrow> Inl (UnknownSession sessionId))"

definition renameSession ::
  "'b journal_backend \<Rightarrow> (string \<Rightarrow> string) \<Rightarrow> (nat \<Rightarrow> string \<times> string) \<Rightarrow> nat \<Rightarrow> ('b \<Rightarrow> 'b) \<Rightarrow> bool \<Rightarrow> string \<Rightarrow>
    string \<Rightarrow> signal \<Rightarrow> 'b \<Rightarrow> journal_error + (session_record \<times> 'b)" where
  "renameSession backend sha fresh i env pending sessionId title signal b =
    (let normalized = trim title
     in if normalized = [] \<or> length normalized > 240 \<or> list_ex is_control normalized then Inl InvalidTitle
        else append_and_read backend sha fresh i env pending sessionId
          (plain_draft ''session.renamed'' (JObj [(''title'', JStr normalized)])) signal b)"

definition setSessionApprovalMode ::
  "'b journal_backend \<Rightarrow> (string \<Rightarrow> string) \<Rightarrow> (nat \<Rightarrow> string \<times> string) \<Rightarrow> nat \<Rightarrow> ('b \<Rightarrow> 'b) \<Rightarrow> bool \<Rightarrow> string \<Rightarrow>
    string \<Rightarrow> signal \<Rightarrow> 'b \<Rightarrow> journal_error + (session_record \<times> 'b)" where
  "setSessionApprovalMode backend sha fresh i env pending sessionId mode signal b =
    (if mode \<notin> set APPROVAL_MODES then Inl InvalidApprovalMode
     else append_and_read backend sha fresh i env pending sessionId
       (plain_draft ''session.approval-policy-changed'' (JObj [(''approvalMode'', JStr mode)])) signal b)"

definition setSessionModel ::
  "'b journal_backend \<Rightarrow> (string \<Rightarrow> string) \<Rightarrow> (nat \<Rightarrow> string \<times> string) \<Rightarrow> nat \<Rightarrow> ('b \<Rightarrow> 'b) \<Rightarrow> bool \<Rightarrow> string \<Rightarrow>
    string \<Rightarrow> json option option \<Rightarrow> signal \<Rightarrow> 'b \<Rightarrow> journal_error + (session_record \<times> 'b)" where
  "setSessionModel backend sha fresh i env pending sessionId model contextPolicy signal b =
    (if \<not> validSessionModelId model then Inl InvalidModel
     else bind_result
       (case contextPolicy of
          None \<Rightarrow> Inr []
        | Some None \<Rightarrow> Inr [(''contextPolicy'', JNull)]
        | Some (Some v) \<Rightarrow> (case canonicalSessionContextPolicy v of
            None \<Rightarrow> Inl InvalidContextPolicy | Some p \<Rightarrow> Inr [(''contextPolicy'', policy_json p)]))
       (\<lambda>partial. append_and_read backend sha fresh i env pending sessionId
          (plain_draft ''session.model-changed'' (JObj ((''model'', JStr model) # partial))) signal b))"

definition journal_deleteSession ::
  "'b journal_backend \<Rightarrow> string \<Rightarrow> journal_head \<Rightarrow> 'b \<Rightarrow> journal_error + 'b" where
  "journal_deleteSession backend sessionId expectedHead b =
    jb_deleteSession backend sessionId (snapshotJournalHead expectedHead) b"

section \<open>The record after an append\<close>

text \<open>
  Every backend updates the record from the events it accepts; a replay projects the title and the
  recency and grants no pin.
\<close>

definition projected_record :: "durable_event list \<Rightarrow> bool \<Rightarrow> session_record \<Rightarrow> session_record" where
  "projected_record events replay session =
    (let titled = session\<lparr>sr_title := projectedSessionTitle events (sr_title session)\<rparr>;
         pinned = (if replay then titled else projectedSessionPins events titled);
         last_event = last events
     in pinned\<lparr>sr_updatedAt := (case lastRecencyAdvancingEvent events of
                 Some e \<Rightarrow> ev_recordedAt e | None \<Rightarrow> sr_updatedAt session),
               sr_headSequence := ev_sequence last_event, sr_headDigest := ev_digest last_event\<rparr>)"

section \<open>Chains\<close>

fun linked :: "int \<Rightarrow> string \<Rightarrow> durable_event list \<Rightarrow> bool" where
  "linked n d [] = True"
| "linked n d (e # es) \<longleftrightarrow> ev_sequence e = n + 1 \<and> ev_previousDigest e = d \<and> linked (n + 1) (ev_digest e) es"

definition sealed :: "(string \<Rightarrow> string) \<Rightarrow> string \<Rightarrow> durable_event \<Rightarrow> bool" where
  "sealed sha sid e \<longleftrightarrow> ev_sessionId e = sid \<and>
     ev_digest e = sha (stableStringify
       (digestInput (ev_eventId e) sid (ev_sequence e) (ev_recordedAt e) (ev_previousDigest e) e))"

definition head_matches :: "journal_head \<Rightarrow> session_record \<Rightarrow> bool" where
  "head_matches h s \<longleftrightarrow> jh_sequence h = sr_headSequence s \<and> jh_digest h = sr_headDigest s"

definition end_digest :: "string \<Rightarrow> durable_event list \<Rightarrow> string" where
  "end_digest d es = (if es = [] then d else ev_digest (last es))"

lemma linked_append:
  "linked n d (es @ fs) \<longleftrightarrow> linked n d es \<and> linked (n + int (length es)) (end_digest d es) fs"
  by (induction es arbitrary: n d) (auto simp: end_digest_def algebra_simps)

lemma linked_last_sequence: "linked n d es \<Longrightarrow> es \<noteq> [] \<Longrightarrow> ev_sequence (last es) = n + int (length es)"
  by (induction es arbitrary: n d) (auto split: if_splits)

lemma linked_seal_events: "linked n d (seal_events sha fresh i sid n d ds)"
  by (induction ds arbitrary: i n d) (simp_all add: Let_def split: prod.splits)

lemma sealed_seal_events: "e \<in> set (seal_events sha fresh i sid n d ds) \<Longrightarrow> sealed sha sid e"
  by (induction ds arbitrary: i n d)
    (auto simp: Let_def sealed_def digestInput_def split: prod.splits)

lemma seal_events_Nil_iff [simp]: "seal_events sha fresh i sid n d ds = [] \<longleftrightarrow> ds = []"
  by (cases ds) (simp_all add: Let_def split: prod.splits)

lemma length_seal_events [simp]: "length (seal_events sha fresh i sid n d ds) = length ds"
  by (induction ds arbitrary: i n d) (simp_all add: Let_def split: prod.splits)

text \<open>The draft an event was sealed from.\<close>

definition draft_of :: "durable_event \<Rightarrow> json event_draft" where
  "draft_of e = \<lparr>ev_type = ev_type e, ev_turnId = ev_turnId e, ev_operationId = ev_operationId e,
     ev_payload = ev_payload e\<rparr>"

lemma draft_of_seal_events [simp]: "map draft_of (seal_events sha fresh i sid n d ds) = ds"
  by (induction ds arbitrary: i n d) (simp_all add: Let_def draft_of_def split: prod.splits)

lemma snapshot_plain_draft [simp]:
  "snapshotEventDraft (plain_draft ty j) = Inr \<lparr>ev_type = ty, ev_turnId = None, ev_operationId = None, ev_payload = j\<rparr>"
  by (auto simp: snapshotEventDraft_def plain_draft_def isJsonValue_admitted admitted_def)

lemma snapshot_owned_draft: "snapshotEventDraft (owned_draft d) = Inr d"
  by (auto simp: snapshotEventDraft_def owned_draft_def isJsonValue_admitted admitted_def)

lemma snapshot_owned_drafts: "snapshotEventDrafts (map owned_draft ds) = Inr ds"
  by (induction ds) (simp_all add: snapshotEventDrafts_def snapshot_owned_draft)

lemma snapshotJournalHead_matches [simp]:
  "jh_sequence (snapshotJournalHead h) = jh_sequence h" "jh_digest (snapshotJournalHead h) = jh_digest h"
  "head_matches (snapshotJournalHead h) s = head_matches h s"
  by (simp_all add: snapshotJournalHead_def head_matches_def)

lemma head_of_matches: "head_matches (head_of s) s' \<longleftrightarrow>
    sr_headSequence s = sr_headSequence s' \<and> sr_headDigest s = sr_headDigest s'"
  by (simp add: head_matches_def head_of_def)

section \<open>A digest determines the history behind it\<close>

text \<open>An event up to the order of the keys in its payload.\<close>

definition canon_event :: "durable_event \<Rightarrow> durable_event" where
  "canon_event e = e\<lparr>ev_payload := canon (ev_payload e)\<rparr>"

lemma or_null_inject: "or_null a = or_null b \<longleftrightarrow> a = b"
  by (auto simp: or_null_def split: option.splits)

lemma canon_or_null [simp]: "canon (or_null a) = or_null a"
  by (cases a) (simp_all add: or_null_def)

lemma digestInput_determines:
  assumes "canon (digestInput i s n r p (d :: durable_event)) = canon (digestInput i' s' n' r' p' (d' :: durable_event))"
  shows "i = i'" "s = s'" "n = n'" "r = r'" "p = p'" "ev_type d = ev_type d'" "ev_turnId d = ev_turnId d'"
    "ev_operationId d = ev_operationId d'" "canon (ev_payload d) = canon (ev_payload d')"
proof -
  note get = canon_obj_get [OF assms [unfolded digestInput_def]]
  show "i = i'" using get [of "''eventId''"] by simp
  show "s = s'" using get [of "''sessionId''"] by simp
  show "n = n'" using get [of "''sequence''"] by simp
  show "r = r'" using get [of "''recordedAt''"] by simp
  show "p = p'" using get [of "''previousDigest''"] by simp
  show "ev_type d = ev_type d'" using get [of "''type''"] by simp
  show "ev_turnId d = ev_turnId d'" using get [of "''turnId''"] by (simp add: or_null_inject)
  show "ev_operationId d = ev_operationId d'" using get [of "''operationId''"] by (simp add: or_null_inject)
  show "canon (ev_payload d) = canon (ev_payload d')" using get [of "''payload''"] by simp
qed

lemma sealed_event_determined:
  assumes "inj sha" "sealed sha s e" "sealed sha s' f" "ev_digest e = ev_digest f"
  shows "canon_event e = canon_event f"
proof -
  have "stableStringify (digestInput (ev_eventId e) s (ev_sequence e) (ev_recordedAt e) (ev_previousDigest e) e) =
    stableStringify (digestInput (ev_eventId f) s' (ev_sequence f) (ev_recordedAt f) (ev_previousDigest f) f)"
    using assms by (simp add: sealed_def inj_eq)
  then have "canon (digestInput (ev_eventId e) s (ev_sequence e) (ev_recordedAt e) (ev_previousDigest e) e) =
    canon (digestInput (ev_eventId f) s' (ev_sequence f) (ev_recordedAt f) (ev_previousDigest f) f)"
    by (simp add: stableStringify_eq_iff)
  note d = digestInput_determines [OF this]
  from d assms(2-4) show ?thesis
    by (simp add: canon_event_def sealed_def)
qed

lemma chain_determined:
  assumes "inj sha" "\<And>x. sha x \<noteq> ''genesis''"
    and "linked 0 ''genesis'' es" "\<forall>e\<in>set es. sealed sha s e"
    and "linked 0 ''genesis'' fs" "\<forall>f\<in>set fs. sealed sha s' f"
    and "end_digest ''genesis'' es = end_digest ''genesis'' fs"
  shows "map canon_event es = map canon_event fs"
  using assms(3-7)
proof (induction es arbitrary: fs rule: rev_induct)
  case Nil
  then show ?case
    using assms(2) by (cases fs rule: rev_cases) (auto simp: end_digest_def sealed_def)
next
  case (snoc e es)
  then obtain f fs' where fs: "fs = fs' @ [f]"
    using assms(2) by (cases fs rule: rev_cases) (auto simp: end_digest_def sealed_def)
  have ef: "canon_event e = canon_event f"
    using sealed_event_determined [OF assms(1), of s e s' f] snoc.prems fs by (simp add: end_digest_def)
  then have "ev_previousDigest (canon_event e) = ev_previousDigest (canon_event f)"
    by simp
  then have "ev_previousDigest e = ev_previousDigest f"
    by (simp add: canon_event_def)
  then have "map canon_event es = map canon_event fs'"
    using snoc.IH [of fs'] snoc.prems fs by (simp add: linked_append)
  with ef fs show ?case by simp
qed

section \<open>The contract of a backend\<close>

locale journal_store =
  fixes backend :: "'b journal_backend"
    and inv :: "'b \<Rightarrow> bool"
  assumes create_new: "inv b \<Longrightarrow> jb_getSession backend b (sr_id s) = None \<Longrightarrow>
      sr_headSequence s = 0 \<Longrightarrow> sr_headDigest s = ''genesis'' \<Longrightarrow>
      \<exists>b'. jb_createSession backend s b = Inr b' \<and> inv b' \<and> jb_getSession backend b' (sr_id s) = Some s \<and>
        jb_readEvents backend b' (sr_id s) 0 = [] \<and>
        (\<forall>k. k \<noteq> sr_id s \<longrightarrow> jb_getSession backend b' k = jb_getSession backend b k \<and>
          jb_readEvents backend b' k 0 = jb_readEvents backend b k 0)"
    and history_linked: "inv b \<Longrightarrow> jb_getSession backend b sid = Some rec \<Longrightarrow>
      linked 0 ''genesis'' (jb_readEvents backend b sid 0) \<and>
      sr_headSequence rec = int (length (jb_readEvents backend b sid 0)) \<and>
      sr_headDigest rec = end_digest ''genesis'' (jb_readEvents backend b sid 0)"
    and append_extends: "inv b \<Longrightarrow> jb_getSession backend b sid = Some rec \<Longrightarrow> head_matches h rec \<Longrightarrow> es \<noteq> [] \<Longrightarrow>
      linked (sr_headSequence rec) (sr_headDigest rec) es \<Longrightarrow>
      \<exists>b'. jb_append backend sid h es replay b = Inr (projected_record es replay rec, b') \<and> inv b' \<and>
        jb_getSession backend b' sid = Some (projected_record es replay rec) \<and>
        jb_readEvents backend b' sid 0 = jb_readEvents backend b sid 0 @ es \<and>
        (\<forall>k. k \<noteq> sid \<longrightarrow> jb_getSession backend b' k = jb_getSession backend b k \<and>
          jb_readEvents backend b' k 0 = jb_readEvents backend b k 0)"
    and append_stale: "inv b \<Longrightarrow> jb_getSession backend b sid = Some rec \<Longrightarrow> \<not> head_matches h rec \<Longrightarrow>
      \<exists>m. jb_append backend sid h es replay b = Inl (JournalConflict m)"
    and append_unknown: "inv b \<Longrightarrow> jb_getSession backend b sid = None \<Longrightarrow>
      jb_append backend sid h es replay b = Inl (UnknownSession sid)"
    and delete_fenced: "inv b \<Longrightarrow> jb_deleteSession backend sid h b = Inr b' \<Longrightarrow>
      inv b' \<and> jb_getSession backend b' sid = None \<and> jb_readEvents backend b' sid 0 = [] \<and>
        (\<forall>k. k \<noteq> sid \<longrightarrow> jb_getSession backend b' k = jb_getSession backend b k \<and>
          jb_readEvents backend b' k 0 = jb_readEvents backend b k 0) \<and>
        (\<forall>rec. jb_getSession backend b sid = Some rec \<longrightarrow> head_matches h rec)"
begin

definition history :: "'b \<Rightarrow> string \<Rightarrow> durable_event list" where
  "history b sid = jb_readEvents backend b sid 0"

definition sealed_history :: "(string \<Rightarrow> string) \<Rightarrow> 'b \<Rightarrow> bool" where
  "sealed_history sha b \<longleftrightarrow> (\<forall>sid rec. jb_getSession backend b sid = Some rec \<longrightarrow>
     (\<forall>e \<in> set (history b sid). sealed sha sid e))"

lemma commitAtHead_extends:
  assumes "inv b" "jb_getSession backend b sid = Some rec" "head_matches h rec" "ds \<noteq> []"
    and es_def: "es = seal_events sha fresh i sid (sr_headSequence rec) (sr_headDigest rec) ds"
  shows "\<exists>b'. commitAtHead backend sha fresh i sid h ds no_signal b = Inr (es, projected_record es False rec, b') \<and>
    inv b' \<and> jb_getSession backend b' sid = Some (projected_record es False rec) \<and>
    history b' sid = history b sid @ es \<and>
    (\<forall>k. k \<noteq> sid \<longrightarrow> jb_getSession backend b' k = jb_getSession backend b k \<and> history b' k = history b k)"
proof -
  have es: "es \<noteq> []" "linked (sr_headSequence rec) (sr_headDigest rec) es"
    using assms(4) by (simp_all add: es_def linked_seal_events)
  have h: "jh_sequence h = sr_headSequence rec" "jh_digest h = sr_headDigest rec"
    using assms(3) by (simp_all add: head_matches_def)
  obtain b' where b': "jb_append backend sid (snapshotJournalHead h) es False b = Inr (projected_record es False rec, b')"
    "inv b'" "jb_getSession backend b' sid = Some (projected_record es False rec)"
    "history b' sid = history b sid @ es"
    "\<forall>k. k \<noteq> sid \<longrightarrow> jb_getSession backend b' k = jb_getSession backend b k \<and> history b' k = history b k"
    using append_extends [OF assms(1,2) _ es, of "snapshotJournalHead h" False] assms(3)
    unfolding history_def snapshotJournalHead_matches by blast
  from b'(1) have "commitAtHead backend sha fresh i sid h ds no_signal b = Inr (es, projected_record es False rec, b')"
    by (simp add: commitAtHead_def h es_def [symmetric])
  with b' show ?thesis by blast
qed

lemma commitAtHead_stale:
  assumes "inv b" "jb_getSession backend b sid = Some rec" "\<not> head_matches h rec"
  shows "\<exists>m. commitAtHead backend sha fresh i sid h ds no_signal b = Inl (JournalConflict m)"
proof -
  obtain m where "jb_append backend sid (snapshotJournalHead h)
      (seal_events sha fresh i sid (jh_sequence h) (jh_digest h) ds) False b = Inl (JournalConflict m)"
    using append_stale [OF assms(1,2), of "snapshotJournalHead h"] assms(3) by auto
  then show ?thesis by (simp add: commitAtHead_def)
qed

lemma append_preserves_sealed:
  assumes "inv b" "jb_getSession backend b sid = Some rec" "sealed_history sha b"
    and "history b' sid = history b sid @ seal_events sha fresh i sid n d ds'"
    and "\<forall>k. k \<noteq> sid \<longrightarrow> jb_getSession backend b' k = jb_getSession backend b k \<and> history b' k = history b k"
  shows "sealed_history sha b'"
  unfolding sealed_history_def
proof (intro allI impI ballI)
  fix k rec' e
  assume k: "jb_getSession backend b' k = Some rec'" "e \<in> set (history b' k)"
  show "sealed sha k e"
  proof (cases "k = sid")
    case True
    then show ?thesis
      using k(2) assms(2-4) by (auto simp: sealed_history_def intro: sealed_seal_events)
  next
    case False
    then show ?thesis
      using k assms(3,5) by (auto simp: sealed_history_def)
  qed
qed

text \<open>
  Whatever state the compare-and-set meets, a commit that succeeds found the session at the head
  its events were sealed after, and leaves a sealed history.
\<close>

lemma commitAtHead_success:
  assumes "inv b" "ds \<noteq> []" "commitAtHead backend sha fresh i sid h ds pre b = Inr (es, s, b')"
  obtains rec where "jb_getSession backend b sid = Some rec" "head_matches h rec"
    "es = seal_events sha fresh i sid (sr_headSequence rec) (sr_headDigest rec) ds"
    "s = projected_record es False rec" "inv b'" "jb_getSession backend b' sid = Some s"
    "history b' sid = history b sid @ es"
    "\<forall>k. k \<noteq> sid \<longrightarrow> jb_getSession backend b' k = jb_getSession backend b k \<and> history b' k = history b k"
proof -
  have eq: "commitAtHead backend sha fresh i sid h ds no_signal b = Inr (es, s, b')"
    using assms(3) by (simp add: commitAtHead_def Let_def split: if_splits)
  have "jb_getSession backend b sid \<noteq> None"
  proof
    assume "jb_getSession backend b sid = None"
    from eq append_unknown [OF assms(1) this] show False by (simp add: commitAtHead_def)
  qed
  then obtain rec where rec: "jb_getSession backend b sid = Some rec"
    by blast
  moreover have "head_matches h rec"
    using commitAtHead_stale [OF assms(1) rec, of h sha fresh i ds] eq by auto
  ultimately show thesis
    using commitAtHead_extends [OF assms(1) rec _ assms(2) refl, of h sha fresh i] eq that by fastforce
qed

lemma commitAtHead_keeps_sealed:
  assumes "inv b" "ds \<noteq> []" "commitAtHead backend sha fresh i sid h ds pre b = Inr (es, s, b')"
    and "sealed_history sha b"
  shows "inv b' \<and> sealed_history sha b'"
  using assms(1-3)
proof (rule commitAtHead_success)
  fix rec
  assume *: "jb_getSession backend b sid = Some rec" "inv b'" "history b' sid = history b sid @ es"
    "es = seal_events sha fresh i sid (sr_headSequence rec) (sr_headDigest rec) ds"
    "\<forall>k. k \<noteq> sid \<longrightarrow> jb_getSession backend b' k = jb_getSession backend b k \<and> history b' k = history b k"
  then show ?thesis
    using append_preserves_sealed [OF assms(1) *(1) assms(4)] by blast
qed

lemma journal_append_keeps_sealed:
  assumes "inv (env b)" "sealed_history sha (env b)" "inv b" "sealed_history sha b"
    and "journal_append backend sha fresh i env pending sid ds signal b = Inr (es, b')"
  shows "inv b' \<and> sealed_history sha b'"
proof (cases "ds = []")
  case False
  then obtain ds' rec s where ds': "snapshotEventDrafts ds = Inr ds'"
    and "commitAtHead backend sha fresh i sid (head_of rec) ds' no_signal (env b) = Inr (es, s, b')"
    using assms(5)
    by (auto simp: journal_append_def commit_def result_simps split: if_splits option.splits)
  moreover have "ds' \<noteq> []"
    using False ds' by (auto simp: snapshotEventDrafts_def dest: map_result_Inr_length)
  ultimately show ?thesis
    using commitAtHead_keeps_sealed [OF assms(1) _ _ assms(2)] by blast
qed (use assms in \<open>simp add: journal_append_def\<close>)

lemma appendAtHead_keeps_sealed:
  assumes "inv b" "sealed_history sha b"
    and "appendAtHead backend sha fresh i pending sid h ds signal b = Inr (es, s, b')"
  shows "inv b' \<and> sealed_history sha b'"
proof -
  obtain ds' where ds': "ds \<noteq> []" "snapshotEventDrafts ds = Inr ds'"
    and "commitAtHead backend sha fresh i sid (snapshotJournalHead h) ds' signal b = Inr (es, s, b')"
    using assms(3) by (auto simp: appendAtHead_def result_simps split: if_splits)
  moreover have "ds' \<noteq> []"
    using ds' by (auto simp: snapshotEventDrafts_def dest: map_result_Inr_length)
  ultimately show ?thesis
    using commitAtHead_keeps_sealed [OF assms(1) _ _ assms(2)] by blast
qed

lemma createSession_keeps_sealed:
  assumes "inv b" "sealed_history sha b" "jb_getSession backend b (sr_id s) = None"
    and "sr_headSequence s = 0" "sr_headDigest s = ''genesis''" "jb_createSession backend s b = Inr b'"
  shows "inv b' \<and> sealed_history sha b'"
proof -
  have b': "inv b'" "history b' (sr_id s) = []"
    "\<And>k. k \<noteq> sr_id s \<Longrightarrow> jb_getSession backend b' k = jb_getSession backend b k \<and> history b' k = history b k"
    using create_new [OF assms(1,3-5)] assms(6) by (auto simp: history_def)
  have "sealed sha k e" if "jb_getSession backend b' k = Some rec" "e \<in> set (history b' k)" for k rec e
    using that b'(2,3) assms(2) by (cases "k = sr_id s") (auto simp: sealed_history_def)
  with b'(1) show ?thesis by (auto simp: sealed_history_def)
qed

lemma deleteSession_keeps_sealed:
  assumes "inv b" "sealed_history sha b" "jb_deleteSession backend sid h b = Inr b'"
  shows "inv b' \<and> sealed_history sha b'"
proof -
  have b': "inv b'" "jb_getSession backend b' sid = None"
    "\<And>k. k \<noteq> sid \<Longrightarrow> jb_getSession backend b' k = jb_getSession backend b k \<and> history b' k = history b k"
    using delete_fenced [OF assms(1,3)] by (auto simp: history_def)
  have "sealed sha k e" if "jb_getSession backend b' k = Some rec" "e \<in> set (history b' k)" for k rec e
    using that b'(2,3) assms(2) by (cases "k = sid") (auto simp: sealed_history_def)
  with b'(1) show ?thesis by (auto simp: sealed_history_def)
qed

text \<open>An undisturbed append commits exactly its drafts, sealed, after the head it read.\<close>

lemma append_extends_history:
  assumes "inv b" "jb_getSession backend b sid = Some rec" "snapshotEventDrafts ds = Inr ds'" "ds \<noteq> []"
    and es_def: "es = seal_events sha fresh i sid (sr_headSequence rec) (sr_headDigest rec) ds'"
  shows "\<exists>b'. journal_append backend sha fresh i (\<lambda>b. b) pending sid ds no_signal b = Inr (es, b') \<and>
    inv b' \<and> jb_getSession backend b' sid = Some (projected_record es False rec) \<and>
    history b' sid = history b sid @ es \<and>
    (\<forall>k. k \<noteq> sid \<longrightarrow> jb_getSession backend b' k = jb_getSession backend b k \<and> history b' k = history b k)"
proof -
  have "ds' \<noteq> []"
    using assms(3,4) by (auto simp: snapshotEventDrafts_def dest: map_result_Inr_length)
  then obtain b' where b': "commitAtHead backend sha fresh i sid (head_of rec) ds' no_signal b =
      Inr (es, projected_record es False rec, b')"
    "inv b'" "jb_getSession backend b' sid = Some (projected_record es False rec)"
    "history b' sid = history b sid @ es"
    "\<forall>k. k \<noteq> sid \<longrightarrow> jb_getSession backend b' k = jb_getSession backend b k \<and> history b' k = history b k"
    using commitAtHead_extends [OF assms(1,2) _ _ es_def] head_of_matches by blast
  from b'(1) have "journal_append backend sha fresh i (\<lambda>b. b) pending sid ds no_signal b = Inr (es, b')"
    by (simp add: journal_append_def commit_def assms(2-4))
  with b' show ?thesis by blast
qed

text \<open>An append whose session moved between the head read and the compare-and-set is refused.\<close>

lemma append_refused_when_overtaken:
  assumes "inv b" "jb_getSession backend b sid = Some rec" "snapshotEventDrafts ds = Inr ds'" "ds \<noteq> []"
    and "inv (env b)" "jb_getSession backend (env b) sid = Some rec'"
    and "(sr_headSequence rec', sr_headDigest rec') \<noteq> (sr_headSequence rec, sr_headDigest rec)"
  shows "\<exists>m. journal_append backend sha fresh i env pending sid ds no_signal b = Inl (JournalConflict m)"
proof -
  have "\<not> head_matches (head_of rec) rec'"
    using assms(7) by (auto simp: head_of_matches)
  then obtain m where "commitAtHead backend sha fresh i sid (head_of rec) ds' no_signal (env b) = Inl (JournalConflict m)"
    using commitAtHead_stale [OF assms(5,6)] by blast
  then show ?thesis
    by (simp add: journal_append_def commit_def assms(2-4))
qed

lemma append_one:
  assumes "inv b" "jb_getSession backend b sid = Some rec"
    and es_def: "es = seal_events sha fresh i sid (sr_headSequence rec) (sr_headDigest rec)
    [\<lparr>ev_type = ty, ev_turnId = None, ev_operationId = None, ev_payload = j\<rparr>]"
  shows "\<exists>b'. append_and_read backend sha fresh i (\<lambda>b. b) pending sid (plain_draft ty j) no_signal b =
      Inr (projected_record es False rec, b') \<and> inv b' \<and> history b' sid = history b sid @ es"
proof -
  have "snapshotEventDrafts [plain_draft ty j] =
      Inr [\<lparr>ev_type = ty, ev_turnId = None, ev_operationId = None, ev_payload = j\<rparr>]"
    by (simp add: snapshotEventDrafts_def)
  from append_extends_history [OF assms(1,2) this _ es_def, of pending]
  obtain b' where "journal_append backend sha fresh i (\<lambda>b. b) pending sid [plain_draft ty j] no_signal b = Inr (es, b')"
    "inv b'" "jb_getSession backend b' sid = Some (projected_record es False rec)"
    "history b' sid = history b sid @ es"
    by blast
  then show ?thesis by (simp add: append_and_read_def)
qed

end

end
