(* ===== verification/Memory_Journal.thy ===== *)
theory Memory_Journal
  imports Journal
begin

text \<open>
  The page-memory journal backend (\<open>core/memory-journal.ts\<close>), that it honours the contract of
  \<open>JournalBackend\<close>, and what the journal guarantees over it: fenced, hash-chained, tamper-evident
  histories and records that are exactly the projection of their events.
\<close>

record memory_backend =
  mb_sessions :: "(string \<times> session_record) list"
  mb_events :: "(string \<times> durable_event list) list"

definition MemoryJournalBackend :: memory_backend where
  "MemoryJournalBackend = \<lparr>mb_sessions = [], mb_events = []\<rparr>"

definition mj_createSession :: "session_record \<Rightarrow> memory_backend \<Rightarrow> journal_error + memory_backend" where
  "mj_createSession session b =
    (if map_of (mb_sessions b) (sr_id session) \<noteq> None then Inl (SessionExists (sr_id session))
     else Inr \<lparr>mb_sessions = AList.update (sr_id session) session (mb_sessions b),
               mb_events = AList.update (sr_id session) [] (mb_events b)\<rparr>)"

definition mj_getSession :: "memory_backend \<Rightarrow> string \<Rightarrow> session_record option" where
  "mj_getSession b sessionId = map_of (mb_sessions b) sessionId"

text \<open>\<open>localeCompare\<close> is the host's collation, the parameter \<open>collate\<close>.\<close>

definition mj_listSessions :: "(string \<Rightarrow> string \<Rightarrow> int) \<Rightarrow> memory_backend \<Rightarrow> session_record list" where
  "mj_listSessions collate b =
    sort_by (\<lambda>left right. collate (sr_updatedAt right) (sr_updatedAt left)) (map snd (mb_sessions b))"

definition mj_deleteSession :: "string \<Rightarrow> journal_head \<Rightarrow> memory_backend \<Rightarrow> journal_error + memory_backend" where
  "mj_deleteSession sessionId expectedHead b =
    (case map_of (mb_sessions b) sessionId of
       None \<Rightarrow> Inr b
     | Some session \<Rightarrow>
         if sr_headSequence session \<noteq> jh_sequence expectedHead \<or> sr_headDigest session \<noteq> jh_digest expectedHead
         then Inl (JournalConflict ''The conversation changed since it was read; it was not deleted.'')
         else Inr \<lparr>mb_sessions = AList.delete sessionId (mb_sessions b),
                   mb_events = AList.delete sessionId (mb_events b)\<rparr>)"

definition mj_readEvents :: "memory_backend \<Rightarrow> string \<Rightarrow> int \<Rightarrow> durable_event list" where
  "mj_readEvents b sessionId afterSequence =
    filter (\<lambda>e. ev_sequence e > afterSequence)
      (case map_of (mb_events b) sessionId of Some es \<Rightarrow> es | None \<Rightarrow> [])"

text \<open>The check of the links inside the batch.\<close>

fun batch_chain :: "durable_event list \<Rightarrow> bool" where
  "batch_chain (e # f # es) \<longleftrightarrow>
     ev_sequence f = ev_sequence e + 1 \<and> ev_previousDigest f = ev_digest e \<and> batch_chain (f # es)"
| "batch_chain _ = True"

definition mj_append ::
  "string \<Rightarrow> journal_head \<Rightarrow> durable_event list \<Rightarrow> bool \<Rightarrow> memory_backend \<Rightarrow>
    journal_error + (session_record \<times> memory_backend)" where
  "mj_append sessionId expectedHead events replay b =
    (case map_of (mb_sessions b) sessionId of
       None \<Rightarrow> Inl (UnknownSession sessionId)
     | Some session \<Rightarrow>
         if sr_headSequence session \<noteq> jh_sequence expectedHead \<or> sr_headDigest session \<noteq> jh_digest expectedHead
         then Inl (JournalConflict ''The session head changed while appending events.'')
         else if events = [] then Inr (session, b)
         else if ev_sequence (hd events) \<noteq> sr_headSequence session + 1 \<or>
           ev_previousDigest (hd events) \<noteq> sr_headDigest session
         then Inl (JournalConflict ''The append does not extend the current digest chain.'')
         else if \<not> batch_chain events then Inl BrokenChain
         else (case map_of (mb_events b) sessionId of
           None \<Rightarrow> Inl EventsMissing
         | Some stored \<Rightarrow>
             let updated = projected_record events replay session
             in Inr (updated, \<lparr>mb_sessions = AList.update sessionId updated (mb_sessions b),
                               mb_events = AList.update sessionId (stored @ events) (mb_events b)\<rparr>)))"

definition memory_journal :: "memory_backend journal_backend" where
  "memory_journal = \<lparr>jb_createSession = mj_createSession, jb_getSession = mj_getSession,
     jb_readEvents = mj_readEvents, jb_append = mj_append, jb_deleteSession = mj_deleteSession\<rparr>"

section \<open>The invariant\<close>

definition session_ok :: "session_record \<Rightarrow> durable_event list \<Rightarrow> bool" where
  "session_ok s es \<longleftrightarrow> linked 0 ''genesis'' es \<and> sr_headSequence s = int (length es) \<and>
     sr_headDigest s = end_digest ''genesis'' es"

definition backend_ok :: "memory_backend \<Rightarrow> bool" where
  "backend_ok b \<longleftrightarrow> distinct (map fst (mb_sessions b)) \<and> distinct (map fst (mb_events b)) \<and>
     (\<forall>k. map_of (mb_sessions b) k = None \<longleftrightarrow> map_of (mb_events b) k = None) \<and>
     (\<forall>k s es. map_of (mb_sessions b) k = Some s \<longrightarrow> map_of (mb_events b) k = Some es \<longrightarrow>
        sr_id s = k \<and> session_ok s es)"

lemma linked_sequences: "linked n d es \<Longrightarrow> e \<in> set es \<Longrightarrow> n < ev_sequence e"
  by (induction es arbitrary: n d) force+

lemma filter_after_start: "linked n d es \<Longrightarrow> filter (\<lambda>e. n < ev_sequence e) es = es"
  by (simp add: filter_id_conv linked_sequences)

lemma linked_batch_iff: "linked n d (e # es) \<longleftrightarrow>
    ev_sequence e = n + 1 \<and> ev_previousDigest e = d \<and> batch_chain (e # es)"
proof (induction es arbitrary: n d e)
  case (Cons f es)
  show ?case
    using Cons [of "n + 1" "ev_digest e" f] by auto
qed simp

lemma backend_okD:
  assumes "backend_ok b" "map_of (mb_sessions b) k = Some s"
  obtains es where "map_of (mb_events b) k = Some es" "session_ok s es" "sr_id s = k"
    "mj_readEvents b k 0 = es"
proof -
  obtain es where es: "map_of (mb_events b) k = Some es"
    using assms by (metis backend_ok_def not_None_eq option.distinct(1))
  with assms have "session_ok s es" "sr_id s = k"
    by (auto simp: backend_ok_def)
  moreover from this have "mj_readEvents b k 0 = es"
    using es filter_after_start [of 0 "''genesis''" es] by (simp add: mj_readEvents_def session_ok_def)
  ultimately show thesis using es that by blast
qed

lemma projected_record_fields [simp]:
  "sr_id (projected_record es r s) = sr_id s"
  "sr_manifest (projected_record es r s) = sr_manifest s"
  "sr_createdAt (projected_record es r s) = sr_createdAt s"
  "sr_headSequence (projected_record es r s) = ev_sequence (last es)"
  "sr_headDigest (projected_record es r s) = ev_digest (last es)"
  "sr_title (projected_record es r s) = projectedSessionTitle es (sr_title s)"
  by (simp_all add: projected_record_def projectedSessionPins_def Let_def)

lemma session_ok_append:
  assumes "session_ok s es" "fs \<noteq> []" "linked (sr_headSequence s) (sr_headDigest s) fs"
  shows "session_ok (projected_record fs r s) (es @ fs)"
  using assms linked_last_sequence [OF assms(3,2)]
  by (simp add: session_ok_def linked_append end_digest_def)

lemma backend_ok_create:
  assumes "backend_ok b" "map_of (mb_sessions b) (sr_id s) = None" "session_ok s []"
  shows "backend_ok \<lparr>mb_sessions = AList.update (sr_id s) s (mb_sessions b),
    mb_events = AList.update (sr_id s) [] (mb_events b)\<rparr>"
  using assms by (simp add: backend_ok_def distinct_update update_conv')

lemma backend_ok_append:
  assumes "backend_ok b" "map_of (mb_sessions b) k = Some s" "map_of (mb_events b) k = Some es"
    and "fs \<noteq> []" "linked (sr_headSequence s) (sr_headDigest s) fs"
  shows "backend_ok \<lparr>mb_sessions = AList.update k (projected_record fs r s) (mb_sessions b),
    mb_events = AList.update k (es @ fs) (mb_events b)\<rparr>"
proof -
  have "session_ok s es" "sr_id s = k"
    using assms(1-3) by (auto simp: backend_ok_def)
  then show ?thesis
    using assms session_ok_append [OF _ assms(4,5), of es r]
    by (simp add: backend_ok_def distinct_update update_conv')
qed

lemma backend_ok_delete:
  assumes "backend_ok b"
  shows "backend_ok \<lparr>mb_sessions = AList.delete k (mb_sessions b), mb_events = AList.delete k (mb_events b)\<rparr>"
  using assms by (simp add: backend_ok_def distinct_delete delete_conv')

lemma backend_ok_empty: "backend_ok MemoryJournalBackend"
  by (simp add: backend_ok_def MemoryJournalBackend_def)

interpretation mem: journal_store memory_journal backend_ok
proof (unfold_locales, goal_cases)
  case (1 b s)
  then have none: "map_of (mb_sessions b) (sr_id s) = None"
    by (simp add: memory_journal_def mj_getSession_def)
  moreover have "session_ok s []"
    using 1 by (simp add: session_ok_def end_digest_def)
  ultimately show ?case
    using backend_ok_create [OF 1(1)]
    by (simp add: memory_journal_def mj_createSession_def mj_getSession_def mj_readEvents_def update_conv')
next
  case (2 b sid rec)
  then have "map_of (mb_sessions b) sid = Some rec"
    by (simp add: memory_journal_def mj_getSession_def)
  with 2(1) obtain es where "session_ok rec es" "mj_readEvents b sid 0 = es"
    by (rule backend_okD)
  then show ?case by (simp add: memory_journal_def session_ok_def)
next
  case (3 b sid rec h es replay)
  then have s: "map_of (mb_sessions b) sid = Some rec"
    by (simp add: memory_journal_def mj_getSession_def)
  with 3(1) obtain stored where stored: "map_of (mb_events b) sid = Some stored" "mj_readEvents b sid 0 = stored"
    "session_ok rec stored"
    by (rule backend_okD)
  let ?b = "\<lparr>mb_sessions = AList.update sid (projected_record es replay rec) (mb_sessions b),
    mb_events = AList.update sid (stored @ es) (mb_events b)\<rparr>"
  have ok: "backend_ok ?b"
    using backend_ok_append [OF 3(1) s stored(1) 3(4,5)] .
  have "mj_append sid h es replay b = Inr (projected_record es replay rec, ?b)"
    using 3 s stored linked_batch_iff [of "sr_headSequence rec" "sr_headDigest rec" "hd es" "tl es"]
    by (simp add: mj_append_def head_matches_def Let_def)
  moreover have "mj_readEvents ?b sid 0 = stored @ es"
    using backend_okD [OF ok, of sid "projected_record es replay rec"] by (simp add: update_conv')
  ultimately show ?case
    using ok stored(2) by (auto simp: memory_journal_def mj_getSession_def mj_readEvents_def update_conv')
next
  case (4 b sid rec h es replay)
  then show ?case
    by (auto simp: memory_journal_def mj_getSession_def mj_append_def head_matches_def)
next
  case (5 b sid h es replay)
  then show ?case
    by (simp add: memory_journal_def mj_getSession_def mj_append_def)
next
  case (6 b sid h b')
  show ?case
  proof (cases "map_of (mb_sessions b) sid")
    case None
    with 6 have "map_of (mb_events b) sid = None" "b' = b"
      by (simp_all add: backend_ok_def memory_journal_def mj_deleteSession_def)
    with None 6(1) show ?thesis
      by (simp add: memory_journal_def mj_getSession_def mj_readEvents_def)
  next
    case (Some rec)
    with 6(2) have "head_matches h rec"
      "b' = \<lparr>mb_sessions = AList.delete sid (mb_sessions b), mb_events = AList.delete sid (mb_events b)\<rparr>"
      by (auto simp: memory_journal_def mj_deleteSession_def head_matches_def split: if_splits)
    with Some backend_ok_delete [OF 6(1), of sid] show ?thesis
      by (simp add: memory_journal_def mj_getSession_def mj_readEvents_def delete_conv')
  qed
qed

section \<open>Every state the journal can reach\<close>

text \<open>
  The states of a page-memory backend under any number of clients. An append may read its head in one
  reachable state and reach the backend's compare-and-set in another, which is how the operations of
  concurrent clients interleave.
\<close>

inductive journal_reachable :: "(string \<Rightarrow> string) \<Rightarrow> memory_backend \<Rightarrow> bool" for sha where
  start: "journal_reachable sha MemoryJournalBackend"
| create: "journal_reachable sha b \<Longrightarrow>
    mj_createSession (new_session sid title manifest createdAt) b = Inr b' \<Longrightarrow> journal_reachable sha b'"
| append: "journal_reachable sha b \<Longrightarrow> journal_reachable sha c \<Longrightarrow>
    journal_append memory_journal sha fresh i (\<lambda>_. c) pending sid drafts signal b = Inr (events, b') \<Longrightarrow>
    journal_reachable sha b'"
| fenced_append: "journal_reachable sha b \<Longrightarrow>
    appendAtHead memory_journal sha fresh i pending sid head drafts signal b = Inr (events, session, b') \<Longrightarrow>
    journal_reachable sha b'"
| delete: "journal_reachable sha b \<Longrightarrow>
    journal_deleteSession memory_journal sid head b = Inr b' \<Longrightarrow> journal_reachable sha b'"

lemma jb_simps [simp]:
  "jb_getSession memory_journal = mj_getSession" "jb_readEvents memory_journal = mj_readEvents"
  "jb_createSession memory_journal = mj_createSession" "jb_append memory_journal = mj_append"
  "jb_deleteSession memory_journal = mj_deleteSession"
  by (simp_all add: memory_journal_def)

lemma mem_history [simp]: "mem.history b sid = mj_readEvents b sid 0"
  by (simp add: mem.history_def)

lemma create_Inr_none: "mj_createSession s b = Inr b' \<Longrightarrow> mj_getSession b (sr_id s) = None"
  by (auto simp: mj_createSession_def mj_getSession_def split: if_splits)

lemma sealed_empty: "mem.sealed_history sha MemoryJournalBackend"
  by (simp add: mem.sealed_history_def mj_getSession_def MemoryJournalBackend_def)

lemma reachable_sealed: "journal_reachable sha b \<Longrightarrow> backend_ok b \<and> mem.sealed_history sha b"
proof (induction rule: journal_reachable.induct)
  case start
  then show ?case by (simp add: backend_ok_empty sealed_empty)
next
  case (create b sid title manifest createdAt b')
  then show ?case
    using mem.createSession_keeps_sealed [of b sha "new_session sid title manifest createdAt" b']
      create_Inr_none [OF create.hyps(2)]
    by (simp add: new_session_def)
next
  case (append b c fresh i pending sid drafts signal events b')
  then show ?case
    using mem.journal_append_keeps_sealed [of "\<lambda>_. c" b sha fresh i pending sid drafts signal events b'] by simp
next
  case (fenced_append b fresh i pending sid head drafts signal events session b')
  then show ?case
    using mem.appendAtHead_keeps_sealed [of b sha fresh i pending sid head drafts signal events session b'] by simp
next
  case (delete b sid head b')
  then show ?case
    using mem.deleteSession_keeps_sealed [of b sha sid "snapshotJournalHead head" b']
    by (simp add: journal_deleteSession_def)
qed

text \<open>C1: In every state that any interleaving of session creation, appends, fenced appends and
  deletions by any number of clients can reach, each session's stored history is an unbroken chain:
  the events are numbered from 1 without gaps, each names the digest of its predecessor, each digest
  is the hash of that event's own canonical text, and the record's head is the last event. A client
  that read a stale head can therefore never fork or corrupt a history.\<close>

theorem reachable_histories_chained:
  assumes "journal_reachable sha b" "mj_getSession b sid = Some s"
  shows "linked 0 ''genesis'' (mj_readEvents b sid 0) \<and>
    (\<forall>e\<in>set (mj_readEvents b sid 0). sealed sha sid e) \<and>
    sr_headSequence s = int (length (mj_readEvents b sid 0)) \<and>
    sr_headDigest s = end_digest ''genesis'' (mj_readEvents b sid 0)"
proof -
  have "backend_ok b" "mem.sealed_history sha b"
    using reachable_sealed [OF assms(1)] by auto
  then show ?thesis
    using mem.history_linked [of b sid s] assms(2) by (auto simp: mem.sealed_history_def)
qed

definition demo_manifest :: session_manifest where
  "demo_manifest = \<lparr>mf_model = ''m1'', mf_contextPolicy = None, mf_fields = []\<rparr>"

definition demo_session :: session_record where
  "demo_session = new_session ''s'' ''Notes'' demo_manifest ''t0''"

definition demo_backend :: memory_backend where
  "demo_backend = \<lparr>mb_sessions = [(''s'', demo_session)], mb_events = [(''s'', [])]\<rparr>"

lemma demo_reachable: "journal_reachable sha demo_backend"
  by (rule journal_reachable.create [OF journal_reachable.start,
        of "''s''" "''Notes''" demo_manifest "''t0''"])
    (simp add: mj_createSession_def MemoryJournalBackend_def demo_backend_def demo_session_def new_session_def)

lemma demo_get: "mj_getSession demo_backend ''s'' = Some demo_session"
  by (simp add: mj_getSession_def demo_backend_def)

theorem reachable_histories_chained_witness:
  "mj_getSession demo_backend ''s'' = Some demo_session \<and> sr_headDigest demo_session = ''genesis''"
  using reachable_histories_chained [OF demo_reachable [of "\<lambda>x. x"] demo_get] demo_get
  by (simp add: mj_readEvents_def demo_backend_def end_digest_def)



text \<open>C14: An append commits exactly its drafts. Undisturbed, it succeeds, stores one sealed event per
  draft after the existing history and nothing else, brings the record to the projection of those
  events, and leaves every other session alone. If another client moved the head in between, it
  fails with a conflict instead.\<close>

theorem append_commits_or_conflicts:
  assumes "backend_ok b" "mj_getSession b sid = Some s" "snapshotEventDrafts drafts = Inr owned" "drafts \<noteq> []"
  shows "(\<exists>events b'. journal_append memory_journal sha fresh i (\<lambda>b. b) pending sid drafts no_signal b = Inr (events, b') \<and>
      backend_ok b' \<and> map draft_of events = owned \<and>
      mj_readEvents b' sid 0 = mj_readEvents b sid 0 @ events \<and>
      mj_getSession b' sid = Some (projected_record events False s) \<and>
      (\<forall>k. k \<noteq> sid \<longrightarrow> mj_getSession b' k = mj_getSession b k \<and> mj_readEvents b' k 0 = mj_readEvents b k 0)) \<and>
    (\<forall>c s'. backend_ok c \<and> mj_getSession c sid = Some s' \<and>
      (sr_headSequence s', sr_headDigest s') \<noteq> (sr_headSequence s, sr_headDigest s) \<longrightarrow>
      (\<exists>m. journal_append memory_journal sha fresh i (\<lambda>_. c) pending sid drafts no_signal b = Inl (JournalConflict m)))"
proof (intro conjI allI impI)
  show "\<exists>events b'. journal_append memory_journal sha fresh i (\<lambda>b. b) pending sid drafts no_signal b = Inr (events, b') \<and>
      backend_ok b' \<and> map draft_of events = owned \<and>
      mj_readEvents b' sid 0 = mj_readEvents b sid 0 @ events \<and>
      mj_getSession b' sid = Some (projected_record events False s) \<and>
      (\<forall>k. k \<noteq> sid \<longrightarrow> mj_getSession b' k = mj_getSession b k \<and> mj_readEvents b' k 0 = mj_readEvents b k 0)"
    using mem.append_extends_history [OF assms(1) _ assms(3,4) refl, of sid s sha fresh i pending] assms(2)
    unfolding jb_simps mem_history by (metis draft_of_seal_events)
next
  fix c s'
  assume "backend_ok c \<and> mj_getSession c sid = Some s' \<and>
    (sr_headSequence s', sr_headDigest s') \<noteq> (sr_headSequence s, sr_headDigest s)"
  then show "\<exists>m. journal_append memory_journal sha fresh i (\<lambda>_. c) pending sid drafts no_signal b = Inl (JournalConflict m)"
    using mem.append_refused_when_overtaken [OF assms(1) _ assms(3,4), of sid s "\<lambda>_. c" s' sha fresh i pending] assms(2)
    by simp
qed

definition demo_fresh :: "nat \<Rightarrow> string \<times> string" where
  "demo_fresh i = (''e'' @ dec_nat i, ''t1'')"

theorem append_commits_or_conflicts_witness:
  "\<exists>events b'. journal_append memory_journal (\<lambda>x. x) demo_fresh 0 (\<lambda>b. b) False ''s''
      [plain_draft ''user.message'' (JStr ''hi'')] no_signal demo_backend = Inr (events, b') \<and>
    map ev_type events = [''user.message''] \<and> mj_readEvents b' ''s'' 0 = events"
proof -
  have ok: "backend_ok demo_backend"
    using reachable_sealed demo_reachable by blast
  have none: "mj_readEvents demo_backend ''s'' 0 = []"
    by (simp add: mj_readEvents_def demo_backend_def)
  let ?d = "\<lparr>ev_type = ''user.message'', ev_turnId = None, ev_operationId = None, ev_payload = JStr ''hi''\<rparr>"
  have snap: "snapshotEventDrafts [plain_draft ''user.message'' (JStr ''hi'')] = Inr [?d]"
    by (simp add: snapshotEventDrafts_def)
  from conjunct1 [OF append_commits_or_conflicts
      [OF ok demo_get snap list.distinct(2), of "\<lambda>x. x" demo_fresh 0 False]]
  obtain events b' where e: "journal_append memory_journal (\<lambda>x. x) demo_fresh 0 (\<lambda>b. b) False ''s''
      [plain_draft ''user.message'' (JStr ''hi'')] no_signal demo_backend = Inr (events, b')"
    and d: "map draft_of events = [?d]" and r: "mj_readEvents b' ''s'' 0 = mj_readEvents demo_backend ''s'' 0 @ events"
    by (elim exE conjE) (rule that)
  from d have "map ev_type events = [''user.message'']"
    by (cases events) (auto simp: draft_of_def)
  with e r none show ?thesis by simp
qed

section \<open>What an append grants\<close>

lemma last_hit_single [simp]: "last_hit f [e] = f e"
  by (cases "f e") (simp_all add: last_hit_def)

lemma last_hit_snoc: "last_hit f (es @ [e]) = (case f e of Some y \<Rightarrow> Some y | None \<Rightarrow> last_hit f es)"
  unfolding last_hit_def by simp

lemma last_hit_None_iff: "last_hit f es = None \<longleftrightarrow> (\<forall>e\<in>set es. f e = None)"
  by (induction es rule: rev_induct) (auto simp: last_hit_snoc last_hit_def split: option.splits)

lemma recency_None_iff:
  "lastRecencyAdvancingEvent es = None \<longleftrightarrow> (\<forall>e\<in>set es. ev_type e \<in> set SESSION_BOOKKEEPING_EVENT_TYPES)"
  by (simp add: lastRecencyAdvancingEvent_def last_hit_None_iff)

text \<open>C21: A replayed history grants nothing: whatever events a replay carries, the record's approval
  mode, model and context-policy overrides and its manifest stay as they were; only title, recency
  and head follow the events. Recency moves exactly when some event is not bookkeeping.\<close>

theorem replay_grants_nothing:
  assumes "mj_getSession b sid = Some s" "mj_append sid head events True b = Inr (s', b')"
  shows "sr_approvalModeOverride s' = sr_approvalModeOverride s \<and> sr_modelOverride s' = sr_modelOverride s \<and>
    sr_contextPolicyOverride s' = sr_contextPolicyOverride s \<and> sr_manifest s' = sr_manifest s \<and>
    sr_title s' = projectedSessionTitle events (sr_title s) \<and>
    ((\<forall>e\<in>set events. ev_type e \<in> set SESSION_BOOKKEEPING_EVENT_TYPES) \<longrightarrow> sr_updatedAt s' = sr_updatedAt s) \<and>
    (\<forall>e. lastRecencyAdvancingEvent events = Some e \<longrightarrow> sr_updatedAt s' = ev_recordedAt e)"
proof (cases "events = []")
  case True
  with assms have "s' = s"
    by (auto simp: mj_append_def mj_getSession_def split: if_splits)
  with True show ?thesis
    by (simp add: projectedSessionTitle_def last_hit_def lastRecencyAdvancingEvent_def)
next
  case False
  with assms have "s' = projected_record events True s"
    by (auto simp: mj_append_def mj_getSession_def Let_def split: if_splits option.splits)
  then show ?thesis
    by (auto simp: projected_record_def Let_def recency_None_iff [symmetric] split: option.splits)
qed

definition grant_event :: durable_event where
  "grant_event = \<lparr>ev_type = ''session.approval-policy-changed'', ev_turnId = None, ev_operationId = None,
     ev_payload = JObj [(''approvalMode'', JStr ''full-access'')], ev_eventId = ''e1'', ev_sessionId = ''s'',
     ev_sequence = 1, ev_recordedAt = ''t1'', ev_previousDigest = ''genesis'', ev_digest = ''d1''\<rparr>"

lemma demo_replay: "mj_append ''s'' (head_of demo_session) [grant_event] True demo_backend =
  Inr (projected_record [grant_event] True demo_session,
    \<lparr>mb_sessions = [(''s'', projected_record [grant_event] True demo_session)], mb_events = [(''s'', [grant_event])]\<rparr>)"
  by (simp add: mj_append_def demo_backend_def demo_session_def head_of_def new_session_def grant_event_def Let_def)

theorem replay_grants_nothing_witness:
  "sr_approvalModeOverride (projected_record [grant_event] True demo_session) = None \<and>
   sr_approvalModeOverride (projected_record [grant_event] False demo_session) = Some (JStr ''full-access'')"
proof
  show "sr_approvalModeOverride (projected_record [grant_event] True demo_session) = None"
    using replay_grants_nothing [OF demo_get demo_replay] by (simp add: demo_session_def new_session_def)
  show "sr_approvalModeOverride (projected_record [grant_event] False demo_session) = Some (JStr ''full-access'')"
    by (simp add: projected_record_def projectedSessionPins_def Let_def projectedSessionApprovalMode_def
        grant_event_def APPROVAL_MODES_def)
qed

section \<open>Edits of a session\<close>

lemma seal_one:
  obtains e where "seal_events sha fresh i sid n d [dr] = [e]" "draft_of e = dr"
  using draft_of_seal_events [of sha fresh i sid n d "[dr]"]
  by (auto simp del: seal_events.simps draft_of_seal_events simp: map_eq_Cons_conv)

lemma edit_succeeds:
  assumes "backend_ok b" "mj_getSession b sid = Some s"
  shows "\<exists>e b'. append_and_read memory_journal sha fresh i (\<lambda>b. b) pending sid (plain_draft ty j) no_signal b =
      Inr (projected_record [e] False s, b') \<and> backend_ok b' \<and> mj_getSession b' sid = Some (projected_record [e] False s) \<and>
      mj_readEvents b' sid 0 = mj_readEvents b sid 0 @ [e] \<and> ev_type e = ty \<and> ev_payload e = j"
proof -
  let ?d = "\<lparr>ev_type = ty, ev_turnId = None, ev_operationId = None, ev_payload = j\<rparr>"
  obtain e where e: "seal_events sha fresh i sid (sr_headSequence s) (sr_headDigest s) [?d] = [e]" "draft_of e = ?d"
    by (rule seal_one)
  obtain b' where *: "append_and_read memory_journal sha fresh i (\<lambda>b. b) pending sid (plain_draft ty j) no_signal b =
      Inr (projected_record [e] False s, b')"
    "backend_ok b'" "mj_readEvents b' sid 0 = mj_readEvents b sid 0 @ [e]"
    using mem.append_one [OF assms(1) _ e(1) [symmetric], of pending] assms(2) by auto
  then have "mj_getSession b' sid = Some (projected_record [e] False s)"
    by (auto simp: append_and_read_def result_simps split: option.splits)
  moreover have "ev_type e = ty" "ev_payload e = j"
    using e(2) by (simp_all add: draft_of_def)
  ultimately show ?thesis using * by blast
qed

text \<open>Renaming is validated and durable: a title that is empty after trimming, longer than 240
  characters or carries control characters is refused before anything is appended; any other title
  succeeds, is the record's title, trimmed, and changes none of the record's pins.\<close>

theorem rename_takes_effect:
  assumes "backend_ok b" "mj_getSession b sid = Some s"
  shows "if trim title = [] \<or> length (trim title) > 240 \<or> list_ex is_control (trim title)
    then renameSession memory_journal sha fresh i (\<lambda>b. b) pending sid title no_signal b = Inl InvalidTitle
    else (\<exists>s' b'. renameSession memory_journal sha fresh i (\<lambda>b. b) pending sid title no_signal b = Inr (s', b') \<and>
      backend_ok b' \<and> mj_getSession b' sid = Some s' \<and> sr_title s' = trim title \<and>
      sr_modelOverride s' = sr_modelOverride s \<and> sr_approvalModeOverride s' = sr_approvalModeOverride s \<and>
      sr_contextPolicyOverride s' = sr_contextPolicyOverride s \<and> sr_headSequence s' = sr_headSequence s + 1)"
proof -
  let ?j = "JObj [(''title'', JStr (trim title))]"
  obtain e b' where e: "append_and_read memory_journal sha fresh i (\<lambda>b. b) pending sid
      (plain_draft ''session.renamed'' ?j) no_signal b = Inr (projected_record [e] False s, b')"
    "backend_ok b'" "mj_getSession b' sid = Some (projected_record [e] False s)"
    "ev_type e = ''session.renamed''" "ev_payload e = ?j" "mj_readEvents b' sid 0 = mj_readEvents b sid 0 @ [e]"
    using edit_succeeds [OF assms] by metis
  have "sr_headSequence (projected_record [e] False s) = sr_headSequence s + 1"
    using mem.history_linked [of b' sid] mem.history_linked [of b sid s] assms e by simp
  with e show ?thesis
    by (simp add: renameSession_def projectedSessionTitle_def projected_record_def projectedSessionPins_def
        projectedSessionModel_def projectedSessionApprovalMode_def projectedSessionContextPolicy_def Let_def)
qed

theorem rename_takes_effect_witness:
  "\<exists>s' b'. renameSession memory_journal (\<lambda>x. x) demo_fresh 0 (\<lambda>b. b) False ''s'' '' Plan '' no_signal demo_backend =
    Inr (s', b') \<and> sr_title s' = ''Plan''"
proof -
  have ok: "backend_ok demo_backend"
    using reachable_sealed demo_reachable by blast
  have "trim '' Plan '' = ''Plan''" "\<not> list_ex is_control ''Plan''"
    by (simp_all add: trim_def is_ws_def is_control_def)
  then show ?thesis
    using rename_takes_effect [OF ok demo_get, of "'' Plan ''" "\<lambda>x. x" demo_fresh 0 False] by auto
qed

lemma policy_json_not_null: "policy_json p \<noteq> JNull"
  by (simp add: policy_json_def)

text \<open>Changing the model in flight is exact: a valid identifier becomes the model the session
  routes to, the context policy in force becomes the one supplied, none when \<open>null\<close> was supplied, and
  stays what it was when none was named; the title and the approval mode do not move. An invalid
  identifier or policy is refused and nothing is appended.\<close>

theorem model_change_takes_effect:
  assumes "backend_ok b" "mj_getSession b sid = Some s"
  shows "if validSessionModelId model \<and> (\<forall>v. policy = Some (Some v) \<longrightarrow> canonicalSessionContextPolicy v \<noteq> None)
    then (\<exists>s' b'. setSessionModel memory_journal sha fresh i (\<lambda>b. b) pending sid model policy no_signal b = Inr (s', b') \<and>
      backend_ok b' \<and> mj_getSession b' sid = Some s' \<and> effectiveSessionModel s' = model \<and>
      effectiveSessionContextPolicy s' = (case policy of None \<Rightarrow> effectiveSessionContextPolicy s
        | Some None \<Rightarrow> None | Some (Some v) \<Rightarrow> canonicalSessionContextPolicy v) \<and>
      sr_title s' = sr_title s \<and> sr_approvalModeOverride s' = sr_approvalModeOverride s)
    else setSessionModel memory_journal sha fresh i (\<lambda>b. b) pending sid model policy no_signal b \<in>
      {Inl InvalidModel, Inl InvalidContextPolicy}"
proof (cases "validSessionModelId model \<and> (\<forall>v. policy = Some (Some v) \<longrightarrow> canonicalSessionContextPolicy v \<noteq> None)")
  case True
  define part where "part = (case policy of None \<Rightarrow> [] | Some None \<Rightarrow> [(''contextPolicy'', JNull)]
    | Some (Some v) \<Rightarrow> [(''contextPolicy'', policy_json (the (canonicalSessionContextPolicy v)))])"
  let ?j = "JObj ((''model'', JStr model) # part)"
  obtain e b' where e: "append_and_read memory_journal sha fresh i (\<lambda>b. b) pending sid
      (plain_draft ''session.model-changed'' ?j) no_signal b = Inr (projected_record [e] False s, b')"
    "backend_ok b'" "mj_getSession b' sid = Some (projected_record [e] False s)"
    "ev_type e = ''session.model-changed''" "ev_payload e = ?j"
    using edit_succeeds [OF assms] by metis
  have set: "setSessionModel memory_journal sha fresh i (\<lambda>b. b) pending sid model policy no_signal b =
      Inr (projected_record [e] False s, b')"
    using True e(1) by (cases policy) (auto simp: setSessionModel_def part_def split: option.splits)
  have canon: "canonicalSessionContextPolicy (policy_json p) = Some p" if "canonicalSessionContextPolicy v = Some p" for v p
    using that by (simp add: canonical_policy_ok canonical_policy_json)
  have "effectiveSessionModel (projected_record [e] False s) = model"
    using True e by (simp add: effectiveSessionModel_def projected_record_def projectedSessionPins_def
        projectedSessionModel_def Let_def)
  moreover have "effectiveSessionContextPolicy (projected_record [e] False s) = (case policy of
        None \<Rightarrow> effectiveSessionContextPolicy s | Some None \<Rightarrow> None | Some (Some v) \<Rightarrow> canonicalSessionContextPolicy v)"
  proof (cases policy)
    case (Some v)
    then show ?thesis
      using True e(4,5) by (cases v) (auto simp: effectiveSessionContextPolicy_def projected_record_def
          projectedSessionPins_def projectedSessionContextPolicy_def Let_def part_def canon policy_json_not_null)
  qed (use e(4,5) in \<open>simp add: effectiveSessionContextPolicy_def projected_record_def
          projectedSessionPins_def projectedSessionContextPolicy_def Let_def part_def split: option.splits\<close>)
  moreover have "sr_title (projected_record [e] False s) = sr_title s"
    "sr_approvalModeOverride (projected_record [e] False s) = sr_approvalModeOverride s"
    using e by (simp_all add: projected_record_def projectedSessionPins_def projectedSessionTitle_def
        projectedSessionApprovalMode_def Let_def)
  ultimately show ?thesis
    using True set e(2,3) by auto
next
  case False
  then show ?thesis
    by (auto simp: setSessionModel_def split: option.splits)
qed

lemma demo_ok: "backend_ok demo_backend"
  using reachable_sealed demo_reachable by blast

theorem model_change_takes_effect_witness:
  "\<exists>s' b'. setSessionModel memory_journal (\<lambda>x. x) demo_fresh 0 (\<lambda>b. b) False ''s'' ''m2'' (Some None) no_signal demo_backend =
    Inr (s', b') \<and> effectiveSessionModel s' = ''m2'' \<and> effectiveSessionContextPolicy s' = None"
proof -
  have "validSessionModelId ''m2''"
    by (simp add: validSessionModelId_def trim_def is_ws_def is_printable_ascii_def)
  then show ?thesis
    using model_change_takes_effect [OF demo_ok demo_get, of "''m2''" "Some None" "\<lambda>x. x" demo_fresh 0 False] by auto
qed

section \<open>Fenced operations\<close>

lemma appendAtHead_matching:
  assumes "backend_ok b" "mj_getSession b sid = Some s" "snapshotEventDrafts drafts = Inr owned" "drafts \<noteq> []"
    and "head_matches head s"
  shows "\<exists>events s' b'. appendAtHead memory_journal sha fresh i pending sid head drafts no_signal b = Inr (events, s', b') \<and>
      mj_readEvents b' sid 0 = mj_readEvents b sid 0 @ events \<and> map draft_of events = owned"
proof -
  have "owned \<noteq> []"
    using assms(3,4) by (auto simp: snapshotEventDrafts_def dest: map_result_Inr_length)
  then show ?thesis
    using mem.commitAtHead_extends [OF assms(1) _ _ _ refl, of sid s "snapshotJournalHead head" owned sha fresh i] assms
    by (auto simp: appendAtHead_def)
qed

lemma appendAtHead_stale:
  assumes "backend_ok b" "mj_getSession b sid = Some s" "snapshotEventDrafts drafts = Inr owned" "drafts \<noteq> []"
    and "\<not> head_matches head s"
  shows "\<exists>m. appendAtHead memory_journal sha fresh i pending sid head drafts no_signal b = Inl (JournalConflict m)"
  using mem.commitAtHead_stale [OF assms(1), of sid s "snapshotJournalHead head" sha fresh i owned] assms
  by (simp add: appendAtHead_def)

text \<open>C23: A fenced append never rebases: it commits, after exactly the head the caller audited, when
  the session is still there, and is refused with a conflict when it is not. A caller that has
  withdrawn by the time the write would start or be admitted commits nothing.\<close>

theorem fenced_append_exact:
  assumes "backend_ok b" "mj_getSession b sid = Some s" "snapshotEventDrafts drafts = Inr owned" "drafts \<noteq> []"
  shows "(if head_matches head s
     then (\<exists>events s' b'. appendAtHead memory_journal sha fresh i pending sid head drafts no_signal b = Inr (events, s', b') \<and>
       mj_readEvents b' sid 0 = mj_readEvents b sid 0 @ events \<and> map draft_of events = owned)
     else (\<exists>m. appendAtHead memory_journal sha fresh i pending sid head drafts no_signal b = Inl (JournalConflict m))) \<and>
    (signal AtStart \<or> signal BeforeAppend \<longrightarrow>
      appendAtHead memory_journal sha fresh i pending sid head drafts signal b = Inl Aborted)"
  using appendAtHead_matching [OF assms] appendAtHead_stale [OF assms] assms(3,4)
  by (simp add: appendAtHead_def commitAtHead_def Let_def)

theorem fenced_append_exact_witness:
  "\<exists>m. appendAtHead memory_journal (\<lambda>x. x) demo_fresh 0 False ''s''
     \<lparr>jh_sequence = 4, jh_digest = ''d'', jh_incarnation = None\<rparr>
     [plain_draft ''user.message'' (JStr ''hi'')] no_signal demo_backend = Inl (JournalConflict m)"
proof -
  have "\<not> head_matches \<lparr>jh_sequence = 4, jh_digest = ''d'', jh_incarnation = None\<rparr> demo_session"
    by (simp add: head_matches_def demo_session_def new_session_def)
  moreover have "snapshotEventDrafts [plain_draft ''user.message'' (JStr ''hi'')] =
      Inr [\<lparr>ev_type = ''user.message'', ev_turnId = None, ev_operationId = None, ev_payload = JStr ''hi''\<rparr>]"
    by (simp add: snapshotEventDrafts_def)
  ultimately show ?thesis
    using conjunct1 [OF fenced_append_exact [OF demo_ok demo_get]] by auto
qed

text \<open>Deletion is fenced to the head the caller last read: with that head the conversation and all
  its events are gone and no other session changes; with any other head nothing is deleted; a
  session that is already gone counts as deleted.\<close>

theorem delete_fenced_to_head:
  assumes "backend_ok b"
  shows "case mj_getSession b sid of
      None \<Rightarrow> journal_deleteSession memory_journal sid head b = Inr b
    | Some s \<Rightarrow> if head_matches head s
        then (\<exists>b'. journal_deleteSession memory_journal sid head b = Inr b' \<and> backend_ok b' \<and>
          mj_getSession b' sid = None \<and> mj_readEvents b' sid 0 = [] \<and>
          (\<forall>k. k \<noteq> sid \<longrightarrow> mj_getSession b' k = mj_getSession b k \<and> mj_readEvents b' k 0 = mj_readEvents b k 0))
        else (\<exists>m. journal_deleteSession memory_journal sid head b = Inl (JournalConflict m))"
proof (cases "mj_getSession b sid")
  case (Some s)
  show ?thesis
  proof (cases "head_matches head s")
    case True
    then obtain b' where b': "mj_deleteSession sid (snapshotJournalHead head) b = Inr b'"
      using Some by (simp add: mj_deleteSession_def mj_getSession_def head_matches_def)
    with mem.delete_fenced [OF assms, of sid "snapshotJournalHead head" b'] Some True show ?thesis
      by (simp add: journal_deleteSession_def)
  qed (use Some in \<open>auto simp: journal_deleteSession_def mj_deleteSession_def mj_getSession_def head_matches_def\<close>)
qed (simp add: journal_deleteSession_def mj_deleteSession_def mj_getSession_def)

theorem delete_fenced_to_head_witness:
  "\<exists>b'. journal_deleteSession memory_journal ''s'' (head_of demo_session) demo_backend = Inr b' \<and>
    mj_getSession b' ''s'' = None"
  using delete_fenced_to_head [OF demo_ok, of "''s''" "head_of demo_session"] demo_get by (auto simp: head_of_matches)

section \<open>Creation\<close>

text \<open>Creating a session under a fresh identifier always succeeds and leaves a well-formed journal
  in which the new history begins with the creation event and continues with the initial drafts in
  order; drafts that try to forge a second creation event, or are not JSON, are refused before the
  backend is touched.\<close>

theorem create_session_starts_history:
  assumes "backend_ok b" "fresh i = (sid, createdAt)" "mj_getSession b sid = None"
    and "snapshotEventDrafts (f (new_session sid title manifest createdAt)) = Inr owned"
  shows "if list_ex (\<lambda>e. ev_type e = ''session.created'') owned
    then journal_createSession memory_journal sha fresh i (\<lambda>b. b) title manifest (Some f) b = Inl SecondCreationEvent
    else (\<exists>s b'. journal_createSession memory_journal sha fresh i (\<lambda>b. b) title manifest (Some f) b = Inr (s, b') \<and>
      backend_ok b' \<and> mj_getSession b' sid = Some s \<and> sr_manifest s = manifest \<and>
      map draft_of (mj_readEvents b' sid 0) =
        \<lparr>ev_type = ''session.created'', ev_turnId = None, ev_operationId = None,
         ev_payload = JObj [(''title'', JStr title), (''manifest'', manifest_json manifest)]\<rparr> # owned)"
proof -
  let ?s = "new_session sid title manifest createdAt"
  let ?first = "plain_draft ''session.created'' (JObj [(''title'', JStr title), (''manifest'', manifest_json manifest)])"
  let ?own = "\<lparr>ev_type = ''session.created'', ev_turnId = None, ev_operationId = None,
            ev_payload = JObj [(''title'', JStr title), (''manifest'', manifest_json manifest)]\<rparr> # owned"
  obtain b1 where b1: "mj_createSession ?s b = Inr b1" "backend_ok b1" "mj_getSession b1 sid = Some ?s"
    "mj_readEvents b1 sid 0 = []"
    using mem.create_new [OF assms(1), of ?s] assms(3) by (auto simp: new_session_def)
  have snap: "snapshotEventDrafts (?first # map owned_draft owned) = Inr ?own"
    using snapshot_owned_drafts [of owned] by (simp add: snapshotEventDrafts_def)
  define es where "es = seal_events sha fresh (Suc i) sid (sr_headSequence ?s) (sr_headDigest ?s) ?own"
  obtain b2 where b2: "journal_append memory_journal sha fresh (Suc i) (\<lambda>b. b) False sid
      (?first # map owned_draft owned) no_signal b1 = Inr (es, b2)"
    "backend_ok b2" "mj_getSession b2 sid = Some (projected_record es False ?s)" "mj_readEvents b2 sid 0 = es"
    using mem.append_extends_history [OF b1(2) _ snap _ es_def, of False] b1(3,4) by auto
  have "map draft_of es = ?own"
    unfolding es_def by (rule draft_of_seal_events)
  moreover have "journal_createSession memory_journal sha fresh i (\<lambda>b. b) title manifest (Some f) b =
     (if list_ex (\<lambda>e. ev_type e = ''session.created'') owned then Inl SecondCreationEvent
      else Inr (projected_record es False ?s, b2))"
    using assms(2,4) b1 b2 by (simp add: journal_createSession_def Let_def)
  moreover have "sr_manifest ?s = manifest"
    by (simp add: new_session_def)
  ultimately show ?thesis using b2 by simp
qed

theorem create_session_starts_history_witness:
  "\<exists>s b'. journal_createSession memory_journal (\<lambda>x. x) demo_fresh 0 (\<lambda>b. b) ''Notes'' demo_manifest
      (Some (\<lambda>_. [])) MemoryJournalBackend = Inr (s, b') \<and> backend_ok b'"
proof -
  have fresh: "demo_fresh 0 = (''e0'', ''t1'')"
    by code_simp
  have none: "mj_getSession MemoryJournalBackend ''e0'' = None"
    by (simp add: mj_getSession_def MemoryJournalBackend_def)
  have snap: "snapshotEventDrafts ((\<lambda>_. []) (new_session ''e0'' ''Notes'' demo_manifest ''t1'')) = Inr []"
    by (simp add: snapshotEventDrafts_def)
  show ?thesis
    using create_session_starts_history [where f = "\<lambda>_. []" and fresh = demo_fresh and i = 0 and sha = "\<lambda>x. x"
        and title = "''Notes''" and manifest = demo_manifest, OF backend_ok_empty fresh none snap]
    by auto
qed

section \<open>The approval mode a history projects\<close>

lemma projected_mode_cases:
  "projectedSessionApprovalMode events fallback = fallback \<or>
    (\<exists>v. projectedSessionApprovalMode events fallback = Some v \<and> js_String v \<in> set APPROVAL_MODES)"
proof (induction events rule: rev_induct)
  case Nil
  then show ?case by (simp add: projectedSessionApprovalMode_def last_hit_def)
next
  case (snoc e events)
  then show ?case
    by (auto simp: projectedSessionApprovalMode_def last_hit_snoc split: option.splits if_splits)
qed

text \<open>The approval mode projected from a history is the fallback or a value whose string form is
  one of the three modes. The value itself need not be a string: an event whose mode is the array
  \<open>["full-access"]\<close> is projected as that array.\<close>

theorem projected_mode_reads_as_mode:
  "(projectedSessionApprovalMode events fallback = fallback \<or>
    (\<exists>v. projectedSessionApprovalMode events fallback = Some v \<and> js_String v \<in> set APPROVAL_MODES)) \<and>
   projectedSessionApprovalMode
     [grant_event\<lparr>ev_payload := JObj [(''approvalMode'', JArr [JStr ''full-access''])]\<rparr>] None =
     Some (JArr [JStr ''full-access''])"
  using projected_mode_cases [of events fallback]
  by (simp add: projectedSessionApprovalMode_def grant_event_def APPROVAL_MODES_def)

end
