(* ===== verification/Approval_Broker.thy ===== *)
theory Approval_Broker
  imports Json
begin

text \<open>
  The page-memory approval coordinator (\<open>approvals/broker.ts\<close>). Every operation that changes the
  broker, the timer and the abort listener of a request included, is a function on its state that
  also returns what the outside sees of it: the value returned, the promises resolved and the
  settlements published. A run is a sequence of such operations in any order.

  Redacted arguments are a \<open>display\<close> value: the markers the code writes as strings are constructors
  (\<open>Elided s n\<close> is the first characters of a string of \<open>n\<close>, \<open>Items\<close> and \<open>Fields\<close> carry the number of
  items or fields left out), because one of them contains an ellipsis, which is outside the
  character range. Date arithmetic is the parameter \<open>expiry\<close>.
\<close>

datatype tool_effect = ReadEffect | WriteEffect | NetworkEffect | ExecuteEffect | IdentityEffect

datatype approval_risk = Observe | Change | Communicate | Execute | Identity

datatype approval_decision = Allow | Deny

datatype approval_outcome = Decision approval_decision | Expired | Unavailable | Withdrawn

datatype display =
    Shown json
  | Redacted
  | DepthLimit
  | Elided string nat
  | Items "display list" nat
  | Fields "(string \<times> display) list" nat

record tool_definition =
  td_name :: string
  td_description :: string
  td_effect :: tool_effect

record tool_context =
  tc_sessionId :: string
  tc_turnId :: string
  tc_operationId :: string
  tc_aborted :: bool

record pending_approval =
  pa_id :: string
  pa_toolName :: string
  pa_description :: string
  pa_effect :: tool_effect
  pa_risk :: approval_risk
  pa_sessionId :: string
  pa_turnId :: string
  pa_operationId :: string
  pa_requestedAt :: string
  pa_expiresAt :: string
  pa_displayArguments :: display

record broker =
  br_entries :: "(string \<times> pending_approval) list"
  br_outcomes :: "(string \<times> approval_outcome) list"
  br_postponed :: "string list"
  br_maxPending :: nat
  br_decisionTimeoutMs :: nat
  br_focused :: "string option"

section \<open>Outcomes\<close>

fun approvalOutcomeReason :: "approval_outcome \<Rightarrow> string" where
  "approvalOutcomeReason (Decision Allow) = ''Allowed once by the user.''"
| "approvalOutcomeReason Expired = ''No decision was recorded; the request expired before the user answered it.''"
| "approvalOutcomeReason Withdrawn =
     ''No decision was recorded; the page withdrew this request before anyone answered it.''"
| "approvalOutcomeReason Unavailable =
     ''Nobody was asked: this page already held the most approval requests it allows at once, so the effect did'' @
     '' not run. Answer the requests that are waiting, then ask for this one again.''"
| "approvalOutcomeReason (Decision Deny) = ''Denied without approval; the effect did not run.''"

fun approvalWasAnswered :: "approval_outcome \<Rightarrow> bool" where
  "approvalWasAnswered (Decision _) = True"
| "approvalWasAnswered _ = False"

definition approvalRequestId :: "tool_context \<Rightarrow> string" where
  "approvalRequestId c = tc_sessionId c @ '':'' @ tc_turnId c @ '':'' @ tc_operationId c"

fun riskForEffect :: "tool_effect \<Rightarrow> approval_risk" where
  "riskForEffect ReadEffect = Observe"
| "riskForEffect WriteEffect = Change"
| "riskForEffect NetworkEffect = Communicate"
| "riskForEffect ExecuteEffect = Execute"
| "riskForEffect IdentityEffect = Identity"

section \<open>Redaction\<close>

definition to_lower :: "char \<Rightarrow> char" where
  "to_lower c = (if is_upper_ascii c then char_of ((of_char c :: nat) + 32) else c)"

fun contains :: "string \<Rightarrow> string \<Rightarrow> bool" where
  "contains needle [] = (needle = [])"
| "contains needle (c # cs) = (take (length needle) (c # cs) = needle \<or> contains needle cs)"

text \<open>The alternatives of the case-insensitive pattern, the optional separators written out.\<close>

definition secret_words :: "string list" where
  "secret_words = [''authorization'', ''cookie'', ''credential'', ''password'', ''passwd'', ''secret'', ''token'',
     ''apikey'', ''api_key'', ''api-key'', ''privatekey'', ''private_key'', ''private-key'', ''signature'']"

definition SECRET_KEY :: "string \<Rightarrow> bool" where
  "SECRET_KEY key = list_ex (\<lambda>w. contains w (map to_lower key)) secret_words"

definition MAX_DISPLAY_STRING_CHARS :: nat where
  "MAX_DISPLAY_STRING_CHARS = 512"

lemma size_json_take: "v \<in> set (take n vs) \<Longrightarrow> size v < Suc (size_list size vs)"
  by (rule size_json_item) (rule in_set_takeD)

lemma size_entry_take: "e \<in> set (take n es) \<Longrightarrow> size (snd e) < Suc (size_list (size_prod (\<lambda>_. 0) size) es)"
  by (rule size_json_entry) (rule in_set_takeD)

function (sequential) redactValue :: "json \<Rightarrow> nat \<Rightarrow> string \<Rightarrow> nat \<Rightarrow> display" where
  "redactValue value depth key maxStringChars =
    (if key \<noteq> [] \<and> SECRET_KEY key then Redacted
     else if depth \<ge> 7 then DepthLimit
     else case value of
       JStr s \<Rightarrow> if length s \<le> maxStringChars then Shown (JStr s)
                 else Elided (take maxStringChars s) (length s)
     | JArr vs \<Rightarrow> Items (map (\<lambda>item. redactValue item (depth + 1) [] maxStringChars) (take 32 vs)) (length vs - 32)
     | JObj es \<Rightarrow> Fields (map (\<lambda>e. (fst e, redactValue (snd e) (depth + 1) (fst e) maxStringChars)) (take 64 es))
         (length es - 64)
     | _ \<Rightarrow> Shown value)"
  by pat_completeness auto
termination
  by (relation "measure (\<lambda>(v, _). size v)") (auto intro: size_json_take size_entry_take)

definition redactForDisplay :: "json \<Rightarrow> nat \<Rightarrow> display" where
  "redactForDisplay value maxStringChars = redactValue value 0 [] maxStringChars"

section \<open>The broker\<close>

datatype broker_error = NotWithin string

definition integerWithin :: "int \<Rightarrow> int \<Rightarrow> int \<Rightarrow> string \<Rightarrow> broker_error + int" where
  "integerWithin value minimum maximum label =
    (if \<bar>value\<bar> > 2 ^ 53 - 1 \<or> value < minimum \<or> value > maximum then Inl (NotWithin label) else Inr value)"

definition MAX_SETTLED_OUTCOMES :: nat where
  "MAX_SETTLED_OUTCOMES = 256"

definition ApprovalBroker :: "int option \<Rightarrow> int option \<Rightarrow> broker_error + broker" where
  "ApprovalBroker maxPending decisionTimeoutMs =
    bind_result (integerWithin (case maxPending of None \<Rightarrow> 16 | Some n \<Rightarrow> n) 1 128 ''maxPending'') (\<lambda>m.
    bind_result (integerWithin (case decisionTimeoutMs of None \<Rightarrow> 300000 | Some n \<Rightarrow> n) 1 1800000 ''decisionTimeoutMs'') (\<lambda>t.
    Inr \<lparr>br_entries = [], br_outcomes = [], br_postponed = [], br_maxPending = nat m,
         br_decisionTimeoutMs = nat t, br_focused = None\<rparr>))"

text \<open>The two halves of a snapshot: the pending requests and the deferred ones.\<close>

definition broker_snapshot :: "broker \<Rightarrow> pending_approval list \<times> pending_approval list" where
  "broker_snapshot b =
    (filter (\<lambda>r. pa_id r \<notin> set (br_postponed b)) (map snd (br_entries b)),
     filter (\<lambda>r. pa_id r \<in> set (br_postponed b)) (map snd (br_entries b)))"

definition broker_remember :: "string \<Rightarrow> approval_outcome \<Rightarrow> broker \<Rightarrow> broker" where
  "broker_remember rid outcome b =
    b\<lparr>br_outcomes := ledger_put MAX_SETTLED_OUTCOMES rid outcome (br_outcomes b)\<rparr>"

text \<open>What an operation shows the outside.\<close>

datatype broker_output =
    Returned bool
  | Answered string approval_decision
  | Asked string
  | Resolved string approval_decision
  | Settled pending_approval approval_outcome
  | Taken string "approval_outcome option"

definition gate :: "approval_outcome \<Rightarrow> approval_decision" where
  "gate outcome = (if outcome = Decision Allow then Allow else Deny)"

definition broker_settle :: "string \<Rightarrow> approval_outcome \<Rightarrow> broker \<Rightarrow> broker \<times> broker_output list" where
  "broker_settle rid outcome b =
    (case map_of (br_entries b) rid of
       None \<Rightarrow> (b, [Returned False])
     | Some request \<Rightarrow>
         (broker_remember rid outcome
            (b\<lparr>br_entries := AList.delete rid (br_entries b), br_postponed := removeAll rid (br_postponed b)\<rparr>),
          [Resolved rid (gate outcome), Settled request outcome, Returned True]))"

definition broker_defer :: "string \<Rightarrow> broker \<Rightarrow> broker \<times> broker_output list" where
  "broker_defer rid b =
    (if map_of (br_entries b) rid = None \<or> rid \<in> set (br_postponed b) then (b, [Returned False])
     else (b\<lparr>br_postponed := br_postponed b @ [rid]\<rparr>, [Returned True]))"

definition broker_resume :: "string \<Rightarrow> broker \<Rightarrow> broker \<times> broker_output list" where
  "broker_resume rid b =
    (if rid \<notin> set (br_postponed b) then (b, [Returned False])
     else (b\<lparr>br_postponed := removeAll rid (br_postponed b)\<rparr>, [Returned True]))"

definition broker_focusSession :: "string option \<Rightarrow> broker \<Rightarrow> broker" where
  "broker_focusSession sessionId b = b\<lparr>br_focused := sessionId\<rparr>"

definition broker_takeOutcome :: "string \<Rightarrow> broker \<Rightarrow> broker \<times> approval_outcome option" where
  "broker_takeOutcome rid b =
    (let (outcome, rest) = ledger_take rid (br_outcomes b) in (b\<lparr>br_outcomes := rest\<rparr>, outcome))"

definition pending_request ::
  "(string \<Rightarrow> nat \<Rightarrow> string) \<Rightarrow> string \<Rightarrow> tool_definition \<Rightarrow> json \<Rightarrow> tool_context \<Rightarrow> broker \<Rightarrow> pending_approval" where
  "pending_request expiry now tool args context b =
    \<lparr>pa_id = approvalRequestId context, pa_toolName = td_name tool, pa_description = td_description tool,
     pa_effect = td_effect tool, pa_risk = riskForEffect (td_effect tool), pa_sessionId = tc_sessionId context,
     pa_turnId = tc_turnId context, pa_operationId = tc_operationId context, pa_requestedAt = now,
     pa_expiresAt = expiry now (br_decisionTimeoutMs b),
     pa_displayArguments = redactForDisplay args MAX_DISPLAY_STRING_CHARS\<rparr>"

definition broker_request ::
  "(string \<Rightarrow> nat \<Rightarrow> string) \<Rightarrow> string \<Rightarrow> tool_definition \<Rightarrow> json \<Rightarrow> tool_context \<Rightarrow> broker \<Rightarrow>
    broker \<times> broker_output list" where
  "broker_request expiry now tool args context b =
    (let rid = approvalRequestId context
     in if tc_aborted context then (broker_remember rid Withdrawn b, [Answered rid Deny])
        else if length (br_entries b) \<ge> br_maxPending b \<or> map_of (br_entries b) rid \<noteq> None
        then (broker_remember rid Unavailable b, [Answered rid Deny])
        else (b\<lparr>br_entries := AList.update rid (pending_request expiry now tool args context b) (br_entries b),
                br_postponed := (if br_focused b \<noteq> None \<and> br_focused b \<noteq> Some (tc_sessionId context)
                  then List.insert rid (br_postponed b) else br_postponed b)\<rparr>,
              [Asked rid]))"

text \<open>\<open>decide\<close> accepts any value at run time and files only the two decisions.\<close>

definition broker_decide :: "string \<Rightarrow> string \<Rightarrow> broker \<Rightarrow> broker \<times> broker_output list" where
  "broker_decide rid decision b =
    (if decision = ''allow'' then broker_settle rid (Decision Allow) b
     else if decision = ''deny'' then broker_settle rid (Decision Deny) b
     else (b, [Returned False]))"

datatype actor = Human | Page

fun settle_each :: "(string \<times> pending_approval) list \<Rightarrow> approval_outcome \<Rightarrow> string option \<Rightarrow> broker \<Rightarrow>
    broker \<times> broker_output list" where
  "settle_each [] outcome sessionId b = (b, [])"
| "settle_each ((rid, request) # es) outcome sessionId b =
    (if sessionId = None \<or> sessionId = Some (pa_sessionId request)
     then let (b1, out1) = broker_settle rid outcome b; (b2, out2) = settle_each es outcome sessionId b1
          in (b2, out1 @ out2)
     else settle_each es outcome sessionId b)"

definition broker_settleAll :: "actor \<Rightarrow> string option \<Rightarrow> broker \<Rightarrow> broker \<times> broker_output list" where
  "broker_settleAll actor sessionId b =
    settle_each (br_entries b) (if actor = Human then Decision Deny else Withdrawn) sessionId b"

text \<open>One operation on the broker, in the order the page happens to run them.\<close>

datatype broker_op =
    Request string tool_definition json tool_context
  | Defer string
  | Resume string
  | FocusSession "string option"
  | TakeOutcome string
  | Decide string string
  | SettleAll actor "string option"
  | TimerFired string
  | SignalAborted string

fun broker_do :: "(string \<Rightarrow> nat \<Rightarrow> string) \<Rightarrow> broker_op \<Rightarrow> broker \<Rightarrow> broker \<times> broker_output list" where
  "broker_do expiry (Request now tool args context) b = broker_request expiry now tool args context b"
| "broker_do expiry (Defer rid) b = broker_defer rid b"
| "broker_do expiry (Resume rid) b = broker_resume rid b"
| "broker_do expiry (FocusSession s) b = (broker_focusSession s b, [])"
| "broker_do expiry (TakeOutcome rid) b = (let (b', outcome) = broker_takeOutcome rid b in (b', [Taken rid outcome]))"
| "broker_do expiry (Decide rid decision) b = broker_decide rid decision b"
| "broker_do expiry (SettleAll actor s) b = broker_settleAll actor s b"
| "broker_do expiry (TimerFired rid) b = broker_settle rid Expired b"
| "broker_do expiry (SignalAborted rid) b = broker_settle rid Withdrawn b"

fun broker_run :: "(string \<Rightarrow> nat \<Rightarrow> string) \<Rightarrow> broker_op list \<Rightarrow> broker \<Rightarrow> broker \<times> broker_output list" where
  "broker_run expiry [] b = (b, [])"
| "broker_run expiry (p # ps) b =
    (let (b1, out1) = broker_do expiry p b; (b2, out2) = broker_run expiry ps b1 in (b2, out1 @ out2))"

text \<open>\<open>createBrokeredApprovalPolicy\<close>: the effects in the list are allowed without asking.\<close>

definition brokered_review ::
  "tool_effect list option \<Rightarrow> (string \<Rightarrow> nat \<Rightarrow> string) \<Rightarrow> string \<Rightarrow> tool_definition \<Rightarrow> json \<Rightarrow> tool_context \<Rightarrow> broker \<Rightarrow>
    broker \<times> broker_output list" where
  "brokered_review autoAllowEffects expiry now tool args context b =
    (if td_effect tool \<in> set (case autoAllowEffects of None \<Rightarrow> [ReadEffect] | Some es \<Rightarrow> es)
     then (b, [Answered (approvalRequestId context) Allow])
     else broker_request expiry now tool args context b)"

declare redactValue.simps [simp del]

section \<open>The invariant\<close>

definition broker_ok :: "broker \<Rightarrow> bool" where
  "broker_ok b \<longleftrightarrow> distinct (map fst (br_entries b)) \<and> (\<forall>k r. map_of (br_entries b) k = Some r \<longrightarrow> pa_id r = k) \<and>
     length (br_entries b) \<le> br_maxPending b \<and> br_maxPending b \<le> 128 \<and>
     set (br_postponed b) \<subseteq> fst ` set (br_entries b) \<and> distinct (br_postponed b) \<and>
     ledger_ok MAX_SETTLED_OUTCOMES (br_outcomes b)"

interpretation outcomes: one_shot_ledger "ledger_ok MAX_SETTLED_OUTCOMES" map_of "ledger_put MAX_SETTLED_OUTCOMES" ledger_take
  by (rule ledger_one_shot) (simp add: MAX_SETTLED_OUTCOMES_def)

lemma broker_remember_fields [simp]:
  "br_entries (broker_remember i out b) = br_entries b" "br_postponed (broker_remember i out b) = br_postponed b"
  "br_maxPending (broker_remember i out b) = br_maxPending b" "br_focused (broker_remember i out b) = br_focused b"
  "br_outcomes (broker_remember i out b) = ledger_put MAX_SETTLED_OUTCOMES i out (br_outcomes b)"
  by (simp_all add: broker_remember_def)

lemma broker_ok_remember: "broker_ok b \<Longrightarrow> broker_ok (broker_remember i out b)"
  by (simp add: broker_ok_def outcomes.ok_put)

lemma broker_ok_settle: "broker_ok b \<Longrightarrow> broker_ok (fst (broker_settle i out b))"
proof (cases "map_of (br_entries b) i")
  case (Some r)
  assume ok: "broker_ok b"
  let ?b = "b\<lparr>br_entries := AList.delete i (br_entries b), br_postponed := removeAll i (br_postponed b)\<rparr>"
  have "broker_ok ?b"
    using ok length_alist_delete [of i "br_entries b"]
    by (auto simp: broker_ok_def distinct_delete delete_conv' AList.delete_keys distinct_removeAll
        simp flip: dom_map_of_conv_image_fst)
  with Some show ?thesis by (simp add: broker_settle_def broker_ok_remember)
qed (simp add: broker_settle_def)

lemma settle_each_Cons:
  "settle_each (e # es) out s b =
    (if s = None \<or> s = Some (pa_sessionId (snd e))
     then (fst (settle_each es out s (fst (broker_settle (fst e) out b))),
           snd (broker_settle (fst e) out b) @ snd (settle_each es out s (fst (broker_settle (fst e) out b))))
     else settle_each es out s b)"
  by (cases e) (simp add: Let_def split_beta)

lemmas settle_each_rec = settle_each.simps(1) settle_each_Cons
declare settle_each.simps(2) [simp del]

lemma broker_ok_settle_each: "broker_ok b \<Longrightarrow> broker_ok (fst (settle_each es out s b))"
  by (induction es arbitrary: b) (simp_all add: settle_each_rec broker_ok_settle)

lemma broker_ok_request: "broker_ok b \<Longrightarrow> broker_ok (fst (broker_request expiry now tool args ctx b))"
proof -
  assume ok: "broker_ok b"
  let ?i = "approvalRequestId ctx"
  show ?thesis
  proof (cases "tc_aborted ctx \<or> length (br_entries b) \<ge> br_maxPending b \<or> map_of (br_entries b) ?i \<noteq> None")
    case True
    then show ?thesis using ok by (auto simp: broker_request_def Let_def broker_ok_remember)
  next
    case False
    then have "?i \<notin> set (br_postponed b)" "Suc (length (br_entries b)) \<le> br_maxPending b"
      using ok by (auto simp: broker_ok_def map_of_eq_None_iff)
    then show ?thesis
      using ok False length_alist_update [of ?i "pending_request expiry now tool args ctx b" "br_entries b"]
      by (auto simp: broker_request_def Let_def broker_ok_def distinct_update update_conv' pending_request_def
          dom_update [unfolded dom_map_of_conv_image_fst] split: if_splits)
  qed
qed

lemma broker_ok_do: "broker_ok b \<Longrightarrow> broker_ok (fst (broker_do expiry p b))"
proof (cases p)
  case (Defer i)
  assume "broker_ok b"
  with Defer show ?thesis
    by (auto simp: broker_defer_def broker_ok_def map_of_eq_None_iff)
next
  case (Resume i)
  assume "broker_ok b"
  with Resume show ?thesis
    by (auto simp: broker_resume_def broker_ok_def distinct_removeAll)
next
  case (FocusSession s)
  assume "broker_ok b"
  with FocusSession show ?thesis
    by (simp add: broker_focusSession_def broker_ok_def)
next
  case (TakeOutcome i)
  assume "broker_ok b"
  with TakeOutcome show ?thesis
    using outcomes.ok_take [of "br_outcomes b" i]
    by (simp add: broker_takeOutcome_def broker_ok_def split_beta Let_def)
qed (simp_all add: broker_ok_request broker_decide_def broker_ok_settle broker_settleAll_def broker_ok_settle_each)

lemma broker_run_Cons:
  "broker_run expiry (p # ps) b =
    (fst (broker_run expiry ps (fst (broker_do expiry p b))),
     snd (broker_do expiry p b) @ snd (broker_run expiry ps (fst (broker_do expiry p b))))"
  by (simp add: Let_def split_beta)

lemmas broker_run_rec = broker_run.simps(1) broker_run_Cons
declare broker_run.simps(2) [simp del]

lemma broker_ok_run: "broker_ok b \<Longrightarrow> broker_ok (fst (broker_run expiry ps b))"
  by (induction ps arbitrary: b) (simp_all add: broker_run_rec broker_ok_do)

lemma ApprovalBroker_ok: "ApprovalBroker m t = Inr b \<Longrightarrow> broker_ok b \<and> br_entries b = [] \<and> br_outcomes b = []"
  by (auto simp: ApprovalBroker_def result_simps integerWithin_def broker_ok_def ledger_ok_def split: if_splits)

section \<open>Every question is answered exactly once\<close>

definition live :: "broker \<Rightarrow> string \<Rightarrow> nat" where
  "live b i = (if map_of (br_entries b) i = None then 0 else 1)"

definition asked :: "broker_output list \<Rightarrow> string \<Rightarrow> nat" where
  "asked outs i = length (filter (\<lambda>x. x = Asked i) outs)"

definition resolved :: "broker_output list \<Rightarrow> string \<Rightarrow> nat" where
  "resolved outs i = length (filter (\<lambda>x. x = Resolved i Allow \<or> x = Resolved i Deny) outs)"

lemma asked_append [simp]: "asked (xs @ ys) i = asked xs i + asked ys i"
  by (simp add: asked_def)

lemma resolved_append [simp]: "resolved (xs @ ys) i = resolved xs i + resolved ys i"
  by (simp add: resolved_def)

definition conserved :: "string \<Rightarrow> broker \<Rightarrow> broker \<times> broker_output list \<Rightarrow> bool" where
  "conserved i b r \<longleftrightarrow> live b i + asked (snd r) i = resolved (snd r) i + live (fst r) i"

lemma conserved_trans: "conserved i b r \<Longrightarrow> conserved i (fst r) s \<Longrightarrow> conserved i b (fst s, snd r @ snd s)"
  by (simp add: conserved_def)

lemma conserved_same: "br_entries b' = br_entries b \<Longrightarrow> asked out i = 0 \<Longrightarrow> resolved out i = 0 \<Longrightarrow> conserved i b (b', out)"
  by (simp add: conserved_def live_def)

lemma settle_conserves: "conserved i b (broker_settle j out b)"
  by (cases "gate out")
    (auto simp: conserved_def broker_settle_def live_def asked_def resolved_def delete_conv' split: option.splits)

lemma settle_each_conserves: "conserved i b (settle_each es out s b)"
proof (induction es arbitrary: b)
  case Nil
  show ?case by (simp add: conserved_same asked_def resolved_def)
next
  case (Cons e es)
  show ?case
    using conserved_trans [OF settle_conserves Cons] Cons by (simp add: settle_each_rec)
qed

lemma do_conserves: "conserved i b (broker_do expiry p b)"
proof (cases p)
  case (Request now tool args ctx)
  then show ?thesis
    by (auto simp: conserved_def broker_request_def Let_def live_def asked_def resolved_def update_conv')
next
  case (TakeOutcome j)
  then show ?thesis
    by (simp add: conserved_same broker_takeOutcome_def asked_def resolved_def split_beta Let_def)
next
  case (Decide j d)
  have "conserved i b (b, [Returned False])"
    by (rule conserved_same) (simp_all add: asked_def resolved_def)
  with Decide show ?thesis
    by (simp add: broker_decide_def settle_conserves)
qed (simp_all add: settle_conserves broker_settleAll_def settle_each_conserves broker_defer_def
    broker_resume_def broker_focusSession_def conserved_same asked_def resolved_def)

lemma run_conserves: "conserved i b (broker_run expiry ps b)"
proof (induction ps arbitrary: b)
  case Nil
  show ?case by (simp add: conserved_same asked_def resolved_def)
next
  case (Cons p ps)
  show ?case
    unfolding broker_run_rec by (rule conserved_trans [OF do_conserves Cons])
qed

section \<open>Only a person allows\<close>

lemma settle_Resolved: "Resolved i d \<in> set (snd (broker_settle j out b)) \<Longrightarrow> i = j \<and> d = gate out"
  by (auto simp: broker_settle_def split: option.splits)

lemma settle_each_Resolved: "Resolved i d \<in> set (snd (settle_each es out s b)) \<Longrightarrow> d = gate out"
  by (induction es arbitrary: b) (auto simp: settle_each_rec dest: settle_Resolved split: if_splits)

lemma do_allows: "Resolved i Allow \<in> set (snd (broker_do expiry p b)) \<Longrightarrow> p = Decide i ''allow''"
  by (cases p) (auto simp: broker_request_def Let_def broker_defer_def broker_resume_def broker_takeOutcome_def
      broker_decide_def broker_settleAll_def gate_def split_beta
      dest: settle_Resolved settle_each_Resolved split: if_splits)

lemma do_answers: "Answered i d \<in> set (snd (broker_do expiry p b)) \<Longrightarrow> d = Deny"
proof -
  have settle: "Answered i d \<notin> set (snd (broker_settle j out b))" for j out b
    by (auto simp: broker_settle_def split: option.splits)
  have "Answered i d \<notin> set (snd (settle_each es out s b))" for es out s b
    by (induction es arbitrary: b) (auto simp: settle_each_rec settle)
  then show "Answered i d \<in> set (snd (broker_do expiry p b)) \<Longrightarrow> d = Deny"
    by (cases p) (auto simp: broker_request_def Let_def broker_defer_def broker_resume_def broker_takeOutcome_def
      broker_decide_def broker_settleAll_def split_beta settle split: if_splits)
qed

lemma run_allows: "Resolved i Allow \<in> set (snd (broker_run expiry ps b)) \<Longrightarrow> Decide i ''allow'' \<in> set ps"
  by (induction ps arbitrary: b) (auto simp: broker_run_rec dest: do_allows)

lemma run_answers: "Answered i d \<in> set (snd (broker_run expiry ps b)) \<Longrightarrow> d = Deny"
  by (induction ps arbitrary: b) (auto simp: broker_run_rec dest: do_answers)

text \<open>C3: The gate fails closed. However the page interleaves requests, decisions, timers, aborted
  turns and page-wide settlements on a new broker, no request resolves to allow unless a person's
  control filed exactly that decision for exactly that request; a request refused on the spot is
  always denied; and never more requests are live than the configured maximum.\<close>

theorem gate_fails_closed:
  assumes "ApprovalBroker m t = Inr b" "broker_run expiry ps b = (b', outs)"
  shows "(Resolved i Allow \<in> set outs \<longrightarrow> Decide i ''allow'' \<in> set ps) \<and> Answered i Allow \<notin> set outs \<and>
    broker_ok b' \<and> length (br_entries b') \<le> br_maxPending b'"
proof -
  have "broker_ok b'"
    using broker_ok_run [of b expiry ps] ApprovalBroker_ok [OF assms(1)] assms(2) by simp
  then show ?thesis
    using run_allows [of i expiry ps b] run_answers [of i Allow expiry ps b] assms(2) by (auto simp: broker_ok_def)
qed

definition demo_context :: tool_context where
  "demo_context = \<lparr>tc_sessionId = ''s'', tc_turnId = ''t'', tc_operationId = ''o'', tc_aborted = False\<rparr>"

definition demo_tool :: tool_definition where
  "demo_tool = \<lparr>td_name = ''write_file'', td_description = ''Write'', td_effect = WriteEffect\<rparr>"

definition demo_broker :: broker where
  "demo_broker = \<lparr>br_entries = [], br_outcomes = [], br_postponed = [], br_maxPending = 16,
     br_decisionTimeoutMs = 300000, br_focused = None\<rparr>"

lemma demo_broker_new: "ApprovalBroker None None = Inr demo_broker"
  by (simp add: ApprovalBroker_def integerWithin_def demo_broker_def)

lemma demo_run_outputs:
  "\<exists>b' r. broker_run (\<lambda>n k. n) [Request ''n'' demo_tool JNull demo_context, Decide ''s:t:o'' ''allow''] demo_broker =
    (b', [Asked ''s:t:o'', Resolved ''s:t:o'' Allow, Settled r (Decision Allow), Returned True])"
  by (simp add: broker_run_rec broker_request_def Let_def approvalRequestId_def broker_decide_def broker_settle_def
      gate_def demo_broker_def demo_context_def)

theorem gate_fails_closed_witness:
  "Decide ''s:t:o'' ''allow'' \<in>
    set [Request ''n'' demo_tool JNull demo_context, Decide ''s:t:o'' ''allow'']"
proof -
  obtain b' r where "broker_run (\<lambda>n k. n) [Request ''n'' demo_tool JNull demo_context, Decide ''s:t:o'' ''allow'']
      demo_broker = (b', [Asked ''s:t:o'', Resolved ''s:t:o'' Allow, Settled r (Decision Allow), Returned True])"
    using demo_run_outputs by (elim exE)
  from gate_fails_closed [OF demo_broker_new this, of "''s:t:o''"] show ?thesis
    by simp
qed



lemma settle_each_clears:
  "fst ` set (br_entries (fst (settle_each es out None b))) = fst ` set (br_entries b) - fst ` set es"
proof (induction es arbitrary: b)
  case (Cons e es)
  have "fst ` set (br_entries (fst (broker_settle (fst e) out b))) = fst ` set (br_entries b) - {fst e}"
    by (force simp: broker_settle_def AList.delete_eq map_of_eq_None_iff split: option.splits)
  with Cons show ?case by (auto simp: settle_each_rec)
qed (simp add: settle_each_rec)

text \<open>Settling everything settles everything: afterwards no request is live or postponed, whoever
  asked for it, and every resolution it delivered was a denial.\<close>

theorem settle_all_clears:
  assumes "broker_ok b"
  shows "br_entries (fst (broker_settleAll who None b)) = [] \<and> br_postponed (fst (broker_settleAll who None b)) = [] \<and>
    (\<forall>i d. Resolved i d \<in> set (snd (broker_settleAll who None b)) \<longrightarrow> d = Deny)"
proof -
  have ok: "broker_ok (fst (broker_settleAll who None b))"
    using assms by (simp add: broker_settleAll_def broker_ok_settle_each)
  moreover have "fst ` set (br_entries (fst (broker_settleAll who None b))) = {}"
    by (simp only: broker_settleAll_def settle_each_clears) simp
  ultimately show ?thesis
    using settle_each_Resolved by (fastforce simp: broker_ok_def broker_settleAll_def gate_def)
qed

theorem settle_all_clears_witness:
  "br_entries (fst (broker_settleAll Page None (fst (broker_request (\<lambda>n k. n) ''n'' demo_tool JNull demo_context demo_broker)))) = []"
proof -
  have "broker_ok demo_broker"
    using ApprovalBroker_ok [OF demo_broker_new] by simp
  then show ?thesis
    using settle_all_clears [OF broker_ok_request] by blast
qed

section \<open>What the record says\<close>

text \<open>The decision a person filed, as opposed to the absence of one.\<close>

definition person_answered :: "broker_op list \<Rightarrow> string \<Rightarrow> bool" where
  "person_answered ps i \<longleftrightarrow>
    list_ex (\<lambda>p. case p of Decide j _ \<Rightarrow> j = i | SettleAll who _ \<Rightarrow> who = Human | _ \<Rightarrow> False) ps"

definition answers_from :: "(string \<Rightarrow> bool) \<Rightarrow> broker \<Rightarrow> bool" where
  "answers_from P b \<longleftrightarrow> (\<forall>i out. map_of (br_outcomes b) i = Some out \<longrightarrow> approvalWasAnswered out \<longrightarrow> P i)"

lemma remember_answers:
  "ledger_ok MAX_SETTLED_OUTCOMES (br_outcomes b) \<Longrightarrow> answers_from P b \<Longrightarrow> (approvalWasAnswered out \<Longrightarrow> P i) \<Longrightarrow>
    answers_from P (broker_remember i out b)"
  unfolding answers_from_def broker_remember_fields
  by (metis outcomes.put_never_invents)

lemma settle_answers:
  assumes "broker_ok b" "answers_from P b" "approvalWasAnswered out \<Longrightarrow> P i"
  shows "answers_from P (fst (broker_settle i out b))"
proof (cases "map_of (br_entries b) i")
  case (Some r)
  then show ?thesis
    using assms by (auto simp: broker_settle_def broker_ok_def answers_from_def intro!: remember_answers
        dest: outcomes.put_never_invents)
qed (use assms in \<open>simp add: broker_settle_def\<close>)

lemma settle_each_answers:
  assumes "broker_ok b" "answers_from P b" "\<And>i. approvalWasAnswered out \<Longrightarrow> P i"
  shows "answers_from P (fst (settle_each es out s b))"
  using assms(1,2)
proof (induction es arbitrary: b)
  case (Cons e es)
  have "answers_from P (fst (settle_each es out s (fst (broker_settle (fst e) out b))))"
    by (rule Cons.IH) (simp_all add: Cons.prems broker_ok_settle settle_answers assms(3))
  with Cons show ?case by (simp add: settle_each_rec)
qed simp

lemma do_answers_from:
  assumes "broker_ok b" "answers_from P b" "\<And>i. person_answered [p] i \<Longrightarrow> P i"
  shows "answers_from P (fst (broker_do expiry p b))"
proof (cases p)
  case (Request now tool args ctx)
  have "answers_from P (broker_remember j Withdrawn b)" "answers_from P (broker_remember j Unavailable b)" for j
    using assms(1,2) by (auto simp: broker_ok_def intro!: remember_answers)
  with Request assms(2) show ?thesis
    by (auto simp: broker_request_def Let_def answers_from_def)
next
  case (TakeOutcome i)
  with assms(1,2) show ?thesis
    using outcomes.take_rest [of "br_outcomes b" i]
    by (auto simp: broker_takeOutcome_def answers_from_def split_beta Let_def broker_ok_def split: if_splits)
next
  case (SettleAll who s)
  have "P i" if "approvalWasAnswered (if who = Human then Decision Deny else Withdrawn)" for i
    using that assms(3) [of i] SettleAll by (auto simp: person_answered_def split: if_splits)
  with SettleAll assms(1,2) show ?thesis
    by (simp add: broker_settleAll_def settle_each_answers)
next
  case (Decide i d)
  with assms show ?thesis
    by (simp add: broker_decide_def settle_answers person_answered_def)
next
  case (TimerFired i)
  then show ?thesis using settle_answers [OF assms(1,2), of Expired i] by simp
next
  case (SignalAborted i)
  then show ?thesis using settle_answers [OF assms(1,2), of Withdrawn i] by simp
qed (use assms in \<open>auto simp: broker_defer_def broker_resume_def broker_focusSession_def answers_from_def\<close>)

lemma run_answers_from:
  assumes "broker_ok b" "answers_from P b" "\<And>i. person_answered ps i \<Longrightarrow> P i"
  shows "answers_from P (fst (broker_run expiry ps b))"
  using assms
proof (induction ps arbitrary: b)
  case (Cons p ps)
  have "answers_from P (fst (broker_do expiry p b))"
    using Cons.prems by (intro do_answers_from) (simp_all add: person_answered_def)
  then show ?case
    using Cons.IH [of "fst (broker_do expiry p b)"] Cons.prems
    by (simp add: broker_run_rec broker_ok_do person_answered_def)
qed simp

text \<open>C25: The record never invents an answer. If, after any run from a new broker, the outcome taken for
  a request says a person answered, then a person's control did decide that request or deny
  everything waiting; and an outcome is read at most once.\<close>

theorem record_never_invents_an_answer:
  assumes "ApprovalBroker m t = Inr b" "broker_run expiry ps b = (b', outs)"
    and "broker_takeOutcome i b' = (b'', Some outcome)"
  shows "(approvalWasAnswered outcome \<longrightarrow> person_answered ps i) \<and> snd (broker_takeOutcome i b'') = None"
proof -
  have b: "broker_ok b" "answers_from (person_answered ps) b"
    using ApprovalBroker_ok [OF assms(1)] by (simp_all add: answers_from_def)
  have ok: "broker_ok b'"
    using broker_ok_run [OF b(1), of expiry ps] assms(2) by simp
  have "answers_from (person_answered ps) b'"
    using run_answers_from [OF b, of ps expiry] assms(2) by simp
  moreover have "map_of (br_outcomes b') i = Some outcome" "br_outcomes b'' = snd (ledger_take i (br_outcomes b'))"
    using assms(3) by (auto simp: broker_takeOutcome_def ledger_take_def Let_def)
  ultimately show ?thesis
    using ok outcomes.take_once [of "br_outcomes b'" i]
    by (auto simp: answers_from_def broker_takeOutcome_def broker_ok_def split_beta Let_def)
qed

lemma demo_taken: "\<exists>b' b'' outs. broker_run (\<lambda>n k. n) [Request ''n'' demo_tool JNull demo_context, TimerFired ''s:t:o''] demo_broker =
    (b', outs) \<and> broker_takeOutcome ''s:t:o'' b' = (b'', Some Expired)"
  by (simp add: broker_run_rec broker_request_def Let_def approvalRequestId_def broker_settle_def
      gate_def demo_broker_def demo_context_def broker_takeOutcome_def ledger_take_def broker_remember_def
      ledger_put_def MAX_SETTLED_OUTCOMES_def)

theorem record_never_invents_an_answer_witness:
  "\<exists>b' b'' outs. broker_run (\<lambda>n k. n) [Request ''n'' demo_tool JNull demo_context, TimerFired ''s:t:o''] demo_broker =
    (b', outs) \<and> broker_takeOutcome ''s:t:o'' b' = (b'', Some Expired) \<and> snd (broker_takeOutcome ''s:t:o'' b'') = None"
proof -
  obtain b' b'' outs where
    r: "broker_run (\<lambda>n k. n) [Request ''n'' demo_tool JNull demo_context, TimerFired ''s:t:o''] demo_broker = (b', outs)"
    and k: "broker_takeOutcome ''s:t:o'' b' = (b'', Some Expired)"
    using demo_taken by (elim exE conjE)
  show ?thesis
    using record_never_invents_an_answer [OF demo_broker_new r k] r k by (intro exI conjI) simp_all
qed

section \<open>What the person is shown\<close>

fun display_ok :: "nat \<Rightarrow> nat \<Rightarrow> display \<Rightarrow> bool" where
  "display_ok n chars (Shown j) \<longleftrightarrow> (case j of JStr s \<Rightarrow> length s \<le> chars | JArr _ \<Rightarrow> False | JObj _ \<Rightarrow> False | _ \<Rightarrow> True)"
| "display_ok n chars (Elided s k) \<longleftrightarrow> length s = chars \<and> chars < k"
| "display_ok n chars (Items ds k) \<longleftrightarrow> 0 < n \<and> length ds \<le> 32 \<and> list_all (display_ok (n - 1) chars) ds"
| "display_ok n chars (Fields es k) \<longleftrightarrow> 0 < n \<and> length es \<le> 64 \<and>
     list_all (\<lambda>e. display_ok (n - 1) chars (snd e) \<and> (SECRET_KEY (fst e) \<longrightarrow> snd e = Redacted)) es"
| "display_ok n chars _ = True"

lemma SECRET_KEY_Nil: "\<not> SECRET_KEY []"
  by (simp add: SECRET_KEY_def secret_words_def)

lemma redactValue_ok: "depth \<le> 7 \<Longrightarrow> display_ok (7 - depth) chars (redactValue v depth key chars)"
proof (induction v depth key chars rule: redactValue.induct)
  case (1 v depth key chars)
  show ?case
  proof (cases "(key \<noteq> [] \<and> SECRET_KEY key) \<or> depth \<ge> 7")
    case True
    then show ?thesis by (auto simp: redactValue.simps [of v])
  next
    case False
    then have d: "depth + 1 \<le> 7" "7 - (depth + 1) = 7 - depth - 1" "0 < 7 - depth"
      by auto
    show ?thesis
    proof (cases v)
      case (JArr vs)
      then have "display_ok (7 - depth - 1) chars (redactValue x (depth + 1) [] chars)" if "x \<in> set (take 32 vs)" for x
        using 1(1) [OF _ _ JArr that] False d by auto
      with JArr False d show ?thesis
        by (subst redactValue.simps) (auto simp: list_all_iff)
    next
      case (JObj es)
      then have "display_ok (7 - depth - 1) chars (redactValue (snd e) (depth + 1) (fst e) chars)" if "e \<in> set (take 64 es)" for e
        using 1(2) [OF _ _ JObj that] False d by auto
      moreover have "SECRET_KEY k \<Longrightarrow> redactValue x n k chars = Redacted" for k x n
        using SECRET_KEY_Nil by (subst redactValue.simps) auto
      ultimately show ?thesis
        using JObj False d by (subst redactValue.simps) (auto simp: list_all_iff)
    qed (use False in \<open>(subst redactValue.simps, auto)+\<close>)
  qed
qed

text \<open>C26: What is put in front of a person is bounded and carries no secret: at any depth, the value of
  a field whose name looks like a credential is withheld, no string longer than the budget is shown
  whole, no list or object shows more than 32 items or 64 fields, and nothing is nested more than
  seven levels deep.\<close>

theorem display_bounded_and_redacted: "display_ok 7 chars (redactForDisplay v chars)"
  using redactValue_ok [of 0 chars v "[]"] by (simp add: redactForDisplay_def)

lemma snapshot_split:
  "mset (fst (broker_snapshot b)) + mset (snd (broker_snapshot b)) = mset (map snd (br_entries b)) \<and>
    set (fst (broker_snapshot b)) \<inter> set (snd (broker_snapshot b)) = {}"
proof
  show "mset (fst (broker_snapshot b)) + mset (snd (broker_snapshot b)) = mset (map snd (br_entries b))"
    unfolding broker_snapshot_def fst_conv snd_conv mset_filter
    by (subst (3) multiset_partition [where P = "\<lambda>r. pa_id r \<in> set (br_postponed b)"]) (rule union_commute)
qed (auto simp: broker_snapshot_def)

text \<open>A snapshot splits the live requests: each one is either pending or deferred, never both and
  never neither, and a new request of the conversation in focus is pending while one of any other
  conversation starts out deferred.\<close>

theorem snapshot_partitions:
  assumes "broker_ok b" "broker_request expiry now tool args ctx b = (b', [Asked i])"
  shows "mset (fst (broker_snapshot b')) + mset (snd (broker_snapshot b')) = mset (map snd (br_entries b')) \<and>
    set (fst (broker_snapshot b')) \<inter> set (snd (broker_snapshot b')) = {} \<and>
    (if br_focused b = None \<or> br_focused b = Some (tc_sessionId ctx)
     then i \<in> pa_id ` set (fst (broker_snapshot b')) else i \<in> pa_id ` set (snd (broker_snapshot b')))"
proof -
  let ?r = "pending_request expiry now tool args ctx b"
  have i: "i = approvalRequestId ctx" "map_of (br_entries b) i = None"
    and b': "b' = b\<lparr>br_entries := AList.update i ?r (br_entries b),
       br_postponed := (if br_focused b \<noteq> None \<and> br_focused b \<noteq> Some (tc_sessionId ctx)
         then List.insert i (br_postponed b) else br_postponed b)\<rparr>"
    using assms(2) by (auto simp: broker_request_def Let_def split: if_splits)
  have "?r \<in> set (map snd (br_entries b'))" "pa_id ?r = i"
    using map_of_SomeD [of "br_entries b'" i ?r] i by (force simp: b' update_conv' pending_request_def)+
  moreover have "i \<notin> set (br_postponed b)"
    using assms(1) i(2) by (auto simp: broker_ok_def map_of_eq_None_iff)
  ultimately have "if br_focused b = None \<or> br_focused b = Some (tc_sessionId ctx)
     then i \<in> pa_id ` set (fst (broker_snapshot b')) else i \<in> pa_id ` set (snd (broker_snapshot b'))"
    unfolding broker_snapshot_def by (simp add: b' del: set_map) (metis (mono_tags, lifting) image_eqI mem_Collect_eq)
  then show ?thesis by (simp only: snapshot_split)
qed

lemma demo_request: "\<exists>b'. broker_request (\<lambda>n k. n) ''n'' demo_tool JNull demo_context demo_broker = (b', [Asked ''s:t:o''])"
  by (simp add: broker_request_def Let_def approvalRequestId_def demo_broker_def demo_context_def)

theorem snapshot_partitions_witness:
  "\<exists>b'. broker_request (\<lambda>n k. n) ''n'' demo_tool JNull demo_context demo_broker = (b', [Asked ''s:t:o'']) \<and>
    ''s:t:o'' \<in> pa_id ` set (fst (broker_snapshot b'))"
proof -
  obtain b' where r: "broker_request (\<lambda>n k. n) ''n'' demo_tool JNull demo_context demo_broker = (b', [Asked ''s:t:o''])"
    using demo_request by (elim exE)
  have "broker_ok demo_broker" "br_focused demo_broker = None"
    using ApprovalBroker_ok [OF demo_broker_new] by (simp_all add: demo_broker_def)
  with snapshot_partitions [OF _ r] r show ?thesis by auto
qed

end
