(* ===== verification/Approval_Modes.thy ===== *)
theory Approval_Modes
  imports Approval_Broker Memory_Journal Profile_Workspace
begin

text \<open>
  The policies over the broker: the three approval modes and human-proposed effects
  (\<open>approvals/modes.ts\<close>), the policy a running turn holds while preferences change
  (\<open>approvals/switchable-policy.ts\<close>) and the vocabulary a request's consequence is derived in
  (\<open>approvals/consequence.ts\<close>).

  A review that asks waits until the broker resolves its request. What the page does to the broker
  meanwhile is a list of operations; \<open>await\<close> runs them until the one that resolves the request, and
  the reviewer goes on right after it. A review whose request is never resolved has no result.
\<close>

datatype approval_mode = AskFirst | AutoApprove | FullAccess

datatype provenance_source =
    AutomaticRead | HumanSource | ModelReview | HumanFallback | BoundedBrowserSandbox | Unattended

text \<open>
  A reason is its sentence; \<open>AttachedFolder s\<close> is \<open>ATTACHED_FOLDER_REVIEW_REASON\<close>, which contains a
  dash outside the character range, followed by the sentence \<open>s\<close>.
\<close>

datatype approval_reason = Sentence string | AttachedFolder string

record approval_provenance =
  ap_mode :: approval_mode
  ap_source :: provenance_source
  ap_reason :: approval_reason

definition MAX_PROVENANCE :: nat where
  "MAX_PROVENANCE = 512"

function (sequential) namesAttachedFolder :: "json \<Rightarrow> bool" where
  "namesAttachedFolder (JStr s) = (case isLocalFolderMountPath s of Inr r \<Rightarrow> r | Inl _ \<Rightarrow> False)"
| "namesAttachedFolder (JArr vs) = list_ex namesAttachedFolder vs"
| "namesAttachedFolder (JObj es) = list_ex (\<lambda>e. namesAttachedFolder (snd e)) es"
| "namesAttachedFolder _ = False"
  by pat_completeness auto
termination
  by (relation "measure size") (auto intro: size_json_item size_json_entry)

definition automaticReadProvenance :: "approval_mode \<Rightarrow> approval_provenance" where
  "automaticReadProvenance mode = \<lparr>ap_mode = mode, ap_source = AutomaticRead,
     ap_reason = Sentence ''Read-only browser tool effects are allowed automatically.''\<rparr>"

fun effect_name :: "tool_effect \<Rightarrow> string" where
  "effect_name ReadEffect = ''read''"
| "effect_name WriteEffect = ''write''"
| "effect_name NetworkEffect = ''network''"
| "effect_name ExecuteEffect = ''execute''"
| "effect_name IdentityEffect = ''identity''"

definition fullAccessReason :: "tool_effect \<Rightarrow> string" where
  "fullAccessReason e =
    (if e = NetworkEffect \<or> e = IdentityEffect
     then ''Allowed by Full Access; this effect sends data to a remote origin over HTTPS and is not path-confined or host-restricted.''
     else if e = ExecuteEffect
     then ''Allowed by Full Access inside the existing browser execution capability; no host shell or capability beyond it was granted.''
     else ''Allowed by Full Access inside the existing browser capability and its workspace path confinement.'')"

text \<open>The key a review's provenance is kept under: each part with its length.\<close>

definition key_part :: "string \<Rightarrow> string" where
  "key_part p = dec_nat (length p) @ '':'' @ p"

definition contextKey :: "tool_context \<Rightarrow> string" where
  "contextKey c = join ''|'' (map key_part [tc_sessionId c, tc_turnId c, tc_operationId c])"

section \<open>Waiting for the broker\<close>

fun resolution_of :: "string \<Rightarrow> broker_output list \<Rightarrow> approval_decision option" where
  "resolution_of i [] = None"
| "resolution_of i (out # outs) =
    (case out of Resolved j d \<Rightarrow> if j = i then Some d else resolution_of i outs | _ \<Rightarrow> resolution_of i outs)"

fun await :: "(string \<Rightarrow> nat \<Rightarrow> string) \<Rightarrow> string \<Rightarrow> broker_op list \<Rightarrow> broker \<Rightarrow> (approval_decision \<times> broker) option" where
  "await expiry i [] b = None"
| "await expiry i (p # ps) b =
    (let (b', outs) = broker_do expiry p b
     in case resolution_of i outs of Some d \<Rightarrow> Some (d, b') | None \<Rightarrow> await expiry i ps b')"

text \<open>
  \<open>await broker.request(...)\<close> followed by \<open>broker.takeOutcome(...) ?? decision\<close>: the decision, the
  outcome for the record, and the broker.
\<close>

definition ask_broker ::
  "(string \<Rightarrow> nat \<Rightarrow> string) \<Rightarrow> string \<Rightarrow> tool_definition \<Rightarrow> json \<Rightarrow> tool_context \<Rightarrow> broker_op list \<Rightarrow> broker \<Rightarrow>
    (approval_decision \<times> approval_outcome \<times> broker) option" where
  "ask_broker expiry now tool args context ops b =
    (let rid = approvalRequestId context;
         (b1, outs) = broker_request expiry now tool args context b
     in case (case outs of [Answered _ d] \<Rightarrow> Some (d, b1) | _ \<Rightarrow> await expiry rid ops b1) of
          None \<Rightarrow> None
        | Some (decision, b2) \<Rightarrow>
            let (b3, taken) = broker_takeOutcome rid b2
            in Some (decision, case taken of Some outcome \<Rightarrow> outcome | None \<Rightarrow> Decision decision, b3))"

section \<open>The mode policy\<close>

type_synonym ledger = "(string \<times> approval_provenance) list"

definition remember_provenance :: "tool_context \<Rightarrow> approval_provenance \<Rightarrow> ledger \<Rightarrow> ledger" where
  "remember_provenance context value provenance = ledger_put MAX_PROVENANCE (contextKey context) value provenance"

definition takeProvenance :: "tool_context \<Rightarrow> ledger \<Rightarrow> approval_provenance option \<times> ledger" where
  "takeProvenance context provenance = ledger_take (contextKey context) provenance"

definition mode_review ::
  "approval_mode \<Rightarrow> (string \<Rightarrow> nat \<Rightarrow> string) \<Rightarrow> string \<Rightarrow> tool_definition \<Rightarrow> json \<Rightarrow> tool_context \<Rightarrow> broker_op list \<Rightarrow>
    ledger \<Rightarrow> broker \<Rightarrow> (approval_decision \<times> ledger \<times> broker) option" where
  "mode_review mode expiry now tool args context ops provenance b =
    (let asked_with = (\<lambda>source reason.
           case ask_broker expiry now tool args context ops b of
             None \<Rightarrow> None
           | Some (decision, outcome, b') \<Rightarrow>
               Some (decision,
                 remember_provenance context
                   \<lparr>ap_mode = mode, ap_source = (if approvalWasAnswered outcome then source else Unattended),
                    ap_reason = reason (approvalOutcomeReason outcome)\<rparr> provenance, b'));
         allowed_with = (\<lambda>sentence.
           Some (Allow, remember_provenance context
             \<lparr>ap_mode = mode, ap_source = BoundedBrowserSandbox, ap_reason = Sentence sentence\<rparr> provenance, b))
     in if td_effect tool = ReadEffect
        then Some (Allow, remember_provenance context (automaticReadProvenance mode) provenance, b)
        else if mode \<noteq> AskFirst \<and> namesAttachedFolder args then asked_with HumanFallback AttachedFolder
        else if mode = FullAccess then allowed_with (fullAccessReason (td_effect tool))
        else if mode = AskFirst then asked_with HumanSource Sentence
        else if td_effect tool = WriteEffect
        then allowed_with (''Allowed by Auto Approve'' @ [CHR 0x27] @ ''s deterministic policy for a registered write effect inside its declared browser tool boundary.'')
        else asked_with HumanFallback (\<lambda>s. Sentence (''Auto Approve requires a person for '' @
               effect_name (td_effect tool) @ '' effects. '' @ s)))"

section \<open>Effects a person proposed\<close>

definition decideHumanIntent ::
  "approval_mode \<Rightarrow> (string \<Rightarrow> nat \<Rightarrow> string) \<Rightarrow> string \<Rightarrow> tool_definition \<Rightarrow> json \<Rightarrow> tool_context \<Rightarrow> broker_op list \<Rightarrow>
    broker \<Rightarrow> (approval_decision \<times> approval_provenance \<times> broker) option" where
  "decideHumanIntent mode expiry now tool args context ops b =
    (let folderReview = (mode = FullAccess \<and> td_effect tool \<noteq> ReadEffect \<and> namesAttachedFolder args)
     in if mode = FullAccess \<and> \<not> folderReview
        then Some (Allow, \<lparr>ap_mode = mode, ap_source = BoundedBrowserSandbox,
               ap_reason = Sentence (fullAccessReason (td_effect tool))\<rparr>, b)
        else case ask_broker expiry now tool args context ops b of
          None \<Rightarrow> None
        | Some (decision, outcome, b') \<Rightarrow>
            Some (decision,
              \<lparr>ap_mode = mode,
               ap_source = (if \<not> approvalWasAnswered outcome then Unattended
                            else if folderReview then HumanFallback else HumanSource),
               ap_reason = (if folderReview then AttachedFolder (approvalOutcomeReason outcome)
                            else if outcome = Decision Allow
                            then Sentence ''Allowed once by the user, who proposed the action.''
                            else Sentence (approvalOutcomeReason outcome))\<rparr>, b'))"

definition human_intent_review ::
  "approval_mode \<Rightarrow> (string \<Rightarrow> nat \<Rightarrow> string) \<Rightarrow> string \<Rightarrow> tool_definition \<Rightarrow> json \<Rightarrow> tool_context \<Rightarrow> broker_op list \<Rightarrow>
    ledger \<Rightarrow> broker \<Rightarrow> (approval_decision \<times> ledger \<times> broker) option" where
  "human_intent_review mode expiry now tool args context ops provenance b =
    (case (if td_effect tool = ReadEffect then Some (Allow, automaticReadProvenance mode, b)
           else decideHumanIntent mode expiry now tool args context ops b) of
       None \<Rightarrow> None
     | Some (decision, value, b') \<Rightarrow> Some (decision, remember_provenance context value provenance, b'))"

text \<open>
  The mode of the conversation on screen: the fields of the session record it reads, \<open>profile\<close> being
  the manifest's profile version and approval mode.
\<close>

record displayed_session =
  ds_importedAt :: "string option"
  ds_approvalModeOverride :: "approval_mode option"
  ds_profile :: "(int \<times> approval_mode option) option"

definition displayedSessionApprovalMode :: "displayed_session option \<Rightarrow> approval_mode \<Rightarrow> approval_mode" where
  "displayedSessionApprovalMode session preference =
    (case session of
       None \<Rightarrow> preference
     | Some s \<Rightarrow>
         if ds_importedAt s \<noteq> None then preference
         else (case ds_approvalModeOverride s of
           Some m \<Rightarrow> m
         | None \<Rightarrow> (case ds_profile s of
               Some (version, mode) \<Rightarrow>
                 if version = 2 then (case mode of Some m \<Rightarrow> m | None \<Rightarrow> preference) else preference
             | None \<Rightarrow> preference)))"

section \<open>The policy a running turn holds\<close>

text \<open>
  The delegates are objects; a delegate is its identity. A review begins by reading the active delegate
  and, once that delegate has decided, files it under the context.
\<close>

definition MAX_COMPLETED_REVIEWS :: nat where
  "MAX_COMPLETED_REVIEWS = 512"

record 'p switchable =
  sw_active :: 'p
  sw_completed :: "(string \<times> 'p) list"

definition SwitchableApprovalPolicy :: "'p \<Rightarrow> 'p switchable" where
  "SwitchableApprovalPolicy initial = \<lparr>sw_active = initial, sw_completed = []\<rparr>"

definition sw_replace :: "'p \<Rightarrow> 'p switchable \<Rightarrow> 'p switchable" where
  "sw_replace nxt s = s\<lparr>sw_active := nxt\<rparr>"

definition sw_review_begin :: "'p switchable \<Rightarrow> 'p" where
  "sw_review_begin s = sw_active s"

definition sw_review_end :: "tool_context \<Rightarrow> 'p \<Rightarrow> 'p switchable \<Rightarrow> 'p switchable" where
  "sw_review_end context delegate s =
    s\<lparr>sw_completed := ledger_put MAX_COMPLETED_REVIEWS (contextKey context) delegate (sw_completed s)\<rparr>"

text \<open>The delegate that is asked for the provenance of a context, if any.\<close>

definition sw_takeProvenance :: "tool_context \<Rightarrow> 'p switchable \<Rightarrow> 'p option \<times> 'p switchable" where
  "sw_takeProvenance context s =
    (let (delegate, rest) = ledger_take (contextKey context) (sw_completed s)
     in (delegate, s\<lparr>sw_completed := rest\<rparr>))"

section \<open>The vocabulary of a request's consequence\<close>

definition GIT_DERIVATION :: "(string \<times> (string \<times> string) option) list" where
  "GIT_DERIVATION =
    [(''status'', None), (''diff'', None), (''log'', None), (''show'', None), (''clone'', None), (''fetch'', None),
     (''push'', None),
     (''stage'', Some (''git_change'', ''stage'')),
     (''unstage'', Some (''git_change'', ''unstage'')),
     (''commit'', Some (''git_change'', ''commit'')),
     (''branch-create'', Some (''git_change'', ''create_branch'')),
     (''branch-switch'', Some (''git_change'', ''switch_branch'')),
     (''merge'', Some (''git_change'', ''merge'')),
     (''stash'', Some (''git_change'', ''stash'')),
     (''restore'', Some (''git_change'', ''restore'')),
     (''reset'', Some (''git_change'', ''reset'')),
     (''worktree-create'', Some (''git_change'', ''create_worktree'')),
     (''worktree-remove'', Some (''git_change'', ''remove_worktree'')),
     (''tag-create'', Some (''git_configure'', ''create_tag'')),
     (''tag-delete'', Some (''git_configure'', ''delete_tag'')),
     (''remote-add'', Some (''git_configure'', ''add_remote'')),
     (''remote-set-url'', Some (''git_configure'', ''set_remote_url'')),
     (''remote-remove'', Some (''git_configure'', ''remove_remote''))]"

definition gitApprovalToolName :: "string \<Rightarrow> string" where
  "gitApprovalToolName kind = ''git_'' @ kind"

definition approvalDerivationInput :: "string \<Rightarrow> json \<Rightarrow> string \<times> json" where
  "approvalDerivationInput toolName args =
    (if take 4 toolName \<noteq> ''git_'' then (toolName, args)
     else case map_of GIT_DERIVATION (drop 4 toolName) of
       Some (Some (tool, action)) \<Rightarrow>
         (tool, JObj (AList.update ''action'' (JStr action) (case args of JObj es \<Rightarrow> es | _ \<Rightarrow> [])))
     | _ \<Rightarrow> (toolName, args))"

section \<open>Only the mode's own rule or a person allows\<close>

lemma resolution_of_Some: "resolution_of i outs = Some d \<Longrightarrow> Resolved i d \<in> set outs"
  by (induction outs) (auto split: broker_output.splits if_splits)

lemma await_Some:
  "await expiry i ps b = Some (d, b') \<Longrightarrow>
    \<exists>qs rs. ps = qs @ rs \<and> qs \<noteq> [] \<and> fst (broker_run expiry qs b) = b' \<and> Resolved i d \<in> set (snd (broker_run expiry qs b))"
proof (induction ps arbitrary: b)
  case (Cons p ps)
  show ?case
  proof (cases "resolution_of i (snd (broker_do expiry p b))")
    case None
    with Cons.prems have "await expiry i ps (fst (broker_do expiry p b)) = Some (d, b')"
      by (simp add: split_beta Let_def)
    from Cons.IH [OF this] obtain qs rs where qs: "ps = qs @ rs" "fst (broker_run expiry qs (fst (broker_do expiry p b))) = b'"
      "Resolved i d \<in> set (snd (broker_run expiry qs (fst (broker_do expiry p b))))"
      by blast
    then have "p # ps = (p # qs) @ rs" "fst (broker_run expiry (p # qs) b) = b'"
      "Resolved i d \<in> set (snd (broker_run expiry (p # qs) b))"
      by (simp_all add: broker_run_rec)
    then show ?thesis by blast
  next
    case (Some e)
    with Cons.prems have "e = d" "b' = fst (broker_do expiry p b)"
      by (auto simp: split_beta Let_def)
    with resolution_of_Some [OF Some] have "p # ps = [p] @ ps" "fst (broker_run expiry [p] b) = b'"
      "Resolved i d \<in> set (snd (broker_run expiry [p] b))"
      by (simp_all add: broker_run_rec)
    then show ?thesis by blast
  qed
qed simp

lemma await_Allow: "await expiry i ps b = Some (Allow, b') \<Longrightarrow> Decide i ''allow'' \<in> set ps"
  using await_Some [of expiry i ps b Allow b'] run_allows by fastforce

lemma request_outputs:
  "snd (broker_request expiry now tool args ctx b) \<in> {[Answered (approvalRequestId ctx) Deny], [Asked (approvalRequestId ctx)]}"
  by (simp add: broker_request_def Let_def)

lemma ask_broker_Allow:
  assumes "ask_broker expiry now tool args ctx ops b = Some (Allow, outcome, b')"
  shows "Decide (approvalRequestId ctx) ''allow'' \<in> set ops"
proof -
  obtain b1 outs where r: "broker_request expiry now tool args ctx b = (b1, outs)"
    by (cases "broker_request expiry now tool args ctx b")
  then have "outs = [Answered (approvalRequestId ctx) Deny] \<or> outs = [Asked (approvalRequestId ctx)]"
    using request_outputs [of expiry now tool args ctx b] by simp
  then obtain b2 where "await expiry (approvalRequestId ctx) ops b1 = Some (Allow, b2)"
    using assms r by (auto simp: ask_broker_def Let_def split: option.splits prod.splits)
  then show ?thesis by (rule await_Allow)
qed

lemma mode_review_Allow:
  assumes "mode_review mode expiry now tool args ctx ops prov b = Some (Allow, prov', b')"
  shows "td_effect tool = ReadEffect \<or>
    \<not> namesAttachedFolder args \<and> (mode = FullAccess \<or> mode = AutoApprove \<and> td_effect tool = WriteEffect) \<or>
    Decide (approvalRequestId ctx) ''allow'' \<in> set ops"
proof -
  consider "td_effect tool = ReadEffect"
    | "\<not> namesAttachedFolder args" "mode = FullAccess \<or> mode = AutoApprove \<and> td_effect tool = WriteEffect"
    | outcome where "ask_broker expiry now tool args ctx ops b = Some (Allow, outcome, b')"
    using assms by (cases mode) (auto simp: mode_review_def Let_def split: if_splits option.splits)
  then show ?thesis
    by cases (auto dest: ask_broker_Allow)
qed

lemma human_intent_Allow:
  assumes "decideHumanIntent mode expiry now tool args ctx ops b = Some (Allow, value, b')"
  shows "mode = FullAccess \<and> (td_effect tool = ReadEffect \<or> \<not> namesAttachedFolder args) \<or>
    Decide (approvalRequestId ctx) ''allow'' \<in> set ops"
proof -
  consider "mode = FullAccess" "td_effect tool = ReadEffect \<or> \<not> namesAttachedFolder args"
    | outcome where "ask_broker expiry now tool args ctx ops b = Some (Allow, outcome, b')"
    using assms by (auto simp: decideHumanIntent_def Let_def split: if_splits option.splits)
  then show ?thesis
    by cases (auto dest: ask_broker_Allow)
qed

text \<open>C4: No effect runs unprompted outside the mode's own rule. A review that allows a call was a
  read, or was allowed by Full Access, or by Auto Approve for a write, and then the arguments name no
  folder on the person's device; in every other case, and always for an effect on such a folder, the
  person's own control allowed this very request while the review waited. The same holds for an
  effect the person proposed, where only Full Access allows without asking.\<close>

theorem unprompted_only_by_rule:
  assumes "mode_review mode expiry now tool args ctx ops prov b = Some (Allow, prov', b')"
    and "decideHumanIntent mode' expiry now' tool' args' ctx' ops' c = Some (Allow, value, c')"
  shows "(td_effect tool = ReadEffect \<or>
      \<not> namesAttachedFolder args \<and> (mode = FullAccess \<or> mode = AutoApprove \<and> td_effect tool = WriteEffect) \<or>
      Decide (approvalRequestId ctx) ''allow'' \<in> set ops) \<and>
    (mode' = FullAccess \<and> (td_effect tool' = ReadEffect \<or> \<not> namesAttachedFolder args') \<or>
      Decide (approvalRequestId ctx') ''allow'' \<in> set ops')"
  using mode_review_Allow [OF assms(1)] human_intent_Allow [OF assms(2)] by blast

lemma demo_reviews:
  "\<exists>prov'. mode_review AutoApprove (\<lambda>n k. n) ''n'' demo_tool (JStr ''/workspace/local/a'') demo_context
      [Decide ''s:t:o'' ''allow''] [] demo_broker = Some (Allow, prov', demo_broker)"
  "\<exists>value. decideHumanIntent FullAccess (\<lambda>n k. n) ''n'' demo_tool JNull demo_context [] demo_broker =
    Some (Allow, value, demo_broker)"
proof -
  have folder: "namesAttachedFolder (JStr ''/workspace/local/a'')"
    by code_simp
  have ask: "ask_broker (\<lambda>n k. n) ''n'' demo_tool (JStr ''/workspace/local/a'') demo_context [Decide ''s:t:o'' ''allow''] demo_broker
      = Some (Allow, Decision Allow, demo_broker)"
    by (simp add: ask_broker_def broker_request_def Let_def approvalRequestId_def broker_decide_def broker_settle_def
      gate_def demo_broker_def demo_context_def broker_takeOutcome_def ledger_take_def broker_remember_def
      ledger_put_def MAX_SETTLED_OUTCOMES_def)
  show "\<exists>prov'. mode_review AutoApprove (\<lambda>n k. n) ''n'' demo_tool (JStr ''/workspace/local/a'') demo_context
      [Decide ''s:t:o'' ''allow''] [] demo_broker = Some (Allow, prov', demo_broker)"
    unfolding mode_review_def Let_def ask using folder
    by (simp add: demo_tool_def del: namesAttachedFolder.simps)
  show "\<exists>value. decideHumanIntent FullAccess (\<lambda>n k. n) ''n'' demo_tool JNull demo_context [] demo_broker =
    Some (Allow, value, demo_broker)"
    by (simp add: decideHumanIntent_def)
qed

theorem unprompted_only_by_rule_witness:
  "Decide (approvalRequestId demo_context) ''allow'' \<in> set [Decide ''s:t:o'' ''allow'']"
proof -
  have folder: "namesAttachedFolder (JStr ''/workspace/local/a'')"
    by code_simp
  obtain prov' where 1: "mode_review AutoApprove (\<lambda>n k. n) ''n'' demo_tool (JStr ''/workspace/local/a'') demo_context
      [Decide ''s:t:o'' ''allow''] [] demo_broker = Some (Allow, prov', demo_broker)"
    using demo_reviews(1) by (elim exE)
  obtain v where 2: "decideHumanIntent FullAccess (\<lambda>n k. n) ''n'' demo_tool JNull demo_context [] demo_broker =
    Some (Allow, v, demo_broker)"
    using demo_reviews(2) by (elim exE)
  have "td_effect demo_tool \<noteq> ReadEffect"
    by (simp add: demo_tool_def)
  with conjunct1 [OF unprompted_only_by_rule [OF 1 2]] folder show ?thesis
    by blast
qed

section \<open>Keys\<close>

lemma key_part_prefix:
  assumes "key_part p @ r = key_part q @ s"
  shows "p = q \<and> r = s"
proof -
  have tw: "takeWhile is_digit (dec_nat n @ CHR '':'' # y) = dec_nat n" for n y
    by (subst takeWhile_append2) (auto simp: dec_nat_digits, simp add: is_digit_def)
  have eq: "dec_nat (length p) @ CHR '':'' # (p @ r) = dec_nat (length q) @ CHR '':'' # (q @ s)"
    using assms by (simp add: key_part_def)
  from arg_cong [OF eq, of "takeWhile is_digit"] have "length p = length q"
    by (simp add: tw dec_nat_inject)
  with eq show ?thesis by simp
qed

text \<open>The key of a review's provenance identifies the call: contexts with the same key have the
  same session, turn and operation, whatever characters those contain. The identifier a request is
  filed under in the broker has this property when session and turn identifiers contain no colon.\<close>

theorem context_keys_identify:
  assumes "contextKey c = contextKey d \<or>
    CHR '':'' \<notin> set (tc_sessionId c @ tc_turnId c @ tc_sessionId d @ tc_turnId d) \<and>
      approvalRequestId c = approvalRequestId d"
  shows "tc_sessionId c = tc_sessionId d \<and> tc_turnId c = tc_turnId d \<and> tc_operationId c = tc_operationId d"
  using assms
proof
  assume eq: "contextKey c = contextKey d"
  then have 1: "key_part (tc_sessionId c) @ CHR ''|'' # key_part (tc_turnId c) @ CHR ''|'' # key_part (tc_operationId c) =
      key_part (tc_sessionId d) @ CHR ''|'' # key_part (tc_turnId d) @ CHR ''|'' # key_part (tc_operationId d)"
    by (simp add: contextKey_def)
  then have s: "tc_sessionId c = tc_sessionId d" using key_part_prefix by blast
  with 1 have 2: "key_part (tc_turnId c) @ CHR ''|'' # key_part (tc_operationId c) =
      key_part (tc_turnId d) @ CHR ''|'' # key_part (tc_operationId d)"
    by simp
  then have t: "tc_turnId c = tc_turnId d" using key_part_prefix by blast
  with 2 have "key_part (tc_operationId c) @ [] = key_part (tc_operationId d) @ []"
    by simp
  then have "tc_operationId c = tc_operationId d" using key_part_prefix by blast
  with s t show ?thesis by simp
next
  assume a: "CHR '':'' \<notin> set (tc_sessionId c @ tc_turnId c @ tc_sessionId d @ tc_turnId d) \<and>
      approvalRequestId c = approvalRequestId d"
  have split: "split_on (CHR '':'') (approvalRequestId e) =
      tc_sessionId e # tc_turnId e # split_on (CHR '':'') (tc_operationId e)"
    if "CHR '':'' \<notin> set (tc_sessionId e @ tc_turnId e)" for e
    using that by (simp add: approvalRequestId_def split_on_append_sep)
  have "tc_sessionId c = tc_sessionId d \<and> tc_turnId c = tc_turnId d"
    using split [of c] split [of d] a by simp
  moreover from this a have "tc_operationId c = tc_operationId d"
    by (simp add: approvalRequestId_def)
  ultimately show ?thesis by simp
qed

theorem context_keys_identify_witness:
  "contextKey demo_context \<noteq> contextKey (demo_context\<lparr>tc_sessionId := ''s:t''\<rparr>)"
  using context_keys_identify [of demo_context "demo_context\<lparr>tc_sessionId := ''s:t''\<rparr>"]
  by (auto simp: demo_context_def)

section \<open>The outcome is still there when the reviewer reads it\<close>

interpretation provenance: one_shot_ledger "ledger_ok MAX_PROVENANCE" map_of "ledger_put MAX_PROVENANCE" ledger_take
  by (rule ledger_one_shot) (simp add: MAX_PROVENANCE_def)

interpretation completed: one_shot_ledger "ledger_ok MAX_COMPLETED_REVIEWS" map_of
  "ledger_put MAX_COMPLETED_REVIEWS" ledger_take
  by (rule ledger_one_shot) (simp add: MAX_COMPLETED_REVIEWS_def)

abbreviation filed :: "broker \<Rightarrow> string set" where
  "filed b \<equiv> fst ` set (br_outcomes b)"

lemma recent_mono: "recent k v n m \<Longrightarrow> n \<le> n' \<Longrightarrow> recent k v n' m"
  by (force simp: recent_def)

lemma ok_ledger: "broker_ok b \<Longrightarrow> ledger_ok MAX_SETTLED_OUTCOMES (br_outcomes b)"
  by (simp add: broker_ok_def)

lemma settle_recent:
  assumes "broker_ok b" "recent i v n (br_outcomes b)" "j \<noteq> i" "Suc n < 256"
  shows "recent i v (Suc n) (br_outcomes (fst (broker_settle j out b)))"
  using assms recent_put_other [OF ok_ledger [OF assms(1)] assms(3,2)]
  by (auto simp: broker_settle_def MAX_SETTLED_OUTCOMES_def intro: recent_mono split: option.splits)

lemma settle_each_recent:
  assumes "broker_ok b" "recent i v n (br_outcomes b)" "i \<notin> fst ` set es" "n + length es < 255"
  shows "recent i v (n + length es) (br_outcomes (fst (settle_each es out s b)))"
  using assms
proof (induction es arbitrary: b n)
  case (Cons e es)
  have "recent i v (Suc n) (br_outcomes (fst (broker_settle (fst e) out b)))"
    using Cons.prems by (intro settle_recent) auto
  then have 1: "recent i v (Suc n + length es)
      (br_outcomes (fst (settle_each es out s (fst (broker_settle (fst e) out b)))))"
    using Cons.prems by (intro Cons.IH) (auto simp: broker_ok_settle)
  have "recent i v (Suc n + length es) (br_outcomes (fst (settle_each es out s b)))"
    using Cons.prems Cons.IH [of b "Suc n"] recent_mono [of i v n "br_outcomes b" "Suc n"] by simp
  with 1 show ?case by (simp add: settle_each_rec)
qed simp

lemma settle_filed: "broker_ok b \<Longrightarrow> filed (fst (broker_settle j out b)) \<subseteq> insert j (filed b)"
  using ledger_put_keys [OF ok_ledger, of b j out] by (auto simp: broker_settle_def split: option.splits)

lemma settle_each_filed:
  assumes "broker_ok b" "distinct (map fst es)" "length es \<le> 128" "i \<notin> filed b"
  shows "if \<exists>d. Resolved i d \<in> set (snd (settle_each es out s b))
    then map_of (br_outcomes (fst (settle_each es out s b))) i = Some out
    else i \<notin> filed (fst (settle_each es out s b))"
  using assms
proof (induction es arbitrary: b)
  case (Cons e es)
  let ?b = "fst (broker_settle (fst e) out b)"
  have ok: "broker_ok ?b" using Cons.prems(1) by (rule broker_ok_settle)
  show ?case
  proof (cases "(s = None \<or> s = Some (pa_sessionId (snd e))) \<and> fst e = i \<and> map_of (br_entries b) i \<noteq> None")
    case True
    then obtain r where r: "map_of (br_entries b) i = Some r" by blast
    have "recent i out 0 (br_outcomes ?b)"
      using True r recent_put_fresh [OF ok_ledger [OF Cons.prems(1)] Cons.prems(4)] by (simp add: broker_settle_def)
    then have "recent i out (0 + length es) (br_outcomes (fst (settle_each es out s ?b)))"
      using Cons.prems True ok by (intro settle_each_recent) auto
    then have "map_of (br_outcomes (fst (settle_each es out s ?b))) i = Some out"
      using ok_ledger [OF broker_ok_settle_each [OF ok, of es out s]]
      by (intro recent_lookup [of _ _ _ "0 + length es"]) (simp_all add: ledger_ok_def)
    moreover have "Resolved i (gate out) \<in> set (snd (broker_settle (fst e) out b))"
      using True r by (simp add: broker_settle_def)
    ultimately show ?thesis using True by (auto simp: settle_each_rec)
  next
    case False
    have IH: "i \<notin> filed c \<Longrightarrow> broker_ok c \<Longrightarrow> if \<exists>d. Resolved i d \<in> set (snd (settle_each es out s c))
        then map_of (br_outcomes (fst (settle_each es out s c))) i = Some out
        else i \<notin> filed (fst (settle_each es out s c))" for c
      using Cons.IH [of c] Cons.prems(2,3) by simp
    have none: "s = None \<or> s = Some (pa_sessionId (snd e)) \<Longrightarrow>
        i \<notin> filed ?b \<and> (\<forall>d. Resolved i d \<notin> set (snd (broker_settle (fst e) out b)))"
      using False Cons.prems(1,4) settle_filed [OF Cons.prems(1), of "fst e" out] settle_Resolved [of i _ "fst e" out b]
      by (cases "fst e = i") (auto simp: broker_settle_def)
    show ?thesis
    proof (cases "s = None \<or> s = Some (pa_sessionId (snd e))")
      case True
      with none IH [of ?b] ok show ?thesis by (simp add: settle_each_rec)
    next
      case False
      then have "settle_each (e # es) out s b = settle_each es out s b"
        by (simp only: settle_each_rec if_False)
      with IH [of b] Cons.prems(1,4) show ?thesis by simp
    qed
  qed
qed simp

definition repeats :: "string \<Rightarrow> broker_op \<Rightarrow> bool" where
  "repeats i p = (case p of Request _ _ _ c \<Rightarrow> approvalRequestId c = i | _ \<Rightarrow> False)"

lemma settle_resolution:
  assumes "broker_ok b" "i \<notin> filed b"
  shows "if resolution_of i (snd (broker_settle j out b)) = None then i \<notin> filed (fst (broker_settle j out b))
    else map_of (br_outcomes (fst (broker_settle j out b))) i = Some out"
  using settle_filed [OF assms(1), of j out] assms outcomes.lookup_put_same [OF ok_ledger [OF assms(1)]]
  by (cases "j = i") (auto simp: broker_settle_def split: option.splits)

lemma resolution_of_None_iff: "resolution_of i outs = None \<longleftrightarrow> (\<forall>d. Resolved i d \<notin> set outs)"
  by (induction outs) (auto split: broker_output.splits)

lemma do_resolution:
  assumes "broker_ok b" "i \<notin> filed b" "\<not> repeats i p"
  shows "if resolution_of i (snd (broker_do expiry p b)) = None then i \<notin> filed (fst (broker_do expiry p b))
    else map_of (br_outcomes (fst (broker_do expiry p b))) i \<noteq> None"
proof (cases p)
  case (Request now tool args ctx)
  with assms(3) have "approvalRequestId ctx \<noteq> i" by (simp add: repeats_def)
  then have "i \<notin> filed (broker_remember (approvalRequestId ctx) out b)" for out
    unfolding broker_remember_fields
    using subsetD [OF ledger_put_keys [OF ok_ledger [OF assms(1)], of "approvalRequestId ctx" out], of i] assms(2)
    by (metis insertE)
  with Request assms(2) show ?thesis
    by (simp add: broker_request_def Let_def del: broker_remember_fields)
next
  case (TakeOutcome j)
  with assms(2) show ?thesis
    by (auto simp: broker_takeOutcome_def ledger_take_def Let_def AList.delete_eq)
next
  case (SettleAll who s)
  have "length (br_entries b) \<le> 128" "distinct (map fst (br_entries b))"
    using assms(1) by (auto simp: broker_ok_def)
  from settle_each_filed [OF assms(1) this(2,1) assms(2)] SettleAll show ?thesis
    by (auto simp: broker_settleAll_def resolution_of_None_iff)
next
  case (Decide j d)
  with settle_resolution [OF assms(1,2), of j "Decision Allow"] settle_resolution [OF assms(1,2), of j "Decision Deny"]
    assms(2) show ?thesis
    by (auto simp: broker_decide_def split: if_splits)
next
  case (TimerFired j)
  with settle_resolution [OF assms(1,2), of j Expired] show ?thesis by (auto split: if_splits)
next
  case (SignalAborted j)
  with settle_resolution [OF assms(1,2), of j Withdrawn] show ?thesis by (auto split: if_splits)
qed (use assms(2) in \<open>auto simp: broker_defer_def broker_resume_def broker_focusSession_def\<close>)

lemma await_filed:
  assumes "broker_ok b" "i \<notin> filed b" "list_all (\<lambda>p. \<not> repeats i p) ps" "await expiry i ps b = Some (d, b')"
  shows "map_of (br_outcomes b') i \<noteq> None"
  using assms
proof (induction ps arbitrary: b)
  case (Cons p ps)
  note step = do_resolution [OF Cons.prems(1,2), of p expiry]
  show ?case
  proof (cases "resolution_of i (snd (broker_do expiry p b))")
    case None
    with Cons.prems step show ?thesis
      by (intro Cons.IH [of "fst (broker_do expiry p b)"]) (simp_all add: broker_ok_do split_beta Let_def)
  next
    case (Some e)
    with Cons.prems step show ?thesis by (simp add: split_beta Let_def)
  qed
qed simp

lemma ask_broker_answered:
  assumes "broker_ok b" "approvalRequestId ctx \<notin> filed b"
    and "list_all (\<lambda>p. \<not> repeats (approvalRequestId ctx) p) ops"
    and "ask_broker expiry now tool args ctx ops b = Some (d, outcome, b')" "approvalWasAnswered outcome"
  shows "person_answered ops (approvalRequestId ctx)"
proof -
  let ?i = "approvalRequestId ctx"
  obtain b1 outs where r: "broker_request expiry now tool args ctx b = (b1, outs)"
    by (cases "broker_request expiry now tool args ctx b")
  have ok1: "broker_ok b1"
    using broker_ok_request [OF assms(1), of expiry now tool args ctx] r by simp
  have outs: "outs = [Answered ?i Deny] \<or> outs = [Asked ?i]"
    using request_outputs [of expiry now tool args ctx b] r by simp
  then show ?thesis
  proof
    assume a: "outs = [Answered ?i Deny]"
    then have "b1 = broker_remember ?i Withdrawn b \<or> b1 = broker_remember ?i Unavailable b"
      using r by (auto simp: broker_request_def Let_def split: if_splits)
    then have "map_of (br_outcomes b1) ?i \<in> {Some Withdrawn, Some Unavailable}"
      using outcomes.lookup_put_same [OF ok_ledger [OF assms(1)], of ?i] by auto
    then show ?thesis
      using assms(4,5) r a by (auto simp: ask_broker_def Let_def broker_takeOutcome_def ledger_take_def)
  next
    assume a: "outs = [Asked ?i]"
    then have same: "br_outcomes b1 = br_outcomes b"
      using r by (auto simp: broker_request_def Let_def split: if_splits)
    obtain d' b2 where w: "await expiry ?i ops b1 = Some (d', b2)" and o: "map_of (br_outcomes b2) ?i = None \<or>
        map_of (br_outcomes b2) ?i = Some outcome"
      using assms(4) r a
      by (auto simp: ask_broker_def Let_def broker_takeOutcome_def ledger_take_def split: option.splits prod.splits)
    have "map_of (br_outcomes b2) ?i \<noteq> None"
      using await_filed [OF ok1 _ assms(3) w] assms(2) same by simp
    with o have taken: "map_of (br_outcomes b2) ?i = Some outcome" by simp
    obtain qs rs where qs: "ops = qs @ rs" "fst (broker_run expiry qs b1) = b2"
      using await_Some [OF w] by blast
    let ?P = "\<lambda>i. i = ?i \<longrightarrow> person_answered ops ?i"
    have "answers_from ?P b1"
      using assms(2) same by (force simp: answers_from_def dest: map_of_SomeD)
    then have "answers_from ?P (fst (broker_run expiry qs b1))"
      by (rule run_answers_from [OF ok1]) (auto simp: qs(1) person_answered_def)
    with qs(2) taken assms(5) show ?thesis by (simp add: answers_from_def)
  qed
qed

lemma mode_review_source:
  assumes "mode_review mode expiry now tool args ctx ops prov b = Some (d, prov', b')" "ledger_ok MAX_PROVENANCE prov"
    and "fst (takeProvenance ctx prov') = Some value" "ap_source value \<in> {HumanSource, HumanFallback}"
  shows "\<exists>outcome. ask_broker expiry now tool args ctx ops b = Some (d, outcome, b') \<and> approvalWasAnswered outcome"
proof -
  have key: "fst (takeProvenance ctx (remember_provenance ctx v prov)) = Some v" for v
    using provenance.take_after_put [OF assms(2)] by (simp add: takeProvenance_def remember_provenance_def)
  from assms show ?thesis
    by (cases mode) (auto simp: mode_review_def Let_def key automaticReadProvenance_def split: if_splits option.splits)
qed

text \<open>C5: The journalled provenance never credits a person who did not answer. When a review ends, the
  provenance it filed is read back for this call, and if its source says a person decided, then while
  the review waited a person's control did decide this request or deny everything waiting: an expired
  or withdrawn request, a full queue and an aborted turn are all filed as unattended, also when one
  page-wide settlement ends many reviews at once.\<close>

theorem provenance_credits_only_people:
  assumes "broker_ok b" "approvalRequestId ctx \<notin> filed b"
    and "list_all (\<lambda>p. \<not> repeats (approvalRequestId ctx) p) ops" "ledger_ok MAX_PROVENANCE prov"
    and "mode_review mode expiry now tool args ctx ops prov b = Some (d, prov', b')"
  shows "\<exists>value. fst (takeProvenance ctx prov') = Some value \<and> ap_mode value = mode \<and>
    (ap_source value \<in> {HumanSource, HumanFallback} \<longrightarrow> person_answered ops (approvalRequestId ctx))"
proof -
  have "\<exists>value. prov' = remember_provenance ctx value prov \<and> ap_mode value = mode"
    using assms(5) by (auto simp: mode_review_def Let_def automaticReadProvenance_def split: if_splits option.splits)
  then obtain v where v: "prov' = remember_provenance ctx v prov" "ap_mode v = mode"
    by blast
  then have taken: "fst (takeProvenance ctx prov') = Some v"
    using provenance.take_after_put [OF assms(4)] by (simp add: takeProvenance_def remember_provenance_def)
  with v mode_review_source [OF assms(5,4) taken] ask_broker_answered [OF assms(1-3)] show ?thesis
    by blast
qed

theorem provenance_credits_only_people_witness:
  "\<exists>value. ap_source value = Unattended \<and> fst (takeProvenance demo_context (case mode_review AskFirst (\<lambda>n k. n) ''n'' demo_tool JNull
    demo_context [SettleAll Page None] [] demo_broker of Some (_, prov', _) \<Rightarrow> prov' | None \<Rightarrow> [])) = Some value"
proof -
  have ask: "\<exists>b'. ask_broker (\<lambda>n k. n) ''n'' demo_tool JNull demo_context [SettleAll Page None] demo_broker
      = Some (Deny, Withdrawn, b')"
    by (simp add: ask_broker_def broker_request_def Let_def approvalRequestId_def broker_settleAll_def settle_each_rec
      broker_settle_def gate_def demo_broker_def demo_context_def broker_takeOutcome_def ledger_take_def
      broker_remember_def ledger_put_def MAX_SETTLED_OUTCOMES_def pending_request_def)
  then obtain b' where b': "ask_broker (\<lambda>n k. n) ''n'' demo_tool JNull demo_context [SettleAll Page None] demo_broker
      = Some (Deny, Withdrawn, b')"
    by (elim exE)
  have effect: "td_effect demo_tool = WriteEffect"
    by (simp add: demo_tool_def)
  have "\<exists>prov'. mode_review AskFirst (\<lambda>n k. n) ''n'' demo_tool JNull demo_context [SettleAll Page None] [] demo_broker
      = Some (Deny, prov', b')"
    by (simp add: mode_review_def Let_def b' effect)
  then obtain prov' where r: "mode_review AskFirst (\<lambda>n k. n) ''n'' demo_tool JNull demo_context [SettleAll Page None] [] demo_broker
      = Some (Deny, prov', b')"
    by (elim exE)
  have ok: "broker_ok demo_broker" "ledger_ok MAX_PROVENANCE ([] :: ledger)" "approvalRequestId demo_context \<notin> filed demo_broker"
    "list_all (\<lambda>p. \<not> repeats (approvalRequestId demo_context) p) [SettleAll Page None]"
    using ApprovalBroker_ok [OF demo_broker_new] by (simp_all add: ledger_ok_def demo_broker_def repeats_def)
  from provenance_credits_only_people [OF ok(1,3,4,2) r] obtain v where
    v: "fst (takeProvenance demo_context prov') = Some v"
    "ap_source v \<in> {HumanSource, HumanFallback} \<longrightarrow> person_answered [SettleAll Page None] (approvalRequestId demo_context)"
    by blast
  have "prov' = remember_provenance demo_context \<lparr>ap_mode = AskFirst, ap_source = Unattended,
      ap_reason = Sentence (approvalOutcomeReason Withdrawn)\<rparr> []"
    using r by (simp add: mode_review_def Let_def b' effect)
  then have "v = \<lparr>ap_mode = AskFirst, ap_source = Unattended, ap_reason = Sentence (approvalOutcomeReason Withdrawn)\<rparr>"
    using v(1) provenance.take_after_put [OF ok(2)] by (simp add: takeProvenance_def remember_provenance_def)
  with v(1) r show ?thesis by simp
qed

section \<open>The policy of a running turn\<close>

lemma fold_replace_completed: "sw_completed (fold sw_replace ps s) = sw_completed s"
  by (induction ps arbitrary: s) (simp_all add: sw_replace_def)

text \<open>A running turn decides under the policy that was active when the review began, and the
  provenance is asked of exactly that policy, once, however often preferences replaced the active
  policy before and after the decision; other calls' provenance is not disturbed.\<close>

theorem switchable_provenance_follows_delegate:
  assumes "ledger_ok MAX_COMPLETED_REVIEWS (sw_completed s)"
    and s'_def: "s' = fold sw_replace after (sw_review_end ctx (sw_review_begin s) (fold sw_replace during s))"
  shows "fst (sw_takeProvenance ctx s') = Some (sw_active s) \<and>
    fst (sw_takeProvenance ctx (snd (sw_takeProvenance ctx s'))) = None \<and>
    ledger_ok MAX_COMPLETED_REVIEWS (sw_completed s')"
proof -
  have "sw_completed s' = ledger_put MAX_COMPLETED_REVIEWS (contextKey ctx) (sw_active s) (sw_completed s)"
    by (simp add: s'_def fold_replace_completed sw_review_end_def sw_review_begin_def)
  moreover note completed.ok_put [OF assms(1), of "contextKey ctx" "sw_active s"]
    completed.take_after_put [OF assms(1), of "contextKey ctx" "sw_active s"]
  ultimately show ?thesis
    using completed.take_once [of "sw_completed s'" "contextKey ctx"]
    by (simp add: sw_takeProvenance_def split_beta Let_def)
qed

theorem switchable_provenance_follows_delegate_witness:
  "fst (sw_takeProvenance demo_context (fold sw_replace [3]
     (sw_review_end demo_context (sw_review_begin (SwitchableApprovalPolicy (1 :: nat)))
       (fold sw_replace [2] (SwitchableApprovalPolicy 1))))) = Some 1"
  using switchable_provenance_follows_delegate [OF _ refl, of "SwitchableApprovalPolicy (1 :: nat)" demo_context "[3]" "[2]"]
  by (simp add: SwitchableApprovalPolicy_def ledger_ok_def)

section \<open>Consequences\<close>

text \<open>A Git request a person proposed is described in the registered vocabulary: its tool and action
  are the ones the table names, every other argument is kept, and a request outside the table is
  passed through untouched.\<close>

theorem derivation_keeps_arguments:
  "(\<forall>kind tool action es. map_of GIT_DERIVATION kind = Some (Some (tool, action)) \<longrightarrow>
      fst (approvalDerivationInput (gitApprovalToolName kind) (JObj es)) = tool \<and>
      obj_get ''action'' (snd (approvalDerivationInput (gitApprovalToolName kind) (JObj es))) = Some (JStr action) \<and>
      (\<forall>f. f \<noteq> ''action'' \<longrightarrow>
        obj_get f (snd (approvalDerivationInput (gitApprovalToolName kind) (JObj es))) = obj_get f (JObj es))) \<and>
   (\<forall>kind args. (case map_of GIT_DERIVATION kind of Some (Some _) \<Rightarrow> False | _ \<Rightarrow> True) \<longrightarrow>
      approvalDerivationInput (gitApprovalToolName kind) args = (gitApprovalToolName kind, args))"
  by (auto simp: approvalDerivationInput_def gitApprovalToolName_def update_conv' split: option.splits)

theorem derivation_keeps_arguments_witness:
  "fst (approvalDerivationInput (gitApprovalToolName ''commit'') (JObj [(''message'', JStr ''m'')])) = ''git_change'' \<and>
   approvalDerivationInput (gitApprovalToolName ''push'') JNull = (''git_push'', JNull)"
proof -
  have "map_of GIT_DERIVATION ''commit'' = Some (Some (''git_change'', ''commit''))" "map_of GIT_DERIVATION ''push'' = Some None"
    "gitApprovalToolName ''push'' = ''git_push''"
    by (simp_all add: GIT_DERIVATION_def gitApprovalToolName_def)
  with conjunct1 [OF derivation_keeps_arguments, rule_format, of "''commit''" "''git_change''" "''commit''"]
    conjunct2 [OF derivation_keeps_arguments, rule_format, of "''push''" JNull]
  show ?thesis by simp
qed

end
