(* ===== verification/Shell_Core.thy ===== *)
theory Shell_Core
  imports Json
begin

text \<open>
  The ground of \<open>airship-sh\<close>: its error classes (\<open>execution/shell/errors.ts\<close>), its limits
  (\<open>contract.ts\<close>), the step budget (\<open>budget.ts\<close>) and stateful computations that may throw.

  A computation over a state \<open>'s\<close> yields the state it leaves behind and either what it threw or
  its value: what was assigned before an exception stays assigned. The abort signal and the clock
  are read anew at every charge, so each charge takes what it read as arguments; the task-queue
  yield of \<open>tick\<close> separates two such readings.
\<close>

section \<open>Errors\<close>

datatype shell_fatal_reason = Budget | Deadline | Cancelled | Internal

text \<open>\<open>HostError\<close> is an exception of the JavaScript engine itself, such as a \<open>SyntaxError\<close>.\<close>

datatype shell_error =
    ShellParseError string nat nat
  | ShellFatalError shell_fatal_reason string
  | ShellCommandError string nat
  | HostError string

fun error_message :: "shell_error \<Rightarrow> string" where
  "error_message (ShellParseError message line column) =
    ''airship-sh: syntax error at line '' @ dec_nat line @ '', column '' @ dec_nat column @ '': '' @ message"
| "error_message (ShellFatalError reason message) = message"
| "error_message (ShellCommandError message status) = message"
| "error_message (HostError message) = message"

definition unsupportedOption :: "string \<Rightarrow> string \<Rightarrow> shell_error" where
  "unsupportedOption command option = ShellCommandError (''unsupported option: '' @ option) 2"

definition usageError :: "string \<Rightarrow> string \<Rightarrow> shell_error" where
  "usageError command detail = ShellCommandError detail 2"

section \<open>Stateful computations that may throw\<close>

type_synonym ('s, 'a) outcome = "'s \<times> (shell_error + 'a)"

definition then_do :: "'s \<times> ('e + 'a) \<Rightarrow> ('s \<Rightarrow> 'a \<Rightarrow> 's \<times> ('e + 'b)) \<Rightarrow> 's \<times> ('e + 'b)" where
  "then_do m f = (case snd m of Inl e \<Rightarrow> (fst m, Inl e) | Inr a \<Rightarrow> f (fst m) a)"

lemma then_do_cong [fundef_cong]:
  "m = m' \<Longrightarrow> (\<And>s a. m' = (s, Inr a) \<Longrightarrow> f s a = g s a) \<Longrightarrow> then_do m f = then_do m' g"
  by (cases m') (auto simp: then_do_def split: sum.splits)

lemma then_do_simps [simp]:
  "then_do (s, Inl e) f = (s, Inl e)" "then_do (s, Inr a) f = f s a"
  by (simp_all add: then_do_def)

lemma then_do_Inr_iff [result_simps]:
  "then_do m f = (s'', Inr b) \<longleftrightarrow> (\<exists>s' a. m = (s', Inr a) \<and> f s' a = (s'', Inr b))"
  by (cases m; cases "snd m") auto

lemma then_do_Inl_iff [result_simps]:
  "then_do m f = (s'', Inl e) \<longleftrightarrow> m = (s'', Inl e) \<or> (\<exists>s' a. m = (s', Inr a) \<and> f s' a = (s'', Inl e))"
  by (cases m; cases "snd m") auto

lemma then_do_assoc: "then_do (then_do m f) g = then_do m (\<lambda>s a. then_do (f s a) g)"
  by (cases m; cases "snd m") auto

section \<open>Limits\<close>

definition AIRSHIP_SH_MAX_STEPS :: int where
  "AIRSHIP_SH_MAX_STEPS = 2000000"

definition AIRSHIP_SH_YIELD_INTERVAL_STEPS :: int where
  "AIRSHIP_SH_YIELD_INTERVAL_STEPS = 4096"

definition AIRSHIP_SH_TIMER_YIELD_INTERVAL :: int where
  "AIRSHIP_SH_TIMER_YIELD_INTERVAL = 4"

definition AIRSHIP_SH_MAX_DEPTH :: nat where
  "AIRSHIP_SH_MAX_DEPTH = 64"

definition AIRSHIP_SH_MAX_VARIABLES :: nat where
  "AIRSHIP_SH_MAX_VARIABLES = 512"

definition AIRSHIP_SH_MAX_POSITIONAL :: nat where
  "AIRSHIP_SH_MAX_POSITIONAL = 1024"

section \<open>The step budget\<close>

record shell_budget =
  sb_steps :: int
  sb_sinceYield :: int
  sb_yields :: int

definition ShellBudget :: shell_budget where
  "ShellBudget = \<lparr>sb_steps = 0, sb_sinceYield = 0, sb_yields = 0\<rparr>"

text \<open>What a charge reads from its surroundings: the abort signal and the clock.\<close>

record surroundings =
  aborted :: bool
  now :: int

definition charge :: "int \<Rightarrow> surroundings \<Rightarrow> int \<Rightarrow> shell_budget \<Rightarrow> (shell_budget, unit) outcome" where
  "charge deadline w steps b =
    (let b' = b\<lparr>sb_steps := sb_steps b + steps\<rparr> in
     if aborted w then (b', Inl (ShellFatalError Cancelled ''airship-sh: execution cancelled.''))
     else if AIRSHIP_SH_MAX_STEPS < sb_steps b'
     then (b', Inl (ShellFatalError Budget (''airship-sh: script exceeded '' @ dec_int AIRSHIP_SH_MAX_STEPS @ '' interpreter steps.'')))
     else if deadline < now w
     then (b', Inl (ShellFatalError Deadline ''airship-sh: script exceeded its wall-clock deadline.''))
     else (b', Inr ()))"

text \<open>
  A tick, with the surroundings before and after the yield. The value is how it yielded: not at
  all, through a message task, or through a timer task.
\<close>

datatype yielding = NoYield | MessageTask | TimerTask

definition tick :: "int \<Rightarrow> surroundings \<Rightarrow> surroundings \<Rightarrow> int \<Rightarrow> shell_budget \<Rightarrow> (shell_budget, yielding) outcome" where
  "tick deadline before after steps b =
    then_do (charge deadline before steps b) (\<lambda>b _.
      let b = b\<lparr>sb_sinceYield := sb_sinceYield b + steps\<rparr> in
      if sb_sinceYield b < AIRSHIP_SH_YIELD_INTERVAL_STEPS then (b, Inr NoYield)
      else
        let b = b\<lparr>sb_sinceYield := 0, sb_yields := sb_yields b + 1\<rparr>;
            how = (if sb_yields b mod AIRSHIP_SH_TIMER_YIELD_INTERVAL = 0 then TimerTask else MessageTask)
        in then_do (charge deadline after 0 b) (\<lambda>b _. (b, Inr how)))"

section \<open>A run of ticks\<close>

text \<open>
  A run: one tick after the other until one throws. Each entry has the surroundings before and
  after its yield.
\<close>

fun run_ticks :: "int \<Rightarrow> (surroundings \<times> surroundings) list \<Rightarrow> shell_budget \<Rightarrow> (shell_budget, yielding list) outcome" where
  "run_ticks deadline [] b = (b, Inr [])"
| "run_ticks deadline ((before, after) # ws) b =
    then_do (tick deadline before after 1 b) (\<lambda>b y. then_do (run_ticks deadline ws b) (\<lambda>b ys. (b, Inr (y # ys))))"

definition budget_ok :: "shell_budget \<Rightarrow> bool" where
  "budget_ok b \<longleftrightarrow> 0 \<le> sb_sinceYield b \<and> sb_sinceYield b < AIRSHIP_SH_YIELD_INTERVAL_STEPS \<and>
    0 \<le> sb_yields b \<and>
    sb_steps b = AIRSHIP_SH_YIELD_INTERVAL_STEPS * sb_yields b + sb_sinceYield b \<and>
    sb_steps b \<le> AIRSHIP_SH_MAX_STEPS"

lemmas limit_defs = AIRSHIP_SH_MAX_STEPS_def AIRSHIP_SH_YIELD_INTERVAL_STEPS_def AIRSHIP_SH_TIMER_YIELD_INTERVAL_def

lemma charge_Inr_iff:
  "charge deadline w n b = (b', Inr u) \<longleftrightarrow>
    \<not> aborted w \<and> sb_steps b + n \<le> AIRSHIP_SH_MAX_STEPS \<and> now w \<le> deadline \<and> b' = b\<lparr>sb_steps := sb_steps b + n\<rparr>"
  by (auto simp: charge_def Let_def not_less)

lemma tick_before_yield:
  assumes "tick deadline before after 1 b = (b', Inr y)" "sb_sinceYield b + 1 < AIRSHIP_SH_YIELD_INTERVAL_STEPS"
  shows "y = NoYield \<and> b' = b\<lparr>sb_steps := sb_steps b + 1, sb_sinceYield := sb_sinceYield b + 1\<rparr> \<and>
    \<not> aborted before \<and> sb_steps b + 1 \<le> AIRSHIP_SH_MAX_STEPS"
  using assms by (auto simp: tick_def Let_def result_simps charge_Inr_iff)

lemma tick_at_yield:
  assumes "tick deadline before after 1 b = (b', Inr y)" "\<not> sb_sinceYield b + 1 < AIRSHIP_SH_YIELD_INTERVAL_STEPS"
  shows "y = (if (sb_yields b + 1) mod AIRSHIP_SH_TIMER_YIELD_INTERVAL = 0 then TimerTask else MessageTask) \<and>
    b' = b\<lparr>sb_steps := sb_steps b + 1, sb_sinceYield := 0, sb_yields := sb_yields b + 1\<rparr> \<and>
    \<not> aborted before \<and> \<not> aborted after \<and> sb_steps b + 1 \<le> AIRSHIP_SH_MAX_STEPS"
  using assms by (auto simp: tick_def Let_def result_simps charge_Inr_iff)

text \<open>What one tick that does not throw guarantees.\<close>

definition tick_guarantee :: "surroundings \<Rightarrow> surroundings \<Rightarrow> shell_budget \<Rightarrow> shell_budget \<Rightarrow> yielding \<Rightarrow> bool" where
  "tick_guarantee before after b b' y \<longleftrightarrow>
    budget_ok b' \<and> sb_steps b' = sb_steps b + 1 \<and> \<not> aborted before \<and> (y \<noteq> NoYield \<longrightarrow> \<not> aborted after) \<and>
    (y \<noteq> NoYield \<longleftrightarrow> sb_steps b' mod AIRSHIP_SH_YIELD_INTERVAL_STEPS = 0) \<and>
    (y = TimerTask \<longleftrightarrow> sb_steps b' mod (AIRSHIP_SH_YIELD_INTERVAL_STEPS * AIRSHIP_SH_TIMER_YIELD_INTERVAL) = 0)"

lemma tick_ok:
  assumes b: "budget_ok b" and t: "tick deadline before after 1 b = (b', Inr y)"
  shows "tick_guarantee before after b b' y"
proof (cases "sb_sinceYield b + 1 < AIRSHIP_SH_YIELD_INTERVAL_STEPS")
  case True
  define k where "k = sb_sinceYield b + 1"
  have k: "0 < k" "k < 4096" "sb_steps b + 1 = 4096 * sb_yields b + k"
    using b True by (auto simp: budget_ok_def limit_defs k_def)
  then have "(sb_steps b + 1) mod 4096 = k"
    by simp
  moreover have "(sb_steps b + 1) mod 16384 mod 4096 = (sb_steps b + 1) mod 4096"
    by (rule mod_mod_cancel) simp
  ultimately have "(sb_steps b + 1) mod 4096 \<noteq> 0" "(sb_steps b + 1) mod 16384 \<noteq> 0"
    using k(1) by auto
  then show ?thesis
    using tick_before_yield [OF t True] b k by (auto simp: tick_guarantee_def budget_ok_def limit_defs)
next
  case False
  have steps: "sb_steps b + 1 = 4096 * (sb_yields b + 1)"
    using b False by (auto simp: budget_ok_def limit_defs)
  have "4096 * (sb_yields b + 1) mod (4096 * 4) = 4096 * ((sb_yields b + 1) mod 4)"
    by (rule mod_mult_mult1)
  then have "(sb_steps b + 1) mod 16384 = 0 \<longleftrightarrow> (sb_yields b + 1) mod 4 = 0" "(sb_steps b + 1) mod 4096 = 0"
    unfolding steps by simp_all
  with steps show ?thesis
    using tick_at_yield [OF t False] b by (auto simp: tick_guarantee_def budget_ok_def limit_defs)
qed

lemma run_ticks_ok:
  "run_ticks deadline ws b = (b', Inr ys) \<Longrightarrow> budget_ok b \<Longrightarrow>
    budget_ok b' \<and> sb_steps b' = sb_steps b + int (length ws) \<and> length ys = length ws \<and>
    (\<forall>i < length ws. \<not> aborted (fst (ws ! i)) \<and>
      (ys ! i \<noteq> NoYield \<longleftrightarrow> (sb_steps b + int i + 1) mod AIRSHIP_SH_YIELD_INTERVAL_STEPS = 0) \<and>
      (ys ! i = TimerTask \<longleftrightarrow>
        (sb_steps b + int i + 1) mod (AIRSHIP_SH_YIELD_INTERVAL_STEPS * AIRSHIP_SH_TIMER_YIELD_INTERVAL) = 0))"
proof (induction deadline ws b arbitrary: ys rule: run_ticks.induct)
  case (2 deadline before after ws b)
  from 2(2) obtain b1 y ys' where t: "tick deadline before after 1 b = (b1, Inr y)"
    and r: "run_ticks deadline ws b1 = (b', Inr ys')" and ys: "ys = y # ys'"
    by (auto simp: result_simps)
  note g = tick_ok [OF 2(3) t, unfolded tick_guarantee_def]
  note rest = 2(1) [OF t r conjunct1 [OF g]]
  note later = rest [THEN conjunct2, THEN conjunct2, THEN conjunct2, rule_format]
  have steps: "sb_steps b1 = sb_steps b + 1" by (rule g [THEN conjunct2, THEN conjunct1])
  have "\<not> aborted (fst (((before, after) # ws) ! i)) \<and>
      (ys ! i \<noteq> NoYield \<longleftrightarrow> (sb_steps b + int i + 1) mod AIRSHIP_SH_YIELD_INTERVAL_STEPS = 0) \<and>
      (ys ! i = TimerTask \<longleftrightarrow>
        (sb_steps b + int i + 1) mod (AIRSHIP_SH_YIELD_INTERVAL_STEPS * AIRSHIP_SH_TIMER_YIELD_INTERVAL) = 0)"
    if "i < length ((before, after) # ws)" for i
  proof (cases i)
    case 0
    then show ?thesis using g ys steps by simp
  next
    case (Suc j)
    then show ?thesis using later [of j] that ys steps by (simp add: algebra_simps)
  qed
  with rest ys steps show ?case by simp
qed simp

lemma charge_error: "charge deadline w n b = (b', Inl e) \<Longrightarrow> \<exists>r m. e = ShellFatalError r m \<and> r \<noteq> Internal"
  by (auto simp: charge_def Let_def split: if_splits)

lemma tick_error: "tick deadline before after n b = (b', Inl e) \<Longrightarrow> \<exists>r m. e = ShellFatalError r m \<and> r \<noteq> Internal"
  by (auto simp: tick_def Let_def result_simps split: if_splits dest: charge_error)

lemma run_ticks_error: "run_ticks deadline ws b = (b', Inl e) \<Longrightarrow> \<exists>r m. e = ShellFatalError r m \<and> r \<noteq> Internal"
  by (induction deadline ws b rule: run_ticks.induct) (auto simp: result_simps dest: tick_error)

text \<open>C37: 
  No script runs for ever or past its cancellation: a run of ticks either ends in a fatal error
  for the budget, the deadline or the cancellation, or it took at most two million ticks, none of them after
  the abort signal was raised; every 4096th tick yields to the task queue and every fourth yield
  is a timer task.
\<close>

theorem run_is_bounded_and_cancellable:
  "case run_ticks deadline ws ShellBudget of
     (b, Inl e) \<Rightarrow> \<exists>r m. e = ShellFatalError r m \<and> r \<noteq> Internal
   | (b, Inr ys) \<Rightarrow>
       sb_steps b = int (length ws) \<and> length ws \<le> 2000000 \<and> length ys = length ws \<and>
       (\<forall>i < length ws. \<not> aborted (fst (ws ! i)) \<and>
         (ys ! i \<noteq> NoYield \<longleftrightarrow> (i + 1) mod 4096 = 0) \<and> (ys ! i = TimerTask \<longleftrightarrow> (i + 1) mod 16384 = 0))"
proof (cases "run_ticks deadline ws ShellBudget")
  case (Pair b r)
  show ?thesis
  proof (cases r)
    case (Inl e)
    then show ?thesis using Pair run_ticks_error by auto
  next
    case (Inr ys)
    have mods: "(int i + 1) mod 4096 = 0 \<longleftrightarrow> (i + 1) mod 4096 = 0" "(int i + 1) mod 16384 = 0 \<longleftrightarrow> (i + 1) mod 16384 = 0" for i
      by (metis (mono_tags, lifting) of_nat_1 of_nat_add of_nat_eq_0_iff of_nat_mod of_nat_numeral)+
    from run_ticks_ok [of deadline ws ShellBudget b ys] Pair Inr
    show ?thesis by (simp add: ShellBudget_def budget_ok_def limit_defs mods)
  qed
qed

theorem run_is_bounded_and_cancellable_witness:
  "run_ticks 10 [(\<lparr>aborted = False, now = 3\<rparr>, \<lparr>aborted = False, now = 4\<rparr>)] ShellBudget =
     (\<lparr>sb_steps = 1, sb_sinceYield = 1, sb_yields = 0\<rparr>, Inr [NoYield]) \<and>
   length [NoYield] = length [(\<lparr>aborted = False, now = (3::int)\<rparr>, \<lparr>aborted = False, now = (4::int)\<rparr>)] \<and>
   ([NoYield] ! 0 = TimerTask) = ((0 + 1 :: nat) mod 16384 = 0)"
proof -
  have r: "run_ticks 10 [(\<lparr>aborted = False, now = 3\<rparr>, \<lparr>aborted = False, now = 4\<rparr>)] ShellBudget =
     (\<lparr>sb_steps = 1, sb_sinceYield = 1, sb_yields = 0\<rparr>, Inr [NoYield])"
    by (simp add: ShellBudget_def tick_def charge_def limit_defs Let_def)
  from run_is_bounded_and_cancellable [of "[(\<lparr>aborted = False, now = 3\<rparr>, \<lparr>aborted = False, now = 4\<rparr>)]" 10]
  show ?thesis unfolding r by simp
qed

end
