(* ===== verification/Shell_Arithmetic.thy ===== *)
theory Shell_Arithmetic
  imports Shell_Core "HOL-Library.Word" "HOL-Library.Signed_Division"
begin

text \<open>
  Shell arithmetic (\<open>execution/shell/arithmetic.ts\<close>): the tokenizer, the recursive-descent evaluator
  and the 64-bit operations.

  A position in the token array is the suffix of the token list. \<open>BigInt\<close> values are \<^typ>\<open>int\<close> and
  \<open>BigInt.asIntN(64, _)\<close> is \<^const>\<open>signed_take_bit\<close>; \<open>/\<close> and \<open>%\<close> on \<open>BigInt\<close> truncate towards zero. The
  scope is the pair of its two functions on the shell's state. The evaluator of a variable's
  text one level deeper is an argument (\<open>deeper\<close>) of the parsing functions; \<open>evaluate_at\<close> ties the
  knot by recursion on the levels that are left.
\<close>

unbundle bit_operations_syntax

section \<open>Values\<close>

definition wrap :: "int \<Rightarrow> int" where
  "wrap v = signed_take_bit 63 v"

definition division_by_zero :: shell_error where
  "division_by_zero = ShellCommandError ''arithmetic: division by zero'' 2"

definition of_bool_int :: "bool \<Rightarrow> int" where
  "of_bool_int b = (if b then 1 else 0)"

definition applyBinary :: "string \<Rightarrow> int \<Rightarrow> int \<Rightarrow> shell_error + int" where
  "applyBinary operator left right =
    (if operator = ''+'' then Inr (wrap (left + right))
     else if operator = ''-'' then Inr (wrap (left - right))
     else if operator = ''*'' then Inr (wrap (left * right))
     else if operator = ''/'' then (if right = 0 then Inl division_by_zero else Inr (wrap (left sdiv right)))
     else if operator = ''%'' then (if right = 0 then Inl division_by_zero else Inr (wrap (left smod right)))
     else if operator = ''**'' then
       (if right < 0 then Inl (ShellCommandError ''arithmetic: negative exponent'' 2) else Inr (wrap (left ^ nat right)))
     else if operator = ''<<'' then Inr (wrap (push_bit (nat (take_bit 6 right)) left))
     else if operator = ''>>'' then Inr (wrap (drop_bit (nat (take_bit 6 right)) left))
     else if operator = ''<'' then Inr (of_bool_int (left < right))
     else if operator = ''<='' then Inr (of_bool_int (left \<le> right))
     else if operator = ''>'' then Inr (of_bool_int (left > right))
     else if operator = ''>='' then Inr (of_bool_int (left \<ge> right))
     else if operator = ''=='' then Inr (of_bool_int (left = right))
     else if operator = ''!='' then Inr (of_bool_int (left \<noteq> right))
     else if operator = ''&'' then Inr (wrap (left AND right))
     else if operator = ''|'' then Inr (wrap (left OR right))
     else if operator = ''^'' then Inr (wrap (left XOR right))
     else Inl (ShellCommandError (''arithmetic: unsupported operator '' @ operator) 2))"

section \<open>Literals and tokens\<close>

definition is_octal_digit :: "char \<Rightarrow> bool" where
  "is_octal_digit c = (let n = of_char c :: nat in 48 \<le> n \<and> n \<le> 55)"

definition is_hex :: "char \<Rightarrow> bool" where
  "is_hex c = (let n = of_char c :: nat in is_digit c \<or> (65 \<le> n \<and> n \<le> 70) \<or> (97 \<le> n \<and> n \<le> 102))"

definition hex_value :: "char \<Rightarrow> nat" where
  "hex_value c = (let n = of_char c :: nat in if is_digit c then n - 48 else if n \<le> 70 then n - 55 else n - 87)"

definition based :: "nat \<Rightarrow> string \<Rightarrow> int" where
  "based b digits = int (foldl (\<lambda>a c. b * a + hex_value c) 0 digits)"

text \<open>\<open>^[+-]?\<close> and the rest.\<close>

definition unsigned :: "string \<Rightarrow> string" where
  "unsigned t = (if t \<noteq> [] \<and> (hd t = CHR ''+'' \<or> hd t = CHR ''-'') then tl t else t)"

definition is_negative :: "string \<Rightarrow> bool" where
  "is_negative t \<longleftrightarrow> t \<noteq> [] \<and> hd t = CHR ''-''"

definition negate_if :: "bool \<Rightarrow> int \<Rightarrow> int" where
  "negate_if b v = (if b then - v else v)"

definition is_hex_literal :: "string \<Rightarrow> bool" where
  "is_hex_literal u = (case u of z # x # ds \<Rightarrow> z = CHR ''0'' \<and> (x = CHR ''x'' \<or> x = CHR ''X'') \<and> ds \<noteq> [] \<and> list_all is_hex ds
     | _ \<Rightarrow> False)"

definition is_octal_literal :: "string \<Rightarrow> bool" where
  "is_octal_literal u = (case u of z # ds \<Rightarrow> z = CHR ''0'' \<and> ds \<noteq> [] \<and> list_all is_octal_digit ds | [] \<Rightarrow> False)"

definition is_decimal_literal :: "string \<Rightarrow> bool" where
  "is_decimal_literal u \<longleftrightarrow> u \<noteq> [] \<and> list_all is_digit u"

text \<open>
  \<open>BigInt\<close> of a text with a sign and a hexadecimal prefix is a \<open>SyntaxError\<close>; the sign is removed
  only when it is a plus.
\<close>

definition parseIntegerLiteral :: "string \<Rightarrow> shell_error + int option" where
  "parseIntegerLiteral t =
    (let u = unsigned t in
     if is_hex_literal u
     then (if is_negative t then Inl (HostError ''SyntaxError'') else Inr (Some (wrap (based 16 (drop 2 u)))))
     else if is_octal_literal u then Inr (Some (wrap (negate_if (is_negative t) (based 8 (tl u)))))
     else if is_decimal_literal u then Inr (Some (wrap (negate_if (is_negative t) (based 10 u))))
     else Inr None)"

datatype arith_token = Number int | Name string | Operator string | End

definition OPERATORS :: "string list" where
  "OPERATORS = [''<<='', ''>>='', ''**'', ''++'', ''--'', ''<<'', ''>>'', ''<='', ''>='', ''=='', ''!='', ''&&'', ''||'',
     ''+='', ''-='', ''*='', ''/='', ''%='', ''&='', ''|='', ''^='', ''+'', ''-'', ''*'', ''/'', ''%'', ''<'', ''>'', ''!'',
     ''~'', ''&'', ''|'', ''^'', ''?'', '':'', ''('', '')'', '','', ''='']"

text \<open>\<open>0[xX][0-9a-fA-F]+|0[0-7]*|[1-9][0-9]*\<close> at the start of the text.\<close>

definition number_match :: "string \<Rightarrow> string option" where
  "number_match t =
    (case t of
       [] \<Rightarrow> None
     | z # r \<Rightarrow>
         if z = CHR ''0'' then
           (case r of
              x # ds \<Rightarrow> if (x = CHR ''x'' \<or> x = CHR ''X'') \<and> takeWhile is_hex ds \<noteq> []
                         then Some (z # x # takeWhile is_hex ds) else Some (z # takeWhile is_octal_digit r)
            | [] \<Rightarrow> Some [z])
         else if is_digit z then Some (takeWhile is_digit t) else None)"

lemma number_match_prefix: "number_match t = Some m \<Longrightarrow> m \<noteq> [] \<and> length m \<le> length t"
  by (auto simp: number_match_def split: list.splits if_splits intro: le_trans [OF length_takeWhile_le])

lemma OPERATORS_nonempty: "find P OPERATORS = Some operator \<Longrightarrow> operator \<noteq> []"
proof -
  assume "find P OPERATORS = Some operator"
  then have "operator \<in> set OPERATORS" by (auto simp: find_Some_iff)
  moreover have "list_all (\<lambda>operator. operator \<noteq> []) OPERATORS" by (simp add: OPERATORS_def)
  ultimately show ?thesis by (auto simp: list_all_iff)
qed

function (sequential) tokenizeArithmetic :: "string \<Rightarrow> shell_error + arith_token list" where
  "tokenizeArithmetic [] = Inr [End]"
| "tokenizeArithmetic (c # cs) =
    (if is_ws c then tokenizeArithmetic cs
     else if is_digit c then
       (case number_match (c # cs) of
          None \<Rightarrow> Inl (ShellCommandError (''arithmetic: invalid number near '' @ take 8 (c # cs)) 2)
        | Some m \<Rightarrow> bind_result (parseIntegerLiteral m) (\<lambda>literal.
            case literal of
              None \<Rightarrow> Inl (ShellCommandError (''arithmetic: invalid number '' @ m) 2)
            | Some v \<Rightarrow> bind_result (tokenizeArithmetic (drop (length m) (c # cs))) (\<lambda>ts. Inr (Number v # ts))))
     else if is_name_start c then
       bind_result (tokenizeArithmetic (dropWhile is_name_char (c # cs))) (\<lambda>ts. Inr (Name (takeWhile is_name_char (c # cs)) # ts))
     else
       (case find (\<lambda>candidate. prefix candidate (c # cs)) OPERATORS of
          None \<Rightarrow> Inl (ShellCommandError (''arithmetic: unexpected character '' @ [c]) 2)
        | Some operator \<Rightarrow>
            bind_result (tokenizeArithmetic (drop (length operator) (c # cs))) (\<lambda>ts. Inr (Operator operator # ts))))"
  by pat_completeness auto
termination
  by (relation "measure length")
    (auto simp: is_name_char_def le_imp_less_Suc length_dropWhile_le
      dest: number_match_prefix OPERATORS_nonempty)

section \<open>The evaluator\<close>

record 's arithmetic_scope =
  as_read :: "'s \<Rightarrow> string \<Rightarrow> string option"
  as_assign :: "'s \<Rightarrow> string \<Rightarrow> string \<Rightarrow> ('s, unit) outcome"

type_synonym 's deeper_evaluator = "string \<Rightarrow> 's \<Rightarrow> ('s, int) outcome"
type_synonym 's parsed = "('s, int \<times> arith_token list) outcome"

definition MAX_VARIABLE_DEPTH :: nat where
  "MAX_VARIABLE_DEPTH = 8"

definition PRECEDENCE :: "string list list" where
  "PRECEDENCE = [[''||''], [''&&''], [''|''], [''^''], [''&''], [''=='', ''!=''], [''<'', ''<='', ''>'', ''>=''],
     [''<<'', ''>>''], [''+'', ''-''], [''*'', ''/'', ''%''], [''**'']]"

definition isAssignmentOperator :: "string \<Rightarrow> bool" where
  "isAssignmentOperator v \<longleftrightarrow>
    v \<in> set [''='', ''+='', ''-='', ''*='', ''/='', ''%='', ''<<='', ''>>='', ''&='', ''|='', ''^='']"

definition peek :: "arith_token list \<Rightarrow> arith_token" where
  "peek ts = (case ts of [] \<Rightarrow> End | t # _ \<Rightarrow> t)"

definition advance :: "arith_token list \<Rightarrow> arith_token list" where
  "advance ts = tl ts"

definition atOperator :: "string \<Rightarrow> arith_token list \<Rightarrow> bool" where
  "atOperator v ts \<longleftrightarrow> peek ts = Operator v"

definition arith_error :: "string \<Rightarrow> shell_error" where
  "arith_error message = ShellCommandError (''arithmetic: '' @ message) 2"

definition readVariable :: "'s arithmetic_scope \<Rightarrow> 's deeper_evaluator \<Rightarrow> string \<Rightarrow> 's \<Rightarrow> ('s, int) outcome" where
  "readVariable scope deeper name s =
    (let raw = trim (case as_read scope s name of Some v \<Rightarrow> v | None \<Rightarrow> [])
     in if raw = [] then (s, Inr 0)
        else case parseIntegerLiteral raw of
          Inl e \<Rightarrow> (s, Inl e)
        | Inr (Some literal) \<Rightarrow> (s, Inr literal)
        | Inr None \<Rightarrow> deeper raw s)"

text \<open>A name followed by an operator that satisfies \<open>P\<close>.\<close>

definition name_then :: "(string \<Rightarrow> bool) \<Rightarrow> arith_token list \<Rightarrow> (string \<times> string) option" where
  "name_then P ts = (case ts of Name n # Operator v # _ \<Rightarrow> if P v then Some (n, v) else None | _ \<Rightarrow> None)"

definition is_step_operator :: "string \<Rightarrow> bool" where
  "is_step_operator v \<longleftrightarrow> v = ''++'' \<or> v = ''--''"

definition step_of :: "string \<Rightarrow> int" where
  "step_of v = (if v = ''++'' then 1 else - 1)"

definition level_operator :: "nat \<Rightarrow> arith_token list \<Rightarrow> string option" where
  "level_operator level ts = (case peek ts of Operator v \<Rightarrow> if v \<in> set (PRECEDENCE ! level) then Some v else None | _ \<Rightarrow> None)"

text \<open>What an operator between two evaluated operands gives; \<open>&&\<close> and \<open>||\<close> do not go through \<open>applyBinary\<close>.\<close>

definition combine :: "string \<Rightarrow> int \<Rightarrow> int \<Rightarrow> shell_error + int" where
  "combine v left right =
    (if v = ''&&'' then Inr (of_bool_int (left \<noteq> 0 \<and> right \<noteq> 0))
     else if v = ''||'' then Inr (of_bool_int (left \<noteq> 0 \<or> right \<noteq> 0))
     else applyBinary v left right)"


lemma advance_length [simp]: "length (advance ts) = length ts - 1"
  by (simp add: advance_def)

function
  parseComma :: "'s arithmetic_scope \<Rightarrow> 's deeper_evaluator \<Rightarrow> arith_token list \<Rightarrow> 's \<Rightarrow> 's parsed" and
  comma_loop :: "'s arithmetic_scope \<Rightarrow> 's deeper_evaluator \<Rightarrow> int \<Rightarrow> arith_token list \<Rightarrow> 's \<Rightarrow> 's parsed" and
  parseAssignment :: "'s arithmetic_scope \<Rightarrow> 's deeper_evaluator \<Rightarrow> arith_token list \<Rightarrow> 's \<Rightarrow> 's parsed" and
  parseConditional :: "'s arithmetic_scope \<Rightarrow> 's deeper_evaluator \<Rightarrow> arith_token list \<Rightarrow> 's \<Rightarrow> 's parsed" and
  parseBinary :: "'s arithmetic_scope \<Rightarrow> 's deeper_evaluator \<Rightarrow> nat \<Rightarrow> arith_token list \<Rightarrow> 's \<Rightarrow> 's parsed" and
  binary_loop :: "'s arithmetic_scope \<Rightarrow> 's deeper_evaluator \<Rightarrow> nat \<Rightarrow> int \<Rightarrow> arith_token list \<Rightarrow> 's \<Rightarrow> 's parsed" and
  parseUnary :: "'s arithmetic_scope \<Rightarrow> 's deeper_evaluator \<Rightarrow> arith_token list \<Rightarrow> 's \<Rightarrow> 's parsed" and
  parsePostfix :: "'s arithmetic_scope \<Rightarrow> 's deeper_evaluator \<Rightarrow> arith_token list \<Rightarrow> 's \<Rightarrow> 's parsed" and
  parsePrimary :: "'s arithmetic_scope \<Rightarrow> 's deeper_evaluator \<Rightarrow> arith_token list \<Rightarrow> 's \<Rightarrow> 's parsed"
where
  "parseComma scope deeper ts s =
    then_do (parseAssignment scope deeper ts s) (\<lambda>s r. comma_loop scope deeper (fst r) (snd r) s)"
| "comma_loop scope deeper v ts s =
    (if atOperator '','' ts
     then then_do (parseAssignment scope deeper (advance ts) s) (\<lambda>s r. comma_loop scope deeper (fst r) (snd r) s)
     else (s, Inr (v, ts)))"
| "parseAssignment scope deeper ts s =
    (case name_then isAssignmentOperator ts of
       Some (name, operator) \<Rightarrow>
         then_do (parseAssignment scope deeper (advance (advance ts)) s) (\<lambda>s r.
           then_do (if operator = ''='' then (s, Inr (fst r))
                    else then_do (readVariable scope deeper name s) (\<lambda>s current.
                      (s, applyBinary (butlast operator) current (fst r)))) (\<lambda>s nxt.
             then_do (as_assign scope s name (dec_int (wrap nxt))) (\<lambda>s _. (s, Inr (wrap nxt, snd r)))))
     | None \<Rightarrow> parseConditional scope deeper ts s)"
| "parseConditional scope deeper ts s =
    then_do (parseBinary scope deeper 0 ts s) (\<lambda>s r.
      if \<not> atOperator ''?'' (snd r) then (s, Inr r)
      else then_do (parseAssignment scope deeper (advance (snd r)) s) (\<lambda>s whenTrue.
        if \<not> atOperator '':'' (snd whenTrue) then (s, Inl (arith_error ''expected `:` in a conditional expression''))
        else then_do (parseConditional scope deeper (advance (snd whenTrue)) s) (\<lambda>s whenFalse.
          (s, Inr (if fst r \<noteq> 0 then fst whenTrue else fst whenFalse, snd whenFalse)))))"
| "parseBinary scope deeper level ts s =
    (if length PRECEDENCE \<le> level then parseUnary scope deeper ts s
     else then_do (parseBinary scope deeper (Suc level) ts s) (\<lambda>s r. binary_loop scope deeper level (fst r) (snd r) s))"
| "binary_loop scope deeper level left ts s =
    (case level_operator level ts of
       None \<Rightarrow> (s, Inr (left, ts))
     | Some v \<Rightarrow>
         then_do (parseBinary scope deeper (Suc level) (advance ts) s) (\<lambda>s right.
           then_do (s, combine v left (fst right)) (\<lambda>s left. binary_loop scope deeper level left (snd right) s)))"
| "parseUnary scope deeper ts s =
    (if peek ts = Operator ''-'' then then_do (parseUnary scope deeper (advance ts) s) (\<lambda>s r. (s, Inr (wrap (- fst r), snd r)))
     else if peek ts = Operator ''+'' then parseUnary scope deeper (advance ts) s
     else if peek ts = Operator ''!'' then then_do (parseUnary scope deeper (advance ts) s) (\<lambda>s r. (s, Inr (of_bool_int (fst r = 0), snd r)))
     else if peek ts = Operator ''~'' then then_do (parseUnary scope deeper (advance ts) s) (\<lambda>s r. (s, Inr (wrap (NOT (fst r)), snd r)))
     else case peek ts of
       Operator v \<Rightarrow>
         if is_step_operator v then
           (case peek (advance ts) of
              Name target \<Rightarrow>
                then_do (readVariable scope deeper target s) (\<lambda>s current.
                  let nxt = wrap (current + step_of v) in
                  then_do (as_assign scope s target (dec_int nxt)) (\<lambda>s _. (s, Inr (nxt, advance (advance ts)))))
            | _ \<Rightarrow> (s, Inl (arith_error (v @ '' requires a variable''))))
         else parsePostfix scope deeper ts s
     | _ \<Rightarrow> parsePostfix scope deeper ts s)"
| "parsePostfix scope deeper ts s =
    (case name_then is_step_operator ts of
       Some (name, operator) \<Rightarrow>
         then_do (readVariable scope deeper name s) (\<lambda>s current.
           then_do (as_assign scope s name (dec_int (wrap (current + step_of operator)))) (\<lambda>s _.
             (s, Inr (current, advance (advance ts)))))
     | None \<Rightarrow> parsePrimary scope deeper ts s)"
| "parsePrimary scope deeper ts s =
    (case peek ts of
       Number v \<Rightarrow> (s, Inr (v, advance ts))
     | Name name \<Rightarrow> then_do (readVariable scope deeper name s) (\<lambda>s v. (s, Inr (v, advance ts)))
     | Operator v \<Rightarrow>
         if v = ''('' then
           then_do (parseComma scope deeper (advance ts) s) (\<lambda>s r.
             if atOperator '')'' (snd r) then (s, Inr (fst r, advance (snd r)))
             else (s, Inl (arith_error ''expected `)`'')))
         else (s, Inl (arith_error ''expected an operand''))
     | End \<Rightarrow> (s, Inl (arith_error ''expected an operand'')))"
  by pat_completeness auto

text \<open>What is left is never longer than what was there.\<close>

definition shorter :: "arith_token list \<Rightarrow> 's parsed \<Rightarrow> bool" where
  "shorter ts p \<longleftrightarrow> (\<forall>s r. p = (s, Inr r) \<longrightarrow> length (snd r) \<le> length ts)"

lemma shorter_simps [simp]: "shorter ts (s, Inl e)" "shorter ts (s, Inr r) \<longleftrightarrow> length (snd r) \<le> length ts"
  unfolding shorter_def by blast+

lemma shorter_then_do: "(\<And>s a. m = (s, Inr a) \<Longrightarrow> shorter ts (f s a)) \<Longrightarrow> shorter ts (then_do m f)"
  by (cases m; cases "snd m") auto

lemma shorter_trans: "shorter us p \<Longrightarrow> length us \<le> length ts \<Longrightarrow> shorter ts p"
  by (auto simp: shorter_def intro: le_trans)

lemma shorterD: "shorter ts p \<Longrightarrow> p = (s, Inr r) \<Longrightarrow> length (snd r) \<le> length ts"
  unfolding shorter_def by blast

abbreviation "parse_dom \<equiv> parseComma_comma_loop_parseAssignment_parseConditional_parseBinary_binary_loop_parseUnary_parsePostfix_parsePrimary_dom"

lemma parsed_shorter:
  fixes scope :: "'s arithmetic_scope"
  shows "parse_dom (Inl (Inl (Inl (scope, deeper, ts, s)))) \<Longrightarrow> shorter ts (parseComma scope deeper ts s)"
    and "parse_dom (Inl (Inl (Inr (scope, deeper, v, ts, s)))) \<Longrightarrow> shorter ts (comma_loop scope deeper v ts s)"
    and "parse_dom (Inl (Inr (Inl (scope, deeper, ts, s)))) \<Longrightarrow> shorter ts (parseAssignment scope deeper ts s)"
    and "parse_dom (Inl (Inr (Inr (scope, deeper, ts, s)))) \<Longrightarrow> shorter ts (parseConditional scope deeper ts s)"
    and "parse_dom (Inr (Inl (Inl (scope, deeper, level, ts, s)))) \<Longrightarrow> shorter ts (parseBinary scope deeper level ts s)"
    and "parse_dom (Inr (Inl (Inr (scope, deeper, level, left, ts, s)))) \<Longrightarrow> shorter ts (binary_loop scope deeper level left ts s)"
    and "parse_dom (Inr (Inr (Inl (scope, deeper, ts, s)))) \<Longrightarrow> shorter ts (parseUnary scope deeper ts s)"
    and "parse_dom (Inr (Inr (Inr (Inl (scope, deeper, ts, s))))) \<Longrightarrow> shorter ts (parsePostfix scope deeper ts s)"
    and "parse_dom (Inr (Inr (Inr (Inr (scope, deeper, ts, s))))) \<Longrightarrow> shorter ts (parsePrimary scope deeper ts s)"
proof (induction scope deeper ts s and scope deeper v ts s and scope deeper ts s and scope deeper ts s and
    scope deeper level ts s and scope deeper level left ts s and scope deeper ts s and scope deeper ts s and scope deeper ts s
    rule: parseComma_comma_loop_parseAssignment_parseConditional_parseBinary_binary_loop_parseUnary_parsePostfix_parsePrimary.pinduct)
  case (1 scope deeper ts s)
  then show ?case
    by (auto simp: parseComma.psimps intro!: shorter_then_do elim: shorter_trans dest: shorterD)
next
  case (2 scope deeper v ts s)
  then show ?case
    by (auto simp: comma_loop.psimps intro!: shorter_then_do elim!: shorter_trans dest!: shorterD)
next
  case (3 scope deeper ts s)
  show ?case
  proof (cases "name_then isAssignmentOperator ts")
    case None
    then show ?thesis using 3 by (simp add: parseAssignment.psimps)
  next
    case (Some p)
    obtain n v where p: "p = (n, v)" by (cases p)
    show ?thesis
      unfolding parseAssignment.psimps [OF 3(1)] Some p option.case prod.case
      using shorterD [OF 3(3) [OF Some p [symmetric]]]
      by (fastforce intro!: shorter_then_do)
  qed
next
  case (4 scope deeper ts s)
  show ?case
    unfolding parseConditional.psimps [OF 4(1)]
  proof (intro shorter_then_do, goal_cases)
    case (1 s1 r)
    with 4(2) have r: "length (snd r) \<le> length ts" by (auto dest: shorterD)
    show ?case
    proof (cases "atOperator ''?'' (snd r)")
      case True
      note ih = 4(3) [OF 1, unfolded not_not, OF True]
      show ?thesis
        using r True ih 4(4) [OF 1, unfolded not_not, OF True]
        by (auto intro!: shorter_then_do dest!: shorterD)
    qed (use r in simp)
  qed
next
  case (5 scope deeper level ts s)
  then show ?case
    by (auto simp: parseBinary.psimps intro!: shorter_then_do elim!: shorter_trans dest: shorterD)
next
  case (6 scope deeper level left ts s)
  show ?case
  proof (cases "level_operator level ts")
    case (Some v)
    show ?thesis
      unfolding binary_loop.psimps [OF 6(1)] Some option.case
    proof (intro shorter_then_do, goal_cases)
      case (1 s1 r s2 left')
      then show ?case
        using 6(3) [OF Some 1] shorterD [OF 6(2) [OF Some] 1(1)] by (simp add: shorter_trans)
    qed
  qed (simp add: binary_loop.psimps [OF 6(1)])
next
  case (7 scope deeper ts s)
  let ?sub = "parseUnary scope deeper (advance ts) s"
  consider (sub) "peek ts \<in> {Operator ''-'', Operator ''+'', Operator ''!'', Operator ''~''}"
    | (other) "peek ts \<noteq> Operator ''-''" "peek ts \<noteq> Operator ''+''" "peek ts \<noteq> Operator ''!''" "peek ts \<noteq> Operator ''~''"
    by blast
  then show ?case
  proof cases
    case sub
    then have ih: "shorter (advance ts) ?sub"
      using 7(2-5) by auto
    then have "shorter ts ?sub"
      by (rule shorter_trans) simp
    with sub show ?thesis
      unfolding parseUnary.psimps [OF 7(1)]
      by (elim insertE emptyE) (auto intro!: shorter_then_do dest!: shorterD)
  next
    case other
    then show ?thesis
      using 7(6-9) [OF other]
      by (cases "peek ts") (auto simp: parseUnary.psimps [OF 7(1)] Let_def split: arith_token.splits intro!: shorter_then_do)
  qed
next
  case (8 scope deeper ts s)
  then show ?case
    by (auto simp: parsePostfix.psimps split: option.splits intro!: shorter_then_do)
next
  case (9 scope deeper ts s)
  then show ?case
    by (auto simp: parsePrimary.psimps split: arith_token.splits intro!: shorter_then_do dest!: shorterD)
qed


lemma advance_shortens:
  "level_operator level ts = Some v \<Longrightarrow> length (advance ts) < length ts"
  "atOperator v ts \<Longrightarrow> length (advance ts) < length ts"
  "peek ts = Operator v \<Longrightarrow> length (advance ts) < length ts"
  "name_then P ts = Some nv \<Longrightarrow> length (advance (advance ts)) < length ts"
  by (auto simp: level_operator_def atOperator_def peek_def advance_def name_then_def
      split: list.splits arith_token.splits if_splits)

text \<open>The rank orders the calls that consume nothing.\<close>

termination parseComma
  by (relation "measures [case_sum
      (case_sum (case_sum (\<lambda>(_, _, ts, _). length ts) (\<lambda>(_, _, _, ts, _). length ts))
        (case_sum (\<lambda>(_, _, ts, _). length ts) (\<lambda>(_, _, ts, _). length ts)))
      (case_sum (case_sum (\<lambda>(_, _, _, ts, _). length ts) (\<lambda>(_, _, _, _, ts, _). length ts))
        (case_sum (\<lambda>(_, _, ts, _). length ts)
          (case_sum (\<lambda>(_, _, ts, _). length ts) (\<lambda>(_, _, ts, _). length ts)))),
    case_sum
      (case_sum (case_sum (\<lambda>_. 30) (\<lambda>_. 0)) (case_sum (\<lambda>_. 29) (\<lambda>_. 28)))
      (case_sum (case_sum (\<lambda>(_, _, level, _, _). 4 + (length PRECEDENCE - level)) (\<lambda>_. 0))
        (case_sum (\<lambda>_. 3) (case_sum (\<lambda>_. 2) (\<lambda>_. 1))))]")
    (auto simp: PRECEDENCE_def simp del: advance_length
      dest: advance_shortens(1,3,4)
      dest!: advance_shortens(2) shorterD [OF parsed_shorter(3)] shorterD [OF parsed_shorter(5)])


declare parseComma.simps [simp del] comma_loop.simps [simp del] parseAssignment.simps [simp del]
  parseConditional.simps [simp del] parseBinary.simps [simp del] binary_loop.simps [simp del]
  parseUnary.simps [simp del] parsePostfix.simps [simp del] parsePrimary.simps [simp del]

text \<open>The number of levels left, the current one included.\<close>

fun evaluate_at :: "'s arithmetic_scope \<Rightarrow> nat \<Rightarrow> string \<Rightarrow> 's \<Rightarrow> ('s, int) outcome" where
  "evaluate_at scope 0 source s = (s, Inl (ShellCommandError ''arithmetic: variable expansion nested too deeply'' 2))"
| "evaluate_at scope (Suc levels) source s =
    then_do (s, tokenizeArithmetic source) (\<lambda>s ts.
      if peek ts = End then (s, Inr 0)
      else then_do (parseComma scope (evaluate_at scope levels) ts s) (\<lambda>s r.
        if peek (snd r) \<noteq> End then (s, Inl (arith_error ''unexpected trailing input'')) else (s, Inr (fst r))))"

definition evaluateArithmetic :: "string \<Rightarrow> 's arithmetic_scope \<Rightarrow> 's \<Rightarrow> ('s, int) outcome" where
  "evaluateArithmetic source scope s = evaluate_at scope (Suc MAX_VARIABLE_DEPTH) source s"

section \<open>Values stay in 64 bits\<close>

definition in64 :: "int \<Rightarrow> bool" where
  "in64 v \<longleftrightarrow> - (2 ^ 63) \<le> v \<and> v < 2 ^ 63"

lemma wrap_in64 [simp]: "in64 (wrap v)"
  unfolding in64_def wrap_def
  using signed_take_bit_int_greater_eq_minus_exp [of 63 v] signed_take_bit_int_less_exp [of 63 v] by simp

lemma wrap_id: "in64 v \<Longrightarrow> wrap v = v"
  by (simp add: in64_def wrap_def signed_take_bit_int_eq_self)

lemma wrap_word: "wrap v = sint (word_of_int v :: 64 word)"
  by (simp add: wrap_def signed_of_int)

lemma of_bool_in64 [simp]: "in64 (of_bool_int b)"
  by (simp add: of_bool_int_def in64_def)

lemma zero_in64 [simp]: "in64 0"
  by (simp add: in64_def)

definition yields64 :: "shell_error + int \<Rightarrow> bool" where
  "yields64 r \<longleftrightarrow> (case r of Inl _ \<Rightarrow> True | Inr v \<Rightarrow> in64 v)"

lemma yields64_simps [simp]: "yields64 (Inl e)" "yields64 (Inr v) \<longleftrightarrow> in64 v"
  by (simp_all add: yields64_def)

lemma applyBinary_in64 [simp]: "yields64 (applyBinary v a b)"
  unfolding applyBinary_def by simp

lemma combine_in64 [simp]: "yields64 (combine v a b)"
  by (simp add: combine_def)

lemma parseIntegerLiteral_in64: "parseIntegerLiteral t = Inr (Some v) \<Longrightarrow> in64 v"
  by (auto simp: parseIntegerLiteral_def Let_def split: if_splits)

definition token64 :: "arith_token \<Rightarrow> bool" where
  "token64 t \<longleftrightarrow> (case t of Number v \<Rightarrow> in64 v | _ \<Rightarrow> True)"

lemma token64_simps [simp]:
  "token64 (Number v) \<longleftrightarrow> in64 v" "token64 (Name n)" "token64 (Operator n)" "token64 End"
  by (simp_all add: token64_def)

lemma tokenize_in64: "tokenizeArithmetic source = Inr ts \<Longrightarrow> list_all token64 ts"
proof (induction source arbitrary: ts rule: tokenizeArithmetic.induct)
  case step: (2 c cs)
  consider "is_ws c" | "\<not> is_ws c" "is_digit c" | "\<not> is_ws c" "\<not> is_digit c" "is_name_start c"
    | "\<not> is_ws c" "\<not> is_digit c" "\<not> is_name_start c" by blast
  then show ?case
  proof cases
    case 1
    then show ?thesis using step(1,5) by simp
  next
    case 2
    with step(5) obtain m v ts' where "number_match (c # cs) = Some m" "parseIntegerLiteral m = Inr (Some v)"
      "tokenizeArithmetic (drop (length m) (c # cs)) = Inr ts'" "ts = Number v # ts'"
      by (auto simp: result_simps simp del: drop_Cons' split: option.splits)
    with step(2) [OF 2] show ?thesis by (simp add: parseIntegerLiteral_in64)
  next
    case 3
    then show ?thesis using step(3,5) by (auto simp: result_simps simp del: dropWhile.simps)
  next
    case 4
    with step(5) obtain v ts' where "find (\<lambda>candidate. prefix candidate (c # cs)) OPERATORS = Some v"
      "tokenizeArithmetic (drop (length v) (c # cs)) = Inr ts'" "ts = Operator v # ts'"
      by (auto simp: result_simps split: option.splits)
    with step(4) [OF 4] show ?thesis by simp
  qed
qed auto

text \<open>A parse whose value and remaining numbers are in range.\<close>

definition parsed64 :: "'s parsed \<Rightarrow> bool" where
  "parsed64 p \<longleftrightarrow> (case snd p of Inl _ \<Rightarrow> True | Inr r \<Rightarrow> in64 (fst r) \<and> list_all token64 (snd r))"

definition valued64 :: "('s, int) outcome \<Rightarrow> bool" where
  "valued64 p \<longleftrightarrow> yields64 (snd p)"

lemma parsed64_simps [simp]:
  "parsed64 (s, Inl e)" "parsed64 (s, Inr r) \<longleftrightarrow> in64 (fst r) \<and> list_all token64 (snd r)"
  by (simp_all add: parsed64_def)

lemma valued64_simp [simp]: "valued64 (s, r) \<longleftrightarrow> yields64 r"
  by (simp add: valued64_def)

lemma parsed64_then_do: "(\<And>s a. m = (s, Inr a) \<Longrightarrow> parsed64 (f s a)) \<Longrightarrow> parsed64 (then_do m f)"
  by (cases m; cases "snd m") auto

lemma parsed64_bind:
  "parsed64 m \<Longrightarrow> (\<And>s r. in64 (fst r) \<Longrightarrow> list_all token64 (snd r) \<Longrightarrow> m = (s, Inr r) \<Longrightarrow> parsed64 (f s r)) \<Longrightarrow> parsed64 (then_do m f)"
  by (cases m; cases "snd m") auto

lemma valued64_bind:
  "valued64 m \<Longrightarrow> (\<And>s v. in64 v \<Longrightarrow> m = (s, Inr v) \<Longrightarrow> parsed64 (f s v)) \<Longrightarrow> parsed64 (then_do m f)"
  by (cases m; cases "snd m") auto

lemma token64_advance [simp]: "list_all token64 ts \<Longrightarrow> list_all token64 (advance ts)"
  by (cases ts) (auto simp: advance_def)

lemma token64_peek: "list_all token64 ts \<Longrightarrow> token64 (peek ts)"
  by (cases ts) (auto simp: peek_def)

lemma readVariable_in64:
  "(\<And>source s. valued64 (deeper source s)) \<Longrightarrow> valued64 (readVariable scope deeper name s)"
  by (auto simp: readVariable_def Let_def parseIntegerLiteral_in64 split: sum.splits option.splits)


lemma parsed_in64:
  fixes scope :: "'s arithmetic_scope"
  shows "(\<And>source s. valued64 (deeper source s)) \<Longrightarrow> list_all token64 ts \<Longrightarrow> parsed64 (parseComma scope deeper ts s)"
    and "(\<And>source s. valued64 (deeper source s)) \<Longrightarrow> in64 v \<Longrightarrow> list_all token64 ts \<Longrightarrow> parsed64 (comma_loop scope deeper v ts s)"
    and "(\<And>source s. valued64 (deeper source s)) \<Longrightarrow> list_all token64 ts \<Longrightarrow> parsed64 (parseAssignment scope deeper ts s)"
    and "(\<And>source s. valued64 (deeper source s)) \<Longrightarrow> list_all token64 ts \<Longrightarrow> parsed64 (parseConditional scope deeper ts s)"
    and "(\<And>source s. valued64 (deeper source s)) \<Longrightarrow> list_all token64 ts \<Longrightarrow> parsed64 (parseBinary scope deeper level ts s)"
    and "(\<And>source s. valued64 (deeper source s)) \<Longrightarrow> in64 left \<Longrightarrow> list_all token64 ts \<Longrightarrow> parsed64 (binary_loop scope deeper level left ts s)"
    and "(\<And>source s. valued64 (deeper source s)) \<Longrightarrow> list_all token64 ts \<Longrightarrow> parsed64 (parseUnary scope deeper ts s)"
    and "(\<And>source s. valued64 (deeper source s)) \<Longrightarrow> list_all token64 ts \<Longrightarrow> parsed64 (parsePostfix scope deeper ts s)"
    and "(\<And>source s. valued64 (deeper source s)) \<Longrightarrow> list_all token64 ts \<Longrightarrow> parsed64 (parsePrimary scope deeper ts s)"
proof (induction scope deeper ts s and scope deeper v ts s and scope deeper ts s and scope deeper ts s and
    scope deeper level ts s and scope deeper level left ts s and scope deeper ts s and scope deeper ts s and scope deeper ts s
    rule: parseComma_comma_loop_parseAssignment_parseConditional_parseBinary_binary_loop_parseUnary_parsePostfix_parsePrimary.induct)
  case (1 scope deeper ts s)
  then show ?case
    unfolding parseComma.simps [of _ _ ts] by (intro parsed64_bind) simp_all
next
  case (2 scope deeper v ts s)
  then show ?case
    unfolding comma_loop.simps [of _ _ v ts] by (cases "atOperator '','' ts") (auto intro!: parsed64_bind)
next
  case (3 scope deeper ts s)
  show ?case
  proof (cases "name_then isAssignmentOperator ts")
    case None
    then show ?thesis using 3 by (simp add: parseAssignment.simps)
  next
    case (Some p)
    obtain n v where p: "p = (n, v)" by (cases p)
    have ih: "parsed64 (parseAssignment scope deeper (advance (advance ts)) s)"
      using 3(2) [OF Some p [symmetric] 3(3)] 3(4) by simp
    show ?thesis
      unfolding parseAssignment.simps [of _ _ ts] Some p option.case prod.case
      by (intro parsed64_bind ih parsed64_then_do) simp
  qed
next
  case (4 scope deeper ts s)
  show ?case
    unfolding parseConditional.simps [of _ _ ts]
  proof (intro parsed64_bind [OF 4(1)] 4(4,5), goal_cases)
    case (1 s1 r)
    show ?case
    proof (cases "atOperator ''?'' (snd r)")
      case True
      note t = 1(3)
      have "parsed64 (parseAssignment scope deeper (advance (snd r)) s1)"
        using 4(2) [OF t, unfolded not_not, OF True 4(4)] 1(2) by simp
      then show ?thesis
        using True 4(3) [OF t, unfolded not_not, OF True] 4(4)
        by (auto intro!: parsed64_bind)
    qed (use 1 in simp)
  qed
next
  case (5 scope deeper level ts s)
  then show ?case
    unfolding parseBinary.simps [of _ _ level] by (auto intro!: parsed64_bind)
next
  case (6 scope deeper level left ts s)
  show ?case
  proof (cases "level_operator level ts")
    case (Some v)
    have ih: "parsed64 (parseBinary scope deeper (Suc level) (advance ts) s)"
      using 6(1) [OF Some 6(3)] 6(5) by simp
    show ?thesis
      unfolding binary_loop.simps [of _ _ level left ts] Some option.case
    proof (intro parsed64_bind [OF ih] valued64_bind, goal_cases)
      case (2 s1 r s2 w)
      then show ?case using 6(2) [OF Some 2(3,5) 6(3)] by simp
    qed simp
  qed (use 6(4,5) in \<open>simp add: binary_loop.simps [of _ _ level left ts]\<close>)
next
  case (7 scope deeper ts s)
  let ?sub = "parseUnary scope deeper (advance ts) s"
  consider (sub) "peek ts \<in> {Operator ''-'', Operator ''+'', Operator ''!'', Operator ''~''}"
    | (other) "peek ts \<noteq> Operator ''-''" "peek ts \<noteq> Operator ''+''" "peek ts \<noteq> Operator ''!''" "peek ts \<noteq> Operator ''~''"
    by blast
  then show ?case
  proof cases
    case sub
    then have ih: "parsed64 ?sub"
      using 7(1-4) 7(9,10) by auto
    from sub show ?thesis
      unfolding parseUnary.simps [of _ _ ts]
      by (elim insertE emptyE) (auto intro!: parsed64_bind [OF ih] simp: ih)
  next
    case other
    then show ?thesis
      using 7(5-8) [OF other] 7(9,10) readVariable_in64 [OF 7(9)]
      by (cases "peek ts") (auto simp: parseUnary.simps [of _ _ ts] Let_def split: arith_token.splits
          intro!: valued64_bind [OF readVariable_in64] parsed64_then_do)
  qed
next
  case (8 scope deeper ts s)
  show ?case
  proof (cases "name_then is_step_operator ts")
    case None
    then show ?thesis using 8 by (simp add: parsePostfix.simps [of _ _ ts])
  next
    case (Some p)
    obtain n v where p: "p = (n, v)" by (cases p)
    show ?thesis
      unfolding parsePostfix.simps [of _ _ ts] Some p option.case prod.case
      by (rule valued64_bind [OF readVariable_in64 [OF 8(2)]], rule parsed64_then_do) (simp add: 8(3))
  qed
next
  case (9 scope deeper ts s)
  then show ?case
    using token64_peek [OF 9(3)] unfolding parsePrimary.simps [of _ _ ts]
    by (auto split: arith_token.splits intro!: valued64_bind [OF readVariable_in64] parsed64_bind)
qed

lemma evaluate_at_in64: "valued64 (evaluate_at scope levels source s)"
proof (induction levels arbitrary: source s)
  case (Suc levels)
  show ?case
  proof (cases "tokenizeArithmetic source")
    case (Inr ts)
    have "parsed64 (parseComma scope (evaluate_at scope levels) ts s)"
      by (rule parsed_in64(1) [OF Suc tokenize_in64 [OF Inr]])
    with Inr show ?thesis
      by (cases "parseComma scope (evaluate_at scope levels) ts s"; cases "snd (parseComma scope (evaluate_at scope levels) ts s)") auto
  qed simp
qed simp

section \<open>What an expression means\<close>

text \<open>
  The reference: an expression tree, its meaning by structural recursion, and its text in tokens
  with no more parentheses than the precedences require.
\<close>

datatype arith_expr =
    Lit int
  | Var string
  | Unary string arith_expr
  | PreStep string string
  | PostStep string string
  | Bin string arith_expr arith_expr
  | Cond arith_expr arith_expr arith_expr
  | Assign string string arith_expr
  | Comma arith_expr arith_expr

definition unary_value :: "string \<Rightarrow> int \<Rightarrow> int" where
  "unary_value v a = (if v = ''-'' then wrap (- a) else if v = ''!'' then of_bool_int (a = 0)
     else if v = ''~'' then wrap (NOT a) else a)"

fun meaning :: "'s arithmetic_scope \<Rightarrow> 's deeper_evaluator \<Rightarrow> arith_expr \<Rightarrow> 's \<Rightarrow> ('s, int) outcome" where
  "meaning scope deeper (Lit v) s = (s, Inr v)"
| "meaning scope deeper (Var n) s = readVariable scope deeper n s"
| "meaning scope deeper (Unary v e) s = then_do (meaning scope deeper e s) (\<lambda>s a. (s, Inr (unary_value v a)))"
| "meaning scope deeper (PreStep v n) s =
    then_do (readVariable scope deeper n s) (\<lambda>s a.
      then_do (as_assign scope s n (dec_int (wrap (a + step_of v)))) (\<lambda>s _. (s, Inr (wrap (a + step_of v)))))"
| "meaning scope deeper (PostStep n v) s =
    then_do (readVariable scope deeper n s) (\<lambda>s a.
      then_do (as_assign scope s n (dec_int (wrap (a + step_of v)))) (\<lambda>s _. (s, Inr a)))"
| "meaning scope deeper (Bin v a b) s =
    then_do (meaning scope deeper a s) (\<lambda>s x. then_do (meaning scope deeper b s) (\<lambda>s y. (s, combine v x y)))"
| "meaning scope deeper (Cond c a b) s =
    then_do (meaning scope deeper c s) (\<lambda>s x. then_do (meaning scope deeper a s) (\<lambda>s y.
      then_do (meaning scope deeper b s) (\<lambda>s z. (s, Inr (if x \<noteq> 0 then y else z)))))"
| "meaning scope deeper (Assign n v e) s =
    then_do (meaning scope deeper e s) (\<lambda>s x.
      then_do (if v = ''='' then (s, Inr x)
               else then_do (readVariable scope deeper n s) (\<lambda>s a. (s, applyBinary (butlast v) a x))) (\<lambda>s y.
        then_do (as_assign scope s n (dec_int (wrap y))) (\<lambda>s _. (s, Inr (wrap y)))))"
| "meaning scope deeper (Comma a b) s = then_do (meaning scope deeper a s) (\<lambda>s _. meaning scope deeper b s)"

text \<open>The level of an operator, and of an expression: comma, assignment, conditional, the binary levels, unary, primary.\<close>

definition operator_level :: "string \<Rightarrow> nat option" where
  "operator_level v = find (\<lambda>l. v \<in> set (PRECEDENCE ! l)) [0..<11]"

fun expr_level :: "arith_expr \<Rightarrow> nat" where
  "expr_level (Comma _ _) = 0"
| "expr_level (Assign _ _ _) = 1"
| "expr_level (Cond _ _ _) = 2"
| "expr_level (Bin v _ _) = (case operator_level v of Some l \<Rightarrow> 3 + l | None \<Rightarrow> 3)"
| "expr_level (Unary _ _) = 14"
| "expr_level (PreStep _ _) = 14"
| "expr_level _ = 15"

fun wf_expr :: "arith_expr \<Rightarrow> bool" where
  "wf_expr (Unary v e) = (v \<in> {''-'', ''+'', ''!'', ''~''} \<and> wf_expr e)"
| "wf_expr (PreStep v n) = is_step_operator v"
| "wf_expr (PostStep n v) = is_step_operator v"
| "wf_expr (Bin v a b) = (operator_level v \<noteq> None \<and> wf_expr a \<and> wf_expr b)"
| "wf_expr (Cond c a b) = (wf_expr c \<and> wf_expr a \<and> wf_expr b)"
| "wf_expr (Assign n v e) = (isAssignmentOperator v \<and> wf_expr e)"
| "wf_expr (Comma a b) = (wf_expr a \<and> wf_expr b)"
| "wf_expr _ = True"

definition parens :: "bool \<Rightarrow> arith_token list \<Rightarrow> arith_token list" where
  "parens b ts = (if b then Operator ''('' # ts @ [Operator '')''] else ts)"

fun tokens_of :: "nat \<Rightarrow> arith_expr \<Rightarrow> arith_token list" where
  "tokens_of k (Lit v) = [Number v]"
| "tokens_of k (Var n) = [Name n]"
| "tokens_of k (PostStep n v) = [Name n, Operator v]"
| "tokens_of k (PreStep v n) = parens (14 < k) [Operator v, Name n]"
| "tokens_of k (Unary v e) = parens (14 < k) (Operator v # tokens_of 14 e)"
| "tokens_of k (Bin v a b) =
    (let l = (case operator_level v of Some l \<Rightarrow> 3 + l | None \<Rightarrow> 3)
     in parens (l < k) (tokens_of l a @ Operator v # tokens_of (Suc l) b))"
| "tokens_of k (Cond c a b) =
    parens (2 < k) (tokens_of 3 c @ Operator ''?'' # tokens_of 1 a @ Operator '':'' # tokens_of 2 b)"
| "tokens_of k (Assign n v e) = parens (1 < k) (Name n # Operator v # tokens_of 1 e)"
| "tokens_of k (Comma a b) = parens (0 < k) (tokens_of 0 a @ Operator '','' # tokens_of 1 b)"

text \<open>
  The levels 0 to 14 with their parse functions, what may follow an operand of a level, and how
  the level goes on after it.
\<close>

definition parse_at :: "nat \<Rightarrow> 's arithmetic_scope \<Rightarrow> 's deeper_evaluator \<Rightarrow> arith_token list \<Rightarrow> 's \<Rightarrow> 's parsed" where
  "parse_at k scope deeper =
    (if k = 0 then parseComma scope deeper
     else if k = 1 then parseAssignment scope deeper
     else if k = 2 then parseConditional scope deeper
     else parseBinary scope deeper (k - 3))"

definition follows :: "nat \<Rightarrow> arith_token list \<Rightarrow> bool" where
  "follows k ts \<longleftrightarrow> (\<forall>v. peek ts = Operator v \<longrightarrow>
     \<not> is_step_operator v \<and> \<not> isAssignmentOperator v \<and> (v = ''?'' \<longrightarrow> 2 < k) \<and>
     (\<forall>l. operator_level v = Some l \<longrightarrow> 3 + l < k))"

definition follow_level :: "nat \<Rightarrow> nat" where
  "follow_level k = (if 3 \<le> k \<and> k < 14 then Suc k else k)"

definition go_on :: "nat \<Rightarrow> 's arithmetic_scope \<Rightarrow> 's deeper_evaluator \<Rightarrow> int \<Rightarrow> arith_token list \<Rightarrow> 's \<Rightarrow> 's parsed" where
  "go_on k scope deeper v ts s =
    (if k = 0 then comma_loop scope deeper v ts s
     else if 3 \<le> k \<and> k < 14 then binary_loop scope deeper (k - 3) v ts s
     else (s, Inr (v, ts)))"

definition operand :: "'s arithmetic_scope \<Rightarrow> 's deeper_evaluator \<Rightarrow> nat \<Rightarrow> arith_token list \<Rightarrow> ('s \<Rightarrow> ('s, int) outcome) \<Rightarrow> bool" where
  "operand scope deeper k ts m \<longleftrightarrow>
    (\<forall>rest s. follows (follow_level k) rest \<longrightarrow>
      parse_at k scope deeper (ts @ rest) s = then_do (m s) (\<lambda>s v. go_on k scope deeper v rest s))"

definition no_assignment :: "arith_token list \<Rightarrow> bool" where
  "no_assignment ts \<longleftrightarrow> (\<forall>rest. (\<forall>v. peek rest = Operator v \<longrightarrow> \<not> isAssignmentOperator v) \<longrightarrow>
     name_then isAssignmentOperator (ts @ rest) = None)"

lemma operator_level_Some: "operator_level v = Some l \<longleftrightarrow> l < 11 \<and> v \<in> set (PRECEDENCE ! l)"
proof -
  have distinct: "l = l'" if "l < 11" "l' < 11" "v \<in> set (PRECEDENCE ! l)" "v \<in> set (PRECEDENCE ! l')" for l l'
  proof -
    have "\<forall>i < 11. \<forall>j < 11. i \<noteq> j \<longrightarrow> set (PRECEDENCE ! i) \<inter> set (PRECEDENCE ! j) = {}"
      by code_simp
    with that show ?thesis by blast
  qed
  show ?thesis
  proof
    assume "l < 11 \<and> v \<in> set (PRECEDENCE ! l)"
    then obtain l' where l': "operator_level v = Some l'"
      by (cases "operator_level v") (auto simp: operator_level_def find_None_iff)
    then have "l' < 11 \<and> v \<in> set (PRECEDENCE ! l')"
      by (auto simp: operator_level_def find_Some_iff)
    with distinct [of l l'] l' \<open>l < 11 \<and> _\<close> show "operator_level v = Some l" by simp
  qed (auto simp: operator_level_def find_Some_iff)
qed

lemma operator_level_plain:
  assumes "operator_level v = Some l"
  shows "\<not> is_step_operator v" "\<not> isAssignmentOperator v" "v \<noteq> '',''" "v \<noteq> ''?''"
proof -
  have "\<forall>l < 11. \<forall>v \<in> set (PRECEDENCE ! l). \<not> is_step_operator v \<and> \<not> isAssignmentOperator v \<and> v \<noteq> '','' \<and> v \<noteq> ''?''"
    by code_simp
  with assms show "\<not> is_step_operator v" "\<not> isAssignmentOperator v" "v \<noteq> '',''" "v \<noteq> ''?''"
    by (auto simp: operator_level_Some)
qed


lemma follows_mono: "follows k rest \<Longrightarrow> k \<le> k' \<Longrightarrow> follows k' rest"
  by (fastforce simp: follows_def)

lemma PRECEDENCE_length: "length PRECEDENCE = 11"
  by (simp add: PRECEDENCE_def)

lemma level_operator_follows: "follows k rest \<Longrightarrow> k \<le> 3 + l \<Longrightarrow> l < 11 \<Longrightarrow> level_operator l rest = None"
  by (fastforce simp: follows_def level_operator_def operator_level_Some split: arith_token.splits)

lemma binary_loop_stops:
  "follows k rest \<Longrightarrow> k \<le> 3 + l \<Longrightarrow> l < 11 \<Longrightarrow> binary_loop scope deeper l v rest s = (s, Inr (v, rest))"
  by (simp add: binary_loop.simps [of _ _ l] level_operator_follows)

lemma not_at_question: "follows k rest \<Longrightarrow> k \<le> 2 \<Longrightarrow> \<not> atOperator ''?'' rest"
  by (auto simp: follows_def atOperator_def)

lemma operandI:
  "(\<And>rest s. follows (follow_level k) rest \<Longrightarrow>
      parse_at k scope deeper (ts @ rest) s = then_do (m s) (\<lambda>s v. go_on k scope deeper v rest s)) \<Longrightarrow>
    operand scope deeper k ts m"
  by (simp add: operand_def)

lemma operandD:
  "operand scope deeper k ts m \<Longrightarrow> follows (follow_level k) rest \<Longrightarrow>
    parse_at k scope deeper (ts @ rest) s = then_do (m s) (\<lambda>s v. go_on k scope deeper v rest s)"
  by (simp add: operand_def)

lemma operand_returns:
  assumes "operand scope deeper (Suc k) ts m" "3 \<le> k" "k < 14" "follows (Suc k) rest"
  shows "parseBinary scope deeper (Suc k - 3) (ts @ rest) s = then_do (m s) (\<lambda>s v. (s, Inr (v, rest)))"
proof (cases "k = 13")
  case True
  then show ?thesis
    using operandD [OF assms(1), of rest s] assms(4) by (simp add: follow_level_def parse_at_def go_on_def)
next
  case False
  then have "follows (follow_level (Suc k)) rest"
    using assms by (auto simp: follow_level_def elim: follows_mono)
  from operandD [OF assms(1) this, of s] False assms show ?thesis
    using binary_loop_stops [OF assms(4), of "Suc k - 3" scope deeper] by (simp add: parse_at_def go_on_def)
qed

lemma operand_down_binary:
  assumes "operand scope deeper (Suc k) ts m" "3 \<le> k" "k < 14"
  shows "operand scope deeper k ts m"
proof (rule operandI)
  fix rest s
  assume "follows (follow_level k) rest"
  then have "follows (Suc k) rest" using assms by (simp add: follow_level_def)
  note r = operand_returns [OF assms this, of s]
  have eqs: "Suc (k - 3) = Suc k - 3" "\<not> 11 \<le> k - 3"
    using assms by auto
  show "parse_at k scope deeper (ts @ rest) s = then_do (m s) (\<lambda>s v. go_on k scope deeper v rest s)"
    using assms(2,3) r
    by (simp add: parse_at_def go_on_def parseBinary.simps [of _ _ "k - 3"] PRECEDENCE_length eqs then_do_assoc)
qed

lemma operand_down_2: "operand scope deeper 3 ts m \<Longrightarrow> operand scope deeper 2 ts m"
proof (rule operandI)
  fix rest s
  assume o: "operand scope deeper 3 ts m" and "follows (follow_level 2) rest"
  then have f: "follows 2 rest" by (simp add: follow_level_def)
  then have "follows (follow_level 3) rest" by (simp add: follow_level_def follows_mono)
  from operandD [OF o this, of s]
  show "parse_at 2 scope deeper (ts @ rest) s = then_do (m s) (\<lambda>s v. go_on 2 scope deeper v rest s)"
    using binary_loop_stops [OF f, of 0 scope deeper] not_at_question [OF f]
    by (simp add: parse_at_def go_on_def parseConditional.simps [of _ _ "ts @ rest"] then_do_assoc)
qed

lemma operand_down_1: "operand scope deeper 2 ts m \<Longrightarrow> no_assignment ts \<Longrightarrow> operand scope deeper 1 ts m"
proof (rule operandI)
  fix rest s
  assume o: "operand scope deeper 2 ts m" and n: "no_assignment ts" and "follows (follow_level 1) rest"
  then have f: "follows 1 rest" by (simp add: follow_level_def)
  then have "follows (follow_level 2) rest" by (simp add: follow_level_def follows_mono [of 1])
  moreover have "name_then isAssignmentOperator (ts @ rest) = None"
    using n f by (simp add: no_assignment_def follows_def)
  ultimately show "parse_at 1 scope deeper (ts @ rest) s = then_do (m s) (\<lambda>s v. go_on 1 scope deeper v rest s)"
    using operandD [OF o, of rest s]
    by (simp add: parse_at_def go_on_def parseAssignment.simps [of _ _ "ts @ rest"])
qed

lemma operand_down_0: "operand scope deeper 1 ts m \<Longrightarrow> operand scope deeper 0 ts m"
proof (rule operandI)
  fix rest s
  assume o: "operand scope deeper 1 ts m" and f: "follows (follow_level 0) rest"
  then have "follows (follow_level 1) rest" by (simp add: follow_level_def follows_mono [of 0])
  from operandD [OF o this, of s]
  show "parse_at 0 scope deeper (ts @ rest) s = then_do (m s) (\<lambda>s v. go_on 0 scope deeper v rest s)"
    by (simp add: parse_at_def go_on_def parseComma.simps [of _ _ "ts @ rest"] then_do_assoc)
qed

lemma operand_down:
  "operand scope deeper n ts m \<Longrightarrow> k \<le> n \<Longrightarrow> n \<le> 14 \<Longrightarrow> (2 \<le> n \<Longrightarrow> no_assignment ts) \<Longrightarrow> operand scope deeper k ts m"
proof (induction n)
  case (Suc n)
  show ?case
  proof (cases "k = Suc n")
    case False
    have "operand scope deeper n ts m"
    proof -
      consider "n = 0" | "n = 1" | "n = 2" | "3 \<le> n" by linarith
      then show ?thesis
        using Suc.prems operand_down_0 [of scope deeper ts m] operand_down_1 [of scope deeper ts m]
          operand_down_2 [of scope deeper ts m] operand_down_binary [of scope deeper n ts m]
        by cases (auto simp: numeral_2_eq_2 numeral_3_eq_3)
    qed
    with Suc False show ?thesis by simp
  qed (use Suc in simp)
qed simp


subsection \<open>Each form at its own level\<close>

lemma operator_level_None:
  "operator_level '')'' = None" "operator_level '':'' = None" "operator_level ''?'' = None" "operator_level '','' = None"
  by code_simp+

lemma follows_delimiters:
  "follows k (Operator '')'' # ts)" "follows k (Operator '':'' # ts)" "follows k (Operator '','' # ts)"
  "3 \<le> k \<Longrightarrow> follows k (Operator ''?'' # ts)"
  by (simp_all add: follows_def peek_def is_step_operator_def isAssignmentOperator_def operator_level_None)

lemma parse_at_14: "parse_at 14 scope deeper ts s = parseUnary scope deeper ts s"
  by (simp add: parse_at_def parseBinary.simps [of _ _ 11] PRECEDENCE_length)

lemma operand_14I:
  "(\<And>rest s. follows 14 rest \<Longrightarrow>
      parseUnary scope deeper (ts @ rest) s = then_do (m s) (\<lambda>s v. (s, Inr (v, rest)))) \<Longrightarrow>
    operand scope deeper 14 ts m"
  by (rule operandI) (simp add: parse_at_14 follow_level_def go_on_def)

lemma operand_14D:
  "operand scope deeper 14 ts m \<Longrightarrow> follows 14 rest \<Longrightarrow>
    parseUnary scope deeper (ts @ rest) s = then_do (m s) (\<lambda>s v. (s, Inr (v, rest)))"
  using operandD [of scope deeper 14 ts m rest s] by (simp add: parse_at_14 follow_level_def go_on_def)

lemma name_then_follows: "follows k rest \<Longrightarrow> name_then is_step_operator (Name n # rest) = None"
  by (auto simp: follows_def name_then_def peek_def split: list.splits arith_token.splits)

lemma unary_primary:
  "peek ts \<in> {Number v, Name n, Operator ''(''} \<Longrightarrow> name_then is_step_operator ts = None \<Longrightarrow>
    parseUnary scope deeper ts s = parsePrimary scope deeper ts s"
  by (elim insertE emptyE)
    (simp_all add: parseUnary.simps [of _ _ ts] parsePostfix.simps [of _ _ ts] is_step_operator_def)

lemma operand_Lit: "operand scope deeper 14 [Number v] (\<lambda>s. (s, Inr v))"
  by (rule operand_14I)
    (simp add: unary_primary [of _ v] peek_def name_then_def parsePrimary.simps [of _ _ "_ # _"] advance_def)

lemma operand_Var: "operand scope deeper 14 [Name n] (readVariable scope deeper n)"
  by (rule operand_14I)
    (simp add: unary_primary [of _ _ n] peek_def name_then_follows parsePrimary.simps [of _ _ "_ # _"] advance_def)

lemma operand_PostStep:
  "is_step_operator v \<Longrightarrow> operand scope deeper 14 [Name n, Operator v] (meaning scope deeper (PostStep n v))"
  by (rule operand_14I)
    (simp add: parseUnary.simps [of _ _ "_ # _"] parsePostfix.simps [of _ _ "_ # _"] peek_def name_then_def advance_def then_do_assoc)

lemma operand_PreStep:
  "is_step_operator v \<Longrightarrow> operand scope deeper 14 [Operator v, Name n] (meaning scope deeper (PreStep v n))"
proof (rule operand_14I)
  fix rest s
  assume "is_step_operator v"
  then have "v = ''++'' \<or> v = ''--''" by (simp add: is_step_operator_def)
  then show "parseUnary scope deeper ([Operator v, Name n] @ rest) s =
      then_do (meaning scope deeper (PreStep v n) s) (\<lambda>s v. (s, Inr (v, rest)))"
    by (elim disjE) (simp_all add: parseUnary.simps [of _ _ "_ # _"] peek_def advance_def is_step_operator_def then_do_assoc Let_def)
qed

lemma operand_Unary:
  assumes "operand scope deeper 14 ts (meaning scope deeper e)" "v \<in> {''-'', ''+'', ''!'', ''~''}"
  shows "operand scope deeper 14 (Operator v # ts) (meaning scope deeper (Unary v e))"
proof (rule operand_14I)
  fix rest s
  assume "follows 14 rest"
  from operand_14D [OF assms(1) this, of s] assms(2)
  show "parseUnary scope deeper ((Operator v # ts) @ rest) s =
      then_do (meaning scope deeper (Unary v e) s) (\<lambda>s v. (s, Inr (v, rest)))"
    by (elim insertE emptyE)
      (simp_all add: parseUnary.simps [of _ _ "_ # _"] peek_def advance_def unary_value_def then_do_assoc)
qed

lemma operand_parens:
  assumes "operand scope deeper 0 ts m"
  shows "operand scope deeper 14 (parens True ts) m"
proof (rule operand_14I)
  fix rest s
  let ?close = "Operator '')'' # rest"
  have f: "follows (follow_level 0) ?close"
    by (rule follows_delimiters)
  have "parseComma scope deeper (ts @ ?close) s = then_do (m s) (\<lambda>s v. (s, Inr (v, ?close)))"
    using operandD [OF assms f, of s]
    by (simp add: parse_at_def go_on_def comma_loop.simps [of _ _ _ "_ # _"] atOperator_def peek_def)
  then show "parseUnary scope deeper (parens True ts @ rest) s = then_do (m s) (\<lambda>s v. (s, Inr (v, rest)))"
    by (simp add: parens_def unary_primary peek_def name_then_def parsePrimary.simps [of _ _ "_ # _"] advance_def
        then_do_assoc atOperator_def)
qed

lemma operand_Bin:
  assumes a: "operand scope deeper k as (meaning scope deeper a)"
    and b: "operand scope deeper (Suc k) bs (meaning scope deeper b)"
    and k: "3 \<le> k" "k < 14" and v: "operator_level v = Some (k - 3)"
  shows "operand scope deeper k (as @ Operator v # bs) (meaning scope deeper (Bin v a b))"
proof (rule operandI)
  fix rest s
  assume "follows (follow_level k) rest"
  then have f: "follows (Suc k) rest" using k by (simp add: follow_level_def)
  have "follows (follow_level k) (Operator v # bs @ rest)"
    using k v operator_level_plain [OF v] by (simp add: follows_def peek_def follow_level_def)
  note left = operandD [OF a this, of s]
  have lv: "level_operator (k - 3) (Operator v # bs @ rest) = Some v"
    using v by (simp add: level_operator_def peek_def operator_level_Some)
  have suc: "Suc (k - 3) = k - 2" using k by simp
  have "binary_loop scope deeper (k - 3) x (Operator v # bs @ rest) s' =
      then_do (meaning scope deeper b s') (\<lambda>s y. then_do (s, combine v x y) (\<lambda>s z. binary_loop scope deeper (k - 3) z rest s))" for x s'
    using operand_returns [OF b k f, of s'] suc
    by (simp add: binary_loop.simps [of _ _ "k - 3" x "_ # _"] lv advance_def then_do_assoc)
  with left k show "parse_at k scope deeper ((as @ Operator v # bs) @ rest) s =
      then_do (meaning scope deeper (Bin v a b) s) (\<lambda>s x. go_on k scope deeper x rest s)"
    by (simp add: go_on_def then_do_assoc)
qed

lemma operand_Cond:
  assumes c: "operand scope deeper 3 cs (meaning scope deeper c)"
    and a: "operand scope deeper 1 as (meaning scope deeper a)"
    and b: "operand scope deeper 2 bs (meaning scope deeper b)"
  shows "operand scope deeper 2 (cs @ Operator ''?'' # as @ Operator '':'' # bs) (meaning scope deeper (Cond c a b))"
proof (rule operandI)
  fix rest s
  assume f: "follows (follow_level 2) rest"
  let ?colon = "Operator '':'' # bs @ rest"
  let ?question = "Operator ''?'' # as @ ?colon"
  have q: "follows 4 ?question" "follows 3 ?question" and k: "follows (follow_level 1) ?colon"
    by (simp_all add: follows_delimiters)
  have 1: "parseBinary scope deeper 0 (cs @ ?question) s = then_do (meaning scope deeper c s) (\<lambda>s v. (s, Inr (v, ?question)))"
    using operandD [OF c, of ?question s] q binary_loop_stops [OF q(2), of 0 scope deeper]
    by (simp add: follow_level_def parse_at_def go_on_def)
  have 2: "parseAssignment scope deeper (as @ ?colon) s = then_do (meaning scope deeper a s) (\<lambda>s v. (s, Inr (v, ?colon)))" for s
    using operandD [OF a k, of s] by (simp add: parse_at_def go_on_def)
  have 3: "parseConditional scope deeper (bs @ rest) s = then_do (meaning scope deeper b s) (\<lambda>s v. (s, Inr (v, rest)))" for s
    using operandD [OF b f, of s] by (simp add: parse_at_def go_on_def)
  show "parse_at 2 scope deeper ((cs @ Operator ''?'' # as @ Operator '':'' # bs) @ rest) s =
      then_do (meaning scope deeper (Cond c a b) s) (\<lambda>s v. go_on 2 scope deeper v rest s)"
    by (simp cong: if_cong add: parse_at_def go_on_def parseConditional.simps [of _ _ "cs @ _"] 1 2 3 then_do_assoc atOperator_def peek_def advance_def)
qed

lemma operand_Assign:
  assumes e: "operand scope deeper 1 ts (meaning scope deeper e)" and v: "isAssignmentOperator v"
  shows "operand scope deeper 1 (Name n # Operator v # ts) (meaning scope deeper (Assign n v e))"
proof (rule operandI)
  fix rest s
  assume f: "follows (follow_level 1) rest"
  show "parse_at 1 scope deeper ((Name n # Operator v # ts) @ rest) s =
      then_do (meaning scope deeper (Assign n v e) s) (\<lambda>s v. go_on 1 scope deeper v rest s)"
    using operandD [OF e f, of s] v
    by (simp cong: if_cong add: parse_at_def go_on_def parseAssignment.simps [of _ _ "_ # _"] name_then_def advance_def then_do_assoc)
qed

lemma operand_Comma:
  assumes a: "operand scope deeper 0 as (meaning scope deeper a)"
    and b: "operand scope deeper 1 bs (meaning scope deeper b)"
  shows "operand scope deeper 0 (as @ Operator '','' # bs) (meaning scope deeper (Comma a b))"
proof (rule operandI)
  fix rest s
  assume f: "follows (follow_level 0) rest"
  let ?comma = "Operator '','' # bs @ rest"
  have c: "follows (follow_level 0) ?comma"
    by (rule follows_delimiters)
  have f1: "follows (follow_level 1) rest"
    using f by (simp add: follow_level_def follows_mono [of 0])
  have "comma_loop scope deeper v ?comma s =
      then_do (meaning scope deeper b s) (\<lambda>s v. comma_loop scope deeper v rest s)" for v s
    using operandD [OF b f1, of s]
    by (simp add: comma_loop.simps [of _ _ v "_ # _"] atOperator_def peek_def advance_def parse_at_def go_on_def then_do_assoc)
  then show "parse_at 0 scope deeper ((as @ Operator '','' # bs) @ rest) s =
      then_do (meaning scope deeper (Comma a b) s) (\<lambda>s v. go_on 0 scope deeper v rest s)"
    using operandD [OF a c, of s] by (simp add: go_on_def then_do_assoc)
qed


subsection \<open>The evaluator computes the meaning\<close>

lemma no_assignment_Cons: "(\<And>n. t \<noteq> Name n) \<Longrightarrow> no_assignment (t # ts)"
  by (cases t) (auto simp: no_assignment_def name_then_def)

lemma no_assignment_append:
  "no_assignment as \<Longrightarrow> \<not> isAssignmentOperator v \<Longrightarrow> no_assignment (as @ Operator v # bs)"
  by (simp add: no_assignment_def peek_def)

lemma no_assignment_tokens: "wf_expr e \<Longrightarrow> 2 \<le> k \<Longrightarrow> no_assignment (tokens_of k e)"
proof (induction e arbitrary: k)
  case (Var n)
  then show ?case by (auto simp: no_assignment_def name_then_def peek_def split: list.splits arith_token.splits)
next
  case (PostStep n v)
  then show ?case
    by (auto simp: no_assignment_def name_then_def is_step_operator_def isAssignmentOperator_def)
next
  case (Bin v a b)
  then obtain l where l: "operator_level v = Some l" by auto
  have "no_assignment (tokens_of (3 + l) a @ Operator v # tokens_of (Suc (3 + l)) b)"
    using Bin l operator_level_plain [OF l] by (intro no_assignment_append) auto
  with l show ?case by (simp add: Let_def parens_def no_assignment_Cons)
next
  case (Cond c a b)
  have "no_assignment (tokens_of 3 c @ Operator ''?'' # tokens_of 1 a @ Operator '':'' # tokens_of 2 b)"
    using Cond by (intro no_assignment_append) (auto simp: isAssignmentOperator_def)
  then show ?case by (simp add: parens_def no_assignment_Cons)
qed (auto simp: parens_def intro!: no_assignment_Cons)

lemma operand_any_level:
  assumes "operand scope deeper L body m" "L \<le> 14" "k \<le> 14" "2 \<le> L \<Longrightarrow> no_assignment body"
  shows "operand scope deeper k (parens (L < k) body) m"
proof (cases "L < k")
  case True
  have "operand scope deeper 0 body m"
    using operand_down [OF assms(1), of 0] assms(2,4) by simp
  from operand_down [OF operand_parens [OF this] assms(3)] True show ?thesis
    by (simp add: parens_def no_assignment_Cons)
next
  case False
  with assms show ?thesis
    using operand_down [OF assms(1), of k] by (simp add: parens_def)
qed

lemma tokens_evaluate:
  "wf_expr e \<Longrightarrow> k \<le> 14 \<Longrightarrow> operand scope deeper k (tokens_of k e) (meaning scope deeper e)"
proof (induction e arbitrary: k)
  case (Lit v)
  then show ?case
    using operand_any_level [OF operand_Lit, of k] by (simp add: parens_def no_assignment_Cons)
next
  case (Var n)
  then show ?case
    using operand_any_level [OF operand_Var, of k] no_assignment_tokens [of "Var n" 2] by (simp add: parens_def)
next
  case (Unary v e)
  then show ?case
    using operand_any_level [OF operand_Unary [OF Unary.IH [of 14]], of v k] by (simp del: meaning.simps add: no_assignment_Cons)
next
  case (PreStep v n)
  then show ?case
    using operand_any_level [OF operand_PreStep, of v k] by (simp del: meaning.simps add: no_assignment_Cons)
next
  case (PostStep n v)
  then show ?case
    using operand_any_level [OF operand_PostStep, of v k] no_assignment_tokens [of "PostStep n v" 2] by (simp del: meaning.simps add: Let_def parens_def)
next
  case (Bin v a b)
  then obtain l where l: "operator_level v = Some l" by auto
  then have "l < 11" by (simp add: operator_level_Some)
  have "operand scope deeper (3 + l) (tokens_of (3 + l) a @ Operator v # tokens_of (Suc (3 + l)) b) (meaning scope deeper (Bin v a b))"
    using Bin l \<open>l < 11\<close> by (intro operand_Bin) auto
  from operand_any_level [OF this, of k] show ?case
    using Bin.prems l \<open>l < 11\<close> no_assignment_tokens [of "Bin v a b" 2]
    by (cases "3 + l < k") (simp_all del: meaning.simps add: Let_def parens_def)
next
  case (Cond c a b)
  have "operand scope deeper 2 (tokens_of 3 c @ Operator ''?'' # tokens_of 1 a @ Operator '':'' # tokens_of 2 b)
      (meaning scope deeper (Cond c a b))"
    using Cond by (intro operand_Cond) auto
  from operand_any_level [OF this, of k] show ?case
    using Cond.prems no_assignment_tokens [of "Cond c a b" 2]
    by (cases "2 < k") (simp_all del: meaning.simps add: parens_def)
next
  case (Assign n v e)
  then show ?case
    using operand_any_level [OF operand_Assign [OF Assign.IH [of 1]], of v k n] by (simp del: meaning.simps)
next
  case (Comma a b)
  then show ?case
    using operand_any_level [OF operand_Comma [OF Comma.IH(1) [of 0] Comma.IH(2) [of 1]], of k] by (simp del: meaning.simps)
qed

lemma follows_End: "follows k [End]"
  by (simp add: follows_def peek_def)

lemma parseComma_tokens:
  "wf_expr e \<Longrightarrow> parseComma scope deeper (tokens_of 0 e @ [End]) s =
    then_do (meaning scope deeper e s) (\<lambda>s v. (s, Inr (v, [End])))"
  using operandD [OF tokens_evaluate [of e 0 scope deeper], of "[End]" s]
  by (simp add: parse_at_def go_on_def follows_End comma_loop.simps [of _ _ _ "[End]"] atOperator_def peek_def)

section \<open>Texts of tokens\<close>

fun token_text :: "arith_token \<Rightarrow> string" where
  "token_text (Number v) = dec_int v"
| "token_text (Name n) = n"
| "token_text (Operator v) = v"
| "token_text End = []"

definition spell :: "arith_token list \<Rightarrow> string" where
  "spell ts = concat (map (\<lambda>t. token_text t @ '' '') ts)"

definition is_name :: "string \<Rightarrow> bool" where
  "is_name n \<longleftrightarrow> n \<noteq> [] \<and> is_name_start (hd n) \<and> list_all is_name_char n"

definition spellable :: "arith_token \<Rightarrow> bool" where
  "spellable t \<longleftrightarrow> (case t of Number v \<Rightarrow> 0 \<le> v \<and> in64 v | Name n \<Rightarrow> is_name n | Operator v \<Rightarrow> v \<in> set OPERATORS | End \<Rightarrow> False)"

lemma dec_nat_nonzero_hd: "0 < n \<Longrightarrow> hd (dec_nat n) \<noteq> CHR ''0''"
proof (induction n rule: dec_nat.induct)
  case (1 n)
  show ?case
  proof (cases "n < 10")
    case True
    with 1(2) have "digit_value (digit_char n) \<noteq> 0" by (simp add: digit_char_value)
    then show ?thesis using True by (subst dec_nat_rec) (auto simp: digit_value_def)
  next
    case False
    then show ?thesis using 1(1) by (subst dec_nat_rec) auto
  qed
qed

lemma hex_value_digit: "is_digit c \<Longrightarrow> hex_value c = digit_value c"
  by (simp add: hex_value_def digit_value_def Let_def)

lemma based_dec_nat: "based 10 (dec_nat n) = int n"
proof -
  have "foldl (\<lambda>a c. 10 * a + hex_value c) x ds = foldl (\<lambda>a c. 10 * a + digit_value c) x ds" if "list_all is_digit ds" for x ds
    using that by (induction ds arbitrary: x) (simp_all add: hex_value_digit)
  then show ?thesis by (simp add: based_def dec_nat_value list_all_iff dec_nat_digits)
qed

lemma digit_not: "is_digit c \<Longrightarrow> c \<noteq> CHR ''+'' \<and> c \<noteq> CHR ''-'' \<and> c \<noteq> CHR ''x'' \<and> c \<noteq> CHR ''X'' \<and> \<not> is_ws c"
  by (auto simp: is_digit_def is_ws_def Let_def)

lemma dec_nat_not_octal: "\<not> is_octal_literal (dec_nat n)"
proof (cases "n = 0")
  case True
  then show ?thesis by (simp add: is_octal_literal_def dec_nat.simps)
next
  case False
  then show ?thesis using dec_nat_nonzero_hd [of n] by (auto simp: is_octal_literal_def split: list.splits)
qed

lemma dec_nat_not_hex: "\<not> is_hex_literal (dec_nat n)"
proof -
  have "is_digit x" if "dec_nat n = z # x # ds" for z x ds
    using dec_nat_digits [of x n] that by simp
  then show ?thesis using digit_not by (fastforce simp: is_hex_literal_def split: list.splits)
qed

lemma dec_nat_decimal: "is_decimal_literal (dec_nat n)"
  by (simp add: is_decimal_literal_def list_all_iff dec_nat_digits)

lemma parse_dec_int: "parseIntegerLiteral (dec_int v) = Inr (Some (wrap v))"
proof (cases "v < 0")
  case True
  then show ?thesis
    by (simp add: parseIntegerLiteral_def dec_int_def unsigned_def is_negative_def negate_if_def Let_def
        dec_nat_not_hex dec_nat_not_octal dec_nat_decimal based_dec_nat)
next
  case False
  have "hd (dec_nat (nat v)) \<noteq> CHR ''+'' \<and> hd (dec_nat (nat v)) \<noteq> CHR ''-''"
    using digit_not dec_nat_hd by blast
  with False show ?thesis
    by (simp add: parseIntegerLiteral_def dec_int_def unsigned_def is_negative_def negate_if_def Let_def
        dec_nat_not_hex dec_nat_not_octal dec_nat_decimal based_dec_nat)
qed

lemma trim_dec_int: "trim (dec_int v) = dec_int v"
proof (rule trim_unchanged)
  have d: "\<not> is_ws c" if "c \<in> set (dec_int v)" for c
    using that digit_not dec_nat_digits by (auto simp: dec_int_def is_ws_def split: if_splits)
  show ne: "dec_int v \<noteq> []" by (auto simp: dec_int_def)
  with d show "\<not> is_ws (hd (dec_int v))" "\<not> is_ws (last (dec_int v))" by simp_all
qed

lemma number_match_dec_nat: "number_match (dec_nat n @ CHR '' '' # r) = Some (dec_nat n)"
proof (cases "n = 0")
  case True
  moreover have "dec_nat 0 = ''0''" by code_simp
  ultimately show ?thesis by (simp add: number_match_def is_octal_digit_def)
next
  case False
  obtain d ds where d: "dec_nat n = d # ds" by (cases "dec_nat n") auto
  have "is_digit d" "d \<noteq> CHR ''0''" using d dec_nat_hd [of n] dec_nat_nonzero_hd [of n] False by auto
  moreover have "\<not> is_digit (CHR '' '')" by code_simp
  then have "takeWhile is_digit (dec_nat n @ CHR '' '' # r) = dec_nat n"
    by (simp add: takeWhile_append2 dec_nat_digits)
  ultimately show ?thesis using d by (simp add: number_match_def)
qed

lemma tokenize_number:
  assumes "0 \<le> v" "in64 v"
  shows "tokenizeArithmetic (dec_int v @ CHR '' '' # r) = bind_result (tokenizeArithmetic r) (\<lambda>ts. Inr (Number v # ts))"
proof -
  obtain d ds where d: "dec_int v = d # ds" "dec_int v = dec_nat (nat v)"
    using assms by (cases "dec_nat (nat v)") (auto simp: dec_int_def)
  have "is_digit d" using d dec_nat_hd [of "nat v"] by simp
  then have "tokenizeArithmetic (dec_int v @ CHR '' '' # r) =
      bind_result (tokenizeArithmetic (CHR '' '' # r)) (\<lambda>ts. Inr (Number v # ts))"
    using number_match_dec_nat [of "nat v" r] d digit_not [of d] parse_dec_int [of v] wrap_id [OF assms(2)]
    by simp
  then show ?thesis by (simp add: is_ws_def)
qed


lemma name_not_other:
  assumes "is_name_start c"
  shows "\<not> is_ws c" "\<not> is_digit c"
  using assms by (auto simp: is_name_start_def is_alpha_ascii_def is_upper_ascii_def is_lower_ascii_def is_ws_def is_digit_def Let_def)

lemma tokenize_name:
  assumes "is_name n"
  shows "tokenizeArithmetic (n @ CHR '' '' # r) = bind_result (tokenizeArithmetic r) (\<lambda>ts. Inr (Name n # ts))"
proof -
  obtain c cs where n: "n = c # cs" using assms by (cases n) (auto simp: is_name_def)
  have space: "\<not> is_name_char (CHR '' '')" by code_simp
  have all: "\<forall>x \<in> set n. is_name_char x" using assms by (simp add: is_name_def list_all_iff)
  then have "takeWhile is_name_char (n @ CHR '' '' # r) = n" "dropWhile is_name_char (n @ CHR '' '' # r) = CHR '' '' # r"
    using space by (simp_all add: takeWhile_append2 dropWhile_append2)
  moreover have "is_name_start c" using assms n by (simp add: is_name_def)
  ultimately have "tokenizeArithmetic (n @ CHR '' '' # r) =
      bind_result (tokenizeArithmetic (CHR '' '' # r)) (\<lambda>ts. Inr (Name n # ts))"
    using n name_not_other [of c] by simp
  then show ?thesis by (simp add: is_ws_def)
qed

lemma prefix_before: "prefix w (v @ x # r) \<Longrightarrow> x \<notin> set w \<Longrightarrow> prefix w v"
  by (auto simp: prefix_append prefix_Cons)

lemma tokenize_operator:
  assumes "v \<in> set OPERATORS"
  shows "tokenizeArithmetic (v @ CHR '' '' # r) = bind_result (tokenizeArithmetic r) (\<lambda>ts. Inr (Operator v # ts))"
proof -
  have chars: "list_all (\<lambda>v. v \<noteq> [] \<and> \<not> is_ws (hd v) \<and> \<not> is_digit (hd v) \<and> \<not> is_name_start (hd v) \<and> CHR '' '' \<notin> set v) OPERATORS"
    by code_simp
  have first: "list_all (\<lambda>v. find (\<lambda>c. prefix c v) OPERATORS = Some v) OPERATORS"
    by code_simp
  obtain c cs where v: "v = c # cs" using chars assms by (cases v) (auto simp: list_all_iff)
  have c: "\<not> is_ws c" "\<not> is_digit c" "\<not> is_name_start c"
    using chars assms v by (auto simp: list_all_iff)
  have "prefix w (v @ CHR '' '' # r) \<longleftrightarrow> prefix w v" if "w \<in> set OPERATORS" for w
  proof
    assume "prefix w (v @ CHR '' '' # r)"
    moreover have "CHR '' '' \<notin> set w" using chars that by (auto simp: list_all_iff)
    ultimately show "prefix w v" by (rule prefix_before)
  qed (simp add: prefix_prefix)
  then have "find (\<lambda>w. prefix w (v @ CHR '' '' # r)) OPERATORS = find (\<lambda>w. prefix w v) OPERATORS"
    by (rule find_cong [OF refl])
  also have "... = Some v" using first assms by (simp add: list_all_iff)
  finally have "tokenizeArithmetic (v @ CHR '' '' # r) =
      bind_result (tokenizeArithmetic (CHR '' '' # r)) (\<lambda>ts. Inr (Operator v # ts))"
    using v c by simp
  then show ?thesis by (simp add: is_ws_def)
qed

lemma tokenize_spell: "list_all spellable ts \<Longrightarrow> tokenizeArithmetic (spell ts) = Inr (ts @ [End])"
proof (induction ts)
  case (Cons t ts)
  then show ?case
    by (cases t) (simp_all add: spell_def spellable_def tokenize_number tokenize_name tokenize_operator)
qed (simp add: spell_def)

section \<open>What a scope promises\<close>

text \<open>
  The contract of \<open>ArithmeticScope\<close>: an assignment that returns is what the next read of that name
  finds, and it leaves the other names alone.
\<close>

locale variable_scope =
  fixes scope :: "'s arithmetic_scope" and ok :: "'s \<Rightarrow> bool"
  assumes assign_ok: "ok s \<Longrightarrow> ok (fst (as_assign scope s n t))"
    and read_assigned: "as_assign scope s n t = (s', Inr ()) \<Longrightarrow> as_read scope s' n = Some t"
    and read_other: "ok s \<Longrightarrow> as_assign scope s n t = (s', Inr ()) \<Longrightarrow> m \<noteq> n \<Longrightarrow> as_read scope s' m = as_read scope s m"
begin

lemma read_back:
  assumes "as_assign scope s n (dec_int (wrap v)) = (s', Inr ())"
  shows "readVariable scope deeper n s' = (s', Inr (wrap v))"
proof -
  have "dec_int (wrap v) \<noteq> []" by (simp add: dec_int_def)
  then show ?thesis
    using read_assigned [OF assms] by (simp add: readVariable_def trim_dec_int parse_dec_int wrap_id)
qed

lemma assignment_reads_back:
  assumes "meaning scope deeper (Assign n v e) s = (s', Inr r)"
  shows "meaning scope deeper' (Var n) s' = (s', Inr r)"
proof -
  obtain s1 y where "as_assign scope s1 n (dec_int (wrap y)) = (s', Inr ())" "r = wrap y"
    using assms by (auto simp: result_simps)
  then show ?thesis by (simp add: read_back)
qed

lemma assignment_keeps_others:
  assumes "ok s" "meaning scope deeper (Assign n ''='' (Lit k)) s = (s', Inr r)" "m \<noteq> n"
  shows "ok s' \<and> as_read scope s' m = as_read scope s m"
  using assms by (auto simp: result_simps dest: read_other) (metis assign_ok fst_conv)

end

section \<open>Properties\<close>

lemma sint_word_in64: "in64 a \<Longrightarrow> sint (word_of_int a :: 64 word) = a"
  using wrap_word [of a] wrap_id [of a] by simp

lemma drop_bit_in64: "in64 a \<Longrightarrow> in64 (drop_bit n a)"
proof -
  assume a: "in64 a"
  have "drop_bit n a = sint (signed_drop_bit n (word_of_int a :: 64 word))"
    by (simp add: sint_signed_drop_bit_eq sint_word_in64 [OF a])
  also have "... = wrap (sint (signed_drop_bit n (word_of_int a :: 64 word)))"
    by (simp add: wrap_word)
  finally show ?thesis by (metis wrap_in64)
qed

text \<open>C38: 
  On 64-bit values, the arithmetic and bitwise operators are those of 64-bit machine words read as
  signed numbers: sums, differences and products wrap around, a shift uses the low six bits of
  its count, and the right shift is arithmetic.
\<close>

theorem operators_are_word_operations:
  assumes "in64 a" "in64 b" "wa = (word_of_int a :: 64 word)" "wb = (word_of_int b :: 64 word)"
    and "n = nat (b mod 64)"
  shows "applyBinary ''+'' a b = Inr (sint (wa + wb)) \<and>
    applyBinary ''-'' a b = Inr (sint (wa - wb)) \<and>
    applyBinary ''*'' a b = Inr (sint (wa * wb)) \<and>
    applyBinary ''&'' a b = Inr (sint (wa AND wb)) \<and>
    applyBinary ''|'' a b = Inr (sint (wa OR wb)) \<and>
    applyBinary ''^'' a b = Inr (sint (wa XOR wb)) \<and>
    applyBinary ''<<'' a b = Inr (sint (push_bit n wa)) \<and>
    applyBinary ''>>'' a b = Inr (sint (signed_drop_bit n wa))"
proof -
  have n: "nat (take_bit 6 b) = n" using assms(5) by (simp add: take_bit_eq_mod)
  have shift: "push_bit n (word_of_int a :: 64 word) = word_of_int (push_bit n a)"
    by (simp add: push_bit_eq_mult)
  have "wrap (drop_bit n a) = sint (signed_drop_bit n wa)"
    using assms by (simp add: sint_signed_drop_bit_eq sint_word_in64 wrap_id drop_bit_in64)
  then show ?thesis
    using assms(3,4) by (simp add: applyBinary_def n shift wrap_word of_int_and_eq of_int_or_eq of_int_xor_eq)
qed

theorem operators_are_word_operations_witness:
  "applyBinary ''+'' 9223372036854775807 1 = Inr (- 9223372036854775808) \<and>
   applyBinary ''+'' 9223372036854775807 1 = Inr (sint (word_of_int 9223372036854775807 + word_of_int 1 :: 64 word))"
proof -
  have "in64 9223372036854775807" "in64 1" by (simp_all add: in64_def)
  from operators_are_word_operations [OF this refl refl refl] show ?thesis
    by (simp add: applyBinary_def wrap_def)
qed

text \<open>
  Division and remainder fit together: unless the divisor is zero, which is an error of status 2,
  the quotient times the divisor plus the remainder is the dividend (modulo \<open>2 ^ 64\<close>: the smallest
  number divided by minus one is itself), the remainder is smaller than the divisor, and it has the
  dividend's sign.
\<close>

theorem division_law:
  assumes "in64 a" "in64 b"
  shows "if b = 0
    then applyBinary ''/'' a b = Inl (ShellCommandError ''arithmetic: division by zero'' 2) \<and>
         applyBinary ''%'' a b = Inl (ShellCommandError ''arithmetic: division by zero'' 2)
    else \<exists>q r. applyBinary ''/'' a b = Inr q \<and> applyBinary ''%'' a b = Inr r \<and>
         wrap (q * b + r) = a \<and> \<bar>r\<bar> < \<bar>b\<bar> \<and> (r = 0 \<or> sgn r = sgn a)"
proof (cases "b = 0")
  case True
  then show ?thesis by (simp add: applyBinary_def division_by_zero_def)
next
  case False
  have r: "\<bar>a smod b\<bar> < \<bar>b\<bar>"
    using smod_int_range [OF False, of a] by auto
  have "in64 (a smod b)"
    using r assms(2) by (auto simp: in64_def)
  then have wr: "wrap (a smod b) = a smod b" by (rule wrap_id)
  have "wrap (wrap (a sdiv b) * b + a smod b) = wrap (a sdiv b * b + a smod b)"
    by (simp add: wrap_word)
  also have "... = a"
    by (simp add: sdiv_mult_smod_eq wrap_id assms(1))
  finally have law: "wrap (wrap (a sdiv b) * b + a smod b) = a" .
  have "0 \<le> \<bar>a\<bar> mod \<bar>b\<bar>" using False by simp
  then have "a smod b = 0 \<or> sgn (a smod b) = sgn a"
    unfolding smod_int_alt_def by (cases "\<bar>a\<bar> mod \<bar>b\<bar> = 0") (simp_all add: sgn_mult)
  with False r wr law show ?thesis
    by (auto simp: applyBinary_def)
qed

theorem division_law_witness:
  "applyBinary ''/'' (- 9223372036854775808) (- 1) = Inr (- 9223372036854775808) \<and>
   (\<exists>q r. applyBinary ''/'' (- 9223372036854775808) (- 1) = Inr q \<and> applyBinary ''%'' (- 9223372036854775808) (- 1) = Inr r \<and>
     wrap (q * (- 1) + r) = - 9223372036854775808)"
proof -
  have "in64 (- 9223372036854775808)" "in64 (- 1)" by (simp_all add: in64_def)
  from division_law [OF this]
  have "\<exists>q r. applyBinary ''/'' (- 9223372036854775808) (- 1) = Inr q \<and> applyBinary ''%'' (- 9223372036854775808) (- 1) = Inr r \<and>
     wrap (q * (- 1) + r) = - 9223372036854775808"
    by auto
  moreover have "applyBinary ''/'' (- 9223372036854775808) (- 1) = Inr (- 9223372036854775808)"
    by (simp add: applyBinary_def wrap_def)
  ultimately show ?thesis by blast
qed

text \<open>
  Whatever the text, the variables and the nesting, an evaluation that returns returns a 64-bit
  signed value.
\<close>

theorem evaluation_in_64_bits:
  assumes "evaluateArithmetic source scope s = (s', Inr v)"
  shows "- (2 ^ 63) \<le> v \<and> v < 2 ^ 63"
  using evaluate_at_in64 [of scope "Suc MAX_VARIABLE_DEPTH" source s] assms
  by (simp add: evaluateArithmetic_def valued64_def in64_def del: evaluate_at.simps)

text \<open>A scope without variables, which refuses assignments.\<close>

definition no_variables :: "unit arithmetic_scope" where
  "no_variables = \<lparr>as_read = \<lambda>_ _. None, as_assign = \<lambda>_ _ _. ((), Inl (arith_error ''read only''))\<rparr>"

theorem evaluation_in_64_bits_witness:
  "evaluateArithmetic ''(2+3) * -4 ** 2'' no_variables () = ((), Inr 80) \<and> - (2 ^ 63) \<le> (80::int) \<and> (80::int) < 2 ^ 63"
proof -
  have "evaluateArithmetic ''(2+3) * -4 ** 2'' no_variables () = ((), Inr 80)"
    by code_simp
  from conjI [OF this evaluation_in_64_bits [OF this]] show ?thesis .
qed

lemma peek_End: "peek [End] = End"
  by (simp add: peek_def)

lemma evaluate_spelled:
  assumes "wf_expr e" "list_all spellable (tokens_of 0 e)"
  shows "evaluate_at scope (Suc levels) (spell (tokens_of 0 e)) s = meaning scope (evaluate_at scope levels) e s"
proof -
  have "tokens_of 0 e \<noteq> []"
    by (cases e) (auto simp: parens_def Let_def)
  then have "peek (tokens_of 0 e @ [End]) \<noteq> End"
    using assms(2) by (cases "tokens_of 0 e") (auto simp: peek_def spellable_def)
  then have "evaluate_at scope (Suc levels) (spell (tokens_of 0 e)) s =
      then_do (meaning scope (evaluate_at scope levels) e s) (\<lambda>s v. (s, Inr v))"
    using tokenize_spell [OF assms(2)] parseComma_tokens [OF assms(1), of scope "evaluate_at scope levels" s]
    by (simp add: then_do_assoc peek_End)
  also have "... = meaning scope (evaluate_at scope levels) e s"
    by (cases "meaning scope (evaluate_at scope levels) e s"; cases "snd (meaning scope (evaluate_at scope levels) e s)") auto
  finally show ?thesis .
qed



text \<open>
  The logical operators evaluate both sides, contrary to the comment above them: the guard that
  the comment calls legal fails with a division by zero.
\<close>

theorem logical_and_does_not_guard:
  "evaluateArithmetic ''x != 0 && 10 / x'' no_variables () =
    ((), Inl (ShellCommandError ''arithmetic: division by zero'' 2))"
  by code_simp

text \<open>A variable that holds a negative hexadecimal number is not an operand but an exception of the engine.\<close>

theorem negative_hexadecimal_throws:
  "evaluateArithmetic ''x'' \<lparr>as_read = \<lambda>_ _. Some ''-0x10'', as_assign = \<lambda>_ _ _. ((), Inr ())\<rparr> () =
    ((), Inl (HostError ''SyntaxError''))"
  by code_simp

end
