(* ===== verification/Shell_Variables.thy ===== *)
theory Shell_Variables
  imports Shell_Arithmetic
begin

text \<open>
  The variable table of the shell (\<open>execution/shell/interpreter.ts\<close>): variables with their export
  flag, positional parameters, the frames of \<open>local\<close> and the function call around them. The table
  is the variable scope of the arithmetic evaluator.

  A \<open>Variable\<close> is an object that the table and a frame may share, and exporting a variable changes
  the object in place; so objects live in a heap and the table and the frames hold addresses. An
  assignment makes a new object.

  The body of a function is an argument of the call: any computation on this state that ends with
  a status or with what it threw. Control flow travels as signals (\<open>signals.ts\<close>).
\<close>

record shell_variable =
  sv_value :: string
  sv_exported :: bool

record shell_vars =
  heap :: "shell_variable list"
  variables :: "(string \<times> nat) list"
  parameters :: "string list"
  depth :: nat
  localFrames :: "(string \<times> nat option) list list"

text \<open>What ends a computation early. \<open>Exhausted\<close> is no signal of the code: it is the end of the fuel of a fuelled model.\<close>

datatype signal = LoopBreak nat | LoopContinue nat | ReturnSignal nat | ExitSignal nat | Thrown shell_error | Exhausted

definition variable :: "shell_vars \<Rightarrow> string \<Rightarrow> shell_variable option" where
  "variable s name = map_option ((!) (heap s)) (map_of (variables s) name)"

definition lookup :: "shell_vars \<Rightarrow> string \<Rightarrow> string option" where
  "lookup s name = map_option sv_value (variable s name)"

text \<open>\<open>variables.set\<close> with a new object.\<close>

definition set_variable :: "string \<Rightarrow> shell_variable \<Rightarrow> shell_vars \<Rightarrow> shell_vars" where
  "set_variable name x s = s\<lparr>heap := heap s @ [x], variables := AList.update name (length (heap s)) (variables s)\<rparr>"

definition assign :: "string \<Rightarrow> string \<Rightarrow> bool option \<Rightarrow> shell_vars \<Rightarrow> (shell_vars, unit) outcome" where
  "assign name v exported s =
    (let existing = variable s name in
     if existing = None \<and> AIRSHIP_SH_MAX_VARIABLES \<le> length (variables s)
     then (s, Inl (ShellCommandError (''airship-sh exceeded '' @ dec_nat AIRSHIP_SH_MAX_VARIABLES @ '' shell variables'') 1))
     else (set_variable name
             \<lparr>sv_value = v, sv_exported = (case exported of Some b \<Rightarrow> b | None \<Rightarrow>
               (case existing of Some x \<Rightarrow> sv_exported x | None \<Rightarrow> False))\<rparr> s, Inr ()))"

definition unset :: "string \<Rightarrow> shell_vars \<Rightarrow> shell_vars" where
  "unset name s = s\<lparr>variables := AList.delete name (variables s)\<rparr>"

definition isExported :: "string \<Rightarrow> shell_vars \<Rightarrow> bool" where
  "isExported name s = (case variable s name of Some x \<Rightarrow> sv_exported x | None \<Rightarrow> False)"

definition setExported :: "string \<Rightarrow> bool \<Rightarrow> shell_vars \<Rightarrow> shell_vars" where
  "setExported name exported s =
    (case map_of (variables s) name of
       Some a \<Rightarrow> s\<lparr>heap := (heap s)[a := (heap s ! a)\<lparr>sv_exported := exported\<rparr>]\<rparr>
     | None \<Rightarrow> set_variable name \<lparr>sv_value = [], sv_exported = exported\<rparr> s)"

definition variableNames :: "shell_vars \<Rightarrow> string list" where
  "variableNames s = sort_by code_unit_cmp (map fst (variables s))"

definition environmentEntries :: "shell_vars \<Rightarrow> (string \<times> string) list" where
  "environmentEntries s =
    map (\<lambda>(name, x). (name, sv_value x))
      (sort_by (\<lambda>l r. code_unit_cmp (fst l) (fst r))
        (filter (\<lambda>(_, x). sv_exported x) (map (\<lambda>(name, a). (name, heap s ! a)) (variables s))))"

definition setPositional :: "string list \<Rightarrow> shell_vars \<Rightarrow> (shell_vars, unit) outcome" where
  "setPositional values s =
    (if AIRSHIP_SH_MAX_POSITIONAL < length values
     then (s, Inl (ShellCommandError (''airship-sh exceeded '' @ dec_nat AIRSHIP_SH_MAX_POSITIONAL @ '' positional parameters'') 1))
     else (s\<lparr>parameters := values\<rparr>, Inr ()))"

definition declareLocal :: "string \<Rightarrow> shell_vars \<Rightarrow> (shell_vars, unit) outcome" where
  "declareLocal name s =
    (if localFrames s = [] then (s, Inl (ShellCommandError ''local: can only be used in a function'' 1))
     else let frame = last (localFrames s) in
       if map_of frame name \<noteq> None then (s, Inr ())
       else (s\<lparr>localFrames := butlast (localFrames s) @ [AList.update name (map_of (variables s) name) frame]\<rparr>, Inr ()))"

definition restore_binding :: "string \<times> nat option \<Rightarrow> (string \<times> nat) list \<Rightarrow> (string \<times> nat) list" where
  "restore_binding b vars = (case b of (name, Some x) \<Rightarrow> AList.update name x vars | (name, None) \<Rightarrow> AList.delete name vars)"

text \<open>The frame is popped, its bindings are restored, and the caller's parameters come back.\<close>

definition leave_function :: "string list \<Rightarrow> shell_vars \<Rightarrow> shell_vars" where
  "leave_function savedParameters s =
    s\<lparr>localFrames := butlast (localFrames s),
      variables := fold restore_binding (if localFrames s = [] then [] else last (localFrames s)) (variables s),
      depth := depth s - 1, parameters := savedParameters\<rparr>"

definition callFunction ::
  "(shell_vars \<Rightarrow> shell_vars \<times> (signal + nat)) \<Rightarrow> string list \<Rightarrow> shell_vars \<Rightarrow> shell_vars \<times> (signal + nat)" where
  "callFunction body argv s =
    (if AIRSHIP_SH_MAX_DEPTH \<le> depth s
     then (s, Inl (Thrown (ShellFatalError Budget
       (''airship-sh: exceeded '' @ dec_nat AIRSHIP_SH_MAX_DEPTH @ '' levels of shell nesting.''))))
     else let (s', r) = body (s\<lparr>parameters := tl argv, depth := Suc (depth s), localFrames := localFrames s @ [[]]\<rparr>)
       in (leave_function (parameters s) s', case r of Inl (ReturnSignal status) \<Rightarrow> Inr status | _ \<Rightarrow> r))"

text \<open>The scope the expansion of \<open>$((...))\<close> hands to the evaluator.\<close>

definition shell_scope :: "shell_vars arithmetic_scope" where
  "shell_scope = \<lparr>as_read = lookup, as_assign = (\<lambda>s name v. assign name v None s)\<rparr>"

text \<open>Every address in the table and in a frame is that of an object, and no name occurs twice.\<close>

definition vars_ok :: "shell_vars \<Rightarrow> bool" where
  "vars_ok s \<longleftrightarrow> distinct (map fst (variables s)) \<and> (\<forall>a \<in> snd ` set (variables s). a < length (heap s)) \<and>
    (\<forall>fr \<in> set (localFrames s). distinct (map fst fr) \<and> (\<forall>b \<in> snd ` set fr. \<forall>a. b = Some a \<longrightarrow> a < length (heap s)))"

lemma variable_set_variable:
  "vars_ok s \<Longrightarrow> variable (set_variable n x s) m = (if m = n then Some x else variable s m)"
  by (auto simp: variable_def set_variable_def update_conv' vars_ok_def nth_append dest!: map_of_SomeD
      intro!: option.map_cong0)

lemma variable_set_variable_same: "variable (set_variable n x s) n = Some x"
  by (simp add: variable_def set_variable_def update_conv')

lemma snd_update: "snd ` set (AList.update k v m) \<subseteq> insert v (snd ` set m)"
  by (induction m) auto

lemma vars_ok_set_variable: "vars_ok s \<Longrightarrow> vars_ok (set_variable n x s)"
  using snd_update [of n "length (heap s)" "variables s"]
  by (fastforce simp: vars_ok_def set_variable_def distinct_update)

lemma vars_ok_assign: "vars_ok s \<Longrightarrow> vars_ok (fst (assign n v e s))"
  by (simp add: assign_def Let_def vars_ok_set_variable)

interpretation shell: variable_scope shell_scope vars_ok
  by unfold_locales
    (auto simp: shell_scope_def lookup_def assign_def Let_def vars_ok_set_variable variable_set_variable_same
      variable_set_variable split: if_splits)

section \<open>Bodies of functions\<close>

text \<open>What a function body does to this state, one operation after the other until one throws.\<close>

datatype var_op =
    OpAssign string string
  | OpUnset string
  | OpExport string bool
  | OpLocal string
  | OpPositional "string list"
  | OpSignal signal
  | OpCall "string list" "var_op list"

definition as_command :: "(shell_vars, unit) outcome \<Rightarrow> shell_vars \<times> (signal + nat)" where
  "as_command m = (fst m, case snd m of Inl e \<Rightarrow> Inl (Thrown e) | Inr _ \<Rightarrow> Inr 0)"

fun run_op :: "var_op \<Rightarrow> shell_vars \<Rightarrow> shell_vars \<times> (signal + nat)"
and run_ops :: "var_op list \<Rightarrow> shell_vars \<Rightarrow> shell_vars \<times> (signal + nat)" where
  "run_op (OpAssign n v) s = as_command (assign n v None s)"
| "run_op (OpUnset n) s = (unset n s, Inr 0)"
| "run_op (OpExport n b) s = (setExported n b s, Inr 0)"
| "run_op (OpLocal n) s = as_command (declareLocal n s)"
| "run_op (OpPositional vs) s = as_command (setPositional vs s)"
| "run_op (OpSignal g) s = (s, Inl g)"
| "run_op (OpCall argv body) s = callFunction (run_ops body) argv s"
| "run_ops [] s = (s, Inr 0)"
| "run_ops (op # ops) s = (let (s', r) = run_op op s in case r of Inl g \<Rightarrow> (s', Inl g) | Inr _ \<Rightarrow> run_ops ops s')"

lemma fst_as_command [simp]: "fst (as_command m) = fst m"
  by (simp add: as_command_def)

lemma run_ops_Cons:
  "fst (run_ops (op # ops) s) = fst (run_op op s) \<or> fst (run_ops (op # ops) s) = fst (run_ops ops (fst (run_op op s)))"
  by (cases "run_op op s"; cases "snd (run_op op s)") auto

subsection \<open>What every operation keeps\<close>

text \<open>Objects keep their value, frames below the top keep their content, the top frame only grows.\<close>

definition evolves :: "shell_vars \<Rightarrow> shell_vars \<Rightarrow> bool" where
  "evolves s s' \<longleftrightarrow>
    length (heap s) \<le> length (heap s') \<and>
    (\<forall>a < length (heap s). sv_value (heap s' ! a) = sv_value (heap s ! a)) \<and>
    depth s' = depth s \<and>
    length (localFrames s') = length (localFrames s) \<and> butlast (localFrames s') = butlast (localFrames s) \<and>
    (\<forall>n b. localFrames s \<noteq> [] \<longrightarrow> map_of (last (localFrames s)) n = Some b \<longrightarrow> map_of (last (localFrames s')) n = Some b)"

lemma evolves_refl [simp]: "evolves s s"
  by (simp add: evolves_def)

lemma evolves_trans: "evolves s t \<Longrightarrow> evolves t u \<Longrightarrow> evolves s u"
  unfolding evolves_def by (auto intro: le_trans)

lemma value_update_exported:
  "a < length h \<Longrightarrow> sv_value (h[i := (h ! i)\<lparr>sv_exported := b\<rparr>] ! a) = sv_value (h ! a)"
  by (cases "i = a") simp_all

lemma evolves_simple:
  "evolves s (fst (assign n v e s))" "evolves s (unset n s)" "evolves s (setExported n b s)"
  "evolves s (fst (declareLocal n s))" "evolves s (fst (setPositional vs s))"
proof -
  show "evolves s (fst (assign n v e s))"
    by (simp add: assign_def Let_def set_variable_def evolves_def nth_append)
  show "evolves s (unset n s)"
    by (simp add: unset_def evolves_def)
  show "evolves s (setExported n b s)"
    by (auto simp: setExported_def set_variable_def evolves_def nth_append value_update_exported split: option.splits)
  show "evolves s (fst (declareLocal n s))"
    by (auto simp: declareLocal_def Let_def evolves_def update_conv')
  show "evolves s (fst (setPositional vs s))"
    by (simp add: setPositional_def evolves_def)
qed

lemma evolves_call:
  assumes "\<And>s. evolves s (fst (body s))"
  shows "evolves s (fst (callFunction body argv s))"
proof (cases "AIRSHIP_SH_MAX_DEPTH \<le> depth s")
  case False
  let ?s = "s\<lparr>parameters := tl argv, depth := Suc (depth s), localFrames := localFrames s @ [[]]\<rparr>"
  have "evolves ?s (fst (body ?s))" by (rule assms)
  with False show ?thesis
    by (auto simp: callFunction_def evolves_def leave_function_def Let_def split_def)
qed (simp add: callFunction_def)

lemma evolves_run: "evolves s (fst (run_op op s))" "evolves s (fst (run_ops ops s))"
proof (induction op s and ops s rule: run_op_run_ops.induct)
  case (7 argv body s)
  then show ?case by (simp add: evolves_call)
next
  case (9 op ops s)
  show ?case
  proof (cases "run_op op s")
    case (Pair s' r)
    with 9 show ?thesis by (cases r) (auto intro: evolves_trans)
  qed
qed (simp_all add: evolves_simple)


lemma map_of_restore:
  "distinct (map fst fr) \<Longrightarrow>
    map_of (fold restore_binding fr vars) n = (case map_of fr n of Some b \<Rightarrow> b | None \<Rightarrow> map_of vars n)"
proof (induction fr arbitrary: vars)
  case (Cons e fr)
  obtain m b where e: "e = (m, b)" by (cases e)
  have "map_of (restore_binding (m, b) vars) n = (if n = m then b else map_of vars n)"
    by (cases b) (auto simp: restore_binding_def update_conv' delete_conv')
  moreover have "map_of fr m = None"
    using Cons.prems e by (simp add: map_of_eq_None_iff)
  ultimately show ?case
    using Cons e by (cases "n = m") (simp_all split: option.splits)
qed simp

lemma alist_delete_subset: "set (AList.delete k m) \<subseteq> set m"
  by (auto simp: AList.delete_eq)

lemma restore_ok:
  assumes "distinct (map fst vars)" "\<forall>a \<in> snd ` set vars. P a" "\<forall>b \<in> snd ` set fr. \<forall>a. b = Some a \<longrightarrow> P a"
  shows "distinct (map fst (fold restore_binding fr vars)) \<and> (\<forall>a \<in> snd ` set (fold restore_binding fr vars). P a)"
  using assms
proof (induction fr arbitrary: vars)
  case (Cons e fr)
  have "distinct (map fst (restore_binding e vars)) \<and> (\<forall>a \<in> snd ` set (restore_binding e vars). P a)"
  proof (cases "snd e")
    case None
    then show ?thesis
      using Cons.prems(1,2) alist_delete_subset [of "fst e" vars]
      by (cases e) (auto simp: restore_binding_def AList.distinct_delete)
  next
    case (Some a)
    then show ?thesis
      using Cons.prems snd_update [of "fst e" a vars]
      by (cases e) (fastforce simp: restore_binding_def distinct_update)
  qed
  with Cons.IH [of "restore_binding e vars"] Cons.prems(3) show ?case by simp
qed simp

lemma vars_ok_leave:
  assumes "vars_ok s"
  shows "vars_ok (leave_function ps s)"
proof -
  have "distinct (map fst (fold restore_binding (if localFrames s = [] then [] else last (localFrames s)) (variables s))) \<and>
      (\<forall>a \<in> snd ` set (fold restore_binding (if localFrames s = [] then [] else last (localFrames s)) (variables s)). a < length (heap s))"
  proof (intro restore_ok)
    show "\<forall>b \<in> snd ` set (if localFrames s = [] then [] else last (localFrames s)). \<forall>a. b = Some a \<longrightarrow> a < length (heap s)"
      using assms unfolding vars_ok_def by (simp, metis last_in_set)
  qed (use assms in \<open>simp_all add: vars_ok_def\<close>)
  moreover have "\<forall>fr \<in> set (butlast (localFrames s)). distinct (map fst fr) \<and> (\<forall>b \<in> snd ` set fr. \<forall>a. b = Some a \<longrightarrow> a < length (heap s))"
    using assms unfolding vars_ok_def by (blast dest: in_set_butlastD)
  ultimately show ?thesis
    unfolding vars_ok_def leave_function_def by simp
qed

lemma vars_ok_simple:
  assumes "vars_ok s"
  shows "vars_ok (unset n s)" "vars_ok (setExported n b s)" "vars_ok (fst (declareLocal n s))" "vars_ok (fst (setPositional vs s))"
proof -
  show "vars_ok (unset n s)"
    using assms alist_delete_subset [of n "variables s"] by (auto simp: vars_ok_def unset_def AList.distinct_delete)
  show "vars_ok (setExported n b s)"
    using assms vars_ok_set_variable [OF assms] by (simp add: setExported_def vars_ok_def split: option.splits)
  show "vars_ok (fst (setPositional vs s))"
    using assms by (simp add: vars_ok_def setPositional_def)
  show "vars_ok (fst (declareLocal n s))"
  proof (cases "localFrames s" rule: rev_cases)
    case (snoc fs fr)
    have "a < length (heap s)" if "map_of (variables s) n = Some a" for a
      using assms that by (force simp: vars_ok_def dest: map_of_SomeD)
    then show ?thesis
      using assms snoc snd_update [of n "map_of (variables s) n" fr]
      by (fastforce simp: declareLocal_def Let_def vars_ok_def distinct_update)
  qed (use assms in \<open>simp add: declareLocal_def\<close>)
qed

lemma vars_ok_call:
  assumes "\<And>s. vars_ok s \<Longrightarrow> vars_ok (fst (body s))" "vars_ok s"
  shows "vars_ok (fst (callFunction body argv s))"
proof (cases "AIRSHIP_SH_MAX_DEPTH \<le> depth s")
  case False
  let ?s = "s\<lparr>parameters := tl argv, depth := Suc (depth s), localFrames := localFrames s @ [[]]\<rparr>"
  have "vars_ok ?s" using assms(2) by (auto simp: vars_ok_def)
  with False assms(1) [of ?s] show ?thesis
    by (simp add: callFunction_def Let_def split_def vars_ok_leave)
qed (simp add: callFunction_def assms)

lemma vars_ok_run: "vars_ok s \<Longrightarrow> vars_ok (fst (run_op op s))" "vars_ok s \<Longrightarrow> vars_ok (fst (run_ops ops s))"
proof (induction op s and ops s rule: run_op_run_ops.induct)
  case (7 argv body s)
  then show ?case by (simp add: vars_ok_call)
next
  case (9 op ops s)
  show ?case
  proof (cases "run_op op s")
    case (Pair s' r)
    with 9 show ?thesis by (cases r) auto
  qed
qed (simp_all add: vars_ok_assign vars_ok_simple)


subsection \<open>Locals do not leak\<close>

text \<open>
  A body protects a name when it changes the name only after declaring it local; a call inside it
  may not change the name before that either.
\<close>

fun touches :: "string \<Rightarrow> var_op \<Rightarrow> bool"
and protects :: "string \<Rightarrow> bool \<Rightarrow> var_op list \<Rightarrow> bool" where
  "touches x (OpAssign n v) = (n = x)"
| "touches x (OpUnset n) = (n = x)"
| "touches x (OpExport n b) = (n = x)"
| "touches x (OpCall argv body) = (\<not> protects x False body)"
| "touches x _ = False"
| "protects x declared [] = True"
| "protects x declared (op # ops) = ((declared \<or> \<not> touches x op) \<and> protects x (declared \<or> op = OpLocal x) ops)"

definition value_at :: "shell_vars \<Rightarrow> nat option \<Rightarrow> string option" where
  "value_at s b = map_option (\<lambda>a. sv_value (heap s ! a)) b"

text \<open>The value the caller had is either saved in the top frame or still current.\<close>

definition keeps :: "string \<Rightarrow> string option \<Rightarrow> bool \<Rightarrow> shell_vars \<Rightarrow> bool" where
  "keeps x v declared s \<longleftrightarrow> vars_ok s \<and> localFrames s \<noteq> [] \<and>
    (case map_of (last (localFrames s)) x of
       Some b \<Rightarrow> value_at s b = v
     | None \<Rightarrow> \<not> declared \<and> lookup s x = v)"

lemma lookup_value_at: "lookup s x = value_at s (map_of (variables s) x)"
  by (cases "map_of (variables s) x") (simp_all add: lookup_def variable_def value_at_def)

lemma value_at_evolves:
  assumes "evolves s s'" "\<And>a. b = Some a \<Longrightarrow> a < length (heap s)"
  shows "value_at s' b = value_at s b"
  using assms by (cases b) (auto simp: evolves_def value_at_def)

lemma saved_address_ok:
  "vars_ok s \<Longrightarrow> localFrames s \<noteq> [] \<Longrightarrow> map_of (last (localFrames s)) x = Some (Some a) \<Longrightarrow> a < length (heap s)"
  unfolding vars_ok_def by (metis (no_types, lifting) image_eqI last_in_set map_of_SomeD snd_conv)

lemma keeps_saved:
  assumes "keeps x v d s" "evolves s s'" "vars_ok s'" "map_of (last (localFrames s)) x \<noteq> None"
  shows "keeps x v d' s'"
proof -
  obtain b where b: "map_of (last (localFrames s)) x = Some b" using assms(4) by blast
  have "localFrames s \<noteq> []" "value_at s b = v" using assms(1) b by (simp_all add: keeps_def)
  moreover have "map_of (last (localFrames s')) x = Some b" "localFrames s' \<noteq> []"
    using assms(2) b \<open>localFrames s \<noteq> []\<close> by (auto simp: evolves_def)
  moreover have "value_at s' b = value_at s b"
    using assms(1) b \<open>localFrames s \<noteq> []\<close> by (intro value_at_evolves [OF assms(2)]) (auto simp: keeps_def intro: saved_address_ok)
  ultimately show ?thesis using assms(3) by (simp add: keeps_def)
qed

lemma keeps_current:
  assumes "keeps x v d s" "map_of (last (localFrames s)) x = None" "evolves s s'" "vars_ok s'"
    "lookup s' x = lookup s x" "map_of (last (localFrames s')) x = None"
  shows "keeps x v False s'"
  using assms by (auto simp: keeps_def evolves_def)

lemma lookup_untouched:
  assumes "vars_ok s" "n \<noteq> x"
  shows "lookup (fst (assign n v e s)) x = lookup s x" "lookup (unset n s) x = lookup s x"
    "lookup (setExported n b s) x = lookup s x"
proof -
  show "lookup (fst (assign n v e s)) x = lookup s x"
    using assms by (simp add: lookup_def assign_def Let_def variable_set_variable)
  show "lookup (unset n s) x = lookup s x"
    using assms by (simp add: lookup_def variable_def unset_def delete_conv')
  have "a < length (heap s)" if "map_of (variables s) x = Some a" for a
    using assms(1) that by (force simp: vars_ok_def dest: map_of_SomeD)
  note a = this
  show "lookup (setExported n b s) x = lookup s x"
  proof (cases "map_of (variables s) n")
    case (Some a)
    with a show ?thesis
      by (cases "map_of (variables s) x") (simp_all add: lookup_def setExported_def variable_def value_update_exported)
  qed (use assms in \<open>simp add: lookup_def setExported_def variable_set_variable\<close>)
qed

lemma leave_restores:
  assumes "keeps x v d s"
  shows "lookup (leave_function ps s) x = v"
proof -
  have fr: "distinct (map fst (last (localFrames s)))" "localFrames s \<noteq> []"
    using assms by (auto simp: keeps_def vars_ok_def)
  then have "lookup (leave_function ps s) x =
      value_at s (case map_of (last (localFrames s)) x of Some b \<Rightarrow> b | None \<Rightarrow> map_of (variables s) x)"
    by (simp add: lookup_value_at value_at_def leave_function_def map_of_restore)
  also have "... = v"
    using assms by (auto simp: keeps_def lookup_value_at split: option.splits)
  finally show ?thesis .
qed

lemma call_restores:
  assumes "\<And>s. keeps x (lookup s x) False s \<Longrightarrow> keeps x (lookup s x) False (fst (body s))" "vars_ok s"
  shows "lookup (fst (callFunction body argv s)) x = lookup s x"
proof (cases "AIRSHIP_SH_MAX_DEPTH \<le> depth s")
  case False
  let ?s = "s\<lparr>parameters := tl argv, depth := Suc (depth s), localFrames := localFrames s @ [[]]\<rparr>"
  have same: "lookup ?s x = lookup s x" by (simp add: lookup_def variable_def)
  have "keeps x (lookup ?s x) False ?s"
    using assms(2) by (auto simp: keeps_def vars_ok_def)
  from leave_restores [OF assms(1) [OF this]] same False show ?thesis
    by (simp add: callFunction_def Let_def split_def)
qed (simp add: callFunction_def)


lemma top_frame_same:
  "last (localFrames (fst (assign n v e s))) = last (localFrames s)"
  "last (localFrames (unset n s)) = last (localFrames s)"
  "last (localFrames (setExported n b s)) = last (localFrames s)"
  "last (localFrames (fst (setPositional vs s))) = last (localFrames s)"
  by (simp_all add: assign_def Let_def set_variable_def unset_def setExported_def setPositional_def split: option.splits)

lemma keeps_declareLocal:
  assumes "keeps x v d s"
  shows "keeps x v (d \<or> n = x) (fst (declareLocal n s))"
proof (cases "map_of (last (localFrames s)) x")
  case None
  then have s: "vars_ok s" "localFrames s \<noteq> []" "lookup s x = v" "\<not> d" using assms by (simp_all add: keeps_def)
  have same: "heap (fst (declareLocal n s)) = heap s" "variables (fst (declareLocal n s)) = variables s"
    by (simp_all add: declareLocal_def Let_def)
  have top: "map_of (last (localFrames (fst (declareLocal n s)))) x = (if n = x then Some (map_of (variables s) x) else None)"
    using s(2) None by (auto simp: declareLocal_def Let_def update_conv')
  have "vars_ok (fst (declareLocal n s))" "localFrames (fst (declareLocal n s)) \<noteq> []"
    using vars_ok_simple(3) [OF s(1)] s(2) evolves_simple(4) [of s n] by (auto simp: evolves_def)
  with top s same show ?thesis
    by (cases "n = x") (simp_all add: keeps_def lookup_value_at value_at_def)
qed (rule keeps_saved [OF assms evolves_simple(4) vars_ok_simple(3)], use assms in \<open>auto simp: keeps_def\<close>)

text \<open>One step that leaves the name alone, or that comes after its declaration.\<close>

lemma keeps_step:
  assumes "keeps x v d s" "evolves s s'" "vars_ok s'"
    and "d \<or> lookup s' x = lookup s x \<and> map_of (last (localFrames s')) x = map_of (last (localFrames s)) x"
  shows "keeps x v d s'"
proof (cases "map_of (last (localFrames s)) x")
  case None
  with assms show ?thesis by (auto simp: keeps_def evolves_def)
qed (use keeps_saved [OF assms(1-3)] in simp)

lemma call_top_frame:
  assumes "\<And>s. evolves s (fst (body s))"
  shows "localFrames (fst (callFunction body argv s)) = localFrames s"
proof (cases "AIRSHIP_SH_MAX_DEPTH \<le> depth s")
  case False
  let ?s = "s\<lparr>parameters := tl argv, depth := Suc (depth s), localFrames := localFrames s @ [[]]\<rparr>"
  have "evolves ?s (fst (body ?s))" by (rule assms)
  with False show ?thesis
    by (auto simp: callFunction_def leave_function_def evolves_def Let_def split_def)
qed (simp add: callFunction_def)

lemma keeps_run:
  "keeps x v d s \<Longrightarrow> d \<or> \<not> touches x op \<Longrightarrow> keeps x v (d \<or> op = OpLocal x) (fst (run_op op s))"
  "keeps x v d s \<Longrightarrow> protects x d ops \<Longrightarrow> keeps x v False (fst (run_ops ops s))"
proof (induction op s and ops s arbitrary: v d and v d rule: run_op_run_ops.induct)
  case (1 n w s)
  then show ?case
    using keeps_step [OF 1(1) evolves_simple(1), of n w None] lookup_untouched(1) [of s n x]
    by (auto simp: top_frame_same keeps_def vars_ok_assign)
next
  case (2 n s)
  then show ?case
    using keeps_step [OF 2(1) evolves_simple(2), of n] lookup_untouched(2) [of s n x]
    by (auto simp: top_frame_same keeps_def vars_ok_simple)
next
  case (3 n b s)
  then show ?case
    using keeps_step [OF 3(1) evolves_simple(3), of n b] lookup_untouched(3) [of s n x]
    by (auto simp: top_frame_same keeps_def vars_ok_simple)
next
  case (4 n s)
  then show ?case
    using keeps_declareLocal [of x v d s n] by simp
next
  case (5 vs s)
  have "lookup (fst (setPositional vs s)) x = lookup s x" "vars_ok s"
    using 5(1) by (simp_all add: lookup_def variable_def setPositional_def keeps_def)
  then show ?case
    using keeps_step [OF 5(1) evolves_simple(5), of vs] by (simp add: top_frame_same vars_ok_simple)
next
  case (7 argv body s)
  have ok: "vars_ok s" using 7(2) by (simp add: keeps_def)
  have "lookup (fst (callFunction (run_ops body) argv s)) x = lookup s x" if "protects x False body"
    using 7(1) that ok by (intro call_restores) auto
  then show ?case
    using keeps_step [OF 7(2), of "fst (callFunction (run_ops body) argv s)"] 7(3)
      evolves_call [OF evolves_run(2)] vars_ok_call [OF vars_ok_run(2) ok]
    by (auto simp: call_top_frame [OF evolves_run(2)])
next
  case (8 s)
  then show ?case by (auto simp: keeps_def split: option.splits)
next
  case (9 op ops s)
  obtain s' r where p: "run_op op s = (s', r)" by (cases "run_op op s")
  with 9(1) [OF 9(3)] 9(4) have k: "keeps x v (d \<or> op = OpLocal x) s'" by simp
  show ?case
  proof (cases r)
    case (Inl g)
    then show ?thesis using p k by (auto simp: keeps_def split: option.splits)
  next
    case (Inr st)
    then show ?thesis using 9(2) [OF p [symmetric] refl _ k] 9(4) p by simp
  qed
qed auto


section \<open>Properties\<close>


definition demo_vars :: shell_vars where
  "demo_vars = \<lparr>heap = [\<lparr>sv_value = ''1'', sv_exported = False\<rparr>], variables = [(''x'', 0)], parameters = [''p''], depth = 0, localFrames = []\<rparr>"

lemma demo_vars_ok: "vars_ok demo_vars"
  by (simp add: vars_ok_def demo_vars_def)


text \<open>
  The export flag of a local variable is not the function's own: exporting it inside the function
  changes the object the caller's binding is restored to.
\<close>

theorem export_of_local_leaks:
  "isExported ''x'' demo_vars = False \<and>
   isExported ''x'' (fst (callFunction (run_ops [OpLocal ''x'', OpExport ''x'' True]) [''f''] demo_vars)) = True"
  by code_simp

text \<open>
  Through the shell's variables: the value of an assignment is what the next evaluation of the
  variable finds, as the same signed 64-bit number.
\<close>

theorem arithmetic_assignment_reads_back:
  assumes "wf_expr (Assign n v e)" "list_all spellable (tokens_of 0 (Assign n v e))"
    and "evaluateArithmetic (spell (tokens_of 0 (Assign n v e))) shell_scope s = (s', Inr r)"
  shows "evaluateArithmetic (spell [Name n]) shell_scope s' = (s', Inr r)"
proof -
  have "meaning shell_scope (evaluate_at shell_scope MAX_VARIABLE_DEPTH) (Assign n v e) s = (s', Inr r)"
    using assms(3) evaluate_spelled [OF assms(1,2), of shell_scope MAX_VARIABLE_DEPTH s] by (simp only: evaluateArithmetic_def)
  then have "meaning shell_scope (evaluate_at shell_scope MAX_VARIABLE_DEPTH) (Var n) s' = (s', Inr r)"
    by (rule shell.assignment_reads_back)
  moreover have "list_all spellable (tokens_of 0 (Var n))"
    using assms(2) by (simp add: parens_def)
  ultimately show ?thesis
    using evaluate_spelled [of "Var n" shell_scope MAX_VARIABLE_DEPTH s'] by (simp add: evaluateArithmetic_def del: evaluate_at.simps)
qed

theorem arithmetic_assignment_reads_back_witness:
  "evaluateArithmetic (spell (tokens_of 0 (Assign ''x'' ''+='' (Lit 41)))) shell_scope demo_vars =
     (set_variable ''x'' \<lparr>sv_value = ''42'', sv_exported = False\<rparr> demo_vars, Inr 42) \<and>
   evaluateArithmetic (spell [Name ''x'']) shell_scope (set_variable ''x'' \<lparr>sv_value = ''42'', sv_exported = False\<rparr> demo_vars) =
     (set_variable ''x'' \<lparr>sv_value = ''42'', sv_exported = False\<rparr> demo_vars, Inr 42)"
proof -
  have w: "wf_expr (Assign ''x'' ''+='' (Lit 41))" "list_all spellable (tokens_of 0 (Assign ''x'' ''+='' (Lit 41)))"
    by code_simp+
  have e: "evaluateArithmetic (spell (tokens_of 0 (Assign ''x'' ''+='' (Lit 41)))) shell_scope demo_vars =
     (set_variable ''x'' \<lparr>sv_value = ''42'', sv_exported = False\<rparr> demo_vars, Inr 42)"
    by code_simp
  from conjI [OF e arithmetic_assignment_reads_back [OF w e]] show ?thesis .
qed

end
