(* ===== verification/Shell_Pattern.thy ===== *)
theory Shell_Pattern
  imports Prelude
begin

text \<open>
  Shell patterns (\<open>execution/shell/pattern.ts\<close>): compilation of quoted and unquoted segments, the
  single-star backtracking matcher, prefix and suffix trimming, and splitting at a separator.

  An index into an array is the suffix of the list from that index. The named classes are written out
  for the code units 0 to 255. Looking a class name up with \<open>in\<close> also finds the properties every
  JavaScript object inherits; matching against such a \<^emph>\<open>class\<close> throws, which is \<open>NotAClass\<close>.
\<close>

record pattern_segment =
  ps_text :: string
  ps_quoted :: bool

datatype class_member = MemberChar char | MemberRange char char | MemberNamed string

datatype pattern_item = Literal char | Any | Star | Class bool "class_member list"

datatype pattern_error = NotAClass string

section \<open>Character classes\<close>

abbreviation code :: "char \<Rightarrow> nat" where
  "code c \<equiv> of_char c"

definition is_latin_upper :: "char \<Rightarrow> bool" where
  "is_latin_upper c \<longleftrightarrow> is_upper_ascii c \<or> (192 \<le> code c \<and> code c \<le> 222 \<and> code c \<noteq> 215)"

definition is_latin_lower :: "char \<Rightarrow> bool" where
  "is_latin_lower c \<longleftrightarrow> is_lower_ascii c \<or> code c = 181 \<or> (223 \<le> code c \<and> code c \<noteq> 247)"

definition is_latin_letter :: "char \<Rightarrow> bool" where
  "is_latin_letter c \<longleftrightarrow> is_latin_upper c \<or> is_latin_lower c \<or> code c = 170 \<or> code c = 186"

definition is_hex_digit :: "char \<Rightarrow> bool" where
  "is_hex_digit c \<longleftrightarrow> is_digit c \<or> (65 \<le> code c \<and> code c \<le> 70) \<or> (97 \<le> code c \<and> code c \<le> 102)"

definition CHARACTER_CLASSES :: "(string \<times> (char \<Rightarrow> bool)) list" where
  "CHARACTER_CLASSES =
    [(''alpha'', is_latin_letter),
     (''digit'', is_digit),
     (''alnum'', \<lambda>c. is_latin_letter c \<or> is_digit c),
     (''space'', is_ws),
     (''upper'', is_latin_upper),
     (''lower'', is_latin_lower),
     (''punct'', \<lambda>c. (33 \<le> code c \<and> code c \<le> 47) \<or> (58 \<le> code c \<and> code c \<le> 64) \<or>
        (91 \<le> code c \<and> code c \<le> 96) \<or> (123 \<le> code c \<and> code c \<le> 126)),
     (''xdigit'', is_hex_digit),
     (''blank'', \<lambda>c. code c = 32 \<or> code c = 9),
     (''cntrl'', is_control),
     (''print'', \<lambda>c. \<not> is_control c),
     (''graph'', \<lambda>c. \<not> (code c \<le> 32 \<or> code c = 127))]"

text \<open>The names every object inherits from \<open>Object.prototype\<close>.\<close>

definition inherited_names :: "string list" where
  "inherited_names = [''constructor'', ''hasOwnProperty'', ''isPrototypeOf'', ''propertyIsEnumerable'',
     ''toLocaleString'', ''toString'', ''valueOf'', ''__proto__'', ''__defineGetter__'', ''__defineSetter__'',
     ''__lookupGetter__'', ''__lookupSetter__'']"

definition name_in_classes :: "string \<Rightarrow> bool" where
  "name_in_classes n \<longleftrightarrow> map_of CHARACTER_CLASSES n \<noteq> None \<or> n \<in> set inherited_names"

section \<open>Compilation\<close>

type_synonym pattern_char = "char \<times> bool"

definition segmentsToText :: "pattern_segment list \<Rightarrow> string" where
  "segmentsToText segments = concat (map ps_text segments)"

text \<open>The name up to \<open>:]\<close> and what follows it.\<close>

fun findNamedClassEnd :: "pattern_char list \<Rightarrow> (string \<times> pattern_char list) option" where
  "findNamedClassEnd (a # b # cs) =
    (if fst a = CHR '':'' \<and> fst b = CHR '']'' then Some ([], cs)
     else if fst a = CHR '']'' then None
     else map_option (\<lambda>(name, rest). (fst a # name, rest)) (findNamedClassEnd (b # cs)))"
| "findNamedClassEnd _ = None"

lemma findNamedClassEnd_length: "findNamedClassEnd cs = Some (name, rest) \<Longrightarrow> length rest < length cs"
proof (induction cs arbitrary: name rule: findNamedClassEnd.induct)
  case (1 a b cs)
  then show ?case by (fastforce split: if_splits)
qed simp_all

definition named_class :: "pattern_char \<Rightarrow> pattern_char list \<Rightarrow> (string \<times> pattern_char list) option" where
  "named_class cur rest =
    (case rest of
       colon # rest' \<Rightarrow>
         if fst cur = CHR ''['' \<and> \<not> snd cur \<and> fst colon = CHR '':''
         then (case findNamedClassEnd rest' of
                 Some (name, after) \<Rightarrow> if name_in_classes name then Some (name, after) else None
               | None \<Rightarrow> None)
         else None
     | [] \<Rightarrow> None)"

text \<open>The end of a range whose start has just been read.\<close>

definition range_end :: "pattern_char list \<Rightarrow> (char \<times> pattern_char list) option" where
  "range_end rest =
    (case rest of
       nxt # after # rest' \<Rightarrow>
         if fst nxt = CHR ''-'' \<and> \<not> snd nxt \<and> \<not> (fst after = CHR '']'' \<and> \<not> snd after)
         then Some (fst after, rest') else None
     | _ \<Rightarrow> None)"

lemma named_class_length: "named_class cur rest = Some (name, after) \<Longrightarrow> length after < length rest"
  by (auto simp: named_class_def split: list.splits if_splits option.splits dest!: findNamedClassEnd_length)

lemma range_end_length: "range_end rest = Some (to, after) \<Longrightarrow> length after < length rest"
  by (auto simp: range_end_def split: list.splits if_splits)

function (sequential) read_members ::
  "bool \<Rightarrow> class_member list \<Rightarrow> bool \<Rightarrow> pattern_char list \<Rightarrow> (pattern_item \<times> pattern_char list) option" where
  "read_members negated members first [] = None"
| "read_members negated members first (cur # rest) =
    (if fst cur = CHR '']'' \<and> \<not> snd cur \<and> \<not> first then Some (Class negated members, rest)
     else case named_class cur rest of
       Some (name, after) \<Rightarrow> read_members negated (members @ [MemberNamed name]) False after
     | None \<Rightarrow>
         (case range_end rest of
            Some (to, after) \<Rightarrow> read_members negated (members @ [MemberRange (fst cur) to]) False after
          | None \<Rightarrow> read_members negated (members @ [MemberChar (fst cur)]) False rest))"
  by pat_completeness auto
termination
  by (relation "measure (\<lambda>(_, _, _, cs). length cs)") (auto dest: named_class_length range_end_length)

text \<open>The characters after an unquoted \<open>[\<close>.\<close>

definition readBracket :: "pattern_char list \<Rightarrow> (pattern_item \<times> pattern_char list) option" where
  "readBracket cs =
    (case cs of
       c # rest \<Rightarrow> if \<not> snd c \<and> (fst c = CHR ''!'' \<or> fst c = CHR ''^'') then read_members True [] True rest
                   else read_members False [] True cs
     | [] \<Rightarrow> read_members False [] True [])"

declare read_members.simps(2) [simp del]

lemma read_members_length: "read_members n ms f cs = Some (item, rest) \<Longrightarrow> length rest < length cs"
proof (induction n ms f cs arbitrary: rest rule: read_members.induct)
  case (2 negated members first cur rest0)
  show ?case
  proof (cases "fst cur = CHR '']'' \<and> \<not> snd cur \<and> \<not> first")
    case True
    with 2(4) show ?thesis by (simp add: read_members.simps(2))
  next
    case False
    note step = 2(4) [unfolded read_members.simps(2) if_not_P [OF False]]
    show ?thesis
    proof (cases "named_class cur rest0")
      case None
      note none = this
      show ?thesis
      proof (cases "range_end rest0")
        case None
        with step none have "length rest < length rest0"
          by (intro 2(1) [OF False none None]) simp
        then show ?thesis by simp
      next
        case (Some e)
        obtain to after where e: "e = (to, after)" by (cases e)
        with step none Some have "length rest < length after"
          by (intro 2(2) [OF False none Some e [symmetric]]) simp
        with range_end_length [of rest0 to after] Some e show ?thesis by simp
      qed
    next
      case (Some e)
      obtain name after where e: "e = (name, after)" by (cases e)
      with step Some have "length rest < length after"
        by (intro 2(3) [OF False Some e [symmetric]]) simp
      with named_class_length [of cur rest0 name after] Some e show ?thesis by simp
    qed
  qed
qed simp

lemma readBracket_length: "readBracket cs = Some (item, rest) \<Longrightarrow> length rest < length cs"
  using read_members_length [of False "[]" True cs item rest] read_members_length [of True "[]" True "tl cs" item rest]
  by (cases cs) (auto simp: readBracket_def split: if_splits)

function (sequential) compile_loop :: "pattern_item list \<Rightarrow> pattern_char list \<Rightarrow> pattern_item list" where
  "compile_loop items [] = items"
| "compile_loop items (cur # rest) =
    (if snd cur then compile_loop (items @ [Literal (fst cur)]) rest
     else if fst cur = CHR ''*''
     then compile_loop (if items \<noteq> [] \<and> last items = Star then items else items @ [Star]) rest
     else if fst cur = CHR ''?'' then compile_loop (items @ [Any]) rest
     else case (if fst cur = CHR ''['' then readBracket rest else None) of
       Some (item, after) \<Rightarrow> compile_loop (items @ [item]) after
     | None \<Rightarrow> compile_loop (items @ [Literal (fst cur)]) rest)"
  by pat_completeness auto
termination
  by (relation "measure (\<lambda>(_, cs). length cs)") (auto split: if_splits dest: readBracket_length)

definition compilePattern :: "pattern_segment list \<Rightarrow> pattern_item list" where
  "compilePattern segments =
    compile_loop [] (concat (map (\<lambda>s. map (\<lambda>c. (c, ps_quoted s)) (ps_text s)) segments))"

definition patternHasWildcard :: "pattern_item list \<Rightarrow> bool" where
  "patternHasWildcard items = list_ex (\<lambda>i. case i of Literal _ \<Rightarrow> False | _ \<Rightarrow> True) items"

section \<open>Matching\<close>

fun matchMember :: "class_member \<Rightarrow> char \<Rightarrow> pattern_error + bool" where
  "matchMember (MemberChar d) c = Inr (d = c)"
| "matchMember (MemberRange a z) c = Inr (code a \<le> code c \<and> code c \<le> code z)"
| "matchMember (MemberNamed n) c =
    (case map_of CHARACTER_CLASSES n of Some f \<Rightarrow> Inr (f c) | None \<Rightarrow> Inl (NotAClass n))"

text \<open>\<open>Array.prototype.some\<close>: stops at the first member that matches.\<close>

fun some_member :: "class_member list \<Rightarrow> char \<Rightarrow> pattern_error + bool" where
  "some_member [] c = Inr False"
| "some_member (m # ms) c = bind_result (matchMember m c) (\<lambda>b. if b then Inr True else some_member ms c)"

fun matchOne :: "pattern_item \<Rightarrow> char \<Rightarrow> pattern_error + bool" where
  "matchOne (Literal d) c = Inr (d = c)"
| "matchOne Any c = Inr True"
| "matchOne Star c = Inr False"
| "matchOne (Class negated ms) c = bind_result (some_member ms c) (\<lambda>inside. Inr (if negated then \<not> inside else inside))"

text \<open>
  The loop: the items and the text still to match, and, once a star was met, the items after it and
  the text it was met at.
\<close>

function (sequential) match_loop ::
  "pattern_item list \<Rightarrow> string \<Rightarrow> (pattern_item list \<times> string) option \<Rightarrow> pattern_error + bool" where
  "match_loop items [] star = Inr (list_all (\<lambda>i. i = Star) items)"
| "match_loop items (c # cs) star =
    bind_result (case items of [] \<Rightarrow> Inr False | item # _ \<Rightarrow> if item = Star then Inr False else matchOne item c)
      (\<lambda>hit.
        if hit then match_loop (tl items) cs star
        else if items \<noteq> [] \<and> hd items = Star then match_loop (tl items) (c # cs) (Some (tl items, c # cs))
        else case star of
          Some (after, _ # at) \<Rightarrow> match_loop after at (Some (after, at))
        | _ \<Rightarrow> Inr False)"
  by pat_completeness auto
termination
proof (relation "measures [\<lambda>(items, _, star). max (length items) (case star of Some (after, _) \<Rightarrow> length after | None \<Rightarrow> 0),
    \<lambda>(_, _, star). case star of Some (_, at) \<Rightarrow> length at | None \<Rightarrow> 0, \<lambda>(_, text, _). length text]", goal_cases)
  case (2 items c cs star hit)
  then show ?case by (cases items) (auto split: option.splits)
next
  case (3 items c cs star hit)
  then show ?case by (cases items) (auto split: option.splits)
qed (auto split: option.splits)

definition matchPattern :: "bool \<Rightarrow> pattern_item list \<Rightarrow> string \<Rightarrow> pattern_error + bool" where
  "matchPattern periodGuard items text =
    (if periodGuard \<and> text \<noteq> [] \<and> hd text = CHR ''.'' \<and> (items = [] \<or> hd items \<noteq> Literal (CHR ''.''))
     then Inr False else match_loop items text None)"

section \<open>Trimming and splitting\<close>

fun first_length :: "(nat \<Rightarrow> pattern_error + bool) \<Rightarrow> nat list \<Rightarrow> pattern_error + int" where
  "first_length f [] = Inr (- 1)"
| "first_length f (n # ns) = bind_result (f n) (\<lambda>hit. if hit then Inr (int n) else first_length f ns)"

definition candidates :: "string \<Rightarrow> bool \<Rightarrow> nat list" where
  "candidates text longest = (let range = [0..<length text] @ [length text] in if longest then rev range else range)"

definition matchPrefix :: "pattern_item list \<Rightarrow> string \<Rightarrow> bool \<Rightarrow> pattern_error + int" where
  "matchPrefix items text longest =
    first_length (\<lambda>n. matchPattern False items (take n text)) (candidates text longest)"

definition matchSuffix :: "pattern_item list \<Rightarrow> string \<Rightarrow> bool \<Rightarrow> pattern_error + int" where
  "matchSuffix items text longest =
    first_length (\<lambda>n. matchPattern False items (drop (length text - n) text)) (candidates text longest)"

text \<open>The groups so far, the last of which is still open.\<close>

definition push_last :: "'a \<Rightarrow> 'a list list \<Rightarrow> 'a list list" where
  "push_last x groups = butlast groups @ [last groups @ [x]]"

fun push_pieces :: "bool \<Rightarrow> string list \<Rightarrow> pattern_segment list list \<Rightarrow> pattern_segment list list" where
  "push_pieces first [] groups = groups"
| "push_pieces first (p # ps) groups =
    (let opened = (if first then groups else groups @ [[]])
     in push_pieces False ps (if p \<noteq> [] then push_last \<lparr>ps_text = p, ps_quoted = False\<rparr> opened else opened))"

fun split_loop :: "char \<Rightarrow> pattern_segment list \<Rightarrow> pattern_segment list list \<Rightarrow> pattern_segment list list" where
  "split_loop sep [] groups = groups"
| "split_loop sep (s # ss) groups =
    (if ps_quoted s then split_loop sep ss (push_last s groups)
     else split_loop sep ss (push_pieces True (split_on sep (ps_text s)) groups))"

definition splitSegments :: "pattern_segment list \<Rightarrow> char \<Rightarrow> pattern_segment list list" where
  "splitSegments segments separator = split_loop separator segments [[]]"

section \<open>What a pattern means\<close>

text \<open>
  The reference: an item other than the star stands for one character, the star for any number of
  characters.
\<close>

fun member_holds :: "class_member \<Rightarrow> char \<Rightarrow> bool" where
  "member_holds (MemberChar d) c = (d = c)"
| "member_holds (MemberRange a z) c = (code a \<le> code c \<and> code c \<le> code z)"
| "member_holds (MemberNamed n) c = (case map_of CHARACTER_CLASSES n of Some f \<Rightarrow> f c | None \<Rightarrow> False)"

fun item_holds :: "pattern_item \<Rightarrow> char \<Rightarrow> bool" where
  "item_holds (Literal d) c = (d = c)"
| "item_holds Any c = True"
| "item_holds Star c = False"
| "item_holds (Class negated ms) c = (list_ex (\<lambda>m. member_holds m c) ms \<noteq> negated)"

fun denotes :: "pattern_item list \<Rightarrow> string \<Rightarrow> bool" where
  "denotes [] t = (t = [])"
| "denotes (Star # is) [] = denotes is []"
| "denotes (Star # is) (c # t) = (denotes is (c # t) \<or> denotes (Star # is) t)"
| "denotes (i # is) [] = False"
| "denotes (i # is) (c # t) = (item_holds i c \<and> denotes is t)"

definition member_known :: "class_member \<Rightarrow> bool" where
  "member_known m = (case m of MemberNamed n \<Rightarrow> map_of CHARACTER_CLASSES n \<noteq> None | _ \<Rightarrow> True)"

definition item_known :: "pattern_item \<Rightarrow> bool" where
  "item_known i = (case i of Class _ ms \<Rightarrow> list_all member_known ms | _ \<Rightarrow> True)"

lemma matchMember_known: "member_known m \<Longrightarrow> matchMember m c = Inr (member_holds m c)"
  by (cases m) (auto simp: member_known_def)

lemma some_member_known: "list_all member_known ms \<Longrightarrow> some_member ms c = Inr (list_ex (\<lambda>m. member_holds m c) ms)"
  by (induction ms) (simp_all add: matchMember_known)

lemma matchOne_known: "item_known i \<Longrightarrow> matchOne i c = Inr (item_holds i c)"
  by (cases i) (auto simp: item_known_def some_member_known)

lemma denotes_Star_suffix: "denotes (Star # is) t \<Longrightarrow> denotes (Star # is) (u @ t)"
  by (induction u) auto

lemma denotes_Star_iff: "denotes (Star # is) t \<longleftrightarrow> (\<exists>u v. t = u @ v \<and> denotes is v)"
proof (induction t)
  case (Cons c t)
  show ?case
  proof
    assume "denotes (Star # is) (c # t)"
    then consider "denotes is (c # t)" | "denotes (Star # is) t" by auto
    then show "\<exists>u v. c # t = u @ v \<and> denotes is v"
    proof cases
      case 1
      then show ?thesis by (intro exI [of _ "[]"] exI [of _ "c # t"]) simp
    next
      case 2
      with Cons obtain u v where "t = u @ v" "denotes is v" by auto
      then show ?thesis by (intro exI [of _ "c # u"] exI [of _ v]) simp
    qed
  next
    assume "\<exists>u v. c # t = u @ v \<and> denotes is v"
    then obtain u v where uv: "c # t = u @ v" "denotes is v" by blast
    then show "denotes (Star # is) (c # t)"
      using Cons by (cases u) auto
  qed
qed simp

lemma denotes_Cons_nonstar:
  "i \<noteq> Star \<Longrightarrow> denotes (i # is) t \<longleftrightarrow> (\<exists>c t'. t = c # t' \<and> item_holds i c \<and> denotes is t')"
  by (cases i; cases t) auto

lemma denotes_starfree_append:
  "Star \<notin> set pre \<Longrightarrow> denotes (pre @ is) t \<Longrightarrow> \<exists>u v. t = u @ v \<and> length u = length pre \<and> denotes is v"
proof (induction pre arbitrary: t)
  case (Cons i pre)
  then obtain c t' where t: "t = c # t'" "denotes (pre @ is) t'"
    by (auto simp: denotes_Cons_nonstar)
  with Cons.IH [of t'] Cons.prems(1) obtain u v where "t' = u @ v" "length u = length pre" "denotes is v"
    by auto
  with t show ?case by (intro exI [of _ "c # u"] exI [of _ v]) simp
qed simp

lemma denotes_Nil_iff: "denotes is [] \<longleftrightarrow> list_all (\<lambda>i. i = Star) is"
proof (induction "is")
  case (Cons i "is")
  then show ?case by (cases i) auto
qed simp

section \<open>The matcher implements it\<close>

text \<open>
  When a star has been met, the items since then are star-free and consumed one character each. A
  match that lets an earlier star absorb more is then also found by the latest star.
\<close>

lemma later_star_suffices:
  assumes "Star \<notin> set pre" "length u = length pre" "denotes (Star # pre @ Star # is) (tl (u @ t))"
  shows "denotes (Star # is) t"
proof -
  obtain w v where wv: "tl (u @ t) = w @ v" "denotes (pre @ Star # is) v"
    using assms(3) denotes_Star_iff by blast
  then obtain x y where xy: "v = x @ y" "length x = length pre" "denotes (Star # is) y"
    using denotes_starfree_append assms(1) by blast
  have "length y \<le> length t" and "\<exists>z. u @ t = z @ y"
  proof -
    have eq: "tl (u @ t) = w @ x @ y"
      using wv xy by simp
    from arg_cong [OF eq, of length] show "length y \<le> length t"
      using xy(2) assms(2) by simp
    show "\<exists>z. u @ t = z @ y"
    proof (cases "u @ t")
      case (Cons a s)
      with eq have "u @ t = (a # w @ x) @ y" by simp
      then show ?thesis by blast
    qed (use eq in auto)
  qed
  then obtain z where "u @ t = z @ y" "length u \<le> length z"
    by (metis add_le_cancel_right add.commute length_append nat_add_left_cancel_le)
  then obtain z' where "t = z' @ y"
    by (metis append_eq_append_conv_if append_take_drop_id)
  with xy(3) show ?thesis by (simp add: denotes_Star_suffix)
qed

definition star_state :: "pattern_item list \<Rightarrow> string \<Rightarrow> (pattern_item list \<times> string) option \<Rightarrow> bool" where
  "star_state items text star = (case star of None \<Rightarrow> True
     | Some (after, at) \<Rightarrow> \<exists>pre u. after = pre @ items \<and> at = u @ text \<and> Star \<notin> set pre \<and> length u = length pre)"

definition by_star :: "(pattern_item list \<times> string) option \<Rightarrow> bool" where
  "by_star star = (case star of Some (after, _ # at) \<Rightarrow> denotes (Star # after) at | _ \<Rightarrow> False)"

lemma by_star_Nil: "star_state items [] star \<Longrightarrow> \<not> by_star star"
proof
  assume s: "star_state items [] star" and b: "by_star star"
  from b obtain after a at where star: "star = Some (after, a # at)" and d: "denotes (Star # after) at"
    by (auto simp: by_star_def split: option.splits prod.splits list.splits)
  from s star obtain pre where pre: "after = pre @ items" "Star \<notin> set pre" "length (a # at) = length pre"
    by (auto simp: star_state_def)
  obtain u v where uv: "at = u @ v" "denotes after v"
    using d denotes_Star_iff by blast
  then obtain x y where "v = x @ y" "length x = length pre"
    using denotes_starfree_append pre(1,2) by blast
  with uv pre(3) show False by simp
qed

definition star_known :: "(pattern_item list \<times> string) option \<Rightarrow> bool" where
  "star_known star = (case star of Some (after, _) \<Rightarrow> list_all item_known after | None \<Rightarrow> True)"

lemma star_state_fresh: "star_state items tx (Some (items, tx))"
  by (auto simp: star_state_def intro!: exI [of _ "[]"])

lemma star_state_step:
  "star_state (item # rest) (c # cs) star \<Longrightarrow> item \<noteq> Star \<Longrightarrow> star_state rest cs star"
  unfolding star_state_def
  by (auto split: option.splits intro!: exI [of _ "_ @ [_]"])

lemma denotes_or_by_star: "denotes after at \<or> by_star (Some (after, at)) \<longleftrightarrow> denotes (Star # after) at"
  by (cases at) (auto simp: by_star_def)

lemma by_star_absorbed:
  assumes "star_state (Star # rest) tx star" "by_star star"
  shows "denotes (Star # rest) tx"
proof -
  obtain after a at where star: "star = Some (after, a # at)" "denotes (Star # after) at"
    using assms(2) by (auto simp: by_star_def split: option.splits prod.splits list.splits)
  then obtain pre u where "after = pre @ Star # rest" "a # at = u @ tx" "Star \<notin> set pre" "length u = length pre"
    using assms(1) by (auto simp: star_state_def)
  then show ?thesis
    using later_star_suffices [of pre u rest tx] star(2) by (metis list.sel(3))
qed

lemma match_loop_correct:
  assumes "list_all item_known items" "star_known star" "star_state items tx star"
  shows "match_loop items tx star = Inr (denotes items tx \<or> by_star star)"
  using assms
proof (induction items tx star rule: match_loop.induct)
  case (1 items star)
  then show ?case using by_star_Nil by (simp add: denotes_Nil_iff)
next
  case step: (2 items c cs star)
  have retry: "(case star of Some (after, _ # at) \<Rightarrow> match_loop after at (Some (after, at)) | _ \<Rightarrow> Inr False) =
      Inr (by_star star)" if "items = [] \<or> hd items \<noteq> Star"
  proof (cases "\<exists>after a at. star = Some (after, a # at)")
    case True
    then obtain after a at where star: "star = Some (after, a # at)" by blast
    have "match_loop after at (Some (after, at)) = Inr (denotes after at \<or> by_star (Some (after, at)))"
      using step(5) star that by (intro step(3) [of False]) (auto simp: star_known_def star_state_fresh)
    then show ?thesis by (simp add: star denotes_or_by_star) (simp add: by_star_def)
  qed (auto simp: by_star_def split: option.splits prod.splits list.splits)
  show ?case
  proof (cases items)
    case Nil
    with retry show ?thesis by simp
  next
    case (Cons item rest)
    consider "item = Star" | "item \<noteq> Star" "item_holds item c" | "item \<noteq> Star" "\<not> item_holds item c"
      by blast
    then show ?thesis
    proof cases
      case 1
      have "match_loop rest (c # cs) (Some (rest, c # cs)) = Inr (denotes (Star # rest) (c # cs))"
        using step(4) Cons 1 by (subst step(2) [of False, unfolded Cons list.sel])
          (auto simp: star_known_def star_state_fresh denotes_or_by_star)
      with step(6) Cons 1 by_star_absorbed [of rest "c # cs" star] show ?thesis by (auto simp del: match_loop.simps simp: match_loop.simps(2) [of "_ # _"])
    next
      case 2
      have "match_loop rest cs star = Inr (denotes rest cs \<or> by_star star)"
        using step(1) [of True] step(4,5,6) Cons 2(1) by (simp add: star_state_step [of item])
      then show ?thesis using 2 Cons step(4) by (simp add: matchOne_known denotes_Cons_nonstar)
    next
      case 3
      then show ?thesis using Cons step(4) retry by (simp add: matchOne_known denotes_Cons_nonstar)
    qed
  qed
qed


lemma matchPattern_denotes:
  "list_all item_known items \<Longrightarrow> matchPattern False items text = Inr (denotes items text)"
  by (simp add: matchPattern_def match_loop_correct star_state_def star_known_def by_star_def)

section \<open>Which patterns can throw\<close>

definition member_compiled :: "class_member \<Rightarrow> bool" where
  "member_compiled m = (case m of MemberNamed n \<Rightarrow> name_in_classes n | _ \<Rightarrow> True)"

definition item_compiled :: "pattern_item \<Rightarrow> bool" where
  "item_compiled i = (case i of Class _ ms \<Rightarrow> list_all member_compiled ms | _ \<Rightarrow> True)"

lemma item_compiled_simps [simp]:
  "item_compiled (Literal c)" "item_compiled Any" "item_compiled Star"
  by (simp_all add: item_compiled_def)

lemma named_class_known: "named_class cur rest = Some (name, after) \<Longrightarrow> name_in_classes name"
  by (auto simp: named_class_def split: list.splits if_splits option.splits)

lemma read_members_compiled:
  "read_members n ms f cs = Some (item, rest) \<Longrightarrow> list_all member_compiled ms \<Longrightarrow> item_compiled item"
proof (induction n ms f cs rule: read_members.induct)
  case (2 negated members first cur rest0)
  show ?case
  proof (cases "fst cur = CHR '']'' \<and> \<not> snd cur \<and> \<not> first")
    case True
    with 2(4,5) show ?thesis by (auto simp: read_members.simps(2) item_compiled_def)
  next
    case False
    note step = 2(4) [unfolded read_members.simps(2) if_not_P [OF False]]
    show ?thesis
    proof (cases "named_class cur rest0")
      case None
      note none = this
      show ?thesis
      proof (cases "range_end rest0")
        case None
        with step none 2(5) show ?thesis
          by (intro 2(1) [OF False none None]) (simp_all add: member_compiled_def)
      next
        case (Some e)
        obtain to after where e: "e = (to, after)" by (cases e)
        with step none Some 2(5) show ?thesis
          by (intro 2(2) [OF False none Some e [symmetric]]) (simp_all add: member_compiled_def)
      qed
    next
      case (Some e)
      obtain name after where e: "e = (name, after)" by (cases e)
      with step Some 2(5) named_class_known [of cur rest0 name after] show ?thesis
        by (intro 2(3) [OF False Some e [symmetric]]) (simp_all add: member_compiled_def)
    qed
  qed
qed simp

lemma readBracket_compiled: "readBracket cs = Some (item, rest) \<Longrightarrow> item_compiled item"
  by (auto simp: readBracket_def split: list.splits if_splits dest: read_members_compiled)

lemma compile_loop_compiled: "list_all item_compiled items \<Longrightarrow> list_all item_compiled (compile_loop items cs)"
proof (induction items cs rule: compile_loop.induct)
  case (2 items cur rest)
  have star: "list_all item_compiled (if items \<noteq> [] \<and> last items = Star then items else items @ [Star])"
    using 2(6) by simp
  consider "snd cur" | "\<not> snd cur" "fst cur = CHR ''*''" | "\<not> snd cur" "fst cur \<noteq> CHR ''*''" "fst cur = CHR ''?''"
    | item after where "\<not> snd cur" "fst cur \<noteq> CHR ''*''" "fst cur \<noteq> CHR ''?''"
        "(if fst cur = CHR ''['' then readBracket rest else None) = Some (item, after)"
    | "\<not> snd cur" "fst cur \<noteq> CHR ''*''" "fst cur \<noteq> CHR ''?''" "(if fst cur = CHR ''['' then readBracket rest else None) = None"
    by (metis option.exhaust surj_pair)
  then show ?case
  proof cases
    case (4 item after)
    then have "item_compiled item" by (auto split: if_splits dest: readBracket_compiled)
    with 4 2(5,6) show ?thesis by simp
  qed (use 2 star in simp_all)
qed simp

lemma compilePattern_compiled: "list_all item_compiled (compilePattern segments)"
  by (simp add: compilePattern_def compile_loop_compiled)

lemma some_member_error: "some_member ms c = Inl (NotAClass n) \<Longrightarrow> MemberNamed n \<in> set ms \<and> map_of CHARACTER_CLASSES n = None"
proof (induction ms)
  case (Cons m ms)
  then show ?case by (cases m) (auto simp: result_simps split: if_splits option.splits)
qed simp

definition throws :: "pattern_item list \<Rightarrow> string \<Rightarrow> bool" where
  "throws items n \<longleftrightarrow> (\<exists>neg ms. Class neg ms \<in> set items \<and> MemberNamed n \<in> set ms) \<and> map_of CHARACTER_CLASSES n = None"

lemma matchOne_error: "matchOne i c = Inl (NotAClass n) \<Longrightarrow> i \<in> set items \<Longrightarrow> throws items n"
  by (cases i) (auto simp: throws_def result_simps dest: some_member_error)

lemma throws_mono: "throws items n \<Longrightarrow> set items \<subseteq> set items' \<Longrightarrow> throws items' n"
  unfolding throws_def by blast

lemma match_loop_error:
  assumes "match_loop items tx star = Inl (NotAClass n)" "set items \<subseteq> set all"
    "case star of Some (after, _) \<Rightarrow> set after \<subseteq> set all | None \<Rightarrow> True"
  shows "throws all n"
  using assms
proof (induction items tx star rule: match_loop.induct)
  case step: (2 items c cs star)
  let ?one = "case items of [] \<Rightarrow> Inr False | item # _ \<Rightarrow> if item = Star then Inr False else matchOne item c"
  have sub: "set (tl items) \<subseteq> set all"
    using step(5) by (cases items) auto
  show ?case
  proof (cases ?one)
    case (Inl e)
    then have "\<exists>i \<in> set items. matchOne i c = Inl (NotAClass n)"
      using step(4) by (auto split: list.splits if_splits)
    with step(5) show ?thesis by (auto intro: matchOne_error)
  next
    case (Inr hit)
    show ?thesis
    proof (cases hit)
      case True
      then show ?thesis using step(1) [of True] step(4,6) Inr sub by simp
    next
      case False
      show ?thesis
      proof (cases "items \<noteq> [] \<and> hd items = Star")
        case True
        then show ?thesis using step(2) [of False] step(4) Inr sub False by simp
      next
        case nostar: False
        then obtain after a at where star: "star = Some (after, a # at)"
          using step(4) Inr False by (auto split: option.splits list.splits)
        with step(3) [of False] step(4,6) Inr nostar False show ?thesis by simp
      qed
    qed
  qed
qed simp

lemma throws_inherited: "throws items n \<Longrightarrow> list_all item_compiled items \<Longrightarrow> n \<in> set inherited_names"
  by (fastforce simp: throws_def list_all_iff item_compiled_def member_compiled_def name_in_classes_def)

section \<open>Quoted text, trimming, splitting\<close>

lemma compile_loop_quoted: "compile_loop items (map (\<lambda>c. (c, True)) s @ cs) = compile_loop (items @ map Literal s) cs"
  by (induction s arbitrary: items) simp_all

lemma compile_loop_all_quoted:
  "list_all ps_quoted segments \<Longrightarrow>
    compile_loop items (concat (map (\<lambda>s. map (\<lambda>c. (c, ps_quoted s)) (ps_text s)) segments)) =
    items @ map Literal (segmentsToText segments)"
  by (induction segments arbitrary: items) (simp_all add: segmentsToText_def compile_loop_quoted)

lemma compilePattern_quoted: "list_all ps_quoted segments \<Longrightarrow> compilePattern segments = map Literal (segmentsToText segments)"
  by (simp add: compilePattern_def compile_loop_all_quoted)

lemma denotes_Literals: "denotes (map Literal s) t \<longleftrightarrow> t = s"
proof (induction s arbitrary: t)
  case (Cons c s)
  then show ?case by (cases t) auto
qed simp

lemma Literals_known: "list_all item_known (map Literal s)"
  by (simp add: list_all_iff item_known_def)

lemma first_length_known:
  "(\<And>n. n \<in> set ns \<Longrightarrow> f n = Inr (P n)) \<Longrightarrow>
    first_length f ns = Inr (case find P ns of Some n \<Rightarrow> int n | None \<Rightarrow> - 1)"
  by (induction ns) auto

lemma set_candidates: "set (candidates t longest) = {0..length t}"
  by (auto simp: candidates_def Let_def)

lemma sorted_candidates:
  "sorted_wrt (\<lambda>m n. if longest then n < m else m < n) (candidates t longest)"
proof -
  have "sorted_wrt (<) [0..<Suc (length t)]" by (rule sorted_wrt_upt)
  then show ?thesis by (auto simp: candidates_def Let_def sorted_wrt_append sorted_wrt_rev)
qed

text \<open>What a trimming length means: the best length whose part of the text matches, or minus one.\<close>

definition best_length :: "(nat \<Rightarrow> bool) \<Rightarrow> nat \<Rightarrow> bool \<Rightarrow> int \<Rightarrow> bool" where
  "best_length P len longest r \<longleftrightarrow>
    (r = - 1 \<and> (\<forall>n \<le> len. \<not> P n)) \<or>
    (\<exists>n \<le> len. r = int n \<and> P n \<and> (\<forall>m \<le> len. P m \<longrightarrow> (if longest then m \<le> n else n \<le> m)))"

lemma find_sorted:
  "sorted_wrt R ns \<Longrightarrow> find P ns = Some n \<Longrightarrow> n \<in> set ns \<and> P n \<and> (\<forall>m \<in> set ns. P m \<longrightarrow> m = n \<or> R n m)"
  by (induction ns) (auto split: if_splits)

lemma first_length_best:
  assumes "\<And>n. n \<le> length t \<Longrightarrow> f n = Inr (P n)"
  shows "\<exists>r. first_length f (candidates t longest) = Inr r \<and> best_length P (length t) longest r"
proof (cases "find P (candidates t longest)")
  case None
  then have "best_length P (length t) longest (- 1)"
    by (auto simp: set_candidates best_length_def find_None_iff)
  moreover have "first_length f (candidates t longest) = Inr (- 1)"
    using first_length_known [of "candidates t longest" f P] assms None by (simp add: set_candidates)
  ultimately show ?thesis by blast
next
  case (Some n)
  from find_sorted [OF sorted_candidates Some]
  have "n \<le> length t" "P n" "\<forall>m \<le> length t. P m \<longrightarrow> (if longest then m \<le> n else n \<le> m)"
    by (auto simp: set_candidates)
  then have "best_length P (length t) longest (int n)"
    by (auto simp: best_length_def)
  moreover have "first_length f (candidates t longest) = Inr (int n)"
    using first_length_known [of "candidates t longest" f P] assms Some by (simp add: set_candidates)
  ultimately show ?thesis by blast
qed

definition groups_text :: "char \<Rightarrow> pattern_segment list list \<Rightarrow> string" where
  "groups_text sep groups = join [sep] (map segmentsToText groups)"

lemma segmentsToText_simps [simp]:
  "segmentsToText [] = []" "segmentsToText (s # ss) = ps_text s @ segmentsToText ss"
  "segmentsToText (ss @ ss') = segmentsToText ss @ segmentsToText ss'"
  by (simp_all add: segmentsToText_def)

lemma join_snoc: "ps \<noteq> [] \<Longrightarrow> join sep (ps @ [p]) = join sep ps @ sep @ p"
  by (simp add: join_append)

lemma groups_text_push_last:
  "groups \<noteq> [] \<Longrightarrow> groups_text sep (push_last x groups) = groups_text sep groups @ ps_text x"
proof (cases groups rule: rev_cases)
  case (snoc gs g)
  then show ?thesis by (cases "gs = []") (simp_all add: groups_text_def push_last_def join_snoc)
qed simp

lemma groups_text_open: "groups \<noteq> [] \<Longrightarrow> groups_text sep (groups @ [[]]) = groups_text sep groups @ [sep]"
  by (simp add: groups_text_def join_snoc)

lemma push_last_not_Nil [simp]: "push_last x groups \<noteq> []"
  by (simp add: push_last_def)

definition extended :: "char \<Rightarrow> string \<Rightarrow> pattern_segment list list \<Rightarrow> pattern_segment list list \<Rightarrow> bool" where
  "extended sep s groups groups' \<longleftrightarrow> groups' \<noteq> [] \<and> groups_text sep groups' = groups_text sep groups @ s"

lemma push_pieces_extended:
  "groups \<noteq> [] \<Longrightarrow> ps \<noteq> [] \<Longrightarrow>
    extended sep (if first then join [sep] ps else sep # join [sep] ps) groups (push_pieces first ps groups)"
proof (induction first ps groups rule: push_pieces.induct)
  case (2 first p ps groups)
  define opened where "opened = (if first then groups else groups @ [[]])"
  define pushed where "pushed = (if p \<noteq> [] then push_last \<lparr>ps_text = p, ps_quoted = False\<rparr> opened else opened)"
  have p: "extended sep (if first then p else sep # p) groups pushed"
    using 2(2) by (auto simp: extended_def pushed_def opened_def groups_text_push_last groups_text_open)
  have eq: "push_pieces first (p # ps) groups = push_pieces False ps pushed"
    by (simp add: pushed_def opened_def)
  show ?case
  proof (cases "ps = []")
    case True
    then show ?thesis using p unfolding eq by (cases first) simp_all
  next
    case False
    then have "extended sep (sep # join [sep] ps) pushed (push_pieces False ps pushed)"
      using 2(1) [OF opened_def] p by (simp add: pushed_def extended_def)
    then show ?thesis
      unfolding eq using p False by (simp add: extended_def join_Cons)
  qed
qed simp

lemma split_loop_extended:
  "groups \<noteq> [] \<Longrightarrow> extended sep (segmentsToText ss) groups (split_loop sep ss groups)"
proof (induction ss arbitrary: groups)
  case (Cons s ss)
  have "extended sep (ps_text s) groups
      (if ps_quoted s then push_last s groups else push_pieces True (split_on sep (ps_text s)) groups)"
    using Cons.prems push_pieces_extended [of groups "split_on sep (ps_text s)" sep True]
    by (simp add: extended_def groups_text_push_last join_split_on)
  then show ?case
    using Cons.IH by (fastforce simp: extended_def)
qed (simp add: extended_def)

definition separator_free :: "char \<Rightarrow> pattern_segment list list \<Rightarrow> bool" where
  "separator_free sep groups = list_all (list_all (\<lambda>s. ps_quoted s \<or> sep \<notin> set (ps_text s))) groups"

lemma separator_free_append [simp]:
  "separator_free sep (gs @ hs) \<longleftrightarrow> separator_free sep gs \<and> separator_free sep hs"
  by (simp add: separator_free_def)

lemma separator_free_push_last:
  "groups \<noteq> [] \<Longrightarrow> separator_free sep groups \<Longrightarrow> ps_quoted s \<or> sep \<notin> set (ps_text s) \<Longrightarrow>
    separator_free sep (push_last s groups)"
  by (cases groups rule: rev_cases) (auto simp: separator_free_def push_last_def)

lemma separator_free_push_pieces:
  "groups \<noteq> [] \<Longrightarrow> separator_free sep groups \<Longrightarrow> list_all (\<lambda>p. sep \<notin> set p) ps \<Longrightarrow>
    separator_free sep (push_pieces first ps groups)"
proof (induction first ps groups rule: push_pieces.induct)
  case (2 first p ps groups)
  define opened where "opened = (if first then groups else groups @ [[]])"
  define pushed where "pushed = (if p \<noteq> [] then push_last \<lparr>ps_text = p, ps_quoted = False\<rparr> opened else opened)"
  have opened: "opened \<noteq> []" "separator_free sep opened"
    using 2(2,3) by (auto simp: opened_def separator_free_def)
  then have "pushed \<noteq> []" "separator_free sep pushed"
    using 2(4) by (auto simp: pushed_def separator_free_push_last)
  then have "separator_free sep (push_pieces False ps pushed)"
    using 2(1) [OF opened_def] 2(4) by (simp add: pushed_def)
  moreover have "push_pieces first (p # ps) groups = push_pieces False ps pushed"
    by (simp add: pushed_def opened_def)
  ultimately show ?case by simp
qed simp

lemma separator_free_split_loop:
  "groups \<noteq> [] \<Longrightarrow> separator_free sep groups \<Longrightarrow> separator_free sep (split_loop sep ss groups)"
proof (induction ss arbitrary: groups)
  case (Cons s ss)
  have "list_all (\<lambda>p. sep \<notin> set p) (split_on sep (ps_text s))"
    by (auto simp: list_all_iff dest: split_on_parts)
  then have "separator_free sep (push_pieces True (split_on sep (ps_text s)) groups)"
    using Cons.prems by (intro separator_free_push_pieces)
  moreover have "push_pieces True (split_on sep (ps_text s)) groups \<noteq> []"
    using push_pieces_extended [OF Cons.prems(1), of "split_on sep (ps_text s)" sep True]
    by (simp add: extended_def)
  ultimately show ?case
    using Cons by (simp add: separator_free_push_last)
qed simp

section \<open>Properties\<close>

definition period_guarded :: "bool \<Rightarrow> pattern_item list \<Rightarrow> string \<Rightarrow> bool" where
  "period_guarded periodGuard items t \<longleftrightarrow>
    periodGuard \<and> take 1 t = ''.'' \<and> take 1 items \<noteq> [Literal (CHR ''.'')]"

lemma take_1_eq: "take 1 xs = [x] \<longleftrightarrow> xs \<noteq> [] \<and> hd xs = x"
  by (cases xs) auto

text \<open>C36: 
  The single-star backtracking matcher agrees with the meaning of a pattern, in which every star
  may stand for any run of characters: it returns, does not throw, and says yes exactly on the
  texts the pattern denotes, except that under the period guard a leading period must be matched
  by a literal period.
\<close>

theorem matchPattern_implements_pattern:
  assumes "list_all item_known items"
  shows "matchPattern periodGuard items t = Inr (denotes items t \<and> \<not> period_guarded periodGuard items t)"
  using assms unfolding matchPattern_def period_guarded_def take_1_eq
  by (auto simp: match_loop_correct star_state_def star_known_def by_star_def)

theorem matchPattern_implements_pattern_witness:
  "matchPattern True (compilePattern [\<lparr>ps_text = ''*a*[[:digit:]]'', ps_quoted = False\<rparr>]) ''xaxa7'' = Inr True"
proof -
  have c: "compilePattern [\<lparr>ps_text = ''*a*[[:digit:]]'', ps_quoted = False\<rparr>] =
      [Star, Literal (CHR ''a''), Star, Class False [MemberNamed ''digit'']]"
    by code_simp
  have k: "list_all item_known [Star, Literal (CHR ''a''), Star, Class False [MemberNamed ''digit'']]"
    by code_simp
  have "denotes [Star, Literal (CHR ''a''), Star, Class False [MemberNamed ''digit'']] ''xaxa7''"
    by code_simp
  then show ?thesis
    using matchPattern_implements_pattern [OF k, of True "''xaxa7''"] by (simp add: c period_guarded_def)
qed

text \<open>
  A compiled pattern throws only when a bracket names a property that every JavaScript object
  inherits (\<open>name in CHARACTER_CLASSES\<close> finds it, \<open>.test\<close> is not a function of it).
\<close>

theorem match_throws_only_on_inherited_names:
  assumes "matchPattern periodGuard (compilePattern segments) t = Inl e"
  shows "\<exists>n. e = NotAClass n \<and> n \<in> set inherited_names"
proof -
  obtain n where e: "e = NotAClass n" by (cases e)
  have "match_loop (compilePattern segments) t None = Inl (NotAClass n)"
    using assms e by (auto simp: matchPattern_def split: if_splits)
  then have "throws (compilePattern segments) n"
    by (rule match_loop_error) simp_all
  then show ?thesis
    using e throws_inherited compilePattern_compiled by blast
qed

theorem match_throws_only_on_inherited_names_witness:
  "matchPattern False (compilePattern [\<lparr>ps_text = ''[[:constructor:]]'', ps_quoted = False\<rparr>]) ''x'' = Inl (NotAClass ''constructor'') \<and>
    (\<exists>n. NotAClass ''constructor'' = NotAClass n \<and> n \<in> set inherited_names)"
proof -
  have "matchPattern False (compilePattern [\<lparr>ps_text = ''[[:constructor:]]'', ps_quoted = False\<rparr>]) ''x'' = Inl (NotAClass ''constructor'')"
    by code_simp
  from conjI [OF this match_throws_only_on_inherited_names [OF this]] show ?thesis .
qed

text \<open>
  Quoted text has no pattern meaning: a pattern whose segments are all quoted matches its own text
  and nothing else, with or without the period guard.
\<close>

theorem quoted_pattern_is_literal:
  assumes "list_all ps_quoted segments"
  shows "matchPattern periodGuard (compilePattern segments) t = Inr (t = segmentsToText segments)"
proof (cases "periodGuard \<and> t \<noteq> [] \<and> hd t = CHR ''.''")
  case True
  then show ?thesis
    using assms by (cases "segmentsToText segments"; cases t)
      (auto simp: compilePattern_quoted matchPattern_def match_loop_correct Literals_known
        star_known_def star_state_def by_star_def item_known_def denotes_Literals list_all_iff)
next
  case False
  then show ?thesis
    using assms by (auto simp: compilePattern_quoted matchPattern_def match_loop_correct Literals_known
        star_known_def star_state_def by_star_def denotes_Literals)
qed

theorem quoted_pattern_is_literal_witness:
  "matchPattern True (compilePattern [\<lparr>ps_text = ''*.t'', ps_quoted = True\<rparr>]) ''*.t'' = Inr True \<and>
   matchPattern True (compilePattern [\<lparr>ps_text = ''*.t'', ps_quoted = True\<rparr>]) ''a.t'' = Inr False"
  using quoted_pattern_is_literal [of "[\<lparr>ps_text = ''*.t'', ps_quoted = True\<rparr>]" True] by simp

text \<open>
  The trimming operators find the best prefix and the best suffix: the longest or the shortest one
  the pattern denotes, and minus one exactly when none does.
\<close>

theorem trimming_finds_best:
  assumes "list_all item_known items"
  shows "(\<exists>r. matchPrefix items t longest = Inr r \<and>
            best_length (\<lambda>n. denotes items (take n t)) (length t) longest r) \<and>
         (\<exists>r. matchSuffix items t longest = Inr r \<and>
            best_length (\<lambda>n. denotes items (drop (length t - n) t)) (length t) longest r)"
  unfolding matchPrefix_def matchSuffix_def
  by (intro conjI first_length_best matchPattern_denotes assms)

theorem trimming_finds_best_witness:
  "matchSuffix [Literal (CHR ''.''), Star] ''a.b.c'' False = Inr 2 \<and>
    (\<exists>r. matchSuffix [Literal (CHR ''.''), Star] ''a.b.c'' False = Inr r \<and>
      best_length (\<lambda>n. denotes [Literal (CHR ''.''), Star] (drop (length ''a.b.c'' - n) ''a.b.c'')) (length ''a.b.c'') False r)"
proof -
  have "list_all item_known [Literal (CHR ''.''), Star]" by (simp add: item_known_def)
  from trimming_finds_best [OF this, of "''a.b.c''" False]
  have "\<exists>r. matchSuffix [Literal (CHR ''.''), Star] ''a.b.c'' False = Inr r \<and>
      best_length (\<lambda>n. denotes [Literal (CHR ''.''), Star] (drop (length ''a.b.c'' - n) ''a.b.c'')) (length ''a.b.c'') False r"
    by (rule conjunct2)
  moreover have "matchSuffix [Literal (CHR ''.''), Star] ''a.b.c'' False = Inr 2"
    by code_simp
  ultimately show ?thesis by blast
qed

text \<open>
  Splitting pattern segments at a separator loses nothing: joining the groups' texts with the
  separator gives the text of the segments back, and no unquoted segment of a group still contains
  the separator.
\<close>

theorem splitSegments_round_trip:
  "join [separator] (map segmentsToText (splitSegments segments separator)) = segmentsToText segments \<and>
   separator_free separator (splitSegments segments separator)"
  using split_loop_extended [of "[[]]" separator segments] separator_free_split_loop [of "[[]]" separator segments]
  by (simp add: splitSegments_def extended_def groups_text_def separator_free_def)

end
