(* ===== verification/Shell_Filesystem.thy ===== *)
theory Shell_Filesystem
  imports Shell_Core Workspace_Path
begin

text \<open>
  The file system a script sees (\<open>execution/shell/filesystem.ts\<close>): one mounted workspace subtree and a
  scratch tree, in memory, with its own directories.

  The files are a \<open>Map\<close> from path to node and the directories a \<open>Set\<close>, both in insertion
  order. An operation that throws leaves the state it reached, so mutating operations are
  outcomes over the file system. The time of a write (\<open>new Date().toISOString()\<close>) is an argument.
  \<open>HostError\<close> is the plain \<open>Error\<close> that \<open>normalizeWorkspacePath\<close> throws, which is no \<open>ShellCommandError\<close>.
\<close>

section \<open>State and paths\<close>

definition AIRSHIP_SH_MAX_FILES :: nat where
  "AIRSHIP_SH_MAX_FILES = 256"

definition AIRSHIP_SH_MAX_FILE_BYTES :: nat where
  "AIRSHIP_SH_MAX_FILE_BYTES = 512 * 1024"

definition AIRSHIP_SH_MAX_WORKSPACE_BYTES :: nat where
  "AIRSHIP_SH_MAX_WORKSPACE_BYTES = 4 * 1024 * 1024"

definition AIRSHIP_SH_SCRATCH_ROOT :: string where
  "AIRSHIP_SH_SCRATCH_ROOT = ''/tmp''"

definition AIRSHIP_SH_EXCLUDED_SEGMENTS :: "string list" where
  "AIRSHIP_SH_EXCLUDED_SEGMENTS = [''.airship'', ''.git'', ''node_modules'']"

type_synonym bytes = "char list"

record file_node =
  fn_bytes :: bytes
  fn_updatedAt :: string

record shell_file_entry =
  se_path :: string
  se_bytes :: bytes
  se_revision :: string
  se_updatedAt :: string

record shell_fs =
  fs_root :: string
  fs_files :: "(string \<times> file_node) list"
  fs_directories :: "string list"
  fs_current :: string
  fs_startedAt :: string

datatype stat_kind = FileStat | DirectoryStat

record shell_stat =
  st_kind :: stat_kind
  st_size :: nat
  st_updatedAt :: string

text \<open>The text before the last slash of a path, and the text after it.\<close>

definition after_slash :: "string \<Rightarrow> string" where
  "after_slash path = rev (takeWhile (\<lambda>c. c \<noteq> CHR ''/'') (rev path))"

definition before_slash :: "string \<Rightarrow> string" where
  "before_slash path = take (length path - length (after_slash path) - 1) path"

definition parentPath :: "string \<Rightarrow> string" where
  "parentPath path =
    (if path = ''/'' then ''/''
     else if CHR ''/'' \<notin> set path \<or> before_slash path = [] then ''/''
     else before_slash path)"

definition baseName :: "string \<Rightarrow> string" where
  "baseName path = (if path = ''/'' then ''/'' else after_slash path)"

definition joinPath :: "string \<Rightarrow> string \<Rightarrow> string" where
  "joinPath directory name = (if directory = ''/'' then CHR ''/'' # name else directory @ ''/'' @ name)"

definition noSuchFile :: "string \<Rightarrow> shell_error" where
  "noSuchFile path = ShellCommandError (path @ '': No such file or directory'') 1"

section \<open>Reading\<close>

text \<open>The loop of \<open>resolve\<close> over the parts of a path; the kept parts are held last first.\<close>

fun resolve_parts :: "string list \<Rightarrow> string list \<Rightarrow> string list" where
  "resolve_parts kept [] = rev kept"
| "resolve_parts kept (part # ps) =
    (if part = [] \<or> part = ''.'' then resolve_parts kept ps
     else if part = ''..'' then resolve_parts (tl kept) ps
     else resolve_parts (part # kept) ps)"

definition fs_resolve :: "shell_fs \<Rightarrow> string \<Rightarrow> shell_error + string" where
  "fs_resolve fs input =
    (if CHR 0x00 \<in> set input then Inl (ShellCommandError (''invalid path: '' @ input) 1)
     else let base = (if prefix ''/'' input then input
                      else (if fs_current fs = ''/'' then [] else fs_current fs) @ ''/'' @ input)
       in Inr (CHR ''/'' # join ''/'' (resolve_parts [] (split_on CHR ''/'' base))))"

definition isFile :: "shell_fs \<Rightarrow> string \<Rightarrow> bool" where
  "isFile fs path \<longleftrightarrow> path \<in> fst ` set (fs_files fs)"

definition isDirectory :: "shell_fs \<Rightarrow> string \<Rightarrow> bool" where
  "isDirectory fs path \<longleftrightarrow> path \<in> set (fs_directories fs)"

definition fs_exists :: "shell_fs \<Rightarrow> string \<Rightarrow> bool" where
  "fs_exists fs path \<longleftrightarrow> isFile fs path \<or> isDirectory fs path"

definition fs_stat :: "shell_fs \<Rightarrow> string \<Rightarrow> shell_error + shell_stat" where
  "fs_stat fs path =
    (case map_of (fs_files fs) path of
       Some file \<Rightarrow> Inr \<lparr>st_kind = FileStat, st_size = length (fn_bytes file), st_updatedAt = fn_updatedAt file\<rparr>
     | None \<Rightarrow>
         if isDirectory fs path
         then Inr \<lparr>st_kind = DirectoryStat, st_size = 0, st_updatedAt = fs_startedAt fs\<rparr>
         else Inl (noSuchFile path))"

definition readFile :: "shell_fs \<Rightarrow> string \<Rightarrow> shell_error + bytes" where
  "readFile fs path =
    (case map_of (fs_files fs) path of
       Some file \<Rightarrow> Inr (fn_bytes file)
     | None \<Rightarrow>
         if isDirectory fs path then Inl (ShellCommandError (path @ '': Is a directory'') 1)
         else Inl (noSuchFile path))"

definition directory_prefix :: "string \<Rightarrow> string" where
  "directory_prefix path = (if path = ''/'' then ''/'' else path @ ''/'')"

definition child_name :: "string \<Rightarrow> string \<Rightarrow> string" where
  "child_name path candidate = takeWhile (\<lambda>c. c \<noteq> CHR ''/'') (drop (length (directory_prefix path)) candidate)"

definition child_names :: "shell_fs \<Rightarrow> string \<Rightarrow> string list" where
  "child_names fs path =
    sort_by code_unit_cmp (remdups (map (child_name path)
      (filter (\<lambda>candidate. candidate \<noteq> path \<and> prefix (directory_prefix path) candidate)
        (map fst (fs_files fs) @ fs_directories fs))))"

definition fs_list :: "shell_fs \<Rightarrow> string \<Rightarrow> shell_error + string list" where
  "fs_list fs path =
    (if \<not> isDirectory fs path then Inl (ShellCommandError (path @ '': Not a directory'') 1)
     else Inr (child_names fs path))"

definition fs_collect :: "shell_fs \<Rightarrow> (string \<times> bytes) list" where
  "fs_collect fs =
    map (\<lambda>(path, node). (path, fn_bytes node))
      (sort_by (\<lambda>a b. code_unit_cmp (fst a) (fst b))
        (filter (\<lambda>(path, _). prefix (fs_root fs @ ''/'') path) (fs_files fs)))"

definition emptyCreatedDirectories :: "shell_fs \<Rightarrow> string list" where
  "emptyCreatedDirectories fs =
    sort_by code_unit_cmp
      (filter (\<lambda>path. \<not> list_ex (\<lambda>file. prefix (path @ ''/'') file) (map fst (fs_files fs)))
        (filter (\<lambda>path. prefix (fs_root fs @ ''/'') path) (fs_directories fs)))"

definition totalBytes :: "shell_fs \<Rightarrow> nat" where
  "totalBytes fs = sum_list (map (\<lambda>(_, node). length (fn_bytes node)) (fs_files fs))"

section \<open>Writing\<close>

definition path_error_text :: "path_error \<Rightarrow> string" where
  "path_error_text e = (case e of
     InvalidPathText \<Rightarrow> ''Workspace paths must be non-empty UTF-8 paths without control characters or backslashes.''
   | DotSegment \<Rightarrow> ''Workspace paths cannot contain . or ..''
   | OutsideWorkspace \<Rightarrow> ''Workspace paths must stay inside /workspace.'')"

definition assertWritablePath :: "shell_fs \<Rightarrow> string \<Rightarrow> shell_error + unit" where
  "assertWritablePath fs path =
    (if path = AIRSHIP_SH_SCRATCH_ROOT \<or> prefix (AIRSHIP_SH_SCRATCH_ROOT @ ''/'') path then Inr ()
     else if path \<noteq> fs_root fs \<and> \<not> prefix (fs_root fs @ ''/'') path
     then Inl (ShellCommandError (path @ '': Read-only file system outside '' @ fs_root fs @ '' and '' @ AIRSHIP_SH_SCRATCH_ROOT) 1)
     else
       let relative = (if path = fs_root fs then [] else split_on CHR ''/'' (drop (length (fs_root fs) + 1) path))
       in case List.find (\<lambda>segment. segment \<in> set AIRSHIP_SH_EXCLUDED_SEGMENTS) relative of
            Some excluded \<Rightarrow> Inl (ShellCommandError (path @ '': airship-sh excludes the '' @ excluded @ '' path segment'') 1)
          | None \<Rightarrow>
              (case isWorkspaceControlPlanePath path of
                 Inl e \<Rightarrow> Inl (HostError (path_error_text e))
               | Inr True \<Rightarrow> Inl (ShellCommandError (path @ '': airship-sh excludes control-plane paths'') 1)
               | Inr False \<Rightarrow> Inr ()))"

definition on_fs :: "shell_fs \<Rightarrow> shell_error + shell_fs \<Rightarrow> (shell_fs, unit) outcome" where
  "on_fs fs r = (case r of Inl e \<Rightarrow> (fs, Inl e) | Inr fs' \<Rightarrow> (fs', Inr ()))"

definition writeFile :: "string \<Rightarrow> shell_fs \<Rightarrow> string \<Rightarrow> bytes \<Rightarrow> bool \<Rightarrow> (shell_fs, unit) outcome" where
  "writeFile stamp fs path bytes appending =
    on_fs fs (bind_result (assertWritablePath fs path) (\<lambda>_.
      if isDirectory fs path then Inl (ShellCommandError (path @ '': Is a directory'') 1)
      else if \<not> isDirectory fs (parentPath path) then Inl (noSuchFile path)
      else
        let existing = map_of (fs_files fs) path;
            next = (case existing of Some file \<Rightarrow> if appending then fn_bytes file @ bytes else bytes | None \<Rightarrow> bytes);
            projected = totalBytes fs - (case existing of Some file \<Rightarrow> length (fn_bytes file) | None \<Rightarrow> 0) + length next
        in if AIRSHIP_SH_MAX_FILE_BYTES < length next
           then Inl (ShellCommandError (path @ '': file exceeds the '' @ dec_nat AIRSHIP_SH_MAX_FILE_BYTES @ ''-byte airship-sh limit'') 1)
           else if existing = None \<and> AIRSHIP_SH_MAX_FILES \<le> length (fs_files fs)
           then Inl (ShellCommandError (''airship-sh filesystem exceeds '' @ dec_nat AIRSHIP_SH_MAX_FILES @ '' files'') 1)
           else if AIRSHIP_SH_MAX_WORKSPACE_BYTES < projected
           then Inl (ShellCommandError (''airship-sh filesystem exceeds '' @ dec_nat AIRSHIP_SH_MAX_WORKSPACE_BYTES @ '' bytes'') 1)
           else Inr (fs\<lparr>fs_files := AList.update path \<lparr>fn_bytes = next, fn_updatedAt = stamp\<rparr> (fs_files fs)\<rparr>)))"

definition touch :: "string \<Rightarrow> shell_fs \<Rightarrow> string \<Rightarrow> (shell_fs, unit) outcome" where
  "touch stamp fs path =
    (case assertWritablePath fs path of
       Inl e \<Rightarrow> (fs, Inl e)
     | Inr _ \<Rightarrow>
         (case map_of (fs_files fs) path of
            Some existing \<Rightarrow> (fs\<lparr>fs_files := AList.update path (existing\<lparr>fn_updatedAt := stamp\<rparr>) (fs_files fs)\<rparr>, Inr ())
          | None \<Rightarrow> writeFile stamp fs path [] False))"

definition removeFile :: "shell_fs \<Rightarrow> string \<Rightarrow> (shell_fs, unit) outcome" where
  "removeFile fs path =
    on_fs fs (bind_result (assertWritablePath fs path) (\<lambda>_.
      if \<not> isFile fs path then Inl (noSuchFile path)
      else Inr (fs\<lparr>fs_files := AList.delete path (fs_files fs)\<rparr>)))"

lemma parentPath_shorter:
  assumes "path \<noteq> ''/''" "path \<noteq> []"
  shows "length (parentPath path) < length path \<or> parentPath path = ''/''"
proof (cases "CHR ''/'' \<notin> set path \<or> before_slash path = []")
  case False
  then have "length (before_slash path) < length path" using assms by (auto simp: before_slash_def)
  with False assms show ?thesis by (simp add: parentPath_def)
qed (simp add: parentPath_def)

function addDirectoryChain :: "string list \<Rightarrow> string \<Rightarrow> string list" where
  "addDirectoryChain directories current =
    (if current \<in> set directories then directories
     else if current = ''/'' then directories @ [current]
     else addDirectoryChain (directories @ [current]) (parentPath current))"
  by pat_completeness auto
termination
proof (relation "measures [\<lambda>(_, current). (if current = ''/'' then 0 else 1), \<lambda>(_, current). length current]", goal_cases)
  case (2 directories current)
  then show ?case using parentPath_shorter [of current] by (cases "current = []") (auto simp: parentPath_def)
qed simp

declare addDirectoryChain.simps [simp del]

definition makeDirectory :: "shell_fs \<Rightarrow> string \<Rightarrow> bool \<Rightarrow> (shell_fs, unit) outcome" where
  "makeDirectory fs path recursive =
    on_fs fs (bind_result (assertWritablePath fs path) (\<lambda>_.
      if isFile fs path then Inl (ShellCommandError (path @ '': File exists'') 1)
      else if isDirectory fs path
      then (if \<not> recursive then Inl (ShellCommandError (path @ '': File exists'') 1) else Inr fs)
      else if \<not> recursive \<and> \<not> isDirectory fs (parentPath path) then Inl (noSuchFile path)
      else Inr (fs\<lparr>fs_directories := addDirectoryChain (fs_directories fs) path\<rparr>)))"

definition removeDirectory :: "shell_fs \<Rightarrow> string \<Rightarrow> (shell_fs, unit) outcome" where
  "removeDirectory fs path =
    on_fs fs (bind_result (assertWritablePath fs path) (\<lambda>_.
      if \<not> isDirectory fs path then Inl (noSuchFile path)
      else if path = fs_root fs \<or> path = AIRSHIP_SH_SCRATCH_ROOT
      then Inl (ShellCommandError (path @ '': cannot remove a mount root'') 1)
      else bind_result (fs_list fs path) (\<lambda>names.
        if names \<noteq> [] then Inl (ShellCommandError (path @ '': Directory not empty'') 1)
        else Inr (fs\<lparr>fs_directories := removeAll path (fs_directories fs)\<rparr>))))"

definition changeDirectory :: "shell_fs \<Rightarrow> string \<Rightarrow> (shell_fs, unit) outcome" where
  "changeDirectory fs path =
    on_fs fs
      (if \<not> isDirectory fs path
       then (if isFile fs path then Inl (ShellCommandError (path @ '': Not a directory'') 1) else Inl (noSuchFile path))
       else Inr (fs\<lparr>fs_current := path\<rparr>))"

text \<open>
  \<open>rm -r\<close>: the children are listed once, before the first of them is removed. The recursion runs on
  the engine's call stack, whose remaining depth is the first argument; without any left the engine
  throws a \<open>RangeError\<close>.
\<close>

definition stack_overflow :: shell_error where
  "stack_overflow = HostError ''Maximum call stack size exceeded''"

function (sequential) removeTree :: "nat \<Rightarrow> shell_fs \<Rightarrow> string \<Rightarrow> (shell_fs, unit) outcome"
  and removeChildren :: "nat \<Rightarrow> shell_fs \<Rightarrow> string \<Rightarrow> string list \<Rightarrow> (shell_fs, unit) outcome" where
  "removeTree 0 fs path = (fs, Inl stack_overflow)"
| "removeTree (Suc stack) fs path =
    (if isFile fs path then removeFile fs path
     else if \<not> isDirectory fs path then (fs, Inl (noSuchFile path))
     else then_do (removeChildren stack fs path (child_names fs path)) (\<lambda>fs _. removeDirectory fs path))"
| "removeChildren stack fs path [] = (fs, Inr ())"
| "removeChildren stack fs path (child # names) =
    then_do (removeTree stack fs (joinPath path child)) (\<lambda>fs _. removeChildren stack fs path names)"
  by pat_completeness auto
termination
  by (relation "measures [case_sum fst fst, case_sum (\<lambda>_. 0) (\<lambda>(_, _, _, names). Suc (length names))]") auto

definition ShellFileSystem :: "string \<Rightarrow> shell_file_entry list \<Rightarrow> string \<Rightarrow> shell_fs" where
  "ShellFileSystem root entries startedAt =
    (let mounted = addDirectoryChain (addDirectoryChain [''/''] root) AIRSHIP_SH_SCRATCH_ROOT
     in \<lparr>fs_root = root,
         fs_files = fold (\<lambda>e files. AList.update (se_path e) \<lparr>fn_bytes = se_bytes e, fn_updatedAt = se_updatedAt e\<rparr> files) entries [],
         fs_directories = fold (\<lambda>e directories. addDirectoryChain directories (parentPath (se_path e))) entries mounted,
         fs_current = root, fs_startedAt = startedAt\<rparr>)"


section \<open>Canonical paths\<close>

definition plain_segment :: "string \<Rightarrow> bool" where
  "plain_segment s \<longleftrightarrow> s \<noteq> [] \<and> CHR ''/'' \<notin> set s \<and> CHR 0x00 \<notin> set s \<and> s \<noteq> ''.'' \<and> s \<noteq> ''..''"

definition path_of :: "string list \<Rightarrow> string" where
  "path_of ps = CHR ''/'' # join ''/'' ps"

definition segments :: "string \<Rightarrow> string list" where
  "segments p = filter (\<lambda>s. s \<noteq> []) (split_on CHR ''/'' p)"

definition canonical :: "string \<Rightarrow> bool" where
  "canonical p \<longleftrightarrow> p = path_of (segments p) \<and> list_all plain_segment (segments p)"

lemma path_of_Nil [simp]: "path_of [] = ''/''"
  by (simp add: path_of_def)

lemma plain_no_slash: "list_all plain_segment ps \<Longrightarrow> s \<in> set ps \<Longrightarrow> CHR ''/'' \<notin> set s"
  by (auto simp: list_all_iff plain_segment_def)

lemma plain_ne: "list_all plain_segment ps \<Longrightarrow> s \<in> set ps \<Longrightarrow> s \<noteq> []"
  by (auto simp: list_all_iff plain_segment_def)

lemma split_path_of: "list_all plain_segment ps \<Longrightarrow> ps \<noteq> [] \<Longrightarrow> split_on CHR ''/'' (path_of ps) = [] # ps"
  using split_on_join [of ps "CHR ''/''"] plain_no_slash [of ps] by (auto simp: path_of_def)

lemma segments_path_of [simp]: "list_all plain_segment ps \<Longrightarrow> segments (path_of ps) = ps"
  using plain_ne [of ps] by (cases "ps = []") (auto simp: segments_def split_path_of filter_id_conv)

lemma canonical_path_of [simp]: "list_all plain_segment ps \<Longrightarrow> canonical (path_of ps)"
  by (simp add: canonical_def)

lemma canonicalE:
  assumes "canonical p"
  obtains ps where "p = path_of ps" "list_all plain_segment ps"
  using assms by (auto simp: canonical_def)

lemma path_of_inject: "list_all plain_segment ps \<Longrightarrow> list_all plain_segment qs \<Longrightarrow> path_of ps = path_of qs \<longleftrightarrow> ps = qs"
  using segments_path_of by metis

lemma path_of_snoc: "path_of (ps @ [s]) = (if ps = [] then CHR ''/'' # s else path_of ps @ ''/'' @ s)"
  by (simp add: path_of_def join_append)

lemma path_of_append: "ps \<noteq> [] \<Longrightarrow> qs \<noteq> [] \<Longrightarrow> path_of (ps @ qs) = path_of ps @ ''/'' @ join ''/'' qs"
  by (simp add: path_of_def join_append)

lemma path_of_root_iff: "list_all plain_segment ps \<Longrightarrow> path_of ps = ''/'' \<longleftrightarrow> ps = []"
  using path_of_inject [of ps "[]"] by simp

lemma joinPath_path_of: "list_all plain_segment ps \<Longrightarrow> joinPath (path_of ps) s = path_of (ps @ [s])"
  by (simp add: joinPath_def path_of_snoc path_of_root_iff)

lemma after_slash_snoc: "CHR ''/'' \<notin> set s \<Longrightarrow> after_slash (d @ ''/'' @ s) = s"
proof -
  assume s: "CHR ''/'' \<notin> set s"
  then have "takeWhile (\<lambda>c. c \<noteq> CHR ''/'') (rev s @ CHR ''/'' # rev d) = rev s"
    by (subst takeWhile_append2) auto
  then show ?thesis by (simp add: after_slash_def)
qed

lemma before_slash_snoc: "CHR ''/'' \<notin> set s \<Longrightarrow> before_slash (d @ ''/'' @ s) = d"
  using after_slash_snoc [of s d] by (simp add: before_slash_def)

lemma parentPath_path_of:
  assumes "list_all plain_segment (ps @ [s])"
  shows "parentPath (path_of (ps @ [s])) = path_of ps" "baseName (path_of (ps @ [s])) = s"
proof -
  have s: "CHR ''/'' \<notin> set s" "s \<noteq> []" and ps: "list_all plain_segment ps"
    using assms by (auto simp: plain_segment_def)
  show "parentPath (path_of (ps @ [s])) = path_of ps"
  proof (cases "ps = []")
    case True
    then show ?thesis using before_slash_snoc [OF s(1), of "[]"] by (simp add: parentPath_def path_of_def)
  next
    case False
    have "path_of ps \<noteq> []" "path_of ps @ ''/'' @ s \<noteq> ''/''" by (auto simp: path_of_def)
    with False show ?thesis
      using before_slash_snoc [OF s(1), of "path_of ps"] by (simp add: parentPath_def path_of_snoc)
  qed
  show "baseName (path_of (ps @ [s])) = s"
  proof (cases "ps = []")
    case True
    then show ?thesis using after_slash_snoc [OF s(1), of "[]"] s(2) by (simp add: baseName_def path_of_def)
  next
    case False
    have "path_of ps @ ''/'' @ s \<noteq> ''/''" by (auto simp: path_of_def)
    with False show ?thesis
      using after_slash_snoc [OF s(1), of "path_of ps"] by (simp add: baseName_def path_of_snoc)
  qed
qed

lemma directory_prefix_iff:
  assumes "list_all plain_segment ps" "list_all plain_segment qs"
  shows "prefix (directory_prefix (path_of ps)) (path_of qs) \<and> path_of qs \<noteq> path_of ps \<longleftrightarrow> strict_prefix ps qs"
proof
  assume l: "prefix (directory_prefix (path_of ps)) (path_of qs) \<and> path_of qs \<noteq> path_of ps"
  show "strict_prefix ps qs"
  proof (cases "ps = []")
    case True
    with l show ?thesis by (auto simp: strict_prefix_def)
  next
    case False
    with l assms obtain r where r: "path_of qs = path_of ps @ ''/'' @ r"
      by (auto simp: directory_prefix_def path_of_root_iff prefix_def)
    have "qs \<noteq> []" using r False by (auto simp: path_of_def)
    have "split_on CHR ''/'' (path_of qs) = split_on CHR ''/'' (path_of ps) @ split_on CHR ''/'' r"
      using r by (simp add: split_on_append)
    then have "qs = ps @ split_on CHR ''/'' r"
      using False \<open>qs \<noteq> []\<close> assms by (simp add: split_path_of)
    then show ?thesis by (metis append_self_conv prefix_order.dual_order.strict_iff_order prefixI split_on_not_Nil)
  qed
next
  assume "strict_prefix ps qs"
  then obtain r where r: "qs = ps @ r" "r \<noteq> []" by (auto simp: strict_prefix_def prefix_def)
  have "path_of qs \<noteq> path_of ps" using r assms path_of_inject [of qs ps] by auto
  moreover have "prefix (directory_prefix (path_of ps)) (path_of qs)"
    using r assms by (cases "ps = []") (auto simp: directory_prefix_def path_of_root_iff path_of_append, auto simp: path_of_def)
  ultimately show "prefix (directory_prefix (path_of ps)) (path_of qs) \<and> path_of qs \<noteq> path_of ps" by blast
qed

lemma child_name_path_of:
  assumes "list_all plain_segment (ps @ s # r)"
  shows "child_name (path_of ps) (path_of (ps @ s # r)) = s"
proof -
  have s: "CHR ''/'' \<notin> set s" using assms by (simp add: plain_segment_def)
  have "path_of (ps @ s # r) = directory_prefix (path_of ps) @ join ''/'' (s # r)"
    using assms by (cases "ps = []") (auto simp: directory_prefix_def path_of_root_iff path_of_append, auto simp: path_of_def)
  then have "child_name (path_of ps) (path_of (ps @ s # r)) = takeWhile (\<lambda>c. c \<noteq> CHR ''/'') (join ''/'' (s # r))"
    by (simp add: child_name_def)
  also have "... = s"
  proof (cases r)
    case Nil
    then show ?thesis using s by (simp add: takeWhile_eq_all_conv) blast
  next
    case (Cons a list)
    then show ?thesis using s by (simp add: join_Cons) (subst takeWhile_append2; auto)
  qed
  finally show ?thesis .
qed


lemma resolve_parts_plain:
  "list_all plain_segment kept \<Longrightarrow> (\<And>p. p \<in> set ps \<Longrightarrow> CHR ''/'' \<notin> set p \<and> CHR 0x00 \<notin> set p) \<Longrightarrow>
    list_all plain_segment (resolve_parts kept ps)"
proof (induction kept ps rule: resolve_parts.induct)
  case (2 kept part ps)
  then show ?case by (cases kept) (auto simp: plain_segment_def)
qed auto

lemma resolve_parts_id: "list_all plain_segment ps \<Longrightarrow> resolve_parts kept ps = rev kept @ ps"
  by (induction ps arbitrary: kept) (auto simp: plain_segment_def)

lemma resolve_parts_empty: "resolve_parts kept ([] # ps) = resolve_parts kept ps"
  by simp

lemma nul_path_of: "list_all plain_segment ps \<Longrightarrow> CHR 0x00 \<notin> set (path_of ps)"
proof -
  assume "list_all plain_segment ps"
  then have "CHR 0x00 \<notin> \<Union> (set ` set ps)" by (auto simp: list_all_iff plain_segment_def)
  then have "CHR 0x00 \<notin> set (join ''/'' ps)" using set_join [of "''/''" ps] by auto
  then show ?thesis by (simp add: path_of_def)
qed

lemma resolve_path_of: "list_all plain_segment ps \<Longrightarrow> fs_resolve fs (path_of ps) = Inr (path_of ps)"
proof -
  assume ps: "list_all plain_segment ps"
  have "resolve_parts [] (split_on CHR ''/'' (path_of ps)) = ps"
    using ps by (cases "ps = []") (simp_all add: split_path_of resolve_parts_id)
  moreover have "prefix ''/'' (path_of ps)" by (simp add: path_of_def)
  ultimately show ?thesis
    using nul_path_of [OF ps] by (simp add: fs_resolve_def) (simp add: path_of_def)
qed

section \<open>The tree of files and directories\<close>

definition fs_keys :: "shell_fs \<Rightarrow> string list" where
  "fs_keys fs = map fst (fs_files fs) @ fs_directories fs"

text \<open>
  A well-formed file system: paths are canonical and registered once, the parent of everything is
  a directory, and the root and the scratch tree are there.
\<close>

definition fs_ok :: "shell_fs \<Rightarrow> bool" where
  "fs_ok fs \<longleftrightarrow>
    distinct (map fst (fs_files fs)) \<and> distinct (fs_directories fs) \<and>
    list_all canonical (fs_keys fs) \<and> list_all (\<lambda>k. parentPath k \<in> set (fs_directories fs)) (fs_keys fs) \<and>
    ''/'' \<in> set (fs_directories fs) \<and> fs_root fs \<in> set (fs_directories fs) \<and>
    AIRSHIP_SH_SCRATCH_ROOT \<in> set (fs_directories fs) \<and> canonical (fs_current fs)"

lemma fs_okD:
  assumes "fs_ok fs"
  shows "distinct (map fst (fs_files fs))" "distinct (fs_directories fs)" "k \<in> set (fs_keys fs) \<Longrightarrow> canonical k"
    "k \<in> set (fs_keys fs) \<Longrightarrow> parentPath k \<in> set (fs_directories fs)" "''/'' \<in> set (fs_directories fs)"
    "fs_root fs \<in> set (fs_directories fs)" "AIRSHIP_SH_SCRATCH_ROOT \<in> set (fs_directories fs)" "canonical (fs_current fs)"
  using assms by (auto simp: fs_ok_def list_all_iff)

lemma file_is_key: "isFile fs p \<Longrightarrow> p \<in> set (fs_keys fs)" "isDirectory fs p \<Longrightarrow> p \<in> set (fs_keys fs)"
  by (auto simp: isFile_def isDirectory_def fs_keys_def)

lemma resolve_canonical:
  assumes "canonical (fs_current fs)" "fs_resolve fs input = Inr p"
  shows "canonical p"
proof -
  obtain cs where cs: "fs_current fs = path_of cs" "list_all plain_segment cs" using assms(1) by (elim canonicalE)
  define base where "base = (if prefix ''/'' input then input else (if fs_current fs = ''/'' then [] else fs_current fs) @ ''/'' @ input)"
  have p: "p = path_of (resolve_parts [] (split_on CHR ''/'' base))" and nul: "CHR 0x00 \<notin> set input"
    using assms(2) by (auto simp: fs_resolve_def path_of_def Let_def base_def split: if_splits)
  have nul: "CHR 0x00 \<notin> set base" using nul nul_path_of [OF cs(2)] cs(1) by (auto simp: base_def)
  have "CHR ''/'' \<notin> set q \<and> CHR 0x00 \<notin> set q" if "q \<in> set (split_on CHR ''/'' base)" for q
    using that split_on_parts [of q "CHR ''/''" base] set_split_on [of q "CHR ''/''" base] nul by auto
  then have "list_all plain_segment (resolve_parts [] (split_on CHR ''/'' base))"
    by (intro resolve_parts_plain) auto
  with p show ?thesis by simp
qed

definition dir_closed :: "string set \<Rightarrow> bool" where
  "dir_closed D \<longleftrightarrow> ''/'' \<in> D \<and> (\<forall>ps s. list_all plain_segment (ps @ [s]) \<longrightarrow> path_of (ps @ [s]) \<in> D \<longrightarrow> path_of ps \<in> D)"

lemma dir_closedD: "dir_closed D \<Longrightarrow> list_all plain_segment (ps @ r) \<Longrightarrow> path_of (ps @ r) \<in> D \<Longrightarrow> path_of ps \<in> D"
proof (induction r rule: rev_induct)
  case (snoc s r)
  from snoc.prems have "path_of (ps @ r) \<in> D"
    unfolding dir_closed_def by (metis append.assoc)
  with snoc show ?case by simp
qed simp

lemma fs_ok_closed: "fs_ok fs \<Longrightarrow> dir_closed (set (fs_directories fs))"
  using fs_okD(4,5) parentPath_path_of by (fastforce simp: dir_closed_def fs_keys_def)

lemma fs_ok_ancestor:
  assumes "fs_ok fs" "path_of (ps @ r) \<in> set (fs_keys fs)" "r \<noteq> []" "list_all plain_segment (ps @ r)"
  shows "path_of ps \<in> set (fs_directories fs)"
proof -
  obtain q s where r: "r = q @ [s]" using assms(3) by (cases r rule: rev_cases) auto
  have "path_of (ps @ q) \<in> set (fs_directories fs)"
    using fs_okD(4) [OF assms(1,2)] parentPath_path_of(1) [of "ps @ q" s] assms(4) r by simp
  then show ?thesis
    using dir_closedD [OF fs_ok_closed [OF assms(1)], of ps q] assms(4) r by simp
qed

lemma child_names_iff:
  assumes "fs_ok fs" "list_all plain_segment ps"
  shows "s \<in> set (child_names fs (path_of ps)) \<longleftrightarrow>
    (\<exists>r. list_all plain_segment (ps @ s # r) \<and> path_of (ps @ s # r) \<in> set (fs_keys fs))"
proof
  assume "s \<in> set (child_names fs (path_of ps))"
  then obtain k where k: "k \<in> set (fs_keys fs)" "k \<noteq> path_of ps" "prefix (directory_prefix (path_of ps)) k" "s = child_name (path_of ps) k"
    by (auto simp: child_names_def fs_keys_def)
  then obtain qs where qs: "k = path_of qs" "list_all plain_segment qs"
    using fs_okD(3) [OF assms(1) k(1)] by (elim canonicalE)
  have "strict_prefix ps qs" using k qs(1) directory_prefix_iff [OF assms(2) qs(2)] by simp
  then obtain a r where "qs = ps @ a # r"
    by (metis append_self_conv list.exhaust prefixE strict_prefix_def)
  with k qs child_name_path_of [of ps a r] show "\<exists>r. list_all plain_segment (ps @ s # r) \<and> path_of (ps @ s # r) \<in> set (fs_keys fs)"
    by auto
next
  assume "\<exists>r. list_all plain_segment (ps @ s # r) \<and> path_of (ps @ s # r) \<in> set (fs_keys fs)"
  then obtain r where r: "list_all plain_segment (ps @ s # r)" "path_of (ps @ s # r) \<in> set (fs_keys fs)" by blast
  with directory_prefix_iff [OF assms(2) r(1)] child_name_path_of [OF r(1)]
  show "s \<in> set (child_names fs (path_of ps))"
    by (auto simp: child_names_def fs_keys_def strict_prefix_def image_iff intro!: bexI [of _ "path_of (ps @ s # r)"])
qed

lemma chain_set:
  assumes "dir_closed D0" "list_all plain_segment ps" "set D = D0 \<union> E"
    and "\<And>e. e \<in> E \<Longrightarrow> \<exists>r. r \<noteq> [] \<and> list_all plain_segment (ps @ r) \<and> e = path_of (ps @ r)"
  shows "set (addDirectoryChain D (path_of ps)) = set D \<union> {path_of qs |qs. prefix qs ps}"
  using assms
proof (induction ps arbitrary: D E rule: rev_induct)
  case Nil
  then have "''/'' \<in> set D" by (auto simp: dir_closed_def)
  then show ?case by (auto simp: addDirectoryChain.simps)
next
  case (snoc s ps)
  have E: "path_of (ps @ [s]) \<notin> E" using snoc.prems(2,4) path_of_inject by fastforce
  have ne: "path_of (ps @ [s]) \<noteq> ''/''" using snoc.prems(2) path_of_root_iff [of "ps @ [s]"] by simp
  show ?case
  proof (cases "path_of (ps @ [s]) \<in> set D")
    case True
    then have D0: "path_of (ps @ [s]) \<in> D0" using E snoc.prems(3) by simp
    have "path_of qs \<in> D0" if "prefix qs (ps @ [s])" for qs
    proof -
      from \<open>prefix qs (ps @ [s])\<close> obtain zs where z: "ps @ [s] = qs @ zs" by (elim prefixE)
      then show ?thesis using dir_closedD [OF snoc.prems(1), of qs zs] snoc.prems(2) D0 by metis
    qed
    then show ?thesis using True snoc.prems(3) by (auto simp: addDirectoryChain.simps)
  next
    case False
    have "set (addDirectoryChain (D @ [path_of (ps @ [s])]) (path_of ps)) =
        set (D @ [path_of (ps @ [s])]) \<union> {path_of qs |qs. prefix qs ps}"
    proof (rule snoc.IH [OF snoc.prems(1), of _ "insert (path_of (ps @ [s])) E"])
      fix e assume "e \<in> insert (path_of (ps @ [s])) E"
      then consider "e = path_of (ps @ [s])" | "e \<in> E" by auto
      then show "\<exists>r. r \<noteq> [] \<and> list_all plain_segment (ps @ r) \<and> e = path_of (ps @ r)"
      proof cases
        case 1
        with snoc.prems(2) show ?thesis by (intro exI [of _ "[s]"]) simp
      next
        case 2
        from snoc.prems(4) [OF this] obtain r where "r \<noteq> []" "list_all plain_segment ((ps @ [s]) @ r)" "e = path_of ((ps @ [s]) @ r)"
          by blast
        then show ?thesis by (intro exI [of _ "s # r"]) simp
      qed
    qed (use snoc.prems in auto)
    then show ?thesis
      using False ne parentPath_path_of(1) [OF snoc.prems(2)]
      by (auto simp: addDirectoryChain.simps [of D])
  qed
qed

lemma chain_closed:
  "dir_closed (set D) \<Longrightarrow> list_all plain_segment ps \<Longrightarrow>
    set (addDirectoryChain D (path_of ps)) = set D \<union> {path_of qs |qs. prefix qs ps}"
  by (rule chain_set [of "set D" ps D "{}"]) auto

lemma chain_distinct: "distinct D \<Longrightarrow> distinct (addDirectoryChain D p)"
proof (induction D p rule: addDirectoryChain.induct)
  case (1 D p)
  then show ?case by (cases "p = ''/''") (auto simp: addDirectoryChain.simps [of D])
qed


section \<open>What no script can touch\<close>

definition in_scratch :: "string \<Rightarrow> bool" where
  "in_scratch p \<longleftrightarrow> p = AIRSHIP_SH_SCRATCH_ROOT \<or> prefix (AIRSHIP_SH_SCRATCH_ROOT @ ''/'') p"

definition in_root :: "shell_fs \<Rightarrow> string \<Rightarrow> bool" where
  "in_root fs p \<longleftrightarrow> p = fs_root fs \<or> prefix (fs_root fs @ ''/'') p"

definition excluded_below_root :: "shell_fs \<Rightarrow> string \<Rightarrow> bool" where
  "excluded_below_root fs p \<longleftrightarrow>
    p \<noteq> fs_root fs \<and> list_ex (\<lambda>s. s \<in> set AIRSHIP_SH_EXCLUDED_SEGMENTS) (split_on CHR ''/'' (drop (length (fs_root fs) + 1) p))"

definition protected :: "shell_fs \<Rightarrow> string \<Rightarrow> bool" where
  "protected fs p \<longleftrightarrow> \<not> in_scratch p \<and> (\<not> in_root fs p \<or> excluded_below_root fs p)"

lemma find_None_iff_ex: "List.find P xs = None \<longleftrightarrow> \<not> list_ex P xs"
  by (auto simp: find_None_iff list_ex_iff)

lemma writable_not_protected: "assertWritablePath fs p = Inr () \<Longrightarrow> \<not> protected fs p"
  by (auto simp: assertWritablePath_def protected_def in_scratch_def in_root_def excluded_below_root_def find_None_iff_ex Let_def
      split: if_splits option.splits)

lemma on_fs_cases:
  assumes "on_fs fs r = (fs', u)"
  obtains "fs' = fs" "\<exists>e. u = Inl e \<and> r = Inl e" | "r = Inr fs'" "u = Inr ()"
  using assms by (cases r) (auto simp: on_fs_def)

text \<open>What each operation can change, whether it succeeds or not.\<close>

definition same_outside :: "(string \<Rightarrow> bool) \<Rightarrow> shell_fs \<Rightarrow> shell_fs \<Rightarrow> bool" where
  "same_outside P fs fs' \<longleftrightarrow> fs_root fs' = fs_root fs \<and> fs_startedAt fs' = fs_startedAt fs \<and>
    (\<forall>p. \<not> P p \<longrightarrow> map_of (fs_files fs') p = map_of (fs_files fs) p \<and> (isDirectory fs' p \<longleftrightarrow> isDirectory fs p))"

lemma same_outside_refl [simp]: "same_outside P fs fs"
  by (simp add: same_outside_def)

lemma same_outside_trans: "same_outside P fs fs' \<Longrightarrow> same_outside P fs' fs'' \<Longrightarrow> same_outside P fs fs''"
  by (simp add: same_outside_def)

lemma same_outside_mono: "same_outside P fs fs' \<Longrightarrow> (\<And>p. P p \<Longrightarrow> Q p) \<Longrightarrow> same_outside Q fs fs'"
  by (auto simp: same_outside_def)

lemma protected_root: "fs_root fs' = fs_root fs \<Longrightarrow> protected fs' = protected fs"
  by (simp add: protected_def in_root_def excluded_below_root_def fun_eq_iff)

lemma writeFile_changes:
  assumes "writeFile stamp fs path bs app = (fs', u)"
  shows "same_outside (\<lambda>p. p = path \<and> \<not> protected fs p) fs fs'"
  using assms writable_not_protected [of fs path] unfolding writeFile_def
  by (elim on_fs_cases) (auto simp: result_simps same_outside_def isDirectory_def update_conv' Let_def split: if_splits)

lemma touch_changes:
  assumes "touch stamp fs path = (fs', u)"
  shows "same_outside (\<lambda>p. p = path \<and> \<not> protected fs p) fs fs'"
  using assms writable_not_protected [of fs path] writeFile_changes [of stamp fs path "[]" False fs' u]
  by (auto simp: touch_def same_outside_def isDirectory_def update_conv' split: sum.splits option.splits)

lemma removeFile_changes:
  assumes "removeFile fs path = (fs', u)"
  shows "same_outside (\<lambda>p. p = path \<and> \<not> protected fs p) fs fs'"
  using assms writable_not_protected [of fs path] unfolding removeFile_def
  by (elim on_fs_cases) (auto simp: result_simps same_outside_def isDirectory_def delete_conv' split: if_splits)

lemma removeDirectory_changes:
  assumes "removeDirectory fs path = (fs', u)"
  shows "same_outside (\<lambda>p. p = path \<and> \<not> protected fs p) fs fs'"
  using assms writable_not_protected [of fs path] unfolding removeDirectory_def
  by (elim on_fs_cases) (auto simp: result_simps same_outside_def isDirectory_def split: if_splits)

lemma changeDirectory_changes:
  assumes "changeDirectory fs path = (fs', u)"
  shows "same_outside (\<lambda>p. False) fs fs'"
  using assms unfolding changeDirectory_def
  by (elim on_fs_cases) (auto simp: same_outside_def isDirectory_def split: if_splits)


lemma under_path_of:
  assumes "list_all plain_segment rs" "list_all plain_segment ps" "rs \<noteq> []"
  shows "path_of ps = path_of rs \<or> prefix (path_of rs @ ''/'') (path_of ps) \<longleftrightarrow> prefix rs ps"
proof -
  have "directory_prefix (path_of rs) = path_of rs @ ''/''" using assms by (simp add: directory_prefix_def path_of_root_iff)
  then show ?thesis
    using directory_prefix_iff [OF assms(1,2)] path_of_inject [OF assms(1,2)] by (auto simp: strict_prefix_def)
qed

lemma excluded_path_of:
  assumes "fs_root fs = path_of rs" "list_all plain_segment (rs @ r)" "rs \<noteq> []"
  shows "excluded_below_root fs (path_of (rs @ r)) \<longleftrightarrow> list_ex (\<lambda>s. s \<in> set AIRSHIP_SH_EXCLUDED_SEGMENTS) r"
proof (cases "r = []")
  case True
  with assms show ?thesis by (simp add: excluded_below_root_def)
next
  case False
  have "path_of (rs @ r) \<noteq> path_of rs" using assms False path_of_inject [of "rs @ r" rs] by simp
  moreover have "split_on CHR ''/'' (drop (length (path_of rs) + 1) (path_of (rs @ r))) = r"
    using assms False split_on_join [of r "CHR ''/''"] plain_no_slash [of r] by (simp add: path_of_append)
  ultimately show ?thesis using assms by (simp add: excluded_below_root_def)
qed

lemma directory_prefix_root: "list_all plain_segment ps \<Longrightarrow> \<not> prefix ''//'' (path_of ps)"
proof (cases ps)
  case (Cons x xs)
  assume "list_all plain_segment ps"
  with Cons obtain c cs where "x = c # cs" "c \<noteq> CHR ''/''" by (cases x) (auto simp: plain_segment_def)
  with Cons show ?thesis by (cases xs) (auto simp: path_of_def)
qed simp

lemma scratch_path: "AIRSHIP_SH_SCRATCH_ROOT = path_of [''tmp'']" "list_all plain_segment [''tmp'']"
  by (simp_all add: AIRSHIP_SH_SCRATCH_ROOT_def path_of_def plain_segment_def)

lemma ancestors_known_or_open:
  assumes "fs_ok fs" "list_all plain_segment ps" "\<not> protected fs (path_of ps)" "prefix qs ps"
  shows "path_of qs \<in> set (fs_directories fs) \<or> \<not> protected fs (path_of qs)"
proof -
  have qs: "list_all plain_segment qs" using assms(2,4) by (auto simp: prefix_def)
  obtain rs where rs: "fs_root fs = path_of rs" "list_all plain_segment rs"
    using fs_okD(3,6) [OF assms(1)] by (metis canonicalE file_is_key(2) isDirectory_def)
  have root: "''/'' \<in> set (fs_directories fs)" using fs_okD(5) [OF assms(1)] .
  show ?thesis
  proof (cases "in_scratch (path_of ps)")
    case True
    then have "prefix [''tmp''] ps"
      using under_path_of [OF scratch_path(2) assms(2)] by (simp add: in_scratch_def scratch_path(1))
    with assms(4) have "qs = [] \<or> prefix [''tmp''] qs" by (auto simp: prefix_def append_eq_Cons_conv)
    then show ?thesis
      using root under_path_of [OF scratch_path(2) qs] by (auto simp: protected_def in_scratch_def scratch_path(1))
  next
    case False
    with assms(3) have r: "in_root fs (path_of ps)" "\<not> excluded_below_root fs (path_of ps)" by (auto simp: protected_def)
    show ?thesis
    proof (cases "rs = []")
      case True
      then have "path_of ps = ''/''"
        using r(1) rs(1) assms(2) directory_prefix_root [OF assms(2)] by (auto simp: in_root_def)
      then show ?thesis using root assms(2,4) path_of_root_iff by auto
    next
      case ne: False
      then have pre: "prefix rs ps" using r(1) under_path_of [OF rs(2) assms(2)] rs(1) by (simp add: in_root_def)
      then obtain e where e: "ps = rs @ e" by (elim prefixE)
      consider "prefix rs qs" | "strict_prefix qs rs"
        using pre assms(4) prefix_same_cases by (auto simp: strict_prefix_def)
      then show ?thesis
      proof cases
        case 1
        then obtain d where d: "qs = rs @ d" by (elim prefixE)
        with e assms(4) have "set d \<subseteq> set e" by (auto simp: prefix_def)
        then have "\<not> excluded_below_root fs (path_of qs)"
          using r(2) e d excluded_path_of [OF rs(1) _ ne] assms(2) qs by (auto simp: list_ex_iff)
        moreover have "in_root fs (path_of qs)"
          using 1 under_path_of [OF rs(2) qs ne] rs(1) by (simp add: in_root_def)
        ultimately show ?thesis by (simp add: protected_def)
      next
        case 2
        then obtain d where "rs = qs @ d" by (auto simp: strict_prefix_def prefix_def)
        then show ?thesis
          using dir_closedD [OF fs_ok_closed [OF assms(1)], of qs d] rs fs_okD(6) [OF assms(1)] by auto
      qed
    qed
  qed
qed

lemma makeDirectory_changes:
  assumes "fs_ok fs" "canonical path" "makeDirectory fs path recursive = (fs', u)"
  shows "same_outside (\<lambda>p. \<not> protected fs p) fs fs'"
proof -
  obtain ps where ps: "path = path_of ps" "list_all plain_segment ps" using assms(2) by (elim canonicalE)
  note chain = chain_closed [OF fs_ok_closed [OF assms(1)] ps(2)]
  show ?thesis
    using assms(3) unfolding makeDirectory_def
  proof (elim on_fs_cases, goal_cases)
    case 2
    then have w: "assertWritablePath fs path = Inr ()" by (auto simp: result_simps)
    from 2 have "fs' = fs \<or> fs' = fs\<lparr>fs_directories := addDirectoryChain (fs_directories fs) path\<rparr>"
      by (auto simp: result_simps split: if_splits)
    moreover have "path_of qs \<in> set (fs_directories fs)" if "prefix qs ps" "protected fs (path_of qs)" for qs
      using that ancestors_known_or_open [OF assms(1) ps(2)] writable_not_protected [OF w] ps(1) by blast
    ultimately show ?case
      using chain ps by (auto simp: same_outside_def isDirectory_def)
  qed simp
qed

lemma open_paths_mono: "same_outside (\<lambda>p. p = path \<and> \<not> protected fs p) fs fs' \<Longrightarrow> same_outside (\<lambda>p. \<not> protected fs p) fs fs'"
  by (erule same_outside_mono) auto

lemma removeTree_changes:
  shows "removeTree n fs path = (fs', u) \<Longrightarrow> same_outside (\<lambda>p. \<not> protected fs p) fs fs'"
    and "removeChildren n fs path names = (fs', u) \<Longrightarrow> same_outside (\<lambda>p. \<not> protected fs p) fs fs'"
proof (induction n fs path and n fs path names arbitrary: fs' u and fs' u rule: removeTree_removeChildren.induct)
  case (2 n fs path)
  show ?case
  proof (cases "isFile fs path \<or> \<not> isDirectory fs path")
    case True
    then show ?thesis using 2(2) removeFile_changes [of fs path fs' u] open_paths_mono by (auto split: if_splits)
  next
    case False
    obtain fs1 v where v: "removeChildren n fs path (child_names fs path) = (fs1, v)" by fastforce
    have s: "same_outside (\<lambda>p. \<not> protected fs p) fs fs1" using 2(1) [OF _ _ v] False by auto
    then have "protected fs1 = protected fs" by (intro protected_root) (simp add: same_outside_def)
    with s False 2(2) v show ?thesis
      using removeDirectory_changes [of fs1 path fs' u] open_paths_mono [of path fs1 fs']
      by (cases v) (auto intro: same_outside_trans)
  qed
next
  case (4 n fs path child names)
  obtain fs1 v where v: "removeTree n fs (joinPath path child) = (fs1, v)" by fastforce
  have s: "same_outside (\<lambda>p. \<not> protected fs p) fs fs1" using 4(1) [OF v] .
  then have p: "protected fs1 = protected fs" by (intro protected_root) (simp add: same_outside_def)
  show ?case
  proof (cases v)
    case (Inr x)
    with 4(3) v have "removeChildren n fs1 path names = (fs', u)" by simp
    from 4(2) [OF _ this] v Inr have "same_outside (\<lambda>p. \<not> protected fs1 p) fs1 fs'" by simp
    with s p show ?thesis by (auto intro: same_outside_trans)
  qed (use 4(3) v s in auto)
qed auto


section \<open>Every operation keeps the tree well formed\<close>

lemma keys_update: "set (map fst (AList.update k v al)) = insert k (set (map fst al))"
  by (simp add: dom_update)

lemma fs_ok_add_file:
  assumes "fs_ok fs" "canonical path" "isDirectory fs (parentPath path)"
  shows "fs_ok (fs\<lparr>fs_files := AList.update path node (fs_files fs)\<rparr>)"
  using assms by (auto simp: fs_ok_def fs_keys_def list_all_iff isDirectory_def distinct_update dom_update simp del: list.set_map)

lemma fs_ok_writeFile:
  assumes "fs_ok fs" "canonical path" "writeFile stamp fs path bs app = (fs', u)"
  shows "fs_ok fs'"
  using assms(3) unfolding writeFile_def
  by (elim on_fs_cases) (use assms in \<open>auto simp: result_simps Let_def intro: fs_ok_add_file split: if_splits\<close>)

lemma fs_ok_touch:
  assumes "fs_ok fs" "canonical path" "touch stamp fs path = (fs', u)"
  shows "fs_ok fs'"
proof (cases "map_of (fs_files fs) path")
  case None
  with assms fs_ok_writeFile [OF assms(1,2), of stamp "[]" False fs' u] show ?thesis
    by (auto simp: touch_def split: sum.splits)
next
  case (Some node)
  then have "path \<in> set (fs_keys fs)" using domI [of "map_of (fs_files fs)" path] by (simp add: fs_keys_def dom_map_of_conv_image_fst)
  with Some assms fs_okD(4) [OF assms(1)] show ?thesis
    by (auto simp: touch_def isDirectory_def intro: fs_ok_add_file split: sum.splits)
qed

lemma fs_ok_removeFile:
  assumes "fs_ok fs" "removeFile fs path = (fs', u)"
  shows "fs_ok fs'"
  using assms(2) unfolding removeFile_def
proof (elim on_fs_cases, goal_cases)
  case 2
  then have "fs' = fs\<lparr>fs_files := AList.delete path (fs_files fs)\<rparr>" by (auto simp: result_simps split: if_splits)
  with assms(1) show ?case
    using dom_delete_subset [of path "fs_files fs"] by (auto simp: fs_ok_def fs_keys_def list_all_iff distinct_delete)
qed (use assms in auto)

lemma fs_ok_add_directories:
  assumes "fs_ok fs" "set D = set (fs_directories fs) \<union> N" "distinct D"
    and "\<And>d. d \<in> N \<Longrightarrow> canonical d \<and> parentPath d \<in> set D"
  shows "fs_ok (fs\<lparr>fs_directories := D\<rparr>)"
proof -
  have k: "set (fs_keys (fs\<lparr>fs_directories := D\<rparr>)) = set (fs_keys fs) \<union> N"
    using assms(2) by (auto simp: fs_keys_def)
  have "canonical d \<and> parentPath d \<in> set D" if "d \<in> set (fs_keys fs) \<union> N" for d
    using that assms(2) assms(4) [of d] fs_okD(3,4) [OF assms(1), of d] by blast
  with k assms(2,3) fs_okD [OF assms(1)] show ?thesis
    by (simp add: fs_ok_def list_all_iff)
qed

lemma canonical_parent: "canonical p \<Longrightarrow> canonical (parentPath p)"
proof -
  assume "canonical p"
  then obtain ps where ps: "p = path_of ps" "list_all plain_segment ps" by (elim canonicalE)
  show ?thesis
  proof (cases ps rule: rev_cases)
    case Nil
    then show ?thesis using ps canonical_path_of [of "[]"] by (simp add: parentPath_def)
  next
    case (snoc qs s)
    then show ?thesis using ps parentPath_path_of(1) [of qs s] by simp
  qed
qed

lemma fs_ok_chain:
  assumes "fs_ok fs" "canonical path"
  shows "fs_ok (fs\<lparr>fs_directories := addDirectoryChain (fs_directories fs) path\<rparr>)"
    "path \<in> set (addDirectoryChain (fs_directories fs) path)"
proof -
  obtain ps where ps: "path = path_of ps" "list_all plain_segment ps" using assms(2) by (elim canonicalE)
  note chain = chain_closed [OF fs_ok_closed [OF assms(1)] ps(2)]
  show "path \<in> set (addDirectoryChain (fs_directories fs) path)" using chain ps(1) by auto
  have "parentPath (path_of qs) \<in> set (addDirectoryChain (fs_directories fs) (path_of ps))" if "prefix qs ps" for qs
  proof (cases qs rule: rev_cases)
    case Nil
    then show ?thesis using chain fs_okD(5) [OF assms(1)] by (simp add: parentPath_def)
  next
    case (snoc q s)
    then have "prefix q ps" "list_all plain_segment (q @ [s])" using that ps(2) by (auto simp: prefix_def)
    then show ?thesis using chain parentPath_path_of(1) [of q s] snoc by auto
  qed
  moreover have "canonical (path_of qs)" if "prefix qs ps" for qs
    using that ps(2) by (intro canonical_path_of) (auto simp: prefix_def)
  ultimately show "fs_ok (fs\<lparr>fs_directories := addDirectoryChain (fs_directories fs) path\<rparr>)"
    using fs_ok_add_directories [OF assms(1) chain chain_distinct [OF fs_okD(2) [OF assms(1)]]] ps(1) by blast
qed

lemma fs_ok_makeDirectory:
  assumes "fs_ok fs" "canonical path" "makeDirectory fs path recursive = (fs', u)"
  shows "fs_ok fs'"
  using assms(3) unfolding makeDirectory_def
  by (elim on_fs_cases) (use assms(1) fs_ok_chain(1) [OF assms(1,2)] in \<open>auto simp: result_simps split: if_splits\<close>)

lemma only_child_keeps:
  assumes "fs_ok fs" "canonical path" "child_names fs path = []" "k \<in> set (fs_keys fs)" "parentPath k = path"
  shows "path = ''/''"
proof -
  obtain qs where qs: "k = path_of qs" "list_all plain_segment qs" using fs_okD(3) [OF assms(1,4)] by (elim canonicalE)
  show ?thesis
  proof (cases qs rule: rev_cases)
    case Nil
    then show ?thesis using qs(1) assms(5) by (simp add: parentPath_def)
  next
    case (snoc ps s)
    then have "path = path_of ps" using parentPath_path_of(1) [of ps s] qs assms(5) by simp
    moreover have "s \<in> set (child_names fs (path_of ps))"
      using child_names_iff [OF assms(1), of ps s] qs snoc assms(4) by (auto intro: exI [of _ "[]"])
    ultimately show ?thesis using assms(3) by simp
  qed
qed

lemma root_not_empty: "fs_ok fs \<Longrightarrow> fs_root fs \<noteq> []"
  using fs_okD(3,6) by (metis canonicalE file_is_key(2) isDirectory_def list.distinct(1) path_of_def)

lemma fs_ok_removeDirectory:
  assumes "fs_ok fs" "canonical path" "removeDirectory fs path = (fs', u)"
  shows "fs_ok fs'"
  using assms(3) unfolding removeDirectory_def
proof (elim on_fs_cases, goal_cases)
  case 2
  then have w: "assertWritablePath fs path = Inr ()" and r: "path \<noteq> fs_root fs" "path \<noteq> AIRSHIP_SH_SCRATCH_ROOT"
    and e: "child_names fs path = []" and f: "fs' = fs\<lparr>fs_directories := removeAll path (fs_directories fs)\<rparr>"
    by (auto simp: result_simps fs_list_def split: if_splits)
  have "path \<noteq> ''/''"
  proof
    assume "path = ''/''"
    with w r root_not_empty [OF assms(1)] show False
      by (auto simp: assertWritablePath_def AIRSHIP_SH_SCRATCH_ROOT_def prefix_Cons append_eq_Cons_conv split: if_splits)
  qed
  with only_child_keeps [OF assms(1,2) e] assms(1) f r show ?case
    by (auto simp: fs_ok_def fs_keys_def list_all_iff distinct_removeAll)
qed (use assms in auto)

lemma fs_ok_changeDirectory: "fs_ok fs \<Longrightarrow> changeDirectory fs path = (fs', u) \<Longrightarrow> fs_ok fs'"
proof -
  assume ok: "fs_ok fs" and r: "changeDirectory fs path = (fs', u)"
  have "fs' = fs \<or> (isDirectory fs path \<and> fs' = fs\<lparr>fs_current := path\<rparr>)"
    using r unfolding changeDirectory_def by (elim on_fs_cases) (auto split: if_splits)
  moreover have "isDirectory fs path \<Longrightarrow> canonical path" using fs_okD(3) [OF ok] file_is_key(2) by blast
  ultimately show ?thesis using ok by (auto simp: fs_ok_def fs_keys_def)
qed

lemma fs_ok_removeTree:
  shows "fs_ok fs \<Longrightarrow> canonical path \<Longrightarrow> removeTree n fs path = (fs', u) \<Longrightarrow> fs_ok fs'"
    and "fs_ok fs \<Longrightarrow> canonical path \<Longrightarrow> list_all plain_segment names \<Longrightarrow> removeChildren n fs path names = (fs', u) \<Longrightarrow> fs_ok fs'"
proof (induction n fs path and n fs path names arbitrary: fs' u and fs' u rule: removeTree_removeChildren.induct)
  case (2 n fs path)
  obtain ps where ps: "path = path_of ps" "list_all plain_segment ps" using 2(3) by (elim canonicalE)
  show ?case
  proof (cases "isFile fs path \<or> \<not> isDirectory fs path")
    case True
    then show ?thesis using 2(2,4) fs_ok_removeFile [OF 2(2), of path fs' u] by (auto split: if_splits)
  next
    case False
    obtain fs1 v where v: "removeChildren n fs path (child_names fs path) = (fs1, v)" by fastforce
    have names: "list_all plain_segment (child_names fs path)"
      using child_names_iff [OF 2(2) ps(2)] ps(1) by (auto simp: list_all_iff)
    have "fs_ok fs1" using 2(1) [OF _ _ 2(2,3) names v] False by auto
    with False 2(3,4) v show ?thesis
      using fs_ok_removeDirectory [of fs1 path fs' u] by (cases v) auto
  qed
next
  case (4 n fs path child names)
  obtain ps where ps: "path = path_of ps" "list_all plain_segment ps" using 4(4) by (elim canonicalE)
  obtain fs1 v where v: "removeTree n fs (joinPath path child) = (fs1, v)" by fastforce
  have "canonical (joinPath path child)" using ps 4(5) by (simp add: joinPath_path_of)
  from 4(1) [OF 4(3) this v] have s: "fs_ok fs1" .
  show ?case
  proof (cases v)
    case (Inr x)
    with 4(6) v have "removeChildren n fs1 path names = (fs', u)" by simp
    from 4(2) [OF _ s 4(4) _ this] v Inr 4(5) show ?thesis by simp
  qed (use 4(6) v s in auto)
qed auto


section \<open>Mounting\<close>

lemma chain_keeps_closed:
  assumes "dir_closed D" "list_all plain_segment ps"
  shows "dir_closed (D \<union> {path_of qs |qs. prefix qs ps})"
  unfolding dir_closed_def
proof (intro conjI allI impI)
  fix qs s
  assume qs: "list_all plain_segment (qs @ [s])" and "path_of (qs @ [s]) \<in> D \<union> {path_of qs |qs. prefix qs ps}"
  then consider "path_of (qs @ [s]) \<in> D" | q where "path_of (qs @ [s]) = path_of q" "prefix q ps" by auto
  then show "path_of qs \<in> D \<union> {path_of qs |qs. prefix qs ps}"
  proof cases
    case 1
    then show ?thesis using assms(1) qs by (auto simp: dir_closed_def)
  next
    case (2 q)
    then have "q = qs @ [s]" using path_of_inject [OF qs, of q] assms(2) by (auto simp: prefix_def)
    with 2(2) have "prefix qs ps" by (auto simp: prefix_def)
    then show ?thesis by auto
  qed
qed (use assms in \<open>auto simp: dir_closed_def\<close>)

lemma mount_ok:
  assumes "canonical root" "list_all (\<lambda>e. canonical (se_path e)) entries"
  shows "fs_ok (ShellFileSystem root entries startedAt)"
  using assms(2)
proof (induction entries rule: rev_induct)
  case Nil
  let ?fs = "\<lparr>fs_root = ''/'', fs_files = [], fs_directories = addDirectoryChain [''/''] AIRSHIP_SH_SCRATCH_ROOT, fs_current = root,
    fs_startedAt = startedAt\<rparr>"
  have tmp: "addDirectoryChain [''/''] AIRSHIP_SH_SCRATCH_ROOT = [''/'', ''/tmp'']"
    by (simp add: addDirectoryChain.simps AIRSHIP_SH_SCRATCH_ROOT_def parentPath_def before_slash_def after_slash_def)
  have "canonical ''/''" "canonical ''/tmp''"
    using canonical_path_of [of "[]"] canonical_path_of [OF scratch_path(2)] scratch_path(1)
    by (simp_all add: AIRSHIP_SH_SCRATCH_ROOT_def)
  moreover have "parentPath ''/'' = ''/''" "parentPath ''/tmp'' = ''/''"
    by (simp_all add: parentPath_def before_slash_def after_slash_def)
  moreover note tmp assms(1)
  ultimately have base: "fs_ok ?fs" by (simp add: fs_ok_def fs_keys_def AIRSHIP_SH_SCRATCH_ROOT_def)
  have closed: "dir_closed {''/''}" by (auto simp: dir_closed_def path_of_root_iff)
  obtain rs where rs: "root = path_of rs" "list_all plain_segment rs" using assms(1) by (elim canonicalE)
  have chained: "set (addDirectoryChain [''/''] root) = {''/''} \<union> {path_of qs |qs. prefix qs rs}"
    using chain_closed [of "[''/'']" rs] closed rs by simp
  have root: "fs_ok (?fs\<lparr>fs_root := root, fs_directories := addDirectoryChain (fs_directories ?fs) root\<rparr>)"
    using fs_ok_chain [OF base assms(1)] by (simp add: fs_ok_def fs_keys_def)
  let ?D = "addDirectoryChain (addDirectoryChain [''/''] root) AIRSHIP_SH_SCRATCH_ROOT"
  let ?E = "addDirectoryChain [''/'', ''/tmp''] root"
  have "dir_closed (set (addDirectoryChain [''/''] root))"
    using chain_keeps_closed [OF closed rs(2)] chained by simp
  then have D: "set ?D = {''/''} \<union> {path_of qs |qs. prefix qs rs} \<union> {path_of qs |qs. prefix qs [''tmp'']}"
    using chain_closed [of "addDirectoryChain [''/''] root" "[''tmp'']"] chained scratch_path by simp
  have "dir_closed {''/'', ''/tmp''}" using fs_ok_closed [OF base] tmp by simp
  then have "set ?E = {''/'', ''/tmp''} \<union> {path_of qs |qs. prefix qs rs}"
    using chain_closed [of "[''/'', ''/tmp'']" rs] rs by simp
  with D have "set ?D = set ?E"
    using scratch_path(1) by (auto simp: prefix_Cons AIRSHIP_SH_SCRATCH_ROOT_def)
  with root tmp show ?case
    by (simp add: ShellFileSystem_def fs_ok_def fs_keys_def list_all_iff chain_distinct)
next
  case (snoc e entries)
  let ?fs = "ShellFileSystem root entries startedAt"
  let ?D = "addDirectoryChain (fs_directories ?fs) (parentPath (se_path e))"
  have ok: "fs_ok ?fs" and e: "canonical (se_path e)" using snoc by auto
  have step: "ShellFileSystem root (entries @ [e]) startedAt =
      ?fs\<lparr>fs_directories := ?D, fs_files := AList.update (se_path e) \<lparr>fn_bytes = se_bytes e, fn_updatedAt = se_updatedAt e\<rparr> (fs_files ?fs)\<rparr>"
    by (simp add: ShellFileSystem_def Let_def)
  note chain = fs_ok_chain [OF ok canonical_parent [OF e]]
  show ?case
    using fs_ok_add_file [OF chain(1) e, of "\<lparr>fn_bytes = se_bytes e, fn_updatedAt = se_updatedAt e\<rparr>"] chain(2)
    by (simp add: step isDirectory_def)
qed


section \<open>Limits\<close>

definition fs_within :: "shell_fs \<Rightarrow> bool" where
  "fs_within fs \<longleftrightarrow> length (fs_files fs) \<le> AIRSHIP_SH_MAX_FILES \<and>
    list_all (\<lambda>(_, node). length (fn_bytes node) \<le> AIRSHIP_SH_MAX_FILE_BYTES) (fs_files fs) \<and>
    totalBytes fs \<le> AIRSHIP_SH_MAX_WORKSPACE_BYTES"

lemma sum_update:
  "sum_list (map (\<lambda>(_, n). f n) (AList.update k v al)) + (case map_of al k of Some w \<Rightarrow> f w | None \<Rightarrow> 0) =
    sum_list (map (\<lambda>(_, n). f n) al) + (f v :: nat)"
  by (induction al) auto

lemma length_update_present: "map_of al k \<noteq> None \<Longrightarrow> length (AList.update k v al) = length al"
  by (induction al) auto

lemma list_all_update: "list_all P al \<Longrightarrow> P (k, v) \<Longrightarrow> list_all P (AList.update k v al)"
  by (induction al) auto

lemma within_set_file:
  assumes "fs_within fs" "length (fn_bytes node) \<le> AIRSHIP_SH_MAX_FILE_BYTES"
    and "map_of (fs_files fs) path = None \<Longrightarrow> length (fs_files fs) < AIRSHIP_SH_MAX_FILES"
    and "totalBytes fs - (case map_of (fs_files fs) path of Some file \<Rightarrow> length (fn_bytes file) | None \<Rightarrow> 0) + length (fn_bytes node)
      \<le> AIRSHIP_SH_MAX_WORKSPACE_BYTES"
  shows "fs_within (fs\<lparr>fs_files := AList.update path node (fs_files fs)\<rparr>)"
proof -
  have "totalBytes (fs\<lparr>fs_files := AList.update path node (fs_files fs)\<rparr>) \<le> AIRSHIP_SH_MAX_WORKSPACE_BYTES"
    using sum_update [of "\<lambda>n. length (fn_bytes n)" path node "fs_files fs"] assms(4) by (simp add: totalBytes_def)
  moreover have "length (AList.update path node (fs_files fs)) \<le> AIRSHIP_SH_MAX_FILES"
  proof (cases "map_of (fs_files fs) path")
    case None
    then show ?thesis using assms(3) length_alist_update [of path node "fs_files fs"] by simp
  qed (use assms(1) in \<open>simp add: length_update_present fs_within_def\<close>)
  ultimately show ?thesis
    using assms(1,2) by (simp add: fs_within_def list_all_update)
qed

lemma within_files: "fs_within fs \<Longrightarrow> fs_files fs' = fs_files fs \<Longrightarrow> fs_within fs'"
  by (simp add: fs_within_def totalBytes_def)

lemma within_writeFile:
  assumes "fs_within fs" "writeFile stamp fs path bs app = (fs', u)"
  shows "fs_within fs'"
  using assms(2) unfolding writeFile_def
proof (elim on_fs_cases, goal_cases)
  case 2
  let ?next = "case map_of (fs_files fs) path of Some file \<Rightarrow> if app then fn_bytes file @ bs else bs | None \<Rightarrow> bs"
  from 2 have f: "fs' = fs\<lparr>fs_files := AList.update path \<lparr>fn_bytes = ?next, fn_updatedAt = stamp\<rparr> (fs_files fs)\<rparr>"
    and n: "length ?next \<le> AIRSHIP_SH_MAX_FILE_BYTES"
    "map_of (fs_files fs) path = None \<Longrightarrow> length (fs_files fs) < AIRSHIP_SH_MAX_FILES"
    "totalBytes fs - (case map_of (fs_files fs) path of Some file \<Rightarrow> length (fn_bytes file) | None \<Rightarrow> 0) + length ?next
      \<le> AIRSHIP_SH_MAX_WORKSPACE_BYTES"
    by (auto simp: result_simps Let_def not_less not_le simp del: option.case split: if_splits)
  then show ?case unfolding f by (intro within_set_file [OF assms(1)]) auto
qed (use assms in auto)

lemma within_touch:
  assumes "fs_within fs" "touch stamp fs path = (fs', u)"
  shows "fs_within fs'"
proof (cases "map_of (fs_files fs) path")
  case None
  with assms within_writeFile [OF assms(1), of stamp path "[]" False fs' u] show ?thesis
    by (auto simp: touch_def split: sum.splits)
next
  case (Some node)
  have "(path, node) \<in> set (fs_files fs)" using Some by (rule map_of_SomeD)
  then have "length (fn_bytes node) \<in> set (map (\<lambda>(_, n). length (fn_bytes n)) (fs_files fs))"
    by force
  from member_le_sum_list [OF this] have "length (fn_bytes node) \<le> totalBytes fs" by (simp add: totalBytes_def)
  moreover have "length (fn_bytes node) \<le> AIRSHIP_SH_MAX_FILE_BYTES"
    using assms(1) \<open>(path, node) \<in> set (fs_files fs)\<close> by (auto simp: fs_within_def list_all_iff)
  ultimately have "fs_within (fs\<lparr>fs_files := AList.update path (node\<lparr>fn_updatedAt := stamp\<rparr>) (fs_files fs)\<rparr>)"
    using Some assms(1) by (intro within_set_file) (auto simp: fs_within_def)
  with Some assms show ?thesis by (auto simp: touch_def split: sum.splits)
qed

lemma within_removeFile:
  assumes "fs_within fs" "removeFile fs path = (fs', u)"
  shows "fs_within fs'"
  using assms(2) unfolding removeFile_def
proof (elim on_fs_cases, goal_cases)
  case 2
  then have f: "fs' = fs\<lparr>fs_files := AList.delete path (fs_files fs)\<rparr>" by (auto simp: result_simps split: if_splits)
  have "sum_list (map (\<lambda>(_, n). length (fn_bytes n)) (AList.delete path al)) \<le> sum_list (map (\<lambda>(_, n). length (fn_bytes n)) al)" for al
    by (induction al) auto
  moreover have "set (AList.delete path (fs_files fs)) \<subseteq> set (fs_files fs)" by (auto simp: AList.delete_eq)
  ultimately show ?case
    using assms(1) length_alist_delete [of path "fs_files fs"] unfolding f
    by (auto simp: fs_within_def totalBytes_def list_all_iff intro: le_trans)
qed (use assms in auto)

lemma files_kept:
  "makeDirectory fs path recursive = (fs', u) \<Longrightarrow> fs_files fs' = fs_files fs"
  "removeDirectory fs path = (fs', u) \<Longrightarrow> fs_files fs' = fs_files fs"
  "changeDirectory fs path = (fs', u) \<Longrightarrow> fs_files fs' = fs_files fs"
  unfolding makeDirectory_def removeDirectory_def changeDirectory_def
  by (elim on_fs_cases; auto simp: result_simps split: if_splits)+

lemma within_removeTree:
  shows "fs_within fs \<Longrightarrow> removeTree n fs path = (fs', u) \<Longrightarrow> fs_within fs'"
    and "fs_within fs \<Longrightarrow> removeChildren n fs path names = (fs', u) \<Longrightarrow> fs_within fs'"
proof (induction n fs path and n fs path names arbitrary: fs' u and fs' u rule: removeTree_removeChildren.induct)
  case (2 n fs path)
  obtain fs1 v where v: "removeChildren n fs path (child_names fs path) = (fs1, v)" by fastforce
  show ?case
  proof (cases "isFile fs path \<or> \<not> isDirectory fs path")
    case True
    then show ?thesis using 2(2,3) within_removeFile [OF 2(2), of path fs' u] by (auto split: if_splits)
  next
    case False
    with 2(1) [OF _ _ 2(2) v] have "fs_within fs1" by auto
    with False 2(3) v show ?thesis
      by (cases v) (auto dest: files_kept(2) intro: within_files)
  qed
next
  case (4 n fs path child names)
  obtain fs1 v where v: "removeTree n fs (joinPath path child) = (fs1, v)" by fastforce
  from 4(1) [OF 4(3) v] have s: "fs_within fs1" .
  show ?case
  proof (cases v)
    case (Inr x)
    with 4(4) v have "removeChildren n fs1 path names = (fs', u)" by simp
    from 4(2) [OF _ s this] v Inr show ?thesis by simp
  qed (use 4(4) v s in auto)
qed auto


section \<open>Runs of operations\<close>

text \<open>
  What the commands of a script do to the file system: a path argument is resolved against the
  working directory, then one operation runs. A failed command does not end the script.
\<close>

datatype fs_op =
    WriteOp string bytes bool
  | TouchOp string
  | RemoveFileOp string
  | MakeDirectoryOp string bool
  | RemoveDirectoryOp string
  | RemoveTreeOp string
  | ChangeDirectoryOp string

fun op_path :: "fs_op \<Rightarrow> string" where
  "op_path (WriteOp p _ _) = p" | "op_path (TouchOp p) = p" | "op_path (RemoveFileOp p) = p"
| "op_path (MakeDirectoryOp p _) = p" | "op_path (RemoveDirectoryOp p) = p" | "op_path (RemoveTreeOp p) = p"
| "op_path (ChangeDirectoryOp p) = p"

fun op_at :: "nat \<Rightarrow> string \<Rightarrow> fs_op \<Rightarrow> shell_fs \<Rightarrow> string \<Rightarrow> (shell_fs, unit) outcome" where
  "op_at stack stamp (WriteOp _ bytes appending) fs path = writeFile stamp fs path bytes appending"
| "op_at stack stamp (TouchOp _) fs path = touch stamp fs path"
| "op_at stack stamp (RemoveFileOp _) fs path = removeFile fs path"
| "op_at stack stamp (MakeDirectoryOp _ recursive) fs path = makeDirectory fs path recursive"
| "op_at stack stamp (RemoveDirectoryOp _) fs path = removeDirectory fs path"
| "op_at stack stamp (RemoveTreeOp _) fs path = removeTree stack fs path"
| "op_at stack stamp (ChangeDirectoryOp _) fs path = changeDirectory fs path"

definition fs_step :: "nat \<Rightarrow> string \<times> fs_op \<Rightarrow> shell_fs \<Rightarrow> shell_fs" where
  "fs_step stack call fs =
    (case fs_resolve fs (op_path (snd call)) of
       Inl e \<Rightarrow> fs
     | Inr path \<Rightarrow> fst (op_at stack (fst call) (snd call) fs path))"

definition fs_run :: "nat \<Rightarrow> (string \<times> fs_op) list \<Rightarrow> shell_fs \<Rightarrow> shell_fs" where
  "fs_run stack calls fs = fold (fs_step stack) calls fs"

lemma op_at_keeps:
  assumes "fs_ok fs" "canonical path" "op_at stack stamp operation fs path = (fs', u)"
  shows "fs_ok fs' \<and> same_outside (\<lambda>p. \<not> protected fs p) fs fs' \<and> (fs_within fs \<longrightarrow> fs_within fs')"
proof (cases operation)
  case (WriteOp p bs app)
  then show ?thesis using assms fs_ok_writeFile writeFile_changes open_paths_mono within_writeFile by (metis op_at.simps(1))
next
  case (TouchOp p)
  then show ?thesis using assms fs_ok_touch touch_changes open_paths_mono within_touch by (metis op_at.simps(2))
next
  case (RemoveFileOp p)
  then show ?thesis using assms fs_ok_removeFile removeFile_changes open_paths_mono within_removeFile by (metis op_at.simps(3))
next
  case (MakeDirectoryOp p r)
  then show ?thesis using assms fs_ok_makeDirectory makeDirectory_changes files_kept(1) within_files by (metis op_at.simps(4))
next
  case (RemoveDirectoryOp p)
  then show ?thesis
    using assms fs_ok_removeDirectory removeDirectory_changes open_paths_mono files_kept(2) within_files by (metis op_at.simps(5))
next
  case (RemoveTreeOp p)
  then show ?thesis using assms fs_ok_removeTree(1) removeTree_changes(1) within_removeTree(1) by (metis op_at.simps(6))
next
  case (ChangeDirectoryOp p)
  then have c: "changeDirectory fs path = (fs', u)" using assms(3) by simp
  have "same_outside (\<lambda>p. \<not> protected fs p) fs fs'" by (rule same_outside_mono [OF changeDirectory_changes [OF c]]) simp
  then show ?thesis using fs_ok_changeDirectory [OF assms(1) c] files_kept(3) [OF c] within_files by blast
qed

lemma fs_step_keeps:
  assumes "fs_ok fs"
  shows "fs_ok (fs_step stack call fs) \<and> same_outside (\<lambda>p. \<not> protected fs p) fs (fs_step stack call fs) \<and>
    (fs_within fs \<longrightarrow> fs_within (fs_step stack call fs))"
proof (cases "fs_resolve fs (op_path (snd call))")
  case (Inr path)
  have "canonical path" by (rule resolve_canonical [OF fs_okD(8) [OF assms] Inr])
  then show ?thesis
    using op_at_keeps [OF assms, of path stack "fst call" "snd call"] Inr by (simp add: fs_step_def prod_eq_iff)
qed (simp add: fs_step_def assms)

lemma fs_run_keeps:
  "fs_ok fs \<Longrightarrow> fs_ok (fs_run stack calls fs) \<and> same_outside (\<lambda>p. \<not> protected fs p) fs (fs_run stack calls fs) \<and>
    (fs_within fs \<longrightarrow> fs_within (fs_run stack calls fs))"
proof (induction calls arbitrary: fs)
  case (Cons call calls)
  let ?fs = "fs_step stack call fs"
  have s: "fs_ok ?fs" "same_outside (\<lambda>p. \<not> protected fs p) fs ?fs" "fs_within fs \<longrightarrow> fs_within ?fs"
    using fs_step_keeps [OF Cons.prems] by auto
  have "protected ?fs = protected fs" by (intro protected_root) (use s(2) in \<open>simp add: same_outside_def\<close>)
  with s Cons.IH [OF s(1)] show ?case by (auto simp: fs_run_def intro: same_outside_trans)
qed (simp add: fs_run_def)

text \<open>Whatever commands a script runs on a mounted workspace, with whatever path arguments, working
  directories, and failures in between, it never changes, creates or removes a file or a directory outside the
  mounted root and the scratch tree, or below a \<open>.airship\<close>, \<open>.git\<close> or \<open>node_modules\<close> segment of the root.\<close>

theorem script_confined:
  assumes "canonical root" "list_all (\<lambda>e. canonical (se_path e)) entries"
    and "protected (ShellFileSystem root entries startedAt) p"
  shows "map_of (fs_files (fs_run stack calls (ShellFileSystem root entries startedAt))) p =
      map_of (fs_files (ShellFileSystem root entries startedAt)) p \<and>
    (isDirectory (fs_run stack calls (ShellFileSystem root entries startedAt)) p \<longleftrightarrow>
      isDirectory (ShellFileSystem root entries startedAt) p)"
  using fs_run_keeps [OF mount_ok [OF assms(1,2)], of stack calls startedAt] assms(3) by (auto simp: same_outside_def)

definition demo_mount :: shell_fs where
  "demo_mount = ShellFileSystem ''/workspace''
    [\<lparr>se_path = ''/workspace/.git/config'', se_bytes = ''x'', se_revision = ''r'', se_updatedAt = ''t''\<rparr>,
     \<lparr>se_path = ''/workspace/a'', se_bytes = ''y'', se_revision = ''r'', se_updatedAt = ''t''\<rparr>] ''t''"

theorem script_confined_witness:
  "map_of (fs_files (fs_run 9 [(''u'', ChangeDirectoryOp ''.git''), (''u'', WriteOp ''config'' ''evil'' False), (''u'', RemoveTreeOp ''/workspace'')] demo_mount))
    ''/workspace/.git/config'' = Some \<lparr>fn_bytes = ''x'', fn_updatedAt = ''t''\<rparr>"
proof -
  have "canonical ''/workspace''" "list_all (\<lambda>e. canonical (se_path e))
    [\<lparr>se_path = ''/workspace/.git/config'', se_bytes = ''x'', se_revision = ''r'', se_updatedAt = ''t''\<rparr>,
     \<lparr>se_path = ''/workspace/a'', se_bytes = ''y'', se_revision = ''r'', se_updatedAt = ''t''\<rparr>]"
    "protected demo_mount ''/workspace/.git/config''"
    by code_simp+
  moreover have "map_of (fs_files demo_mount) ''/workspace/.git/config'' = Some \<lparr>fn_bytes = ''x'', fn_updatedAt = ''t''\<rparr>"
    by code_simp
  ultimately show ?thesis
    using script_confined unfolding demo_mount_def by simp
qed

text \<open>C28: Every operation keeps the file system a tree of canonical paths, registered once, with the parent
  of everything a directory and both mount roots in place, and within the limits on the number of files, their size
  and the total size.\<close>

theorem filesystem_invariant:
  assumes "fs_ok fs" "fs_within fs"
  shows "fs_ok (fs_run stack calls fs) \<and> fs_within (fs_run stack calls fs)"
  using fs_run_keeps [OF assms(1)] assms(2) by blast

theorem filesystem_invariant_witness:
  "fs_ok (fs_run 9 [(''u'', MakeDirectoryOp ''d/e'' True), (''u'', RemoveTreeOp ''d'')] demo_mount)"
proof -
  have "fs_ok demo_mount" by code_simp
  moreover have "fs_files demo_mount = [(''/workspace/.git/config'', \<lparr>fn_bytes = ''x'', fn_updatedAt = ''t''\<rparr>),
      (''/workspace/a'', \<lparr>fn_bytes = ''y'', fn_updatedAt = ''t''\<rparr>)]" by code_simp
  then have "fs_within demo_mount"
    by (simp add: fs_within_def totalBytes_def AIRSHIP_SH_MAX_FILES_def AIRSHIP_SH_MAX_FILE_BYTES_def AIRSHIP_SH_MAX_WORKSPACE_BYTES_def)
  ultimately show ?thesis by (intro conjunct1 [OF filesystem_invariant])
qed


section \<open>Removing a tree\<close>

definition below :: "string list \<Rightarrow> string \<Rightarrow> bool" where
  "below ps k \<longleftrightarrow> prefix ps (segments k)"

definition prune :: "(string \<Rightarrow> bool) \<Rightarrow> shell_fs \<Rightarrow> shell_fs" where
  "prune P fs = fs\<lparr>fs_files := filter (\<lambda>e. \<not> P (fst e)) (fs_files fs),
    fs_directories := filter (\<lambda>k. \<not> P k) (fs_directories fs)\<rparr>"

lemma prune_simps [simp]:
  "fs_root (prune P fs) = fs_root fs" "fs_directories (prune P fs) = filter (\<lambda>k. \<not> P k) (fs_directories fs)"
  "isFile (prune P fs) k \<longleftrightarrow> isFile fs k \<and> \<not> P k" "isDirectory (prune P fs) k \<longleftrightarrow> isDirectory fs k \<and> \<not> P k"
  "k \<in> set (fs_keys (prune P fs)) \<longleftrightarrow> k \<in> set (fs_keys fs) \<and> \<not> P k"
  by (auto simp: prune_def isFile_def isDirectory_def fs_keys_def)

lemma prune_prune: "prune P (prune Q fs) = prune (\<lambda>k. P k \<or> Q k) fs"
  by (simp add: prune_def conj_commute)

lemma prune_cong: "(\<And>k. k \<in> set (fs_keys fs) \<Longrightarrow> P k = Q k) \<Longrightarrow> prune P fs = prune Q fs"
  by (auto simp: prune_def fs_keys_def intro!: filter_cong shell_fs.fold_congs)

lemma prune_none: "(\<And>k. k \<in> set (fs_keys fs) \<Longrightarrow> \<not> P k) \<Longrightarrow> prune P fs = fs"
  by (auto simp: prune_def fs_keys_def)

lemma below_path_of [simp]: "list_all plain_segment qs \<Longrightarrow> below ps (path_of qs) \<longleftrightarrow> prefix ps qs"
  by (simp add: below_def)

lemma below_trans: "below (ps @ r) k \<Longrightarrow> below ps k"
  by (auto simp: below_def prefix_def)

text \<open>The tree can be removed: it is writable, holds no mount root, and nothing in it is a file and a directory at once.\<close>

definition removable :: "shell_fs \<Rightarrow> string list \<Rightarrow> bool" where
  "removable fs ps \<longleftrightarrow> (\<forall>k \<in> set (fs_keys fs). below ps k \<longrightarrow>
    assertWritablePath fs k = Inr () \<and> k \<noteq> fs_root fs \<and> k \<noteq> AIRSHIP_SH_SCRATCH_ROOT \<and> \<not> (isFile fs k \<and> isDirectory fs k))"

definition deeper :: "nat \<Rightarrow> shell_fs \<Rightarrow> string list \<Rightarrow> bool" where
  "deeper n fs ps \<longleftrightarrow> (\<forall>k \<in> set (fs_keys fs). below ps k \<longrightarrow> length (segments k) < length ps + n)"

lemma writable_root: "fs_root fs' = fs_root fs \<Longrightarrow> assertWritablePath fs' = assertWritablePath fs"
  by (simp add: assertWritablePath_def fun_eq_iff)

lemma removable_prune: "removable fs ps \<Longrightarrow> removable (prune P fs) ps"
  using writable_root [of "prune P fs" fs] by (auto simp: removable_def)

lemma removable_child: "removable fs ps \<Longrightarrow> removable fs (ps @ r)"
  by (auto simp: removable_def dest: below_trans)

lemma deeper_prune: "deeper n fs ps \<Longrightarrow> deeper n (prune P fs) ps"
  by (auto simp: deeper_def)

lemma deeper_child: "deeper (Suc n) fs ps \<Longrightarrow> deeper n fs (ps @ [s])"
  by (auto simp: deeper_def dest: below_trans)

lemma key_is: "k \<in> set (fs_keys fs) \<longleftrightarrow> isFile fs k \<or> isDirectory fs k"
  by (auto simp: fs_keys_def isFile_def isDirectory_def)

lemma strictly_below_directory:
  assumes "fs_ok fs" "list_all plain_segment ps" "k \<in> set (fs_keys fs)" "below ps k" "k \<noteq> path_of ps"
  shows "isDirectory fs (path_of ps)"
proof -
  obtain qs where qs: "k = path_of qs" "list_all plain_segment qs" using fs_okD(3) [OF assms(1,3)] by (elim canonicalE)
  with assms(4) obtain r where r: "qs = ps @ r" by (auto simp: prefix_def)
  with qs assms(3,5) show ?thesis
    using fs_ok_ancestor [OF assms(1), of ps r] by (cases "r = []") (auto simp: isDirectory_def)
qed

lemma child_names_present:
  assumes "child_names fs p \<noteq> []"
  obtains k where "k \<in> set (fs_keys fs)" "k \<noteq> p" "prefix (directory_prefix p) k"
proof -
  obtain s where "s \<in> set (child_names fs p)" using assms by (cases "child_names fs p") auto
  then show ?thesis using that by (auto simp: child_names_def fs_keys_def)
qed

lemma distinct_child_names: "distinct (child_names fs p)"
  by (simp add: child_names_def mset_eq_imp_distinct_iff [OF mset_sort_by])

lemma remove_file_prunes:
  assumes "fs_ok fs" "list_all plain_segment ps" "removable fs ps" "isFile fs (path_of ps)"
  shows "removeFile fs (path_of ps) = (prune (below ps) fs, Inr ())"
proof -
  have key: "path_of ps \<in> set (fs_keys fs)" using assms(4) by (simp add: key_is)
  then have w: "assertWritablePath fs (path_of ps) = Inr ()" "\<not> isDirectory fs (path_of ps)"
    using assms(2,3,4) by (auto simp: removable_def)
  have only: "below ps k \<longleftrightarrow> k = path_of ps" if "k \<in> set (fs_keys fs)" for k
    using strictly_below_directory [OF assms(1,2) that] w(2) assms(2) by auto
  have "prune (below ps) fs = prune (\<lambda>k. k = path_of ps) fs" by (rule prune_cong) (rule only)
  also have "... = fs\<lparr>fs_files := AList.delete (path_of ps) (fs_files fs)\<rparr>"
    using w(2) by (intro shell_fs.equality) (auto simp: prune_def isDirectory_def AList.delete_eq case_prod_unfold intro!: filter_True filter_cong)
  finally show ?thesis using w(1) assms(4) by (simp add: removeFile_def on_fs_def)
qed

lemma remove_directory_prunes:
  assumes "fs_ok fs" "list_all plain_segment ps" "removable fs ps" "isDirectory fs (path_of ps)"
  shows "removeDirectory (prune (\<lambda>k. \<exists>s \<in> set (child_names fs (path_of ps)). below (ps @ [s]) k) fs) (path_of ps) =
    (prune (below ps) fs, Inr ())"
proof -
  let ?C = "\<lambda>k. \<exists>s \<in> set (child_names fs (path_of ps)). below (ps @ [s]) k"
  let ?fs = "prune ?C fs"
  have key: "path_of ps \<in> set (fs_keys fs)" using assms(4) by (simp add: key_is)
  then have w: "assertWritablePath fs (path_of ps) = Inr ()" "\<not> isFile fs (path_of ps)"
    "path_of ps \<noteq> fs_root fs" "path_of ps \<noteq> AIRSHIP_SH_SCRATCH_ROOT"
    using assms(2,3,4) by (auto simp: removable_def)
  have split: "below ps k \<longleftrightarrow> k = path_of ps \<or> ?C k" if k: "k \<in> set (fs_keys fs)" for k
  proof -
    obtain qs where qs: "k = path_of qs" "list_all plain_segment qs" using fs_okD(3) [OF assms(1) k] by (elim canonicalE)
    show ?thesis
    proof
      assume "below ps k"
      with qs obtain r where r: "qs = ps @ r" by (auto simp: prefix_def)
      show "k = path_of ps \<or> ?C k"
      proof (cases r)
        case (Cons s t)
        then have "s \<in> set (child_names fs (path_of ps))" using child_names_iff [OF assms(1,2)] qs r k by auto
        moreover have "below (ps @ [s]) k" using Cons qs r by auto
        ultimately show ?thesis by blast
      qed (use qs r in simp)
    qed (use assms(2) in \<open>auto dest: below_trans\<close>)
  qed
  have self: "\<not> ?C (path_of ps)" using assms(2) by (auto simp: prefix_def)
  have "child_names ?fs (path_of ps) = []"
  proof (rule ccontr)
    assume "child_names ?fs (path_of ps) \<noteq> []"
    then obtain k where k: "k \<in> set (fs_keys ?fs)" "k \<noteq> path_of ps" "prefix (directory_prefix (path_of ps)) k"
      by (elim child_names_present)
    then have "k \<in> set (fs_keys fs)" "\<not> ?C k" by auto
    moreover obtain qs where "k = path_of qs" "list_all plain_segment qs"
      using fs_okD(3) [OF assms(1) \<open>k \<in> set (fs_keys fs)\<close>] by (elim canonicalE)
    ultimately show False using k split [of k] directory_prefix_iff [OF assms(2), of qs] by (auto simp: strict_prefix_def)
  qed
  moreover have "prune (below ps) fs = prune (\<lambda>k. k = path_of ps) ?fs"
    unfolding prune_prune by (rule prune_cong) (rule split)
  moreover have "prune (\<lambda>k. k = path_of ps) ?fs = ?fs\<lparr>fs_directories := removeAll (path_of ps) (fs_directories ?fs)\<rparr>"
    using w(2) by (intro shell_fs.equality) (auto simp: prune_def isFile_def removeAll_filter_not_eq image_iff intro!: filter_True filter_cong)
  ultimately show ?thesis
    using w assms(4) self writable_root [of ?fs fs] by (simp add: removeDirectory_def on_fs_def fs_list_def)
qed

lemma removeTree_prunes:
  assumes "fs_ok fs" "list_all plain_segment ps" "path_of ps \<in> set (fs_keys fs)" "removable fs ps" "deeper n fs ps"
  shows "removeTree n fs (path_of ps) = (prune (below ps) fs, Inr ())"
  using assms
proof (induction n arbitrary: fs ps)
  case 0
  then show ?case by (auto simp: deeper_def)
next
  case (Suc n)
  have children: "removeChildren n gs (path_of ps) names = (prune (\<lambda>k. \<exists>s \<in> set names. below (ps @ [s]) k) gs, Inr ())"
    if "fs_ok gs" "removable gs ps" "deeper (Suc n) gs ps" "distinct names" "list_all plain_segment names"
      "\<And>s. s \<in> set names \<Longrightarrow> path_of (ps @ [s]) \<in> set (fs_keys gs)" for gs names
    using that
  proof (induction names arbitrary: gs)
    case Nil
    then show ?case by (simp add: prune_none)
  next
    case (Cons s names)
    let ?gs = "prune (below (ps @ [s])) gs"
    have s: "list_all plain_segment (ps @ [s])" using Suc.prems(2) Cons.prems(5) by simp
    have first: "removeTree n gs (path_of (ps @ [s])) = (?gs, Inr ())"
      using Suc.IH [OF Cons.prems(1) s] Cons.prems(2,3) Cons.prems(6) [of s] by (simp add: removable_child deeper_child)
    have "fs_ok ?gs" using fs_ok_removeTree(1) [OF Cons.prems(1) _ first] s by simp
    moreover have "path_of (ps @ [t]) \<in> set (fs_keys ?gs)" if "t \<in> set names" for t
      using that Cons.prems(4,5) Cons.prems(6) [of t] Suc.prems(2) by (auto simp: list_all_iff prefix_def)
    ultimately have "removeChildren n ?gs (path_of ps) names = (prune (\<lambda>k. \<exists>s \<in> set names. below (ps @ [s]) k) ?gs, Inr ())"
      using Cons.prems(2-5) by (intro Cons.IH) (auto simp: removable_prune deeper_prune)
    then show ?case using first joinPath_path_of [OF Suc.prems(2)] by (simp add: prune_prune disj_commute)
  qed
  show ?case
  proof (cases "isFile fs (path_of ps)")
    case True
    then show ?thesis using remove_file_prunes [OF Suc.prems(1,2,4)] by simp
  next
    case False
    then have d: "isDirectory fs (path_of ps)" using Suc.prems(3) by (simp add: key_is)
    let ?names = "child_names fs (path_of ps)"
    note iff = child_names_iff [OF Suc.prems(1,2)]
    have "path_of (ps @ [s]) \<in> set (fs_keys fs)" if "s \<in> set ?names" for s
    proof -
      from \<open>s \<in> set ?names\<close> obtain r where r: "list_all plain_segment (ps @ s # r)" "path_of (ps @ s # r) \<in> set (fs_keys fs)"
        by (auto simp: iff)
      then show ?thesis using fs_ok_ancestor [OF Suc.prems(1), of "ps @ [s]" r] by (cases "r = []") (auto simp: fs_keys_def)
    qed
    moreover have "distinct ?names" by (rule distinct_child_names)
    moreover have "list_all plain_segment ?names" by (auto simp: list_all_iff iff)
    ultimately have "removeChildren n fs (path_of ps) ?names = (prune (\<lambda>k. \<exists>s \<in> set ?names. below (ps @ [s]) k) fs, Inr ())"
      using Suc.prems by (intro children) auto
    then show ?thesis using False d remove_directory_prunes [OF Suc.prems(1,2,4) d] by simp
  qed
qed


text \<open>C29: \<open>rm -r\<close> terminates and removes exactly the tree: with a call stack deeper than the tree, removing a tree
  that is writable, holds no mount root and nothing that is both a file and a directory succeeds, and afterwards
  exactly the files and directories outside it are left, unchanged and in order.\<close>

theorem remove_tree_exact:
  assumes "fs_ok fs" "canonical path" "fs_exists fs path" "removable fs (segments path)" "deeper stack fs (segments path)"
  shows "removeTree stack fs path = (prune (below (segments path)) fs, Inr ())"
proof -
  obtain ps where ps: "path = path_of ps" "list_all plain_segment ps" using assms(2) by (elim canonicalE)
  with assms show ?thesis
    using removeTree_prunes [OF assms(1) ps(2), of stack] by (simp add: fs_exists_def key_is)
qed

definition demo_tree :: shell_fs where
  "demo_tree = fst (makeDirectory demo_mount ''/workspace/d/e'' True)"

theorem remove_tree_exact_witness:
  "removeTree 2 demo_tree ''/workspace/d'' = (prune (below [''workspace'', ''d'']) demo_tree, Inr ()) \<and>
    fs_directories (prune (below [''workspace'', ''d'']) demo_tree) = fs_directories demo_mount"
proof -
  have "fs_ok demo_tree" "canonical ''/workspace/d''" "fs_exists demo_tree ''/workspace/d''"
    "removable demo_tree (segments ''/workspace/d'')" "deeper 2 demo_tree (segments ''/workspace/d'')"
    by code_simp+
  moreover have "segments ''/workspace/d'' = [''workspace'', ''d'']" by code_simp
  moreover have "fs_directories (prune (below [''workspace'', ''d'']) demo_tree) = fs_directories demo_mount" by code_simp
  ultimately show ?thesis
    using remove_tree_exact [of demo_tree "''/workspace/d''" 2] by simp
qed

text \<open>What is written is what is read, an append extends what was there, and no other file changes.\<close>

theorem write_reads_back:
  assumes "writeFile stamp fs path bytes appending = (fs', Inr ())"
  shows "readFile fs' path = Inr ((if appending then (case readFile fs path of Inr old \<Rightarrow> old | Inl _ \<Rightarrow> []) else []) @ bytes) \<and>
    (\<forall>p. p \<noteq> path \<longrightarrow> readFile fs' p = readFile fs p)"
  using assms unfolding writeFile_def
  by (elim on_fs_cases)
     (auto simp: result_simps Let_def readFile_def update_conv' isDirectory_def split: if_splits option.splits)

theorem write_reads_back_witness:
  "readFile (fst (writeFile ''u'' demo_mount ''/tmp/n'' ''ab'' True)) ''/tmp/n'' = Inr ''ab''"
proof -
  have f: "assertWritablePath demo_mount ''/tmp/n'' = Inr ()" "\<not> isDirectory demo_mount ''/tmp/n''"
    "isDirectory demo_mount (parentPath ''/tmp/n'')" "map_of (fs_files demo_mount) ''/tmp/n'' = None" "totalBytes demo_mount = 2"
    "length (fs_files demo_mount) = 2" "readFile demo_mount ''/tmp/n'' = Inl (noSuchFile ''/tmp/n'')"
    by code_simp+
  then have "\<exists>fs'. writeFile ''u'' demo_mount ''/tmp/n'' ''ab'' True = (fs', Inr ())"
    by (simp add: writeFile_def on_fs_def AIRSHIP_SH_MAX_FILES_def AIRSHIP_SH_MAX_FILE_BYTES_def AIRSHIP_SH_MAX_WORKSPACE_BYTES_def)
  then obtain fs' where w: "writeFile ''u'' demo_mount ''/tmp/n'' ''ab'' True = (fs', Inr ())" by blast
  from write_reads_back [OF w] w f(7) show ?thesis by simp
qed

text \<open>\<open>mkdir -p\<close> does not look for files on the way: below a file it makes the file's path a directory as well.\<close>

theorem mkdir_below_file:
  "isFile demo_mount ''/workspace/a'' \<and>
    isFile (fst (makeDirectory demo_mount ''/workspace/a/b'' True)) ''/workspace/a'' \<and>
    isDirectory (fst (makeDirectory demo_mount ''/workspace/a/b'' True)) ''/workspace/a''"
  by code_simp

text \<open>A backslash or control character in a path below the root is an engine error and no command error.\<close>

theorem backslash_path_is_host_error:
  "snd (writeFile ''u'' demo_mount (''/workspace/a'' @ [CHR 0x5C]) [] False) = Inl (HostError (path_error_text InvalidPathText))"
proof -
  have "assertWritablePath demo_mount (''/workspace/a'' @ [CHR 0x5C]) = Inl (HostError (path_error_text InvalidPathText))"
    by code_simp
  then show ?thesis by (simp add: writeFile_def on_fs_def)
qed

end
