(* ===== verification/Shell_Parser.thy ===== *)
theory Shell_Parser
  imports Shell_Core
begin

text \<open>
  The syntax tree of a shell script (\<open>execution/shell/ast.ts\<close>) and the recursive-descent parser over
  the lexer's tokens (\<open>parser.ts\<close>).

  The token array always ends with its only \<open>eof\<close> token and the parser never moves past it. So a
  position is the list of the tokens before \<open>eof\<close> that are left, and \<open>eof\<close> itself is given by its
  line and column.
\<close>

section \<open>The syntax tree\<close>

datatype parameter_operator =
    NoOperator | UseDefault | AssignDefault | ErrorIfUnset | Alternative
  | RemoveSmallestPrefix | RemoveLargestPrefix | RemoveSmallestSuffix | RemoveLargestSuffix

datatype word_part =
    LiteralPart string bool
  | ParameterPart string parameter_operator bool bool "word_part list option" bool
  | CommandPart string bool
  | ArithmeticPart "word_part list" bool
  | TildePart string

type_synonym shell_word = "word_part list"

record redirection =
  rd_fd :: nat
  rd_operator :: string
  rd_target :: "shell_word option"
  rd_here :: "shell_word option"

type_synonym assignment = "string \<times> shell_word"

datatype command =
    Simple "assignment list" "shell_word list" "redirection list"
  | Subshell command_list "redirection list"
  | Group command_list "redirection list"
  | If "(command_list \<times> command_list) list" "command_list option" "redirection list"
  | For string "shell_word list option" command_list "redirection list"
  | While bool command_list command_list "redirection list"
  | Case shell_word "(shell_word list \<times> command_list) list" "redirection list"
  | Function string command
and pipeline = Pipeline bool "command list"
and and_or_list = AndOrList pipeline "(string \<times> pipeline) list"
and command_list = CommandList "and_or_list list"

record heredoc_record =
  hd_stripTabs :: bool
  hd_delimiter :: string
  hd_quoted :: bool
  hd_body :: shell_word

datatype token =
    WordToken shell_word string bool nat nat
  | OperatorToken string "heredoc_record option" nat nat
  | IoNumber nat nat nat
  | Newline nat nat
  | Eof nat nat

section \<open>Looking at tokens\<close>

type_synonym position = "nat \<times> nat"

definition RESERVED_WORDS :: "string list" where
  "RESERVED_WORDS = [''if'', ''then'', ''elif'', ''else'', ''fi'', ''do'', ''done'', ''while'', ''until'', ''for'', ''in'',
     ''case'', ''esac'', ''{'', ''}'', ''!'']"

definition REDIRECTION_OPERATORS :: "string list" where
  "REDIRECTION_OPERATORS = [''<'', ''>'', ''>>'', ''<&'', ''>&'', ''<>'', ''>|'', ''<<'']"

definition peek_token :: "position \<Rightarrow> token list \<Rightarrow> token" where
  "peek_token eof ts = (case ts of [] \<Rightarrow> Eof (fst eof) (snd eof) | t # _ \<Rightarrow> t)"

definition advance_token :: "token list \<Rightarrow> token list" where
  "advance_token ts = tl ts"

fun token_position :: "token \<Rightarrow> position" where
  "token_position (WordToken _ _ _ l c) = (l, c)"
| "token_position (OperatorToken _ _ l c) = (l, c)"
| "token_position (IoNumber _ l c) = (l, c)"
| "token_position (Newline l c) = (l, c)"
| "token_position (Eof l c) = (l, c)"

definition parse_error :: "position \<Rightarrow> token list \<Rightarrow> string \<Rightarrow> shell_error" where
  "parse_error eof ts message = (case token_position (peek_token eof ts) of (l, c) \<Rightarrow> ShellParseError message l c)"

fun describe :: "token \<Rightarrow> string" where
  "describe (WordToken _ t _ _ _) = ''`'' @ t @ ''`''"
| "describe (OperatorToken t _ _ _) = ''`'' @ t @ ''`''"
| "describe (IoNumber n _ _) = ''`'' @ dec_nat n @ ''`''"
| "describe (Newline _ _) = ''end of line''"
| "describe (Eof _ _) = ''end of input''"

fun at_operator_token :: "string \<Rightarrow> token list \<Rightarrow> bool" where
  "at_operator_token t (OperatorToken t' _ _ _ # _) = (t' = t)"
| "at_operator_token t _ = False"

fun atReserved :: "string \<Rightarrow> token list \<Rightarrow> bool" where
  "atReserved w (WordToken _ t literalOnly _ _ # _) = (literalOnly \<and> t = w \<and> w \<in> set RESERVED_WORDS)"
| "atReserved w _ = False"

fun atStop :: "string list \<Rightarrow> token list \<Rightarrow> bool" where
  "atStop stops (OperatorToken t _ _ _ # _) = (t \<in> set stops)"
| "atStop stops (WordToken _ t literalOnly _ _ # _) = (literalOnly \<and> t \<in> set RESERVED_WORDS \<and> t \<in> set stops)"
| "atStop stops _ = False"

definition expectReserved :: "position \<Rightarrow> string \<Rightarrow> token list \<Rightarrow> shell_error + token list" where
  "expectReserved eof w ts =
    (if atReserved w ts then Inr (advance_token ts)
     else Inl (parse_error eof ts (''expected `'' @ w @ ''` but found '' @ describe (peek_token eof ts))))"

fun skipLinebreaks :: "token list \<Rightarrow> token list" where
  "skipLinebreaks (Newline _ _ # ts) = skipLinebreaks ts"
| "skipLinebreaks ts = ts"

definition isName :: "string \<Rightarrow> bool" where
  "isName t \<longleftrightarrow> t \<noteq> [] \<and> is_name_start (hd t) \<and> list_all is_name_char t"

definition defaultFd :: "string \<Rightarrow> nat" where
  "defaultFd operator = (if operator \<in> {''<'', ''<>'', ''<&'', ''<<''} then 0 else 1)"

text \<open>\<open>NAME=\<close> at the start of an unquoted literal part.\<close>

definition splitAssignment :: "shell_word \<Rightarrow> assignment option" where
  "splitAssignment w =
    (case w of
       LiteralPart t False # parts \<Rightarrow>
         let name = takeWhile is_name_char t; rest = dropWhile is_name_char t in
         if name \<noteq> [] \<and> is_name_start (hd name) \<and> rest \<noteq> [] \<and> hd rest = CHR ''=''
         then Some (name, (if tl rest \<noteq> [] then [LiteralPart (tl rest) False] else []) @ parts)
         else None
     | _ \<Rightarrow> None)"

fun isFunctionDefinition :: "token list \<Rightarrow> bool" where
  "isFunctionDefinition (_ # OperatorToken a _ _ _ # OperatorToken b _ _ _ # _) = (a = ''('' \<and> b = '')'')"
| "isFunctionDefinition _ = False"

section \<open>Redirections\<close>

fun atRedirection :: "token list \<Rightarrow> bool" where
  "atRedirection (IoNumber _ _ _ # OperatorToken t _ _ _ # _) = (t \<in> set REDIRECTION_OPERATORS)"
| "atRedirection (OperatorToken t _ _ _ # _) = (t \<in> set REDIRECTION_OPERATORS)"
| "atRedirection _ = False"

definition is_descriptor_word :: "string \<Rightarrow> bool" where
  "is_descriptor_word t \<longleftrightarrow> (t \<noteq> [] \<and> list_all is_digit t) \<or> t = ''-''"

definition parseRedirection :: "position \<Rightarrow> token list \<Rightarrow> shell_error + redirection \<times> token list" where
  "parseRedirection eof ts =
    (let (fd, ts) = (case ts of IoNumber n _ _ # ts' \<Rightarrow> (Some n, ts') | _ \<Rightarrow> (None, ts)) in
     case peek_token eof ts of
       OperatorToken operator heredoc _ _ \<Rightarrow>
         let ts = advance_token ts in
         if operator = ''<<''
         then (case heredoc of
                 None \<Rightarrow> Inl (parse_error eof ts ''here-document body was not collected'')
               | Some h \<Rightarrow> Inr (\<lparr>rd_fd = (case fd of Some n \<Rightarrow> n | None \<Rightarrow> 0), rd_operator = operator, rd_target = None,
                                rd_here = Some (hd_body h)\<rparr>, ts))
         else (case peek_token eof ts of
                 WordToken w t literalOnly _ _ \<Rightarrow>
                   let ts = advance_token ts in
                   if operator \<in> {''>&'', ''<&''} \<and> \<not> (literalOnly \<and> is_descriptor_word t)
                   then Inl (parse_error eof ts (operator @ '' requires a file descriptor number or `-`; airship-sh does not implement the bash `>&file` extension''))
                   else Inr (\<lparr>rd_fd = (case fd of Some n \<Rightarrow> n | None \<Rightarrow> defaultFd operator), rd_operator = operator,
                              rd_target = Some w, rd_here = None\<rparr>, ts)
               | _ \<Rightarrow> Inl (parse_error eof ts (''redirection '' @ operator @ '' requires a target'')))
     | _ \<Rightarrow> Inl (parse_error eof ts ''expected a redirection operator''))"

lemma parseRedirection_length: "parseRedirection eof ts = Inr (r, ts') \<Longrightarrow> length ts' < length ts"
  by (auto simp: parseRedirection_def Let_def peek_token_def advance_token_def
      split: list.splits token.splits option.splits if_splits prod.splits)

function parseRedirectionList :: "position \<Rightarrow> redirection list \<Rightarrow> token list \<Rightarrow> shell_error + redirection list \<times> token list" where
  "parseRedirectionList eof rs ts =
    (if atRedirection ts
     then (case parseRedirection eof ts of Inl e \<Rightarrow> Inl e | Inr (r, ts') \<Rightarrow> parseRedirectionList eof (rs @ [r]) ts')
     else Inr (rs, ts))"
  by pat_completeness auto
termination
  by (relation "measure (\<lambda>(_, _, ts). length ts)") (auto dest: parseRedirection_length)

declare parseRedirectionList.simps [simp del]

section \<open>Lists, pipelines and commands\<close>

type_synonym 'a parse = "shell_error + 'a \<times> token list"

lemma bind_result_cong [fundef_cong]:
  "m = m' \<Longrightarrow> (\<And>a. m' = Inr a \<Longrightarrow> f a = g a) \<Longrightarrow> bind_result m f = bind_result m' g"
  by (cases m') auto

text \<open>The separators after an item, and whether there were any.\<close>

fun separators :: "position \<Rightarrow> bool \<Rightarrow> token list \<Rightarrow> shell_error + bool \<times> token list" where
  "separators eof separated (OperatorToken t h l c # ts) =
    (if t = '';'' then separators eof True ts
     else if t = ''&'' then Inl (parse_error eof (OperatorToken t h l c # ts) ''background execution (&) and job control are not implemented by airship-sh'')
     else Inr (separated, OperatorToken t h l c # ts))"
| "separators eof separated (Newline _ _ # ts) = separators eof True ts"
| "separators eof separated ts = Inr (separated, ts)"

fun skip_bangs :: "bool \<Rightarrow> token list \<Rightarrow> bool \<times> token list" where
  "skip_bangs negated (t # ts) = (if atReserved ''!'' (t # ts) then skip_bangs (\<not> negated) ts else (negated, t # ts))"
| "skip_bangs negated [] = (negated, [])"

text \<open>The words of \<open>for name in ...\<close>.\<close>

fun for_words :: "token list \<Rightarrow> shell_word list \<times> token list" where
  "for_words (WordToken w t literalOnly l c # ts) =
    (if literalOnly \<and> (t = ''do'' \<or> t = ''done'') then ([], WordToken w t literalOnly l c # ts)
     else (w # fst (for_words ts), snd (for_words ts)))"
| "for_words ts = ([], ts)"

definition skip_semicolon :: "token list \<Rightarrow> token list" where
  "skip_semicolon ts = (if at_operator_token '';'' ts then advance_token ts else ts)"

fun case_patterns :: "position \<Rightarrow> shell_word list \<Rightarrow> token list \<Rightarrow> shell_word list parse" where
  "case_patterns eof ps (WordToken w t literalOnly l c # OperatorToken op h l' c' # ts) =
    (if op = ''|'' then case_patterns eof (ps @ [w]) ts else Inr (ps @ [w], OperatorToken op h l' c' # ts))"
| "case_patterns eof ps (WordToken w t literalOnly l c # ts) = Inr (ps @ [w], ts)"
| "case_patterns eof ps ts = Inl (parse_error eof ts ''`case` requires a pattern before `)`'')"

fun at_function_keyword :: "token list \<Rightarrow> bool" where
  "at_function_keyword (WordToken _ t literalOnly _ _ # _) = (literalOnly \<and> t = ''function'')"
| "at_function_keyword _ = False"

fun is_function :: "command \<Rightarrow> bool" where
  "is_function (Function _ _) = True"
| "is_function _ = False"

fun list_items :: "command_list \<Rightarrow> and_or_list list" where
  "list_items (CommandList items) = items"

definition at_end :: "token list \<Rightarrow> bool" where
  "at_end ts \<longleftrightarrow> (case ts of [] \<Rightarrow> True | t # _ \<Rightarrow> (case t of Eof _ _ \<Rightarrow> True | _ \<Rightarrow> False))"

definition and_or_operator :: "token list \<Rightarrow> string option" where
  "and_or_operator ts = (if at_operator_token ''&&'' ts then Some ''&&'' else if at_operator_token ''||'' ts then Some ''||'' else None)"

fun for_name :: "token list \<Rightarrow> string option" where
  "for_name (WordToken _ t literalOnly _ _ # _) = (if literalOnly \<and> isName t then Some t else None)"
| "for_name _ = None"

fun word_of_token :: "token list \<Rightarrow> shell_word option" where
  "word_of_token (WordToken w _ _ _ _ # _) = Some w"
| "word_of_token _ = None"

fun function_name :: "token list \<Rightarrow> string option" where
  "function_name (WordToken w t literalOnly l c # ts) =
    (if literalOnly \<and> isName t \<and> isFunctionDefinition (WordToken w t literalOnly l c # ts) then Some t else None)"
| "function_name _ = None"

function
  parseCommandList :: "position \<Rightarrow> string list \<Rightarrow> and_or_list list \<Rightarrow> token list \<Rightarrow> command_list parse" and
  parseRequiredList :: "position \<Rightarrow> string list \<Rightarrow> string \<Rightarrow> token list \<Rightarrow> command_list parse" and
  parseAndOr :: "position \<Rightarrow> token list \<Rightarrow> and_or_list parse" and
  and_or_loop :: "position \<Rightarrow> pipeline \<Rightarrow> (string \<times> pipeline) list \<Rightarrow> token list \<Rightarrow> and_or_list parse" and
  parsePipeline :: "position \<Rightarrow> token list \<Rightarrow> pipeline parse" and
  pipeline_loop :: "position \<Rightarrow> bool \<Rightarrow> command list \<Rightarrow> token list \<Rightarrow> pipeline parse" and
  parseCommand :: "position \<Rightarrow> token list \<Rightarrow> command parse" and
  parseIf :: "position \<Rightarrow> token list \<Rightarrow> command parse" and
  if_loop :: "position \<Rightarrow> (command_list \<times> command_list) list \<Rightarrow> token list \<Rightarrow> command parse" and
  parseWhile :: "position \<Rightarrow> bool \<Rightarrow> token list \<Rightarrow> command parse" and
  parseFor :: "position \<Rightarrow> token list \<Rightarrow> command parse" and
  parseCase :: "position \<Rightarrow> token list \<Rightarrow> command parse" and
  case_loop :: "position \<Rightarrow> shell_word \<Rightarrow> (shell_word list \<times> command_list) list \<Rightarrow> token list \<Rightarrow> command parse" and
  parseGroup :: "position \<Rightarrow> token list \<Rightarrow> command parse" and
  parseSubshell :: "position \<Rightarrow> token list \<Rightarrow> command parse" and
  parseSimpleCommand :: "position \<Rightarrow> assignment list \<Rightarrow> shell_word list \<Rightarrow> redirection list \<Rightarrow> token list \<Rightarrow> command parse" and
  parseFunctionDefinition :: "position \<Rightarrow> string \<Rightarrow> token list \<Rightarrow> command parse"
where
  "parseCommandList eof stops items ts =
    (let ts = skipLinebreaks ts in
     if at_end ts \<or> atStop stops ts then Inr (CommandList items, ts)
     else bind_result (parseAndOr eof ts) (\<lambda>r.
       bind_result (separators eof False (snd r)) (\<lambda>q.
         if fst q then parseCommandList eof stops (items @ [fst r]) (snd q)
         else Inr (CommandList (items @ [fst r]), snd q))))"
| "parseRequiredList eof stops context ts =
    bind_result (parseCommandList eof stops [] ts) (\<lambda>r.
      if list_items (fst r) = [] then Inl (parse_error eof (snd r) (context @ '' requires at least one command'')) else Inr r)"
| "parseAndOr eof ts = bind_result (parsePipeline eof ts) (\<lambda>r. and_or_loop eof (fst r) [] (snd r))"
| "and_or_loop eof first rest ts =
    (case and_or_operator ts of
       None \<Rightarrow> Inr (AndOrList first rest, ts)
     | Some operator \<Rightarrow>
         bind_result (parsePipeline eof (skipLinebreaks (advance_token ts))) (\<lambda>r.
           and_or_loop eof first (rest @ [(operator, fst r)]) (snd r)))"
| "parsePipeline eof ts =
    bind_result (parseCommand eof (snd (skip_bangs False ts))) (\<lambda>r.
      pipeline_loop eof (fst (skip_bangs False ts)) [fst r] (snd r))"
| "pipeline_loop eof negated commands ts =
    (if at_operator_token ''|'' ts
     then bind_result (parseCommand eof (skipLinebreaks (advance_token ts))) (\<lambda>r.
       pipeline_loop eof negated (commands @ [fst r]) (snd r))
     else Inr (Pipeline negated commands, ts))"
| "parseCommand eof ts =
    (if atReserved ''if'' ts then parseIf eof ts
     else if atReserved ''while'' ts then parseWhile eof False ts
     else if atReserved ''until'' ts then parseWhile eof True ts
     else if atReserved ''for'' ts then parseFor eof ts
     else if atReserved ''case'' ts then parseCase eof ts
     else if atReserved ''{'' ts then parseGroup eof ts
     else if at_operator_token ''('' ts then parseSubshell eof ts
     else if at_function_keyword ts
     then Inl (parse_error eof ts ''airship-sh implements POSIX function definitions (`name() { ... }`); the `function` keyword is a bash extension'')
     else parseSimpleCommand eof [] [] [] ts)"
| "parseIf eof ts =
    bind_result (parseRequiredList eof [''then''] ''`if`'' (advance_token ts)) (\<lambda>c.
      bind_result (expectReserved eof ''then'' (snd c)) (\<lambda>ts.
        bind_result (parseRequiredList eof [''elif'', ''else'', ''fi''] ''`then`'' ts) (\<lambda>b.
          if_loop eof [(fst c, fst b)] (snd b))))"
| "if_loop eof clauses ts =
    (if atReserved ''elif'' ts
     then bind_result (parseRequiredList eof [''then''] ''`elif`'' (advance_token ts)) (\<lambda>c.
       bind_result (expectReserved eof ''then'' (snd c)) (\<lambda>ts.
         bind_result (parseRequiredList eof [''elif'', ''else'', ''fi''] ''`then`'' ts) (\<lambda>b.
           if_loop eof (clauses @ [(fst c, fst b)]) (snd b))))
     else bind_result
       (if atReserved ''else'' ts
        then bind_result (parseRequiredList eof [''fi''] ''`else`'' (advance_token ts)) (\<lambda>r. Inr (Some (fst r), snd r))
        else Inr (None, ts)) (\<lambda>other.
       bind_result (expectReserved eof ''fi'' (snd other)) (\<lambda>ts.
         bind_result (parseRedirectionList eof [] ts) (\<lambda>rs. Inr (If clauses (fst other) (fst rs), snd rs)))))"
| "parseWhile eof invert ts =
    bind_result (parseRequiredList eof [''do''] (if invert then ''`until`'' else ''`while`'') (advance_token ts)) (\<lambda>c.
      bind_result (expectReserved eof ''do'' (snd c)) (\<lambda>ts.
        bind_result (parseRequiredList eof [''done''] ''`do`'' ts) (\<lambda>b.
          bind_result (expectReserved eof ''done'' (snd b)) (\<lambda>ts.
            bind_result (parseRedirectionList eof [] ts) (\<lambda>rs. Inr (While invert (fst c) (fst b) (fst rs), snd rs))))))"
| "parseFor eof ts =
    (let ts = advance_token ts in
     case for_name ts of
       None \<Rightarrow> Inl (parse_error eof ts ''`for` requires a variable name'')
     | Some name \<Rightarrow>
         let ts = advance_token ts;
             (words, ts) =
               (if atReserved ''in'' ts
                then (Some (fst (for_words (advance_token ts))), skip_semicolon (snd (for_words (advance_token ts))))
                else (None, skip_semicolon ts)) in
         bind_result (expectReserved eof ''do'' (skipLinebreaks ts)) (\<lambda>ts.
           bind_result (parseRequiredList eof [''done''] ''`do`'' ts) (\<lambda>b.
             bind_result (expectReserved eof ''done'' (snd b)) (\<lambda>ts.
               bind_result (parseRedirectionList eof [] ts) (\<lambda>rs. Inr (For name words (fst b) (fst rs), snd rs))))))"
| "parseCase eof ts =
    (let ts = advance_token ts in
     case word_of_token ts of
       None \<Rightarrow> Inl (parse_error eof ts ''`case` requires a word'')
     | Some subject \<Rightarrow>
         bind_result (expectReserved eof ''in'' (skipLinebreaks (advance_token ts))) (\<lambda>ts. case_loop eof subject [] ts))"
| "case_loop eof subject items ts =
    (let ts = skipLinebreaks ts;
         finish = (\<lambda>items ts. bind_result (expectReserved eof ''esac'' ts) (\<lambda>ts.
           bind_result (parseRedirectionList eof [] ts) (\<lambda>rs. Inr (Case subject items (fst rs), snd rs)))) in
     if atReserved ''esac'' ts then finish items ts
     else bind_result (case_patterns eof [] (if at_operator_token ''('' ts then advance_token ts else ts)) (\<lambda>ps.
       if \<not> at_operator_token '')'' (snd ps)
       then Inl (parse_error eof (snd ps) ''`case` pattern must be followed by `)`'')
       else bind_result (parseCommandList eof ['';;'', ''esac''] [] (advance_token (snd ps))) (\<lambda>b.
         let ts = skipLinebreaks (snd b) in
         if at_operator_token '';;'' ts then case_loop eof subject (items @ [(fst ps, fst b)]) (advance_token ts)
         else finish (items @ [(fst ps, fst b)]) ts)))"
| "parseGroup eof ts =
    bind_result (parseRequiredList eof [''}''] ''`{ }`'' (advance_token ts)) (\<lambda>b.
      bind_result (expectReserved eof ''}'' (snd b)) (\<lambda>ts.
        bind_result (parseRedirectionList eof [] ts) (\<lambda>rs. Inr (Group (fst b) (fst rs), snd rs))))"
| "parseSubshell eof ts =
    bind_result (parseRequiredList eof ['')''] ''`( )`'' (advance_token ts)) (\<lambda>b.
      if \<not> at_operator_token '')'' (snd b) then Inl (parse_error eof (snd b) ''expected `)` to close a subshell'')
      else bind_result (parseRedirectionList eof [] (advance_token (snd b))) (\<lambda>rs. Inr (Subshell (fst b) (fst rs), snd rs)))"
| "parseSimpleCommand eof assignments words redirections ts =
    (if atRedirection ts
     then bind_result (parseRedirection eof ts) (\<lambda>r.
       parseSimpleCommand eof assignments words (redirections @ [fst r]) (snd r))
     else case word_of_token ts of
       Some w \<Rightarrow>
         (case (if words = [] then function_name ts else None) of
            Some name \<Rightarrow> parseFunctionDefinition eof name ts
          | None \<Rightarrow>
              (case (if words = [] then splitAssignment w else None) of
                 Some a \<Rightarrow> parseSimpleCommand eof (assignments @ [a]) words redirections (advance_token ts)
               | None \<Rightarrow> parseSimpleCommand eof assignments (words @ [w]) redirections (advance_token ts)))
     | None \<Rightarrow>
         if assignments = [] \<and> words = [] \<and> redirections = []
         then Inl (parse_error eof ts (''expected a command but found '' @ describe (peek_token eof ts)))
         else Inr (Simple assignments words redirections, ts))"
| "parseFunctionDefinition eof name ts =
    (let ts = skipLinebreaks (advance_token (advance_token (advance_token ts))) in
     bind_result (parseCommand eof ts) (\<lambda>b.
       if is_function (fst b) then Inl (parse_error eof (snd b) ''a function body cannot be another function definition'')
       else Inr (Function name (fst b), snd b)))"
  by pat_completeness auto


subsection \<open>Termination\<close>

text \<open>What is left is never longer than what was there.\<close>

definition no_longer :: "token list \<Rightarrow> 'a parse \<Rightarrow> bool" where
  "no_longer ts p \<longleftrightarrow> (\<forall>r. p = Inr r \<longrightarrow> length (snd r) \<le> length ts)"

lemma no_longerI: "(\<And>r. p = Inr r \<Longrightarrow> length (snd r) \<le> length ts) \<Longrightarrow> no_longer ts p"
  by (simp add: no_longer_def)

lemma no_longerD: "no_longer ts p \<Longrightarrow> p = Inr r \<Longrightarrow> length (snd r) \<le> length ts"
  unfolding no_longer_def by blast

lemma skipLinebreaks_length: "length (skipLinebreaks ts) \<le> length ts"
  by (induction ts rule: skipLinebreaks.induct) auto

lemma skip_bangs_length: "length (snd (skip_bangs b ts)) \<le> length ts"
  by (induction b ts rule: skip_bangs.induct) auto

lemma for_words_length: "length (snd (for_words ts)) \<le> length ts"
  by (induction ts rule: for_words.induct) auto

lemma advance_token_length: "length (advance_token ts) = length ts - 1"
  by (simp add: advance_token_def)

lemma skip_semicolon_length: "length (skip_semicolon ts) \<le> length ts"
  by (simp add: skip_semicolon_def advance_token_length)

lemma separators_length: "separators eof b ts = Inr q \<Longrightarrow> length (snd q) \<le> length ts \<and> (fst q \<and> \<not> b \<longrightarrow> length (snd q) < length ts)"
  by (induction eof b ts rule: separators.induct) (auto split: if_splits)

lemma expectReserved_length: "expectReserved eof w ts = Inr ts' \<Longrightarrow> length ts' < length ts"
  by (cases ts) (auto simp: expectReserved_def advance_token_def split: if_splits)

lemma case_patterns_length: "case_patterns eof ps ts = Inr r \<Longrightarrow> length (snd r) < length ts"
  by (induction eof ps ts rule: case_patterns.induct) (auto split: if_splits)

lemma parseRedirectionList_length: "parseRedirectionList eof rs ts = Inr r \<Longrightarrow> length (snd r) \<le> length ts"
proof (induction eof rs ts rule: parseRedirectionList.induct)
  case (1 eof rs ts)
  show ?case
  proof (cases "atRedirection ts")
    case True
    with 1(2) obtain p ts' where p: "parseRedirection eof ts = Inr (p, ts')" "parseRedirectionList eof (rs @ [p]) ts' = Inr r"
      by (auto simp: parseRedirectionList.simps [of eof rs ts] split: sum.splits)
    from 1(1) [OF True p(1) refl p(2)] parseRedirection_length [OF p(1)] show ?thesis by simp
  qed (use 1(2) in \<open>auto simp: parseRedirectionList.simps [of eof rs ts]\<close>)
qed

lemma token_present:
  "atReserved w ts \<Longrightarrow> ts \<noteq> []" "at_operator_token t ts \<Longrightarrow> ts \<noteq> []" "and_or_operator ts = Some op \<Longrightarrow> ts \<noteq> []"
  "for_name ts = Some n \<Longrightarrow> ts \<noteq> []" "word_of_token ts = Some v \<Longrightarrow> ts \<noteq> []"
  by (auto simp: and_or_operator_def split: if_splits)

lemma function_name_length:
  assumes "function_name ts = Some n"
  shows "2 < length ts"
proof -
  have "isFunctionDefinition ts"
    using assms by (cases ts rule: function_name.cases) (auto split: if_splits)
  then show ?thesis by (cases ts rule: isFunctionDefinition.cases) auto
qed

lemma advance_shorter: "ts \<noteq> [] \<Longrightarrow> length (advance_token ts) < length ts"
  by (cases ts) (auto simp: advance_token_def)

lemma redirection_shorter: "parseRedirection eof ts = Inr r \<Longrightarrow> length (snd r) < length ts"
  by (cases r) (auto dest: parseRedirection_length)

abbreviation "script_dom \<equiv> parseCommandList_parseRequiredList_parseAndOr_and_or_loop_parsePipeline_pipeline_loop_parseCommand_parseIf_if_loop_parseWhile_parseFor_parseCase_case_loop_parseGroup_parseSubshell_parseSimpleCommand_parseFunctionDefinition_dom"

lemma parsed_no_longer:
  shows "script_dom (Inl (Inl (Inl (Inl (eof, stops, items, ts))))) \<Longrightarrow> no_longer ts (parseCommandList eof stops items ts)"
    and "script_dom (Inl (Inl (Inl (Inr (eof, stops, context, ts))))) \<Longrightarrow> no_longer ts (parseRequiredList eof stops context ts)"
    and "script_dom (Inl (Inl (Inr (Inl (eof, ts))))) \<Longrightarrow> no_longer ts (parseAndOr eof ts)"
    and "script_dom (Inl (Inl (Inr (Inr (eof, first, rest, ts))))) \<Longrightarrow> no_longer ts (and_or_loop eof first rest ts)"
    and "script_dom (Inl (Inr (Inl (Inl (eof, ts))))) \<Longrightarrow> no_longer ts (parsePipeline eof ts)"
    and "script_dom (Inl (Inr (Inl (Inr (eof, negated, commands, ts))))) \<Longrightarrow> no_longer ts (pipeline_loop eof negated commands ts)"
    and "script_dom (Inl (Inr (Inr (Inl (eof, ts))))) \<Longrightarrow> no_longer ts (parseCommand eof ts)"
    and "script_dom (Inl (Inr (Inr (Inr (eof, ts))))) \<Longrightarrow> no_longer ts (parseIf eof ts)"
    and "script_dom (Inr (Inl (Inl (Inl (eof, clauses, ts))))) \<Longrightarrow> no_longer ts (if_loop eof clauses ts)"
    and "script_dom (Inr (Inl (Inl (Inr (eof, invert, ts))))) \<Longrightarrow> no_longer ts (parseWhile eof invert ts)"
    and "script_dom (Inr (Inl (Inr (Inl (eof, ts))))) \<Longrightarrow> no_longer ts (parseFor eof ts)"
    and "script_dom (Inr (Inl (Inr (Inr (eof, ts))))) \<Longrightarrow> no_longer ts (parseCase eof ts)"
    and "script_dom (Inr (Inr (Inl (Inl (eof, subject, citems, ts))))) \<Longrightarrow> no_longer ts (case_loop eof subject citems ts)"
    and "script_dom (Inr (Inr (Inl (Inr (eof, ts))))) \<Longrightarrow> no_longer ts (parseGroup eof ts)"
    and "script_dom (Inr (Inr (Inr (Inl (eof, ts))))) \<Longrightarrow> no_longer ts (parseSubshell eof ts)"
    and "script_dom (Inr (Inr (Inr (Inr (Inl (eof, assignments, words, redirections, ts)))))) \<Longrightarrow> no_longer ts (parseSimpleCommand eof assignments words redirections ts)"
    and "script_dom (Inr (Inr (Inr (Inr (Inr (eof, name, ts)))))) \<Longrightarrow> no_longer ts (parseFunctionDefinition eof name ts)"
proof (induction eof stops items ts and eof stops "context" ts and eof ts and eof first rest ts and eof ts and eof negated commands ts and eof ts and eof ts and eof clauses ts and eof invert ts and eof ts and eof ts and eof subject citems ts and eof ts and eof ts and eof assignments words redirections ts and eof name ts
    rule: parseCommandList_parseRequiredList_parseAndOr_and_or_loop_parsePipeline_pipeline_loop_parseCommand_parseIf_if_loop_parseWhile_parseFor_parseCase_case_loop_parseGroup_parseSubshell_parseSimpleCommand_parseFunctionDefinition.pinduct)
  case (1 eof stops items ts)
  show ?case
  proof (rule no_longerI)
    fix r assume r: "parseCommandList eof stops items ts = Inr r"
    let ?ts = "skipLinebreaks ts"
    show "length (snd r) \<le> length ts"
    proof (cases "at_end ?ts \<or> atStop stops ?ts")
      case True
      with r show ?thesis using skipLinebreaks_length [of ts] by (auto simp: parseCommandList.psimps [OF 1(1)] Let_def)
    next
      case False
      with r obtain p q where p: "parseAndOr eof ?ts = Inr p" "separators eof False (snd p) = Inr q"
        and q: "(if fst q then parseCommandList eof stops (items @ [fst p]) (snd q) else Inr (CommandList (items @ [fst p]), snd q)) = Inr r"
        by (auto simp: parseCommandList.psimps [OF 1(1)] Let_def result_simps)
      have l: "length (snd q) \<le> length ts"
        using no_longerD [OF 1(2) [OF refl False] p(1)] separators_length [OF p(2)] skipLinebreaks_length [of ts] by simp
      show ?thesis
      proof (cases "fst q")
        case True
        with q l no_longerD [OF 1(3) [OF refl False p True]] show ?thesis by fastforce
      qed (use q l in auto)
    qed
  qed
next
  case (2 eof stops ctx ts)
  then show ?case
    by (auto simp: parseRequiredList.psimps no_longer_def result_simps split: if_splits)
next
  case (3 eof ts)
  then show ?case
    by (fastforce simp: parseAndOr.psimps no_longer_def result_simps)
next
  case (4 eof first rest ts)
  show ?case
  proof (cases "and_or_operator ts")
    case (Some op)
    show ?thesis
    proof (rule no_longerI)
      fix r assume "and_or_loop eof first rest ts = Inr r"
      with Some obtain p where p: "parsePipeline eof (skipLinebreaks (advance_token ts)) = Inr p"
        "and_or_loop eof first (rest @ [(op, fst p)]) (snd p) = Inr r"
        by (auto simp: and_or_loop.psimps [OF 4(1)] result_simps)
      show "length (snd r) \<le> length ts"
        using no_longerD [OF 4(2) [OF Some] p(1)] no_longerD [OF 4(3) [OF Some p(1)] p(2)]
          skipLinebreaks_length [of "advance_token ts"] by (simp add: advance_token_length)
    qed
  qed (simp add: and_or_loop.psimps [OF 4(1)] no_longer_def)
next
  case (5 eof ts)
  show ?case
  proof (rule no_longerI)
    fix r assume "parsePipeline eof ts = Inr r"
    then obtain p where p: "parseCommand eof (snd (skip_bangs False ts)) = Inr p"
      "pipeline_loop eof (fst (skip_bangs False ts)) [fst p] (snd p) = Inr r"
      by (auto simp: parsePipeline.psimps [OF 5(1)] result_simps)
    show "length (snd r) \<le> length ts"
      using no_longerD [OF 5(2) p(1)] no_longerD [OF 5(3) [OF p(1)] p(2)] skip_bangs_length [of False ts] by simp
  qed
next
  case (6 eof negated commands ts)
  show ?case
  proof (cases "at_operator_token ''|'' ts")
    case True
    show ?thesis
    proof (rule no_longerI)
      fix r assume "pipeline_loop eof negated commands ts = Inr r"
      with True obtain p where p: "parseCommand eof (skipLinebreaks (advance_token ts)) = Inr p"
        "pipeline_loop eof negated (commands @ [fst p]) (snd p) = Inr r"
        by (auto simp: pipeline_loop.psimps [OF 6(1)] result_simps)
      show "length (snd r) \<le> length ts"
        using no_longerD [OF 6(2) [OF True] p(1)] no_longerD [OF 6(3) [OF True p(1)] p(2)]
          skipLinebreaks_length [of "advance_token ts"] by (simp add: advance_token_length)
    qed
  qed (simp add: pipeline_loop.psimps [OF 6(1)] no_longer_def)
next
  case (7 eof ts)
  then show ?case
    by (simp add: parseCommand.psimps no_longer_def)
next
  case (8 eof ts)
  show ?case
  proof (rule no_longerI)
    fix r assume "parseIf eof ts = Inr r"
    then obtain c ts1 b where p: "parseRequiredList eof [''then''] ''`if`'' (advance_token ts) = Inr c"
      "expectReserved eof ''then'' (snd c) = Inr ts1"
      "parseRequiredList eof [''elif'', ''else'', ''fi''] ''`then`'' ts1 = Inr b" "if_loop eof [(fst c, fst b)] (snd b) = Inr r"
      by (auto simp: parseIf.psimps [OF 8(1)] result_simps)
    show "length (snd r) \<le> length ts"
      using no_longerD [OF 8(2) p(1)] expectReserved_length [OF p(2)] no_longerD [OF 8(3) [OF p(1,2)] p(3)]
        no_longerD [OF 8(4) [OF p(1,2,3)] p(4)] by (simp add: advance_token_length)
  qed
next
  case (9 eof clauses ts)
  show ?case
  proof (rule no_longerI)
    fix r assume r: "if_loop eof clauses ts = Inr r"
    show "length (snd r) \<le> length ts"
    proof (cases "atReserved ''elif'' ts")
      case True
      with r obtain c ts1 b where p: "parseRequiredList eof [''then''] ''`elif`'' (advance_token ts) = Inr c"
        "expectReserved eof ''then'' (snd c) = Inr ts1"
        "parseRequiredList eof [''elif'', ''else'', ''fi''] ''`then`'' ts1 = Inr b" "if_loop eof (clauses @ [(fst c, fst b)]) (snd b) = Inr r"
        by (auto simp: if_loop.psimps [OF 9(1)] result_simps)
      show ?thesis
        using no_longerD [OF 9(2) [OF True] p(1)] expectReserved_length [OF p(2)] no_longerD [OF 9(3) [OF True p(1,2)] p(3)]
          no_longerD [OF 9(4) [OF True p(1,2,3)] p(4)] by (simp add: advance_token_length)
    next
      case False
      with r obtain other ts1 rs where p: "(if atReserved ''else'' ts
          then bind_result (parseRequiredList eof [''fi''] ''`else`'' (advance_token ts)) (\<lambda>r. Inr (Some (fst r), snd r))
          else Inr (None, ts)) = Inr other"
        "expectReserved eof ''fi'' (snd other) = Inr ts1" "parseRedirectionList eof [] ts1 = Inr rs" "snd r = snd rs"
        by (auto simp: if_loop.psimps [OF 9(1)] result_simps)
      have "length (snd other) \<le> length ts"
      proof (cases "atReserved ''else'' ts")
        case True
        with p(1) obtain b where b: "parseRequiredList eof [''fi''] ''`else`'' (advance_token ts) = Inr b" "snd other = snd b"
          by (auto simp: result_simps)
        show ?thesis using no_longerD [OF 9(5) [OF False True] b(1)] b(2) by (simp add: advance_token_length)
      qed (use p(1) in auto)
      then show ?thesis
        using expectReserved_length [OF p(2)] parseRedirectionList_length [OF p(3)] p(4) by simp
    qed
  qed
next
  case (10 eof invert ts)
  show ?case
  proof (rule no_longerI)
    fix r assume "parseWhile eof invert ts = Inr r"
    then obtain c ts1 b ts2 rs where p: "parseRequiredList eof [''do''] (if invert then ''`until`'' else ''`while`'') (advance_token ts) = Inr c"
      "expectReserved eof ''do'' (snd c) = Inr ts1" "parseRequiredList eof [''done''] ''`do`'' ts1 = Inr b"
      "expectReserved eof ''done'' (snd b) = Inr ts2" "parseRedirectionList eof [] ts2 = Inr rs" "snd r = snd rs"
      by (auto simp only: parseWhile.psimps [OF 10(1)] result_simps sum.inject prod.inject snd_conv)
    show "length (snd r) \<le> length ts"
      using no_longerD [OF 10(2) p(1)] expectReserved_length [OF p(2)] no_longerD [OF 10(3) [OF p(1,2)] p(3)]
        expectReserved_length [OF p(4)] parseRedirectionList_length [OF p(5)] p(6) by (simp add: advance_token_length)
  qed
next
  case (11 eof ts)
  let ?t1 = "advance_token ts"
  let ?t2 = "advance_token ?t1"
  let ?w = "if atReserved ''in'' ?t2 then (Some (fst (for_words (advance_token ?t2))), skip_semicolon (snd (for_words (advance_token ?t2))))
     else (None, skip_semicolon ?t2)"
  have w: "length (snd ?w) \<le> length ts"
    using skip_semicolon_length [of "snd (for_words (advance_token ?t2))"] for_words_length [of "advance_token ?t2"]
      skip_semicolon_length [of ?t2] by (auto simp: advance_token_length)
  show ?case
  proof (rule no_longerI)
    fix r assume r: "parseFor eof ts = Inr r"
    then obtain n where n: "for_name ?t1 = Some n"
      by (auto simp: parseFor.psimps [OF 11(1)] Let_def split: option.splits)
    with r obtain ts1 b ts2 rs where p: "expectReserved eof ''do'' (skipLinebreaks (snd ?w)) = Inr ts1"
      "parseRequiredList eof [''done''] ''`do`'' ts1 = Inr b"
      "expectReserved eof ''done'' (snd b) = Inr ts2" "parseRedirectionList eof [] ts2 = Inr rs" "snd r = snd rs"
      by (auto simp: parseFor.psimps [OF 11(1)] Let_def result_simps split: if_splits)
    have "no_longer ts1 (parseRequiredList eof [''done''] ''`do`'' ts1)"
      using 11(2) [OF refl n refl refl, of "fst ?w" "snd ?w" ts1] p(1) by simp
    then show "length (snd r) \<le> length ts"
      using no_longerD [OF _ p(2)] expectReserved_length [OF p(1)] expectReserved_length [OF p(3)] parseRedirectionList_length [OF p(4)]
        p(5) w skipLinebreaks_length [of "snd ?w"] by fastforce
  qed
next
  case (12 eof ts)
  show ?case
  proof (rule no_longerI)
    fix r assume r: "parseCase eof ts = Inr r"
    let ?t1 = "advance_token ts"
    from r obtain w ts1 where p: "word_of_token ?t1 = Some w"
      "expectReserved eof ''in'' (skipLinebreaks (advance_token ?t1)) = Inr ts1" "case_loop eof w [] ts1 = Inr r"
      by (auto simp: parseCase.psimps [OF 12(1)] Let_def result_simps split: option.splits)
    show "length (snd r) \<le> length ts"
      using no_longerD [OF 12(2) [OF refl p(1,2)] p(3)] expectReserved_length [OF p(2)]
        skipLinebreaks_length [of "advance_token ?t1"] by (simp add: advance_token_length)
  qed
next
  case (13 eof subject items ts)
  let ?ts = "skipLinebreaks ts"
  let ?open = "if at_operator_token ''('' ?ts then advance_token ?ts else ?ts"
  have finish: "length (snd r) \<le> length us"
    if "bind_result (expectReserved eof ''esac'' us) (\<lambda>ts. bind_result (parseRedirectionList eof [] ts)
      (\<lambda>rs. Inr (Case subject is' (fst rs), snd rs))) = Inr r" for us is' r
    using that by (auto simp: result_simps dest!: expectReserved_length parseRedirectionList_length)
  have ts: "length ?ts \<le> length ts" "length ?open \<le> length ts"
    using skipLinebreaks_length [of ts] by (auto simp: advance_token_length)
  show ?case
  proof (rule no_longerI)
    fix r assume r: "case_loop eof subject items ts = Inr r"
    show "length (snd r) \<le> length ts"
    proof (cases "atReserved ''esac'' ?ts")
      case True
      with r have "bind_result (expectReserved eof ''esac'' ?ts) (\<lambda>ts. bind_result (parseRedirectionList eof [] ts)
          (\<lambda>rs. Inr (Case subject items (fst rs), snd rs))) = Inr r"
        by (simp add: case_loop.psimps [OF 13(1)] Let_def)
      from finish [OF this] ts show ?thesis by simp
    next
      case False
      with r obtain ps b where p: "case_patterns eof [] ?open = Inr ps" "at_operator_token '')'' (snd ps)"
        "parseCommandList eof ['';;'', ''esac''] [] (advance_token (snd ps)) = Inr b"
        and b: "(if at_operator_token '';;'' (skipLinebreaks (snd b))
            then case_loop eof subject (items @ [(fst ps, fst b)]) (advance_token (skipLinebreaks (snd b)))
            else bind_result (expectReserved eof ''esac'' (skipLinebreaks (snd b))) (\<lambda>ts. bind_result (parseRedirectionList eof [] ts)
              (\<lambda>rs. Inr (Case subject (items @ [(fst ps, fst b)]) (fst rs), snd rs)))) = Inr r"
        by (auto simp: case_loop.psimps [OF 13(1)] Let_def result_simps split: if_splits)
      have l: "length (snd b) \<le> length ts"
        using case_patterns_length [OF p(1)] ts(2) no_longerD [OF 13(2) [OF refl refl False p(1)] p(3)] p(2)
        by (simp add: advance_token_length)
      show ?thesis
      proof (cases "at_operator_token '';;'' (skipLinebreaks (snd b))")
        case True
        with b have "case_loop eof subject (items @ [(fst ps, fst b)]) (advance_token (skipLinebreaks (snd b))) = Inr r" by simp
        from no_longerD [OF 13(3) [OF refl refl False p(1) _ p(3) refl True] this] p(2) l skipLinebreaks_length [of "snd b"]
        show ?thesis by (simp add: advance_token_length)
      next
        case no: False
        with b have "bind_result (expectReserved eof ''esac'' (skipLinebreaks (snd b))) (\<lambda>ts. bind_result (parseRedirectionList eof [] ts)
            (\<lambda>rs. Inr (Case subject (items @ [(fst ps, fst b)]) (fst rs), snd rs))) = Inr r" by simp
        from finish [OF this] l skipLinebreaks_length [of "snd b"] show ?thesis by simp
      qed
    qed
  qed
next
  case (14 eof ts)
  show ?case
  proof (rule no_longerI)
    fix r assume "parseGroup eof ts = Inr r"
    then obtain b ts1 rs where p: "parseRequiredList eof [''}''] ''`{ }`'' (advance_token ts) = Inr b"
      "expectReserved eof ''}'' (snd b) = Inr ts1" "parseRedirectionList eof [] ts1 = Inr rs" "snd r = snd rs"
      by (auto simp: parseGroup.psimps [OF 14(1)] result_simps)
    show "length (snd r) \<le> length ts"
      using no_longerD [OF 14(2) p(1)] expectReserved_length [OF p(2)] parseRedirectionList_length [OF p(3)] p(4)
      by (simp add: advance_token_length)
  qed
next
  case (15 eof ts)
  show ?case
  proof (rule no_longerI)
    fix r assume "parseSubshell eof ts = Inr r"
    then obtain b rs where p: "parseRequiredList eof ['')''] ''`( )`'' (advance_token ts) = Inr b"
      "parseRedirectionList eof [] (advance_token (snd b)) = Inr rs" "snd r = snd rs"
      by (auto simp: parseSubshell.psimps [OF 15(1)] result_simps split: if_splits)
    show "length (snd r) \<le> length ts"
      using no_longerD [OF 15(2) p(1)] parseRedirectionList_length [OF p(2)] p(3) by (simp add: advance_token_length)
  qed
next
  case (16 eof assignments words redirections ts)
  show ?case
  proof (cases "atRedirection ts")
    case True
    show ?thesis
    proof (rule no_longerI)
      fix r assume "parseSimpleCommand eof assignments words redirections ts = Inr r"
      with True obtain p where p: "parseRedirection eof ts = Inr p"
        "parseSimpleCommand eof assignments words (redirections @ [fst p]) (snd p) = Inr r"
        by (auto simp: parseSimpleCommand.psimps [OF 16(1)] result_simps)
      show "length (snd r) \<le> length ts"
        using redirection_shorter [OF p(1)] no_longerD [OF 16(2) [OF True p(1)] p(2)] by simp
    qed
  next
    case False
    have up: "no_longer ts p" if "no_longer (advance_token ts) p" for p :: "command parse"
      using that by (auto simp: no_longer_def advance_token_length)
    show ?thesis
      using 16(3-5) [OF False]
      by (auto simp: parseSimpleCommand.psimps [OF 16(1)] False no_longer_def [of ts "Inr _"] no_longer_def [of ts "Inl _"]
          split: option.splits intro: up)
  qed
next
  case (17 eof name ts)
  show ?case
  proof (rule no_longerI)
    fix r assume "parseFunctionDefinition eof name ts = Inr r"
    then obtain b where p: "parseCommand eof (skipLinebreaks (advance_token (advance_token (advance_token ts)))) = Inr b" "snd r = snd b"
      by (auto simp: parseFunctionDefinition.psimps [OF 17(1)] Let_def result_simps split: if_splits)
    show "length (snd r) \<le> length ts"
      using no_longerD [OF 17(2) [OF refl] p(1)] p(2) skipLinebreaks_length [of "advance_token (advance_token (advance_token ts))"]
      by (simp add: advance_token_length)
  qed
qed


lemma within_skipped:
  "n \<le> length (skipLinebreaks ts) \<Longrightarrow> n \<le> length ts" "n < length (skipLinebreaks ts) \<Longrightarrow> n < length ts"
  "n \<le> length (snd (skip_bangs b ts)) \<Longrightarrow> n \<le> length ts"
  "n < length (skip_semicolon ts) \<Longrightarrow> n < length ts" "n < length (snd (for_words ts)) \<Longrightarrow> n < length ts"
  using skipLinebreaks_length [of ts] skip_bangs_length [of b ts] skip_semicolon_length [of ts] for_words_length [of ts] by simp_all

lemma skipped_length:
  "length (skipLinebreaks ts) \<noteq> length ts \<Longrightarrow> length (skipLinebreaks ts) < length ts"
  "length (snd (skip_bangs b ts)) \<noteq> length ts \<Longrightarrow> length (snd (skip_bangs b ts)) < length ts"
  using skipLinebreaks_length [of ts] skip_bangs_length [of b ts] by simp_all

text \<open>The rank orders the calls that consume nothing.\<close>

termination parseCommandList
  apply (relation "measures [(case_sum (case_sum (case_sum (case_sum (\<lambda>(_, _, _, ts). length ts) (\<lambda>(_, _, _, ts). length ts)) (case_sum (\<lambda>(_, ts). length ts) (\<lambda>(_, _, _, ts). length ts))) (case_sum (case_sum (\<lambda>(_, ts). length ts) (\<lambda>(_, _, _, ts). length ts)) (case_sum (\<lambda>(_, ts). length ts) (\<lambda>(_, ts). length ts)))) (case_sum (case_sum (case_sum (\<lambda>(_, _, ts). length ts) (\<lambda>(_, _, ts). length ts)) (case_sum (\<lambda>(_, ts). length ts) (\<lambda>(_, ts). length ts))) (case_sum (case_sum (\<lambda>(_, _, _, ts). length ts) (\<lambda>(_, ts). length ts)) (case_sum (\<lambda>(_, ts). length ts) (case_sum (\<lambda>(_, _, _, _, ts). length ts) (\<lambda>(_, _, ts). length ts)))))),
    (case_sum (case_sum (case_sum (case_sum (\<lambda>_. 10) (\<lambda>_. 11)) (case_sum (\<lambda>_. 9) (\<lambda>_. 0))) (case_sum (case_sum (\<lambda>_. 8) (\<lambda>_. 0)) (case_sum (\<lambda>_. 7) (\<lambda>(_, ts). if ts = [] then 20 else 6)))) (case_sum (case_sum (case_sum (\<lambda>_. 0) (\<lambda>(_, _, ts). if ts = [] then 20 else 6)) (case_sum (\<lambda>_. 6) (\<lambda>_. 6))) (case_sum (case_sum (\<lambda>_. 0) (\<lambda>(_, ts). if ts = [] then 20 else 6)) (case_sum (\<lambda>(_, ts). if ts = [] then 20 else 6) (case_sum (\<lambda>_. 5) (\<lambda>(_, _, ts). if ts = [] then 20 else 4))))))]")
  apply (simp_all only: wf_measures in_measures)
  apply (auto simp: Let_def neq_Nil_conv advance_token_def skipped_length less_Suc_eq_le skipLinebreaks_length numeral_2_eq_2 Suc_less_eq2
    dest!: token_present function_name_length
    no_longerD [OF parsed_no_longer(1)] no_longerD [OF parsed_no_longer(2)] no_longerD [OF parsed_no_longer(3)] no_longerD [OF parsed_no_longer(5)] no_longerD [OF parsed_no_longer(7)] expectReserved_length separators_length
    redirection_shorter case_patterns_length within_skipped
    split: if_splits)
  subgoal for ts ya ys ysa m' using skipLinebreaks_length [of ts] by simp
  subgoal for a b ts ab bb ya yb ys ysa ysb m' using skipLinebreaks_length [of ts] skipLinebreaks_length [of bb] by simp
  subgoal for a b ts ab bb ya ys ysa m' using skipLinebreaks_length [of bb] by simp
  subgoal for ys using skipLinebreaks_length [of "tl (tl ys)"] by simp
  done

declare parseCommandList.simps [simp del] parseRequiredList.simps [simp del] parseAndOr.simps [simp del]
  and_or_loop.simps [simp del] parsePipeline.simps [simp del] pipeline_loop.simps [simp del] parseCommand.simps [simp del]
  parseIf.simps [simp del] if_loop.simps [simp del] parseWhile.simps [simp del] parseFor.simps [simp del] parseCase.simps [simp del]
  case_loop.simps [simp del] parseGroup.simps [simp del] parseSubshell.simps [simp del] parseSimpleCommand.simps [simp del]
  parseFunctionDefinition.simps [simp del]

definition parseProgram :: "position \<Rightarrow> token list \<Rightarrow> shell_error + command_list" where
  "parseProgram eof ts =
    bind_result (parseCommandList eof [] [] ts) (\<lambda>r.
      if \<not> at_end (snd r) then Inl (parse_error eof (snd r) (''unexpected '' @ describe (peek_token eof (snd r))))
      else Inr (fst r))"

section \<open>Canonical tokens of a tree\<close>

text \<open>
  The tokens of a syntax tree in a canonical layout: every item of a list ends with a semicolon,
  every redirection names its descriptor, assignments come before words and words before
  redirections. The text and the \<open>literalOnly\<close> flag of a word token are those the lexer computes.
\<close>

fun part_text :: "word_part \<Rightarrow> string" where
  "part_text (LiteralPart t _) = t"
| "part_text _ = []"

fun plain_part :: "word_part \<Rightarrow> bool" where
  "plain_part (LiteralPart _ quoted) = (\<not> quoted)"
| "plain_part _ = False"

definition word_token :: "shell_word \<Rightarrow> token" where
  "word_token w = WordToken w (concat (map part_text w)) (list_all plain_part w) 0 0"

definition keyword :: "string \<Rightarrow> token" where
  "keyword t = word_token [LiteralPart t False]"

definition op :: "string \<Rightarrow> token" where
  "op t = OperatorToken t None 0 0"

definition assignment_word :: "assignment \<Rightarrow> shell_word" where
  "assignment_word a =
    (case snd a of
       LiteralPart t False # ps \<Rightarrow> LiteralPart (fst a @ CHR ''='' # t) False # ps
     | _ \<Rightarrow> LiteralPart (fst a @ ''='') False # snd a)"

definition wf_assignment :: "assignment \<Rightarrow> bool" where
  "wf_assignment a \<longleftrightarrow> isName (fst a) \<and> (case snd a of LiteralPart t False # _ \<Rightarrow> t \<noteq> [] | _ \<Rightarrow> True)"

definition redirection_tokens :: "redirection \<Rightarrow> token list" where
  "redirection_tokens r =
    (if rd_operator r = ''<<''
     then [IoNumber (rd_fd r) 0 0,
           OperatorToken ''<<'' (Some \<lparr>hd_stripTabs = False, hd_delimiter = [], hd_quoted = False, hd_body = the (rd_here r)\<rparr>) 0 0]
     else [IoNumber (rd_fd r) 0 0, op (rd_operator r), word_token (the (rd_target r))])"

definition wf_redirection :: "redirection \<Rightarrow> bool" where
  "wf_redirection r \<longleftrightarrow> rd_operator r \<in> set REDIRECTION_OPERATORS \<and>
    (if rd_operator r = ''<<'' then rd_target r = None \<and> rd_here r \<noteq> None
     else rd_here r = None \<and> rd_target r \<noteq> None \<and>
       (rd_operator r \<in> {''>&'', ''<&''} \<longrightarrow>
         list_all plain_part (the (rd_target r)) \<and> is_descriptor_word (concat (map part_text (the (rd_target r))))))"

definition redirections_tokens :: "redirection list \<Rightarrow> token list" where
  "redirections_tokens rs = concat (map redirection_tokens rs)"

definition patterns_tokens :: "shell_word list \<Rightarrow> token list" where
  "patterns_tokens ps = word_token (hd ps) # concat (map (\<lambda>p. [op ''|'', word_token p]) (tl ps))"

text \<open>A word that can begin a command.\<close>

definition command_word :: "shell_word \<Rightarrow> bool" where
  "command_word w \<longleftrightarrow>
    (list_all plain_part w \<longrightarrow> concat (map part_text w) \<notin> set RESERVED_WORDS \<and> concat (map part_text w) \<noteq> ''function'')"

definition wf_simple :: "assignment list \<Rightarrow> shell_word list \<Rightarrow> redirection list \<Rightarrow> bool" where
  "wf_simple as ws rs \<longleftrightarrow>
    list_all wf_assignment as \<and> list_all wf_redirection rs \<and> (as \<noteq> [] \<or> ws \<noteq> [] \<or> rs \<noteq> []) \<and>
    (ws \<noteq> [] \<longrightarrow> splitAssignment (hd ws) = None \<and> (as = [] \<longrightarrow> command_word (hd ws)))"

definition wf_for_word :: "shell_word \<Rightarrow> bool" where
  "wf_for_word w \<longleftrightarrow> \<not> (list_all plain_part w \<and> (concat (map part_text w) = ''do'' \<or> concat (map part_text w) = ''done''))"

function (sequential) command_tokens :: "command \<Rightarrow> token list"
and clauses_tokens :: "string \<Rightarrow> (command_list \<times> command_list) list \<Rightarrow> token list"
and items_tokens :: "(shell_word list \<times> command_list) list \<Rightarrow> token list"
and pipeline_tokens :: "pipeline \<Rightarrow> token list"
and tail_tokens :: "command list \<Rightarrow> token list"
and and_or_tokens :: "and_or_list \<Rightarrow> token list"
and links_tokens :: "(string \<times> pipeline) list \<Rightarrow> token list"
and list_tokens :: "command_list \<Rightarrow> token list"
and entries_tokens :: "and_or_list list \<Rightarrow> token list" where
  "command_tokens (Simple as ws rs) = map (\<lambda>a. word_token (assignment_word a)) as @ map word_token ws @ redirections_tokens rs"
| "command_tokens (Subshell l rs) = op ''('' # list_tokens l @ op '')'' # redirections_tokens rs"
| "command_tokens (Group l rs) = keyword ''{'' # list_tokens l @ keyword ''}'' # redirections_tokens rs"
| "command_tokens (If cs other rs) =
    clauses_tokens ''if'' cs @ (case other of None \<Rightarrow> [] | Some l \<Rightarrow> keyword ''else'' # list_tokens l) @
    keyword ''fi'' # redirections_tokens rs"
| "command_tokens (For n ws l rs) =
    keyword ''for'' # keyword n # (case ws of None \<Rightarrow> [] | Some ws \<Rightarrow> keyword ''in'' # map word_token ws) @
    op '';'' # keyword ''do'' # list_tokens l @ keyword ''done'' # redirections_tokens rs"
| "command_tokens (While invert c l rs) =
    keyword (if invert then ''until'' else ''while'') # list_tokens c @ keyword ''do'' # list_tokens l @
    keyword ''done'' # redirections_tokens rs"
| "command_tokens (Case w its rs) =
    keyword ''case'' # word_token w # keyword ''in'' # items_tokens its @ keyword ''esac'' # redirections_tokens rs"
| "command_tokens (Function n c) = keyword n # op ''('' # op '')'' # command_tokens c"
| "clauses_tokens w [] = []"
| "clauses_tokens w ((c, b) # cs) = keyword w # list_tokens c @ keyword ''then'' # list_tokens b @ clauses_tokens ''elif'' cs"
| "items_tokens [] = []"
| "items_tokens ((ps, l) # its) = op ''('' # patterns_tokens ps @ op '')'' # list_tokens l @ op '';;'' # items_tokens its"
| "pipeline_tokens (Pipeline negated cs) = (if negated then [keyword ''!''] else []) @
    (case cs of [] \<Rightarrow> [] | c # cs \<Rightarrow> command_tokens c @ tail_tokens cs)"
| "tail_tokens [] = []"
| "tail_tokens (c # cs) = op ''|'' # command_tokens c @ tail_tokens cs"
| "and_or_tokens (AndOrList p ls) = pipeline_tokens p @ links_tokens ls"
| "links_tokens [] = []"
| "links_tokens ((v, p) # ls) = op v # pipeline_tokens p @ links_tokens ls"
| "list_tokens (CommandList es) = entries_tokens es"
| "entries_tokens [] = []"
| "entries_tokens (e # es) = and_or_tokens e @ op '';'' # entries_tokens es"
  by pat_completeness auto
termination command_tokens
  by (relation "measure (case_sum (case_sum (case_sum size (\<lambda>(_, cs). size_list (size_prod size size) cs)) (case_sum (size_list (size_prod (\<lambda>_. 0) size)) size)) (case_sum (case_sum (size_list size) size) (case_sum (size_list (size_prod (\<lambda>_. 0) size)) (case_sum size (size_list size)))))") (auto split: if_splits)

text \<open>The trees the parser produces: no empty list where a command is required, no reserved word in a place where it would be one.\<close>

function (sequential) wf_command :: "command \<Rightarrow> bool"
and wf_clauses :: "(command_list \<times> command_list) list \<Rightarrow> bool"
and wf_items :: "(shell_word list \<times> command_list) list \<Rightarrow> bool"
and wf_pipeline :: "pipeline \<Rightarrow> bool"
and wf_commands :: "command list \<Rightarrow> bool"
and wf_and_or :: "and_or_list \<Rightarrow> bool"
and wf_links :: "(string \<times> pipeline) list \<Rightarrow> bool"
and wf_list :: "command_list \<Rightarrow> bool"
and wf_entries :: "and_or_list list \<Rightarrow> bool" where
  "wf_command (Simple as ws rs) = wf_simple as ws rs"
| "wf_command (Subshell l rs) = (wf_list l \<and> list_items l \<noteq> [] \<and> list_all wf_redirection rs)"
| "wf_command (Group l rs) = (wf_list l \<and> list_items l \<noteq> [] \<and> list_all wf_redirection rs)"
| "wf_command (If cs other rs) =
    (cs \<noteq> [] \<and> wf_clauses cs \<and> (case other of None \<Rightarrow> True | Some l \<Rightarrow> wf_list l \<and> list_items l \<noteq> []) \<and>
     list_all wf_redirection rs)"
| "wf_command (For n ws l rs) =
    (isName n \<and> (case ws of None \<Rightarrow> True | Some ws \<Rightarrow> list_all wf_for_word ws) \<and> wf_list l \<and> list_items l \<noteq> [] \<and>
     list_all wf_redirection rs)"
| "wf_command (While invert c l rs) =
    (wf_list c \<and> list_items c \<noteq> [] \<and> wf_list l \<and> list_items l \<noteq> [] \<and> list_all wf_redirection rs)"
| "wf_command (Case w its rs) = (wf_items its \<and> list_all wf_redirection rs)"
| "wf_command (Function n c) = (isName n \<and> n \<notin> set RESERVED_WORDS \<and> n \<noteq> ''function'' \<and> \<not> is_function c \<and> wf_command c)"
| "wf_clauses [] = True"
| "wf_clauses ((c, b) # cs) = (wf_list c \<and> list_items c \<noteq> [] \<and> wf_list b \<and> list_items b \<noteq> [] \<and> wf_clauses cs)"
| "wf_items [] = True"
| "wf_items ((ps, l) # its) = (ps \<noteq> [] \<and> wf_list l \<and> wf_items its)"
| "wf_pipeline (Pipeline negated cs) = (cs \<noteq> [] \<and> wf_commands cs)"
| "wf_commands [] = True"
| "wf_commands (c # cs) = (wf_command c \<and> wf_commands cs)"
| "wf_and_or (AndOrList p ls) = (wf_pipeline p \<and> wf_links ls)"
| "wf_links [] = True"
| "wf_links ((v, p) # ls) = (v \<in> {''&&'', ''||''} \<and> wf_pipeline p \<and> wf_links ls)"
| "wf_list (CommandList es) = wf_entries es"
| "wf_entries [] = True"
| "wf_entries (e # es) = (wf_and_or e \<and> wf_entries es)"
  by pat_completeness auto
termination wf_command
  by (relation "measure (case_sum (case_sum (case_sum size (size_list (size_prod size size))) (case_sum (size_list (size_prod (\<lambda>_. 0) size)) size)) (case_sum (case_sum (size_list size) size) (case_sum (size_list (size_prod (\<lambda>_. 0) size)) (case_sum size (size_list size)))))") auto

subsection \<open>Tokens one by one\<close>

lemma keyword_eq: "keyword t = WordToken [LiteralPart t False] t True 0 0"
  by (simp add: keyword_def word_token_def)

lemma at_keyword [simp]:
  "atReserved w (keyword t # ts) \<longleftrightarrow> t = w \<and> w \<in> set RESERVED_WORDS"
  "at_operator_token v (keyword t # ts) = False" "at_function_keyword (keyword t # ts) \<longleftrightarrow> t = ''function''"
  "atRedirection (keyword t # ts) = False" "skipLinebreaks (keyword t # ts) = keyword t # ts"
  "at_end (keyword t # ts) = False" "for_name (keyword t # ts) = (if isName t then Some t else None)"
  "separators eof b (keyword t # ts) = Inr (b, keyword t # ts)" "word_of_token (keyword t # ts) = Some [LiteralPart t False]"
  "atStop stops (keyword t # ts) \<longleftrightarrow> t \<in> set RESERVED_WORDS \<and> t \<in> set stops"
  by (auto simp: keyword_eq at_end_def)

lemma at_op [simp]:
  "atReserved w (op v # ts) = False" "at_operator_token u (op v # ts) \<longleftrightarrow> v = u" "at_function_keyword (op v # ts) = False"
  "atRedirection (op v # ts) \<longleftrightarrow> v \<in> set REDIRECTION_OPERATORS" "skipLinebreaks (op v # ts) = op v # ts"
  "at_end (op v # ts) = False" "word_of_token (op v # ts) = None" "atStop stops (op v # ts) \<longleftrightarrow> v \<in> set stops"
  by (auto simp: op_def at_end_def)

lemma at_word [simp]:
  "at_operator_token v (word_token w # ts) = False" "atRedirection (word_token w # ts) = False"
  "skipLinebreaks (word_token w # ts) = word_token w # ts" "at_end (word_token w # ts) = False"
  "word_of_token (word_token w # ts) = Some w" "separators eof b (word_token w # ts) = Inr (b, word_token w # ts)"
  by (auto simp: word_token_def at_end_def)

lemma advance_Cons [simp]: "advance_token (t # ts) = ts"
  by (simp add: advance_token_def)

lemma expect_keyword [simp]: "w \<in> set RESERVED_WORDS \<Longrightarrow> expectReserved eof w (keyword w # ts) = Inr ts"
  by (simp add: expectReserved_def)

lemma reserved [simp]:
  "''if'' \<in> set RESERVED_WORDS" "''then'' \<in> set RESERVED_WORDS" "''elif'' \<in> set RESERVED_WORDS" "''else'' \<in> set RESERVED_WORDS"
  "''fi'' \<in> set RESERVED_WORDS" "''do'' \<in> set RESERVED_WORDS" "''done'' \<in> set RESERVED_WORDS" "''while'' \<in> set RESERVED_WORDS"
  "''until'' \<in> set RESERVED_WORDS" "''for'' \<in> set RESERVED_WORDS" "''in'' \<in> set RESERVED_WORDS" "''case'' \<in> set RESERVED_WORDS"
  "''esac'' \<in> set RESERVED_WORDS" "''{'' \<in> set RESERVED_WORDS" "''}'' \<in> set RESERVED_WORDS" "''!'' \<in> set RESERVED_WORDS"
  by (simp_all add: RESERVED_WORDS_def)

text \<open>What follows a command, a pipeline and an item.\<close>

definition ends_command :: "token list \<Rightarrow> bool" where
  "ends_command ts \<longleftrightarrow> (\<exists>v us. ts = op v # us \<and> v \<in> {''|'', ''&&'', ''||'', '';''})"

definition ends_pipeline :: "token list \<Rightarrow> bool" where
  "ends_pipeline ts \<longleftrightarrow> (\<exists>v us. ts = op v # us \<and> v \<in> {''&&'', ''||'', '';''})"

lemma ends_command_op [simp]: "v \<in> {''|'', ''&&'', ''||'', '';''} \<Longrightarrow> ends_command (op v # us)"
  by (auto simp: ends_command_def)

lemma ends_pipeline_op [simp]: "v \<in> {''&&'', ''||'', '';''} \<Longrightarrow> ends_pipeline (op v # us)"
  by (auto simp: ends_pipeline_def)

lemma ends_pipeline_command: "ends_pipeline ts \<Longrightarrow> ends_command ts"
  by (auto simp: ends_pipeline_def ends_command_def)

lemma ends_commandD:
  "ends_command ts \<Longrightarrow> \<not> atRedirection ts" "ends_command ts \<Longrightarrow> word_of_token ts = None" "ends_command ts \<Longrightarrow> \<not> at_operator_token ''('' ts"
  by (auto simp: ends_command_def REDIRECTION_OPERATORS_def)

lemma ends_pipelineD: "ends_pipeline ts \<Longrightarrow> \<not> at_operator_token ''|'' ts"
  by (auto simp: ends_pipeline_def)

text \<open>What a command begins with.\<close>

definition begins_command :: "token list \<Rightarrow> bool" where
  "begins_command ts \<longleftrightarrow> (case ts of [] \<Rightarrow> False | t # _ \<Rightarrow> (case t of
     WordToken _ x literalOnly _ _ \<Rightarrow> literalOnly \<longrightarrow> x \<in> {''if'', ''while'', ''until'', ''for'', ''case'', ''{''} \<or> x \<notin> set RESERVED_WORDS
   | IoNumber _ _ _ \<Rightarrow> True
   | OperatorToken v _ _ _ \<Rightarrow> v = ''(''
   | _ \<Rightarrow> False))"

definition begins_item :: "token list \<Rightarrow> bool" where
  "begins_item ts \<longleftrightarrow> begins_command ts \<or> atReserved ''!'' ts"

definition stops_ok :: "string list \<Rightarrow> bool" where
  "stops_ok stops \<longleftrightarrow> list_all (\<lambda>w. w \<notin> {''if'', ''while'', ''until'', ''for'', ''case'', ''{'', ''!'', ''(''}) stops"

lemma begins_command_simps [simp]:
  "begins_command (keyword t # ts) \<longleftrightarrow> t \<in> {''if'', ''while'', ''until'', ''for'', ''case'', ''{''} \<or> t \<notin> set RESERVED_WORDS"
  "begins_command (op v # ts) \<longleftrightarrow> v = ''(''"
  by (auto simp: begins_command_def keyword_eq op_def)

lemma begins_itemD:
  assumes "begins_item ts"
  shows "\<not> at_end ts" "skipLinebreaks ts = ts" "separators eof b ts = Inr (b, ts)"
    "stops_ok stops \<Longrightarrow> \<not> atStop stops ts"
proof -
  obtain t us where ts: "ts = t # us" using assms by (cases ts) (auto simp: begins_item_def begins_command_def)
  show "\<not> at_end ts" "skipLinebreaks ts = ts" "separators eof b ts = Inr (b, ts)"
    using assms ts by (cases t; simp add: begins_item_def begins_command_def at_end_def)+
  show "\<not> atStop stops ts" if "stops_ok stops"
    using assms ts that by (cases t) (auto simp: begins_item_def begins_command_def stops_ok_def list_all_iff)
qed

text \<open>What ends a list.\<close>

definition stopper :: "string list \<Rightarrow> token list \<Rightarrow> bool" where
  "stopper stops ts \<longleftrightarrow> (at_end ts \<or> atStop stops ts) \<and> skipLinebreaks ts = ts \<and> (\<forall>eof b. separators eof b ts = Inr (b, ts))"

lemma stopper_keyword: "w \<in> set RESERVED_WORDS \<Longrightarrow> w \<in> set stops \<Longrightarrow> stopper stops (keyword w # ts)"
  by (simp add: stopper_def)

lemma stopper_op: "v \<in> set stops \<Longrightarrow> v \<noteq> '';'' \<Longrightarrow> v \<noteq> ''&'' \<Longrightarrow> stopper stops (op v # ts)"
  by (simp add: stopper_def op_def)

lemma stopper_Nil: "stopper stops []"
  by (simp add: stopper_def at_end_def)

subsection \<open>Redirections, assignments, words\<close>

lemma redirection_back:
  assumes "wf_redirection r"
  shows "parseRedirection eof (redirection_tokens r @ ts) = Inr (r, ts)" "atRedirection (redirection_tokens r @ ts)"
proof -
  show "parseRedirection eof (redirection_tokens r @ ts) = Inr (r, ts)"
    using assms
    by (cases r) (auto simp: parseRedirection_def redirection_tokens_def wf_redirection_def Let_def peek_token_def op_def
        word_token_def advance_token_def)
  show "atRedirection (redirection_tokens r @ ts)"
    using assms by (auto simp: redirection_tokens_def wf_redirection_def op_def REDIRECTION_OPERATORS_def)
qed

lemma redirections_back:
  "list_all wf_redirection rs \<Longrightarrow> \<not> atRedirection rest \<Longrightarrow>
    parseRedirectionList eof acc (redirections_tokens rs @ rest) = Inr (acc @ rs, rest)"
proof (induction rs arbitrary: acc)
  case Nil
  then show ?case by (simp add: redirections_tokens_def parseRedirectionList.simps)
next
  case (Cons r rs)
  then show ?case
    using redirection_back(1) [of r eof "redirections_tokens rs @ rest"] redirection_back(2) [of r "redirections_tokens rs @ rest"]
    by (simp add: parseRedirectionList.simps [of eof acc] redirections_tokens_def)
qed

lemma simple_redirections_back:
  "list_all wf_redirection rs \<Longrightarrow> ends_command rest \<Longrightarrow> as \<noteq> [] \<or> ws \<noteq> [] \<or> acc @ rs \<noteq> [] \<Longrightarrow>
    parseSimpleCommand eof as ws acc (redirections_tokens rs @ rest) = Inr (Simple as ws (acc @ rs), rest)"
proof (induction rs arbitrary: acc)
  case Nil
  then show ?case
    by (simp add: redirections_tokens_def parseSimpleCommand.simps [of _ _ _ _ rest] ends_commandD)
next
  case (Cons r rs)
  then show ?case
    using redirection_back(1) [of r eof "redirections_tokens rs @ rest"] redirection_back(2) [of r "redirections_tokens rs @ rest"]
    by (simp add: parseSimpleCommand.simps [of _ _ _ acc] redirections_tokens_def)
qed

text \<open>No token of a simple command is followed by an opening parenthesis.\<close>

lemma no_paren:
  assumes "ends_command rest" "list_all wf_redirection rs"
  shows "\<not> at_operator_token ''('' (map word_token ws @ redirections_tokens rs @ rest)"
proof (cases ws)
  case Nil
  then show ?thesis
    using ends_commandD(3) [OF assms(1)] by (cases rs) (auto simp: redirections_tokens_def redirection_tokens_def)
qed simp

lemma not_function: "\<not> at_operator_token ''('' us \<Longrightarrow> function_name (word_token w # us) = None"
proof -
  assume n: "\<not> at_operator_token ''('' us"
  have "\<not> isFunctionDefinition (word_token w # us)"
  proof
    assume "isFunctionDefinition (word_token w # us)"
    then show False
      using n by (cases "word_token w # us" rule: isFunctionDefinition.cases) auto
  qed
  then show ?thesis by (simp add: word_token_def)
qed

lemma simple_words_back:
  "list_all wf_redirection rs \<Longrightarrow> ends_command rest \<Longrightarrow> acc \<noteq> [] \<Longrightarrow>
    parseSimpleCommand eof as acc [] (map word_token ws @ redirections_tokens rs @ rest) = Inr (Simple as (acc @ ws) rs, rest)"
proof (induction ws arbitrary: acc)
  case Nil
  then show ?case using simple_redirections_back [of rs rest as acc "[]" eof] by simp
next
  case (Cons w ws)
  then show ?case by (simp add: parseSimpleCommand.simps [of _ _ acc])
qed

lemma simple_first_word_back:
  assumes "list_all wf_redirection rs" "ends_command rest" "as \<noteq> [] \<or> ws \<noteq> [] \<or> rs \<noteq> []"
    and "ws \<noteq> [] \<Longrightarrow> splitAssignment (hd ws) = None"
  shows "parseSimpleCommand eof as [] [] (map word_token ws @ redirections_tokens rs @ rest) = Inr (Simple as ws rs, rest)"
proof (cases ws)
  case Nil
  then show ?thesis using simple_redirections_back [OF assms(1,2), of as "[]" "[]" eof] assms(3) by simp
next
  case (Cons w us)
  have "function_name (word_token w # map word_token us @ redirections_tokens rs @ rest) = None"
    by (rule not_function [OF no_paren [OF assms(2,1)]])
  with Cons assms show ?thesis
    by (simp add: parseSimpleCommand.simps [of _ as "[]" "[]"] simple_words_back)
qed

lemma splitAssignment_back: "wf_assignment a \<Longrightarrow> splitAssignment (assignment_word a) = Some a"
proof -
  assume w: "wf_assignment a"
  obtain n v where a: "a = (n, v)" by (cases a)
  have eq: "\<not> is_name_char (CHR ''='')" by code_simp
  have n: "\<forall>c \<in> set n. is_name_char c" "n \<noteq> []" "is_name_start (hd n)"
    using w a by (auto simp: wf_assignment_def isName_def list_all_iff)
  have tw: "takeWhile is_name_char (n @ CHR ''='' # t) = n" "dropWhile is_name_char (n @ CHR ''='' # t) = CHR ''='' # t" for t
    using n eq by (simp_all add: takeWhile_append2 dropWhile_append2)
  show ?thesis
    using w a n tw by (auto simp: splitAssignment_def assignment_word_def wf_assignment_def Let_def
        split: list.splits word_part.splits bool.splits)
qed

lemma simple_back:
  "list_all wf_assignment bs \<Longrightarrow> list_all wf_redirection rs \<Longrightarrow> ends_command rest \<Longrightarrow> as @ bs \<noteq> [] \<or> ws \<noteq> [] \<or> rs \<noteq> [] \<Longrightarrow>
    (ws \<noteq> [] \<Longrightarrow> splitAssignment (hd ws) = None) \<Longrightarrow>
    parseSimpleCommand eof as [] [] (map (\<lambda>a. word_token (assignment_word a)) bs @ map word_token ws @ redirections_tokens rs @ rest) =
      Inr (Simple (as @ bs) ws rs, rest)"
proof (induction bs arbitrary: as)
  case Nil
  then show ?case using simple_first_word_back [of rs rest as ws eof] by simp
next
  case (Cons b bs)
  have "\<not> at_operator_token ''('' (map (\<lambda>a. word_token (assignment_word a)) bs @ map word_token ws @ redirections_tokens rs @ rest)"
    using no_paren [OF Cons.prems(3,2), of ws] by (cases bs) auto
  from not_function [OF this] Cons show ?case
    by (simp add: parseSimpleCommand.simps [of _ as "[]" "[]"] splitAssignment_back)
qed


subsection \<open>Commands, pipelines and lists\<close>

lemma begins_word: "command_word w \<Longrightarrow> begins_command (word_token w # ts)"
  by (simp add: begins_command_def word_token_def command_word_def)

lemma not_special:
  "command_word w \<Longrightarrow> v \<in> set RESERVED_WORDS \<Longrightarrow> \<not> atReserved v (word_token w # ts)"
  "command_word w \<Longrightarrow> \<not> at_function_keyword (word_token w # ts)"
  by (auto simp: command_word_def word_token_def)

lemma assignment_command_word: "wf_assignment a \<Longrightarrow> command_word (assignment_word a)"
proof -
  have "list_all (\<lambda>w. CHR ''='' \<notin> set w) (''function'' # RESERVED_WORDS)" by code_simp
  then have "\<forall>w \<in> insert ''function'' (set RESERVED_WORDS). CHR ''='' \<notin> set w" by (simp add: list_all_iff)
  moreover have "CHR ''='' \<in> set (concat (map part_text (assignment_word a)))"
    by (auto simp: assignment_word_def split: list.splits word_part.splits bool.splits)
  ultimately show ?thesis unfolding command_word_def by blast
qed

lemma begins_redirections: "rs \<noteq> [] \<Longrightarrow> begins_command (redirections_tokens rs @ ts)"
  by (cases rs) (auto simp: redirections_tokens_def redirection_tokens_def begins_command_def)

lemma redirections_not_special:
  "rs \<noteq> [] \<Longrightarrow> \<not> atReserved v (redirections_tokens rs @ ts)" "rs \<noteq> [] \<Longrightarrow> \<not> at_function_keyword (redirections_tokens rs @ ts)"
  "rs \<noteq> [] \<Longrightarrow> \<not> at_operator_token v (redirections_tokens rs @ ts)"
  by (cases rs; auto simp: redirections_tokens_def redirection_tokens_def)+

text \<open>The first token of a simple command is none of the special ones.\<close>

lemma simple_start:
  assumes "wf_simple as ws rs"
  shows "(\<exists>w us. command_tokens (Simple as ws rs) @ rest = word_token w # us \<and> command_word w) \<or>
    (\<exists>qs. qs \<noteq> [] \<and> command_tokens (Simple as ws rs) @ rest = redirections_tokens qs @ rest)"
proof (cases as)
  case (Cons a bs)
  with assms assignment_command_word [of a] show ?thesis by (auto simp: wf_simple_def)
next
  case Nil
  with assms show ?thesis by (cases ws) (auto simp: wf_simple_def)
qed

lemma begins_command_tokens: "wf_command c \<Longrightarrow> begins_command (command_tokens c @ rest)"
proof (cases c)
  case (Simple as ws rs)
  assume "wf_command c"
  with Simple simple_start [of as ws rs rest] show ?thesis
    by (auto simp: begins_word begins_redirections simp del: command_tokens.simps)
next
  case (If cs other rs)
  assume "wf_command c"
  with If show ?thesis by (cases cs) auto
qed auto

lemma begins_not_bang: "begins_command ts \<Longrightarrow> skip_bangs b ts = (b, ts)"
  by (cases ts; cases "hd ts") (auto simp: begins_command_def)

lemma begins_pipeline_tokens: "wf_pipeline p \<Longrightarrow> begins_item (pipeline_tokens p @ rest)"
  by (cases p rule: wf_pipeline.cases) (auto simp: begins_item_def begins_command_tokens neq_Nil_conv)

lemma begins_and_or_tokens: "wf_and_or a \<Longrightarrow> begins_item (and_or_tokens a @ rest)"
  by (cases a) (simp add: begins_pipeline_tokens)

lemma begins_entries: "wf_entries es \<Longrightarrow> es \<noteq> [] \<Longrightarrow> begins_item (entries_tokens es @ rest)"
  by (cases es) (auto simp: begins_and_or_tokens)

lemma for_words_back:
  "list_all wf_for_word ws \<Longrightarrow> for_words (map word_token ws @ op '';'' # ts) = (ws, op '';'' # ts)"
  by (induction ws) (auto simp: wf_for_word_def word_token_def op_def)

lemma case_patterns_back:
  "case_patterns eof acc (word_token p # concat (map (\<lambda>p. [op ''|'', word_token p]) ps) @ op '')'' # ts) = Inr (acc @ p # ps, op '')'' # ts)"
  by (induction ps arbitrary: p acc) (simp_all add: word_token_def op_def)

lemma required_back:
  assumes "\<And>acc. parseCommandList eof stops acc (list_tokens l @ rest) = Inr (CommandList (acc @ list_items l), rest)"
    and "list_items l \<noteq> []"
  shows "parseRequiredList eof stops ctx (list_tokens l @ rest) = Inr (l, rest)"
  using assms by (cases l) (simp add: parseRequiredList.simps)

lemma entries_step:
  assumes item: "\<And>us. parseAndOr eof (and_or_tokens e @ op '';'' # us) = Inr (e, op '';'' # us)"
    and wf: "wf_and_or e" "wf_entries es" "stops_ok stops" "stopper stops rest"
    and rest: "\<And>acc. parseCommandList eof stops acc (entries_tokens es @ rest) = Inr (CommandList (acc @ es), rest)"
  shows "parseCommandList eof stops acc (entries_tokens (e # es) @ rest) = Inr (CommandList (acc @ e # es), rest)"
proof -
  let ?us = "entries_tokens es @ rest"
  note b = begins_itemD [OF begins_and_or_tokens [OF wf(1), of "op '';'' # ?us"]]
  have "separators eof True ?us = Inr (True, ?us)"
    using wf begins_itemD(3) [OF begins_entries [of es rest]] by (cases "es = []"; cases eof) (auto simp: stopper_def)
  then have "separators eof False (op '';'' # ?us) = Inr (True, ?us)"
    by (simp add: op_def)
  with b(1,2) b(4) [OF wf(3)] item [of ?us] rest [of "acc @ [e]"] show ?thesis
    by (simp add: parseCommandList.simps [of _ _ acc])
qed

lemma stops_ok_sets [simp]:
  "stops_ok [''then'']" "stops_ok [''elif'', ''else'', ''fi'']" "stops_ok [''fi'']" "stops_ok [''do'']" "stops_ok [''done'']"
  "stops_ok [''}'']" "stops_ok ['')'']" "stops_ok ['';;'', ''esac'']" "stops_ok []"
  by (simp_all add: stops_ok_def)


subsection \<open>The parser gives the tree back\<close>

lemma tokens_parse_back:
  "wf_command c \<Longrightarrow> ends_command rest \<Longrightarrow> parseCommand eof (command_tokens c @ rest) = Inr (c, rest)"
  "wf_clauses cs \<Longrightarrow> stopper [''elif'', ''else'', ''fi''] tail \<Longrightarrow> \<not> atReserved ''elif'' tail \<Longrightarrow>
    (w = ''elif'' \<longrightarrow> (\<forall>acc. if_loop eof acc (clauses_tokens w cs @ tail) = if_loop eof (acc @ cs) tail)) \<and>
    (w = ''if'' \<longrightarrow> cs \<noteq> [] \<longrightarrow> parseIf eof (clauses_tokens w cs @ tail) = if_loop eof cs tail)"
  "wf_items its \<Longrightarrow> case_loop eof subject acc (items_tokens its @ tail) = case_loop eof subject (acc @ its) tail"
  "wf_pipeline p \<Longrightarrow> ends_pipeline rest \<Longrightarrow> parsePipeline eof (pipeline_tokens p @ rest) = Inr (p, rest)"
  "wf_commands ds \<Longrightarrow> ends_pipeline rest \<Longrightarrow> pipeline_loop eof neg acc' (tail_tokens ds @ rest) = Inr (Pipeline neg (acc' @ ds), rest)"
  "wf_and_or a \<Longrightarrow> parseAndOr eof (and_or_tokens a @ op '';'' # us) = Inr (a, op '';'' # us)"
  "wf_links ls \<Longrightarrow> and_or_loop eof p' acc'' (links_tokens ls @ op '';'' # us) = Inr (AndOrList p' (acc'' @ ls), op '';'' # us)"
  "wf_list l \<Longrightarrow> stops_ok stops \<Longrightarrow> stopper stops rest \<Longrightarrow>
    parseCommandList eof stops es' (list_tokens l @ rest) = Inr (CommandList (es' @ list_items l), rest)"
  "wf_entries es \<Longrightarrow> stops_ok stops \<Longrightarrow> stopper stops rest \<Longrightarrow>
    parseCommandList eof stops es' (entries_tokens es @ rest) = Inr (CommandList (es' @ es), rest)"
proof (induction c and w cs and its and p and ds and a and ls and l and es
    arbitrary: rest and tail and tail acc subject and rest and rest acc' neg and us and us acc'' p' and stops rest es' and stops rest es'
    rule: command_tokens_clauses_tokens_items_tokens_pipeline_tokens_tail_tokens_and_or_tokens_links_tokens_list_tokens_entries_tokens.induct)
  case (1 as ws rs)
  have w: "wf_simple as ws rs" using 1(1) by simp
  have "parseCommand eof (command_tokens (Simple as ws rs) @ rest) = parseSimpleCommand eof [] [] [] (command_tokens (Simple as ws rs) @ rest)"
    using simple_start [OF w, of rest]
    by (elim disjE exE conjE)
      (simp_all only: parseCommand.simps not_special reserved at_word redirections_not_special if_False not_False_eq_True)
  also have "... = Inr (Simple as ws rs, rest)"
    using w 1(2) simple_back [of as rs rest "[]" ws eof] by (auto simp: wf_simple_def)
  finally show ?case .
next
  case (2 l rs)
  have "parseRequiredList eof ['')''] ctx (list_tokens l @ op '')'' # redirections_tokens rs @ rest) = Inr (l, op '')'' # redirections_tokens rs @ rest)" for ctx
    using 2(2) by (intro required_back 2(1)) (auto simp: stopper_op)
  then show ?case
    using 2(2,3) redirections_back [of rs rest eof "[]"] by (simp add: parseCommand.simps parseSubshell.simps ends_commandD)
next
  case (3 l rs)
  have "parseRequiredList eof [''}''] ctx (list_tokens l @ keyword ''}'' # redirections_tokens rs @ rest) = Inr (l, keyword ''}'' # redirections_tokens rs @ rest)" for ctx
    using 3(2) by (intro required_back 3(1)) (auto simp: stopper_keyword)
  then show ?case
    using 3(2,3) redirections_back [of rs rest eof "[]"] by (simp add: parseCommand.simps parseGroup.simps ends_commandD)
next
  case (4 cs other rs)
  let ?fi = "keyword ''fi'' # redirections_tokens rs @ rest"
  let ?tail = "(case other of None \<Rightarrow> [] | Some l \<Rightarrow> keyword ''else'' # list_tokens l) @ ?fi"
  have tail: "stopper [''elif'', ''else'', ''fi''] ?tail" "\<not> atReserved ''elif'' ?tail"
    by (cases other; simp add: stopper_keyword)+
  have clauses: "parseIf eof (clauses_tokens ''if'' cs @ ?tail) = if_loop eof cs ?tail"
    using 4(1) [of ?tail] 4(3) tail by auto
  have red: "parseRedirectionList eof [] (redirections_tokens rs @ rest) = Inr (rs, rest)"
    using 4(3,4) redirections_back [of rs rest eof "[]"] by (simp add: ends_commandD)
  have "if_loop eof cs ?tail = Inr (If cs other rs, rest)"
  proof (cases other)
    case None
    then show ?thesis using red by (simp add: if_loop.simps)
  next
    case (Some l)
    have "parseRequiredList eof [''fi''] ''`else`'' (list_tokens l @ ?fi) = Inr (l, ?fi)"
      using 4(3) Some by (intro required_back 4(2) [OF Some]) (auto simp: stopper_keyword)
    then show ?thesis using Some red by (simp add: if_loop.simps [of _ cs])
  qed
  moreover have "atReserved ''if'' (clauses_tokens ''if'' cs @ ?tail)"
    using 4(3) by (cases cs) auto
  ultimately show ?case using clauses by (simp add: parseCommand.simps)
next
  case (5 n ws l rs)
  let ?done = "keyword ''done'' # redirections_tokens rs @ rest"
  have body: "parseRequiredList eof [''done''] ''`do`'' (list_tokens l @ ?done) = Inr (l, ?done)"
    using 5(2) by (intro required_back 5(1)) (auto simp: stopper_keyword)
  have red: "parseRedirectionList eof [] (redirections_tokens rs @ rest) = Inr (rs, rest)"
    using 5(2,3) redirections_back [of rs rest eof "[]"] by (simp add: ends_commandD)
  show ?case
    using 5(2) body red
    by (cases ws) (simp_all add: parseCommand.simps parseFor.simps Let_def skip_semicolon_def for_words_back)
next
  case (6 invert c l rs)
  let ?done = "keyword ''done'' # redirections_tokens rs @ rest"
  have body: "parseRequiredList eof [''done''] ''`do`'' (list_tokens l @ ?done) = Inr (l, ?done)"
    using 6(3) by (intro required_back 6(2)) (auto simp: stopper_keyword)
  have cond: "parseRequiredList eof [''do''] ctx (list_tokens c @ keyword ''do'' # list_tokens l @ ?done) = Inr (c, keyword ''do'' # list_tokens l @ ?done)" for ctx
    using 6(3) by (intro required_back 6(1)) (auto simp: stopper_keyword)
  have red: "parseRedirectionList eof [] (redirections_tokens rs @ rest) = Inr (rs, rest)"
    using 6(3,4) redirections_back [of rs rest eof "[]"] by (simp add: ends_commandD)
  show ?case
    using body cond red by (cases invert) (simp_all add: parseCommand.simps parseWhile.simps)
next
  case (7 w its rs)
  have red: "parseRedirectionList eof [] (redirections_tokens rs @ rest) = Inr (rs, rest)"
    using 7(2,3) redirections_back [of rs rest eof "[]"] by (simp add: ends_commandD)
  have "case_loop eof w [] (items_tokens its @ keyword ''esac'' # redirections_tokens rs @ rest) = Inr (Case w its rs, rest)"
    using 7(1) 7(2) red by (simp add: case_loop.simps [of _ w its])
  then show ?case by (simp add: parseCommand.simps parseCase.simps Let_def)
next
  case (8 n c)
  have body: "parseCommand eof (command_tokens c @ rest) = Inr (c, rest)" using 8 by simp
  have skip: "skipLinebreaks (command_tokens c @ rest) = command_tokens c @ rest"
    using 8(2) begins_itemD(2) [of "command_tokens c @ rest"] begins_command_tokens [of c rest] by (simp add: begins_item_def)
  have "function_name (keyword n # op ''('' # op '')'' # command_tokens c @ rest) = Some n"
    using 8(2) by (simp add: keyword_eq op_def)
  then show ?case
    using 8(2) body skip
    by (simp add: parseCommand.simps [of _ "keyword n # _"] parseSimpleCommand.simps [of _ "[]" "[]" "[]" "keyword n # _"] parseFunctionDefinition.simps Let_def)
       (metis reserved)
next
  case (9 w)
  then show ?case by simp
next
  case (10 w c b cs)
  let ?tail = "clauses_tokens ''elif'' cs @ tail"
  let ?then = "keyword ''then'' # list_tokens b @ ?tail"
  have wf: "wf_list c" "list_items c \<noteq> []" "wf_list b" "list_items b \<noteq> []" "wf_clauses cs" using 10(4) by simp_all
  have stop: "stopper [''elif'', ''else'', ''fi''] ?tail"
    using 10(5) by (cases cs) (auto simp: stopper_keyword)
  have cond: "parseRequiredList eof [''then''] ctx (list_tokens c @ ?then) = Inr (c, ?then)" for ctx
    using wf by (intro required_back 10(1)) (auto simp: stopper_keyword)
  have body: "parseRequiredList eof [''elif'', ''else'', ''fi''] ''`then`'' (list_tokens b @ ?tail) = Inr (b, ?tail)"
    using wf stop by (intro required_back 10(2)) auto
  have more: "if_loop eof acc ?tail = if_loop eof (acc @ cs) tail" for acc
    using 10(3) [OF wf(5) 10(5,6)] by simp
  show ?case
    using cond body more by (auto simp: if_loop.simps [of _ _ "keyword _ # _"] parseIf.simps)
next
  case 11
  then show ?case by simp
next
  case (12 ps l its)
  let ?more = "items_tokens its @ tail"
  have wf: "ps \<noteq> []" "wf_list l" "wf_items its" using 12(3) by simp_all
  have pats: "case_patterns eof [] (patterns_tokens ps @ op '')'' # us) = Inr (ps, op '')'' # us)" for us
    using wf(1) case_patterns_back [of eof "[]" "hd ps" "tl ps" us] by (simp add: patterns_tokens_def)
  have body: "parseCommandList eof ['';;'', ''esac''] [] (list_tokens l @ op '';;'' # ?more) = Inr (l, op '';;'' # ?more)"
    using 12(1) [OF wf(2), of "['';;'', ''esac'']" "op '';;'' # ?more" "[]"] by (cases l) (simp add: stopper_op)
  show ?case
    using pats body 12(2) [OF wf(3)] by (simp add: case_loop.simps [of _ subject acc])
next
  case (13 negated cs)
  obtain c ds where cs: "cs = c # ds" "wf_command c" "wf_commands ds" using 13(3) by (cases cs) auto
  have e: "ends_command (tail_tokens ds @ rest)"
    using 13(4) by (cases ds) (auto intro: ends_pipeline_command)
  have first: "parseCommand eof (command_tokens c @ tail_tokens ds @ rest) = Inr (c, tail_tokens ds @ rest)"
    using 13(1) [OF cs(1,2) e] .
  have more: "pipeline_loop eof negated [c] (tail_tokens ds @ rest) = Inr (Pipeline negated (c # ds), rest)"
    using 13(2) [OF cs(1,3) 13(4)] by simp
  have b: "skip_bangs v (command_tokens c @ tail_tokens ds @ rest) = (v, command_tokens c @ tail_tokens ds @ rest)" for v
    using begins_not_bang [OF begins_command_tokens [OF cs(2)]] .
  have "skip_bangs False (pipeline_tokens (Pipeline negated cs) @ rest) = (negated, command_tokens c @ tail_tokens ds @ rest)"
    using b cs(1) by (cases negated) (auto simp: keyword_eq)
  then show ?case using first more cs(1) by (simp add: parsePipeline.simps)
next
  case 14
  then show ?case by (simp add: pipeline_loop.simps ends_pipelineD)
next
  case (15 c ds)
  have wf: "wf_command c" "wf_commands ds" using 15(3) by simp_all
  have e: "ends_command (tail_tokens ds @ rest)"
    using 15(4) by (cases ds) (auto intro: ends_pipeline_command)
  have skip: "skipLinebreaks (command_tokens c @ tail_tokens ds @ rest) = command_tokens c @ tail_tokens ds @ rest"
    using begins_itemD(2) [of "command_tokens c @ tail_tokens ds @ rest"] begins_command_tokens [OF wf(1)] by (simp add: begins_item_def)
  show ?case
    using 15(1) [OF wf(1) e] 15(2) [OF wf(2) 15(4), of neg "acc' @ [c]"] skip
    by (simp add: pipeline_loop.simps [of _ neg acc'])
next
  case (16 p ls)
  have wf: "wf_pipeline p" "wf_links ls" using 16(3) by simp_all
  have e: "ends_pipeline (links_tokens ls @ op '';'' # us)"
    using wf(2) by (cases ls rule: wf_links.cases) auto
  show ?case
    using 16(1) [OF wf(1) e] 16(2) [OF wf(2), of p "[]" us] by (simp add: parseAndOr.simps)
next
  case 17
  then show ?case by (simp add: and_or_loop.simps and_or_operator_def)
next
  case (18 v p ls)
  have wf: "v \<in> {''&&'', ''||''}" "wf_pipeline p" "wf_links ls" using 18(3) by simp_all
  have e: "ends_pipeline (links_tokens ls @ op '';'' # us)"
    using wf(3) by (cases ls rule: wf_links.cases) auto
  have skip: "skipLinebreaks (pipeline_tokens p @ links_tokens ls @ op '';'' # us) = pipeline_tokens p @ links_tokens ls @ op '';'' # us"
    by (rule begins_itemD(2) [OF begins_pipeline_tokens [OF wf(2)]])
  show ?case
    using wf(1) 18(1) [OF wf(2) e] 18(2) [OF wf(3), of p' "acc'' @ [(v, p)]" us] skip
    by (auto simp: and_or_loop.simps [of _ p' acc''] and_or_operator_def)
next
  case (19 es)
  then show ?case by simp
next
  case 20
  then show ?case by (auto simp: parseCommandList.simps stopper_def)
next
  case (21 e es)
  have wf: "wf_and_or e" "wf_entries es" using 21(3) by simp_all
  show ?case
    by (rule entries_step [OF 21(1) [OF wf(1)] wf 21(4,5) 21(2) [OF wf(2) 21(4,5)]])
qed


text \<open>C40: A program printed token by token in its canonical form is read back by the parser as the same tree:
  every compound command, redirection, assignment, case item, pipeline, and-or link and list entry comes back where
  it was, for programs of any size and nesting.\<close>

theorem parser_reads_back:
  assumes "wf_list l"
  shows "parseProgram eof (list_tokens l) = Inr l"
  using tokens_parse_back(8) [OF assms stops_ok_sets(9) stopper_Nil, of eof "[]"]
  by (cases l) (simp add: parseProgram_def at_end_def)

theorem parser_reads_back_witness:
  "parseProgram (1, 1) (list_tokens (CommandList [AndOrList (Pipeline True [If [(CommandList [AndOrList (Pipeline False [Simple [] [[LiteralPart ''a'' False]] []]) []],
      CommandList [AndOrList (Pipeline False [Simple [(''x'', [])] [] []]) []])] None []]) []])) =
    Inr (CommandList [AndOrList (Pipeline True [If [(CommandList [AndOrList (Pipeline False [Simple [] [[LiteralPart ''a'' False]] []]) []],
      CommandList [AndOrList (Pipeline False [Simple [(''x'', [])] [] []]) []])] None []]) []])"
  by (rule parser_reads_back)
     code_simp


text \<open>
  Assignments and redirections read before a function definition leave no trace: \<open>x=1 f() { :; }\<close> parses as
  the definition alone.
\<close>

theorem prefix_before_function_lost:
  assumes "function_name ts = Some n"
  shows "parseSimpleCommand eof as [] rs ts = parseFunctionDefinition eof n ts"
proof -
  obtain w t l c us where "ts = WordToken w t True l c # us" using assms by (cases ts rule: function_name.cases) (auto split: if_splits)
  with assms show ?thesis by (simp add: parseSimpleCommand.simps)
qed

end
