(* ===== verification/Shell_Lexer.thy ===== *)
theory Shell_Lexer
  imports Shell_Parser
begin

text \<open>
  The lexer of \<open>airship-sh\<close> (\<open>execution/shell/lexer.ts\<close>): from the characters of a script to the tokens the
  parser reads, with quoting, parameter expansions, substitutions and here-documents.

  A lexer is what is left of its source together with its line and column. The closing \<open>eof\<close>
  token is given by its position, as the parser takes it. A here-document record is filled in after
  its token was pushed, so the pending records are the indices of their tokens.
\<close>

section \<open>Characters and positions\<close>

type_synonym lexer = "string \<times> position"

abbreviation newline :: char where "newline \<equiv> CHR 0x0A"
abbreviation quote :: char where "quote \<equiv> CHR 0x27"
abbreviation dquote :: char where "dquote \<equiv> CHR 0x22"
abbreviation backslash :: char where "backslash \<equiv> CHR 0x5C"
abbreviation backquote :: char where "backquote \<equiv> CHR 0x60"

fun step_position :: "char \<Rightarrow> position \<Rightarrow> position" where
  "step_position c (line, column) = (if c = newline then (line + 1, 1) else (line, column + 1))"

fun lex_error :: "string \<Rightarrow> position \<Rightarrow> shell_error" where
  "lex_error message (line, column) = ShellParseError message line column"

definition OPERATOR_START :: "char list" where
  "OPERATOR_START = ''|&;<>()''"

definition PARAMETER_SPECIALS :: "char list" where
  "PARAMETER_SPECIALS = ''?$!#*@-0''"

definition ends_word :: "char \<Rightarrow> bool" where
  "ends_word c \<longleftrightarrow> c = newline \<or> c = CHR '' '' \<or> c = CHR 0x09 \<or> c \<in> set OPERATOR_START"

fun skipBlanks :: "lexer \<Rightarrow> lexer" where
  "skipBlanks (c # cs, p) = (if c = CHR '' '' \<or> c = CHR 0x09 then skipBlanks (cs, step_position c p) else (c # cs, p))"
| "skipBlanks ([], p) = ([], p)"

section \<open>Scans\<close>

fun readSingleQuoted :: "string \<Rightarrow> lexer \<Rightarrow> shell_error + string \<times> lexer" where
  "readSingleQuoted t ([], p) = Inl (lex_error ''unterminated single quote'' p)"
| "readSingleQuoted t (c # cs, p) =
    (if c = quote then Inr (t, cs, step_position c p) else readSingleQuoted (t @ [c]) (cs, step_position c p))"

fun readRawQuoted :: "char \<Rightarrow> string \<Rightarrow> lexer \<Rightarrow> shell_error + string \<times> lexer" where
  "readRawQuoted q t ([], p) = Inl (lex_error (''unterminated '' @ [q] @ '' quote'') p)"
| "readRawQuoted q t ([c], p) =
    (if c = q then Inr (t @ [c], [], step_position c p)
     else Inl (lex_error (''unterminated '' @ [q] @ '' quote'') (step_position c p)))"
| "readRawQuoted q t (c # d # cs, p) =
    (if c = backslash \<and> q = dquote then readRawQuoted q (t @ [c, d]) (cs, step_position d (step_position c p))
     else if c = q then Inr (t @ [c], d # cs, step_position c p)
     else readRawQuoted q (t @ [c]) (d # cs, step_position c p))"

fun readBackquoted :: "string \<Rightarrow> lexer \<Rightarrow> shell_error + string \<times> lexer" where
  "readBackquoted script ([], p) = Inl (lex_error ''unterminated backquote command substitution'' p)"
| "readBackquoted script ([c], p) =
    (if c = backquote then Inr (script, [], step_position c p)
     else if c = backslash
     then Inl (lex_error ''unterminated backquote command substitution'' (fst p, snd p + 2))
     else Inl (lex_error ''unterminated backquote command substitution'' (step_position c p)))"
| "readBackquoted script (c # d # cs, p) =
    (if c = backquote then Inr (script, d # cs, step_position c p)
     else if c = backslash
     then readBackquoted (script @ (if d = CHR ''$'' \<or> d = backquote \<or> d = backslash then [d] else [backslash, d]))
       (cs, step_position d (step_position c p))
     else readBackquoted (script @ [c]) (d # cs, step_position c p))"

lemma scan_length:
  "readSingleQuoted t lx = Inr r \<Longrightarrow> length (fst (snd r)) < length (fst lx)"
  "readRawQuoted q t lx = Inr r \<Longrightarrow> length (fst (snd r)) < length (fst lx)"
  "readBackquoted t lx = Inr r \<Longrightarrow> length (fst (snd r)) < length (fst lx)"
proof -
  show "readSingleQuoted t lx = Inr r \<Longrightarrow> length (fst (snd r)) < length (fst lx)"
    by (induction t lx rule: readSingleQuoted.induct) (auto split: if_splits)
  show "readRawQuoted q t lx = Inr r \<Longrightarrow> length (fst (snd r)) < length (fst lx)"
    by (induction q t lx rule: readRawQuoted.induct) (auto split: if_splits)
  show "readBackquoted t lx = Inr r \<Longrightarrow> length (fst (snd r)) < length (fst lx)"
    by (induction t lx rule: readBackquoted.induct) (auto split: if_splits)
qed

text \<open>A balanced scan; the arithmetic scan differs in its end and in that it gives up instead of failing.\<close>

function readBalanced :: "char \<Rightarrow> char \<Rightarrow> nat \<Rightarrow> string \<Rightarrow> lexer \<Rightarrow> shell_error + string \<times> lexer" where
  "readBalanced open_ch close_ch depth t ([], p) =
    Inl (lex_error (''unterminated '' @ [open_ch, close_ch] @ '' expansion'') p)"
| "readBalanced open_ch close_ch depth t (c # cs, p) =
    (if c = quote \<or> c = dquote
     then bind_result (readRawQuoted c [] (cs, step_position c p)) (\<lambda>r. readBalanced open_ch close_ch depth (t @ [c] @ fst r) (snd r))
     else if c = backslash
     then (case cs of
             [] \<Rightarrow> readBalanced open_ch close_ch depth (t @ [c]) (cs, step_position c p)
           | d # ds \<Rightarrow> readBalanced open_ch close_ch depth (t @ [c, d]) (ds, step_position d (step_position c p)))
     else if c = close_ch
     then (if depth = 1 then Inr (t, cs, step_position c p)
           else readBalanced open_ch close_ch (depth - 1) (t @ [c]) (cs, step_position c p))
     else readBalanced open_ch close_ch (if c = open_ch then depth + 1 else depth) (t @ [c]) (cs, step_position c p))"
  by pat_completeness auto
termination
  by (relation "measure (\<lambda>(_, _, _, _, lx). length (fst lx))") (auto dest!: scan_length(2))

function scan_arithmetic :: "nat \<Rightarrow> string \<Rightarrow> lexer \<Rightarrow> shell_error + (string \<times> lexer) option" where
  "scan_arithmetic depth t ([], p) = Inr None"
| "scan_arithmetic depth t (c # cs, p) =
    (if c = quote \<or> c = dquote
     then bind_result (readRawQuoted c [] (cs, step_position c p)) (\<lambda>r. scan_arithmetic depth (t @ [c] @ fst r) (snd r))
     else if c = backslash
     then (case cs of
             [] \<Rightarrow> scan_arithmetic depth (t @ [c]) (cs, step_position c p)
           | d # ds \<Rightarrow> scan_arithmetic depth (t @ [c, d]) (ds, step_position d (step_position c p)))
     else if c = CHR '')''
     then (if depth = 1
           then (case cs of
                   d # ds \<Rightarrow> if d = CHR '')'' then Inr (Some (t, ds, step_position d (step_position c p))) else Inr None
                 | [] \<Rightarrow> Inr None)
           else scan_arithmetic (depth - 1) (t @ [c]) (cs, step_position c p))
     else scan_arithmetic (if c = CHR ''('' then depth + 1 else depth) (t @ [c]) (cs, step_position c p))"
  by pat_completeness auto
termination
  by (relation "measure (\<lambda>(_, _, lx). length (fst lx))") (auto dest!: scan_length(2))

lemma raw_length:
  "readRawQuoted q t lx = Inr r \<Longrightarrow> length (fst r) + length (fst (snd r)) = length t + length (fst lx)"
  by (induction q t lx rule: readRawQuoted.induct) (auto split: if_splits)

lemma readBalanced_length:
  "readBalanced open_ch close_ch depth t lx = Inr r \<Longrightarrow> length (fst r) + length (fst (snd r)) < length t + length (fst lx)"
proof (induction open_ch close_ch depth t lx rule: readBalanced.induct)
  case (2 open_ch close_ch depth t c cs p)
  consider "c = quote \<or> c = dquote" | "c = backslash" | "c \<noteq> quote" "c \<noteq> dquote" "c \<noteq> backslash" by blast
  then show ?case
  proof cases
    case 1
    with 2(6) obtain q where q: "readRawQuoted c [] (cs, step_position c p) = Inr q"
      "readBalanced open_ch close_ch depth (t @ [c] @ fst q) (snd q) = Inr r"
      by (auto simp: result_simps)
    from 2(1) [OF 1 q] raw_length [OF q(1)] show ?thesis by simp
  next
    case b: 2
    then show ?thesis using 2(2,3,6) by (cases cs) auto
  next
    case 3
    then show ?thesis using 2(4,5,6) by (auto split: if_splits)
  qed
qed simp

lemma scan_arithmetic_length:
  "scan_arithmetic depth t lx = Inr (Some r) \<Longrightarrow> length (fst r) + length (fst (snd r)) < length t + length (fst lx)"
proof (induction depth t lx rule: scan_arithmetic.induct)
  case (2 depth t c cs p)
  consider "c = quote \<or> c = dquote" | "c = backslash" | "c \<noteq> quote" "c \<noteq> dquote" "c \<noteq> backslash" by blast
  then show ?case
  proof cases
    case 1
    with 2(6) obtain q where q: "readRawQuoted c [] (cs, step_position c p) = Inr q"
      "scan_arithmetic depth (t @ [c] @ fst q) (snd q) = Inr (Some r)"
      by (auto simp: result_simps)
    from 2(1) [OF 1 q] raw_length [OF q(1)] show ?thesis by simp
  next
    case b: 2
    then show ?thesis using 2(2,3,6) by (cases cs) auto
  next
    case 3
    then show ?thesis using 2(4,5,6) by (auto split: if_splits list.splits)
  qed
qed simp


section \<open>Words\<close>

text \<open>Adjacent literal parts with the same quoting become one part.\<close>

fun push_part :: "shell_word \<Rightarrow> word_part \<Rightarrow> shell_word" where
  "push_part parts part =
    (case part of
       LiteralPart t q \<Rightarrow>
         (if parts = [] then [part]
          else case last parts of
            LiteralPart t' q' \<Rightarrow> if q' = q then butlast parts @ [LiteralPart (t' @ t) q] else parts @ [part]
          | _ \<Rightarrow> parts @ [part])
     | _ \<Rightarrow> parts @ [part])"

text \<open>The user name after a tilde, unless a character rules the tilde out.\<close>

fun tilde_user :: "string \<Rightarrow> string option" where
  "tilde_user [] = Some []"
| "tilde_user (c # cs) =
    (if c = CHR ''/'' \<or> ends_word c then Some []
     else if is_alpha_ascii c \<or> is_digit c \<or> c \<in> set ''._-'' then map_option (\<lambda>u. c # u) (tilde_user cs)
     else None)"

fun advance_by :: "nat \<Rightarrow> lexer \<Rightarrow> lexer" where
  "advance_by 0 lx = lx"
| "advance_by (Suc n) (c # cs, p) = advance_by n (cs, step_position c p)"
| "advance_by (Suc n) ([], p) = ([], p)"

definition readTilde :: "shell_word \<Rightarrow> lexer \<Rightarrow> shell_word \<times> lexer" where
  "readTilde parts lx =
    (case tilde_user (tl (fst lx)) of
       None \<Rightarrow> (parts, lx)
     | Some user \<Rightarrow> (push_part parts (TildePart user), advance_by (length user + 1) lx))"

definition simple_parameter :: "string \<Rightarrow> bool \<Rightarrow> word_part" where
  "simple_parameter name quoted = ParameterPart name NoOperator False False None quoted"

text \<open>\<open>[A-Za-z_][A-Za-z0-9_]*|[0-9]+|[?$!#*@-]\<close> at the start of a text.\<close>

definition braced_name :: "string \<Rightarrow> string option" where
  "braced_name t =
    (case t of
       [] \<Rightarrow> None
     | c # _ \<Rightarrow>
         if is_name_start c then Some (takeWhile is_name_char t)
         else if is_digit c then Some (takeWhile is_digit t)
         else if c \<in> set ''?$!#*@-'' then Some [c]
         else None)"

definition parseParameterOperator :: "string \<Rightarrow> (parameter_operator \<times> bool \<times> nat) option" where
  "parseParameterOperator rest =
    (let colon = prefix '':'' rest; body = (if colon then tl rest else rest); consumed = (if colon then 2 else 1) in
     if prefix ''-'' body then Some (UseDefault, colon, consumed)
     else if prefix ''='' body then Some (AssignDefault, colon, consumed)
     else if prefix ''?'' body then Some (ErrorIfUnset, colon, consumed)
     else if prefix ''+'' body then Some (Alternative, colon, consumed)
     else if colon then None
     else if prefix ''##'' body then Some (RemoveLargestPrefix, False, 2)
     else if prefix ''#'' body then Some (RemoveSmallestPrefix, False, 1)
     else if prefix ''%%'' body then Some (RemoveLargestSuffix, False, 2)
     else if prefix ''%'' body then Some (RemoveSmallestSuffix, False, 1)
     else None)"

definition is_pattern_operator :: "parameter_operator \<Rightarrow> bool" where
  "is_pattern_operator operator \<longleftrightarrow>
    operator \<in> {RemoveSmallestPrefix, RemoveLargestPrefix, RemoveSmallestSuffix, RemoveLargestSuffix}"

text \<open>
  What \<open>readDollar\<close> finds after the dollar sign, before any fragment is lexed: a finished part, the
  source of an arithmetic expansion, or the inside of a braced parameter.
\<close>

datatype dollar = ReadyPart word_part | ArithmeticSource string | BracedContent string

fun scan_dollar :: "bool \<Rightarrow> lexer \<Rightarrow> shell_error + dollar \<times> lexer" where
  "scan_dollar quoted ([], p) = Inr (ReadyPart (LiteralPart ''$'' quoted), [], p)"
| "scan_dollar quoted (c # cs, p) =
    (if c = CHR ''(''
     then bind_result
       (if prefix ''('' cs then scan_arithmetic 1 [] (advance_by 2 (c # cs, p)) else Inr None)
       (\<lambda>arithmetic.
         case arithmetic of
           Some r \<Rightarrow> Inr (ArithmeticSource (fst r), snd r)
         | None \<Rightarrow> bind_result (readBalanced (CHR ''('') (CHR '')'') 1 [] (cs, step_position c p))
             (\<lambda>r. Inr (ReadyPart (CommandPart (fst r) quoted), snd r)))
     else if c = CHR ''{''
     then bind_result (readBalanced (CHR ''{'') (CHR ''}'') 1 [] (cs, step_position c p)) (\<lambda>r. Inr (BracedContent (fst r), snd r))
     else if is_name_start c
     then Inr (ReadyPart (simple_parameter (takeWhile is_name_char (c # cs)) quoted),
       advance_by (length (takeWhile is_name_char (c # cs))) (c # cs, p))
     else if is_digit c \<or> c \<in> set PARAMETER_SPECIALS then Inr (ReadyPart (simple_parameter [c] quoted), cs, step_position c p)
     else Inr (ReadyPart (LiteralPart ''$'' quoted), c # cs, p))"

lemma advance_by_length: "length (fst (advance_by n lx)) = length (fst lx) - n"
  by (induction n lx rule: advance_by.induct) auto

lemma scan_dollar_length:
  assumes "scan_dollar quoted lx = Inr r"
  shows "length (fst (snd r)) \<le> length (fst lx) \<and>
    (case fst r of ReadyPart _ \<Rightarrow> True | ArithmeticSource t \<Rightarrow> length t < length (fst lx) | BracedContent t \<Rightarrow> length t < length (fst lx))"
  using assms
proof (cases "(quoted, lx)" rule: scan_dollar.cases)
  case (2 q c cs p)
  have a: "length (fst r) + length (fst (snd r)) < length (c # cs)" if "scan_arithmetic 1 [] (advance_by 2 (c # cs, p)) = Inr (Some r)" for r
    using scan_arithmetic_length [OF that] by (simp add: advance_by_length)
  have b: "length (fst r) + length (fst (snd r)) < length cs" if "readBalanced x y 1 [] (cs, step_position c p) = Inr r" for x y r
    using readBalanced_length [OF that] by simp
  consider "c = CHR ''(''" | "c = CHR ''{''" | "c \<noteq> CHR ''(''" "c \<noteq> CHR ''{''" by blast
  then show ?thesis
  proof cases
    case 1
    then show ?thesis
      using assms 2 a b by (fastforce simp: result_simps split: if_splits option.splits simp del: advance_by.simps)
  next
    case c2: 2
    then show ?thesis using assms 2 b by (fastforce simp: result_simps)
  next
    case 3
    then show ?thesis using assms 2 by (auto simp: advance_by_length split: if_splits simp del: advance_by.simps)
  qed
qed auto

text \<open>The name, the operator and the argument text of a braced parameter.\<close>

definition braced_parts ::
  "string \<Rightarrow> position \<Rightarrow> shell_error + string \<times> bool \<times> (parameter_operator \<times> bool \<times> string) option" where
  "braced_parts content p =
    (if content = [] then Inl (lex_error ''empty ${} expansion'' p)
     else
       let measured = prefix ''#'' content \<and> 1 < length content; rest = (if measured then tl content else content) in
       case braced_name rest of
         None \<Rightarrow> Inl (lex_error (''unsupported parameter expansion: ${'' @ content @ ''}'') p)
       | Some name \<Rightarrow>
           let rest = drop (length name) rest in
           if measured
           then (if rest \<noteq> []
                 then Inl (lex_error (''${#'' @ name @ ''} takes no operator; ${'' @ content @ ''} is not supported'') p)
                 else Inr (name, True, None))
           else if rest = [] then Inr (name, False, None)
           else (case parseParameterOperator rest of
                   None \<Rightarrow> Inl (lex_error (''unsupported parameter expansion operator in ${'' @ content @
                     ''}; airship-sh implements :- := :? :+ - = ? + # ## % %% and ${#name}'') p)
                 | Some (operator, colon, consumed) \<Rightarrow> Inr (name, False, Some (operator, colon, drop consumed rest))))"

lemma braced_parts_length:
  "braced_parts content p = Inr (name, measured, Some (operator, colon, t)) \<Longrightarrow> length t < length content"
  by (auto simp: braced_parts_def parseParameterOperator_def Let_def split: if_splits option.splits)


function (sequential)
  lexWordFragment :: "string \<Rightarrow> bool \<Rightarrow> position \<Rightarrow> shell_error + shell_word" and
  readWordParts :: "(char \<Rightarrow> bool) \<Rightarrow> bool \<Rightarrow> lexer \<Rightarrow> shell_error + shell_word \<times> lexer" and
  word_loop :: "(char \<Rightarrow> bool) \<Rightarrow> bool \<Rightarrow> shell_word \<Rightarrow> lexer \<Rightarrow> shell_error + shell_word \<times> lexer" and
  readQuotedBody :: "char option \<Rightarrow> shell_word \<Rightarrow> lexer \<Rightarrow> shell_error + shell_word \<times> lexer" and
  readDollar :: "bool \<Rightarrow> position \<Rightarrow> lexer \<Rightarrow> shell_error + word_part \<times> lexer" and
  readBracedParameter :: "string \<Rightarrow> bool \<Rightarrow> position \<Rightarrow> shell_error + word_part"
where
  "lexWordFragment source quoted p =
    bind_result (readWordParts (\<lambda>_. False) quoted (source, p)) (\<lambda>r. Inr (fst r))"
| "readWordParts terminate quotedContext lx =
    (if \<not> quotedContext \<and> prefix ''~'' (fst lx)
     then word_loop terminate quotedContext (fst (readTilde [] lx)) (snd (readTilde [] lx))
     else word_loop terminate quotedContext [] lx)"
| "word_loop terminate quotedContext parts ([], p) = Inr (parts, [], p)"
| "word_loop terminate quotedContext parts (c # cs, p) =
    (if terminate c then Inr (parts, c # cs, p)
     else if c = quote \<and> \<not> quotedContext
     then bind_result (readSingleQuoted [] (cs, step_position c p)) (\<lambda>r.
       word_loop terminate quotedContext (push_part parts (LiteralPart (fst r) True)) (snd r))
     else if c = dquote \<and> \<not> quotedContext
     then bind_result (readQuotedBody (Some dquote) (push_part parts (LiteralPart [] True)) (cs, step_position c p)) (\<lambda>r.
       word_loop terminate quotedContext (fst r) (snd r))
     else if c = backslash
     then (case cs of
             [] \<Rightarrow> Inl (lex_error ''a backslash must escape a character'' (step_position c p))
           | d # ds \<Rightarrow>
               word_loop terminate quotedContext (if d = newline then parts else push_part parts (LiteralPart [d] True))
                 (ds, step_position d (step_position c p)))
     else if c = CHR ''$''
     then bind_result (readDollar quotedContext p (cs, step_position c p)) (\<lambda>r.
       word_loop terminate quotedContext (push_part parts (fst r)) (snd r))
     else if c = backquote
     then bind_result (readBackquoted [] (cs, step_position c p)) (\<lambda>r.
       word_loop terminate quotedContext (push_part parts (CommandPart (fst r) quotedContext)) (snd r))
     else word_loop terminate quotedContext (push_part parts (LiteralPart [c] quotedContext)) (cs, step_position c p))"
| "readQuotedBody terminator parts ([], p) =
    (if terminator = None then Inr (parts, [], p) else Inl (lex_error ''unterminated double quote'' p))"
| "readQuotedBody terminator parts (c # cs, p) =
    (if terminator = Some c then Inr (parts, cs, step_position c p)
     else if c = backslash
     then (case cs of
             [] \<Rightarrow> readQuotedBody terminator (push_part parts (LiteralPart [c] True)) (cs, step_position c p)
           | d # ds \<Rightarrow>
               if d = newline then readQuotedBody terminator parts (ds, step_position d (step_position c p))
               else if d = CHR ''$'' \<or> d = backquote \<or> d = backslash \<or> (terminator = Some dquote \<and> d = dquote)
               then readQuotedBody terminator (push_part parts (LiteralPart [d] True)) (ds, step_position d (step_position c p))
               else readQuotedBody terminator (push_part parts (LiteralPart [c] True)) (cs, step_position c p))
     else if c = CHR ''$''
     then bind_result (readDollar True p (cs, step_position c p)) (\<lambda>r.
       readQuotedBody terminator (push_part parts (fst r)) (snd r))
     else if c = backquote
     then bind_result (readBackquoted [] (cs, step_position c p)) (\<lambda>r.
       readQuotedBody terminator (push_part parts (CommandPart (fst r) True)) (snd r))
     else readQuotedBody terminator (push_part parts (LiteralPart [c] True)) (cs, step_position c p))"
| "readDollar quoted p lx =
    bind_result (scan_dollar quoted lx) (\<lambda>r.
      case fst r of
        ReadyPart part \<Rightarrow> Inr (part, snd r)
      | ArithmeticSource source \<Rightarrow>
          bind_result (lexWordFragment source quoted p) (\<lambda>w. Inr (ArithmeticPart w quoted, snd r))
      | BracedContent content \<Rightarrow>
          bind_result (readBracedParameter content quoted p) (\<lambda>part. Inr (part, snd r)))"
| "readBracedParameter content quoted p =
    bind_result (braced_parts content p) (\<lambda>r.
      case r of
        (name, measured, None) \<Rightarrow> Inr (ParameterPart name NoOperator False measured None quoted)
      | (name, measured, Some (operator, colon, argument)) \<Rightarrow>
          bind_result (lexWordFragment argument (if is_pattern_operator operator then False else quoted) p) (\<lambda>w.
            Inr (ParameterPart name operator colon False (Some w) quoted)))"
  by pat_completeness auto


abbreviation "word_dom \<equiv> lexWordFragment_readWordParts_word_loop_readQuotedBody_readDollar_readBracedParameter_dom"

definition lexed :: "lexer \<Rightarrow> shell_error + 'a \<times> lexer \<Rightarrow> bool" where
  "lexed lx m \<longleftrightarrow> (\<forall>r. m = Inr r \<longrightarrow> length (fst (snd r)) \<le> length (fst lx))"

lemma lexedD: "lexed lx m \<Longrightarrow> m = Inr r \<Longrightarrow> length (fst (snd r)) \<le> length (fst lx)"
  by (simp add: lexed_def)

lemma lexed_bind:
  "(\<And>a. m = Inr a \<Longrightarrow> lexed lx (f a)) \<Longrightarrow> lexed lx (bind_result m f)"
  by (auto simp: lexed_def result_simps)

lemma lexed_seq:
  assumes "\<And>a. m = Inr a \<Longrightarrow> length (fst (snd a)) \<le> length (fst lx)" "\<And>a. m = Inr a \<Longrightarrow> lexed (snd a) (f a)"
  shows "lexed lx (bind_result m f)"
proof (rule lexed_bind)
  fix a assume a: "m = Inr a"
  show "lexed lx (f a)" using assms(1) [OF a] assms(2) [OF a] by (force simp: lexed_def)
qed

lemma lexed_le: "lexed lx m \<Longrightarrow> length (fst lx) \<le> length (fst lx') \<Longrightarrow> lexed lx' m"
  by (auto simp: lexed_def)

lemma lexed_simps [simp]: "lexed lx (Inl e)" "lexed lx (Inr (a, lx')) \<longleftrightarrow> length (fst lx') \<le> length (fst lx)"
  by (simp_all add: lexed_def)

lemma readTilde_length: "length (fst (snd (readTilde parts lx))) \<le> length (fst lx)"
  by (simp add: readTilde_def advance_by_length split: option.splits)

lemma words_no_longer:
  shows "word_dom (Inl (Inl (source, quoted, p))) \<Longrightarrow> True"
    and "word_dom (Inl (Inr (Inl (terminate, qc, lx)))) \<Longrightarrow> lexed lx (readWordParts terminate qc lx)"
    and "word_dom (Inl (Inr (Inr (terminate, qc, parts, lx)))) \<Longrightarrow> lexed lx (word_loop terminate qc parts lx)"
    and "word_dom (Inr (Inl (terminator, parts, lx))) \<Longrightarrow> lexed lx (readQuotedBody terminator parts lx)"
    and "word_dom (Inr (Inr (Inl (quoted, p, lx)))) \<Longrightarrow> lexed lx (readDollar quoted p lx)"
    and "word_dom (Inr (Inr (Inr (content, quoted, p)))) \<Longrightarrow> True"
proof (induction source quoted p and terminate qc lx and terminate qc parts lx and terminator parts lx and quoted p lx and content quoted p
    rule: lexWordFragment_readWordParts_word_loop_readQuotedBody_readDollar_readBracedParameter.pinduct)
  case (2 terminate qc lx)
  then show ?case
    using readTilde_length [of "[]" lx] by (auto simp: readWordParts.psimps intro: lexed_le)
next
  case (4 terminate qc parts c cs p)
  let ?lx = "(c # cs, p)" and ?after = "(cs, step_position c p)"
  note h = 4
  note eq = word_loop.psimps(2) [OF h(1)]
  show ?case
  proof (cases "terminate c")
    case t: False
    consider "c = quote \<and> \<not> qc" | "\<not> (c = quote \<and> \<not> qc)" "c = dquote \<and> \<not> qc"
      | "\<not> (c = quote \<and> \<not> qc)" "\<not> (c = dquote \<and> \<not> qc)" "c = backslash"
      | "\<not> (c = quote \<and> \<not> qc)" "\<not> (c = dquote \<and> \<not> qc)" "c \<noteq> backslash" "c = CHR ''$''"
      | "\<not> (c = quote \<and> \<not> qc)" "\<not> (c = dquote \<and> \<not> qc)" "c \<noteq> backslash" "c \<noteq> CHR ''$''" "c = backquote"
      | "\<not> (c = quote \<and> \<not> qc)" "\<not> (c = dquote \<and> \<not> qc)" "c \<noteq> backslash" "c \<noteq> CHR ''$''" "c \<noteq> backquote" by blast
    then show ?thesis
    proof cases
      case 1
      show ?thesis
        unfolding eq if_not_P [OF t] if_P [OF 1]
      proof (rule lexed_seq)
        fix a assume a: "readSingleQuoted [] ?after = Inr a"
        show "length (fst (snd a)) \<le> length (fst ?lx)" using scan_length(1) [OF a] by simp
        show "lexed (snd a) (word_loop terminate qc (push_part parts (LiteralPart (fst a) True)) (snd a))" by (rule h(2) [OF t 1 a])
      qed
    next
      case 2
      note ih = h(3) [OF t 2]
      show ?thesis
        unfolding eq if_not_P [OF t] if_not_P [OF 2(1)] if_P [OF 2(2)]
      proof (rule lexed_seq)
        fix a assume a: "readQuotedBody (Some dquote) (push_part parts (LiteralPart [] True)) ?after = Inr a"
        show "length (fst (snd a)) \<le> length (fst ?lx)" using lexedD [OF ih a] by simp
        show "lexed (snd a) (word_loop terminate qc (fst a) (snd a))" by (rule h(4) [OF t 2 a])
      qed
    next
      case 3
      show ?thesis
        unfolding eq if_not_P [OF t] if_not_P [OF 3(1)] if_not_P [OF 3(2)] if_P [OF 3(3)]
        using h(5) [OF t 3] by (cases cs) (auto intro: lexed_le)
    next
      case 4
      note ih = h(6) [OF t 4]
      show ?thesis
        unfolding eq if_not_P [OF t] if_not_P [OF 4(1)] if_not_P [OF 4(2)] if_not_P [OF 4(3)] if_P [OF 4(4)]
      proof (rule lexed_seq)
        fix a assume a: "readDollar qc p ?after = Inr a"
        show "length (fst (snd a)) \<le> length (fst ?lx)" using lexedD [OF ih a] by simp
        show "lexed (snd a) (word_loop terminate qc (push_part parts (fst a)) (snd a))" by (rule h(7) [OF t 4 a])
      qed
    next
      case 5
      show ?thesis
        unfolding eq if_not_P [OF t] if_not_P [OF 5(1)] if_not_P [OF 5(2)] if_not_P [OF 5(3)] if_not_P [OF 5(4)] if_P [OF 5(5)]
      proof (rule lexed_seq)
        fix a assume a: "readBackquoted [] ?after = Inr a"
        show "length (fst (snd a)) \<le> length (fst ?lx)" using scan_length(3) [OF a] by simp
        show "lexed (snd a) (word_loop terminate qc (push_part parts (CommandPart (fst a) qc)) (snd a))" by (rule h(8) [OF t 5 a])
      qed
    next
      case 6
      show ?thesis
        unfolding eq if_not_P [OF t] if_not_P [OF 6(1)] if_not_P [OF 6(2)] if_not_P [OF 6(3)] if_not_P [OF 6(4)] if_not_P [OF 6(5)]
        by (rule lexed_le [OF h(9) [OF t 6]]) simp
    qed
  qed (simp add: eq)
next
  case (6 terminator parts c cs p)
  let ?lx = "(c # cs, p)" and ?after = "(cs, step_position c p)"
  note h = 6
  note eq = readQuotedBody.psimps(2) [OF h(1)]
  show ?case
  proof (cases "terminator = Some c")
    case t: False
    consider "c = backslash" | "c \<noteq> backslash" "c = CHR ''$''" | "c \<noteq> backslash" "c \<noteq> CHR ''$''" "c = backquote"
      | "c \<noteq> backslash" "c \<noteq> CHR ''$''" "c \<noteq> backquote" by blast
    then show ?thesis
    proof cases
      case 1
      show ?thesis
      proof (cases cs)
        case Nil
        have e: "readQuotedBody terminator parts ?lx = readQuotedBody terminator (push_part parts (LiteralPart [c] True)) ?after"
          using eq t 1 Nil by simp
        show ?thesis unfolding e by (rule lexed_le [OF h(2) [OF t 1 Nil]]) simp
      next
        case (Cons d ds)
        let ?special = "d = CHR ''$'' \<or> d = backquote \<or> d = backslash \<or> (terminator = Some dquote \<and> d = dquote)"
        let ?past = "(ds, step_position d (step_position c p))"
        consider "d = newline" | "d \<noteq> newline" "?special" | "d \<noteq> newline" "\<not> ?special" by blast
        then show ?thesis
        proof cases
          case a: 1
          have e: "readQuotedBody terminator parts ?lx = readQuotedBody terminator parts ?past" using eq t 1 Cons a by simp
          show ?thesis unfolding e by (rule lexed_le [OF h(3) [OF t 1 Cons a]]) (simp add: Cons)
        next
          case a: 2
          have e: "readQuotedBody terminator parts ?lx = readQuotedBody terminator (push_part parts (LiteralPart [d] True)) ?past"
            unfolding eq if_not_P [OF t] if_P [OF 1] by (simp only: Cons list.case if_not_P [OF a(1)] if_P [OF a(2)])
          show ?thesis unfolding e by (rule lexed_le [OF h(4) [OF t 1 Cons a]]) (simp add: Cons)
        next
          case a: 3
          have e: "readQuotedBody terminator parts ?lx = readQuotedBody terminator (push_part parts (LiteralPart [c] True)) ?after"
            unfolding eq if_not_P [OF t] if_P [OF 1] by (simp only: Cons list.case if_not_P [OF a(1)] if_not_P [OF a(2)])
          show ?thesis unfolding e by (rule lexed_le [OF h(5) [OF t 1 Cons a]]) simp
        qed
      qed
    next
      case 2
      note ih = h(6) [OF t 2]
      show ?thesis
        unfolding eq if_not_P [OF t] if_not_P [OF 2(1)] if_P [OF 2(2)]
      proof (rule lexed_seq)
        fix a assume a: "readDollar True p ?after = Inr a"
        show "length (fst (snd a)) \<le> length (fst ?lx)" using lexedD [OF ih a] by simp
        show "lexed (snd a) (readQuotedBody terminator (push_part parts (fst a)) (snd a))" by (rule h(7) [OF t 2 a])
      qed
    next
      case 3
      show ?thesis
        unfolding eq if_not_P [OF t] if_not_P [OF 3(1)] if_not_P [OF 3(2)] if_P [OF 3(3)]
      proof (rule lexed_seq)
        fix a assume a: "readBackquoted [] ?after = Inr a"
        show "length (fst (snd a)) \<le> length (fst ?lx)" using scan_length(3) [OF a] by simp
        show "lexed (snd a) (readQuotedBody terminator (push_part parts (CommandPart (fst a) True)) (snd a))" by (rule h(8) [OF t 3 a])
      qed
    next
      case 4
      show ?thesis
        unfolding eq if_not_P [OF t] if_not_P [OF 4(1)] if_not_P [OF 4(2)] if_not_P [OF 4(3)]
        by (rule lexed_le [OF h(9) [OF t 4]]) simp
    qed
  qed (use eq in simp)
next
  case (7 quoted p lx)
  show ?case
    unfolding readDollar.psimps [OF 7(1)]
    by (rule lexed_bind) (auto dest!: scan_dollar_length intro!: lexed_bind split: dollar.splits)
qed (auto simp: word_loop.psimps readQuotedBody.psimps)

lemma words_total: "All word_dom"
proof (relation "measures [case_sum (case_sum (\<lambda>(s, _, _). length s) (case_sum (\<lambda>(_, _, lx). length (fst lx)) (\<lambda>(_, _, _, lx). length (fst lx))))
    (case_sum (\<lambda>(_, _, lx). length (fst lx)) (case_sum (\<lambda>(_, _, lx). length (fst lx)) (\<lambda>(s, _, _). length s))),
    case_sum (case_sum (\<lambda>_. 3) (case_sum (\<lambda>_. 2) (\<lambda>_. 1))) (case_sum (\<lambda>_. 1) (case_sum (\<lambda>_. 0) (\<lambda>_. 4)))]", goal_cases)
  case 1
  then show ?case by simp
qed (use readTilde_length in \<open>auto dest!: scan_length lexedD [OF words_no_longer(4)] lexedD [OF words_no_longer(5)] scan_dollar_length braced_parts_length simp: case_prod_unfold intro: le_neq_implies_less\<close>)

termination lexWordFragment
  by (rule words_total)


lemma word_length:
  "lexed lx (readWordParts terminate qc lx)" "lexed lx (word_loop terminate qc parts lx)"
  "lexed lx (readQuotedBody terminator parts lx)" "lexed lx (readDollar quoted p lx)"
  by (rule words_no_longer, rule spec [OF words_total])+

declare lexWordFragment.simps [simp del] readWordParts.simps [simp del] word_loop.simps [simp del] readQuotedBody.simps [simp del]
  readDollar.simps [simp del] readBracedParameter.simps [simp del]

text \<open>A word that does not end at once consumes a character.\<close>

lemma word_loop_shorter:
  assumes "\<not> terminate c" "word_loop terminate qc parts (c # cs, p) = Inr r"
  shows "length (fst (snd r)) \<le> length cs"
proof -
  let ?after = "(cs, step_position c p)"
  note eq = assms(2) [unfolded word_loop.simps(2) if_not_P [OF assms(1)]]
  have past: "length (fst lx) \<le> length cs \<Longrightarrow> word_loop terminate qc ps lx = Inr r \<Longrightarrow> length (fst (snd r)) \<le> length cs" for ps lx
    using lexedD [OF word_length(2)] le_trans by blast
  consider "c = quote \<and> \<not> qc" | "\<not> (c = quote \<and> \<not> qc)" "c = dquote \<and> \<not> qc"
    | "\<not> (c = quote \<and> \<not> qc)" "\<not> (c = dquote \<and> \<not> qc)" "c = backslash"
    | "\<not> (c = quote \<and> \<not> qc)" "\<not> (c = dquote \<and> \<not> qc)" "c \<noteq> backslash" "c = CHR ''$''"
    | "\<not> (c = quote \<and> \<not> qc)" "\<not> (c = dquote \<and> \<not> qc)" "c \<noteq> backslash" "c \<noteq> CHR ''$''" "c = backquote"
    | "\<not> (c = quote \<and> \<not> qc)" "\<not> (c = dquote \<and> \<not> qc)" "c \<noteq> backslash" "c \<noteq> CHR ''$''" "c \<noteq> backquote" by blast
  then show ?thesis
  proof cases
    case 1
    from eq [unfolded if_P [OF 1] bind_result_Inr_iff] obtain a where a: "readSingleQuoted [] ?after = Inr a"
      "word_loop terminate qc (push_part parts (LiteralPart (fst a) True)) (snd a) = Inr r" by blast
    show ?thesis using past [OF _ a(2)] scan_length(1) [OF a(1)] by simp
  next
    case 2
    from eq [unfolded if_not_P [OF 2(1)] if_P [OF 2(2)] bind_result_Inr_iff] obtain a
      where a: "readQuotedBody (Some dquote) (push_part parts (LiteralPart [] True)) ?after = Inr a"
        "word_loop terminate qc (fst a) (snd a) = Inr r" by blast
    show ?thesis using past [OF _ a(2)] lexedD [OF word_length(3) a(1)] by simp
  next
    case 3
    note eq3 = eq [unfolded if_not_P [OF 3(1)] if_not_P [OF 3(2)] if_P [OF 3(3)]]
    show ?thesis
    proof (cases cs)
      case (Cons d ds)
      show ?thesis using past [OF _ eq3 [unfolded Cons list.case]] Cons by simp
    qed (use eq3 in simp)
  next
    case 4
    from eq [unfolded if_not_P [OF 4(1)] if_not_P [OF 4(2)] if_not_P [OF 4(3)] if_P [OF 4(4)] bind_result_Inr_iff]
    obtain a where a: "readDollar qc p ?after = Inr a" "word_loop terminate qc (push_part parts (fst a)) (snd a) = Inr r" by blast
    show ?thesis using past [OF _ a(2)] lexedD [OF word_length(4) a(1)] by simp
  next
    case 5
    from eq [unfolded if_not_P [OF 5(1)] if_not_P [OF 5(2)] if_not_P [OF 5(3)] if_not_P [OF 5(4)] if_P [OF 5(5)] bind_result_Inr_iff]
    obtain a where a: "readBackquoted [] ?after = Inr a"
      "word_loop terminate qc (push_part parts (CommandPart (fst a) qc)) (snd a) = Inr r" by blast
    show ?thesis using past [OF _ a(2)] scan_length(3) [OF a(1)] by simp
  next
    case 6
    show ?thesis
      using past [OF _ eq [unfolded if_not_P [OF 6(1)] if_not_P [OF 6(2)] if_not_P [OF 6(3)] if_not_P [OF 6(4)] if_not_P [OF 6(5)]]]
      by simp
  qed
qed

lemma readWordParts_shorter:
  assumes "\<not> terminate c" "readWordParts terminate qc (c # cs, p) = Inr r"
  shows "length (fst (snd r)) \<le> length cs"
proof (cases "\<not> qc \<and> c = CHR ''~'' \<and> tilde_user cs \<noteq> None")
  case True
  then obtain user where "tilde_user cs = Some user" by auto
  then have "length (fst (snd (readTilde [] (c # cs, p)))) \<le> length cs" by (simp add: readTilde_def advance_by_length)
  moreover have "word_loop terminate qc (fst (readTilde [] (c # cs, p))) (snd (readTilde [] (c # cs, p))) = Inr r"
    using assms(2) True by (simp add: readWordParts.simps)
  ultimately show ?thesis using lexedD [OF word_length(2)] by fastforce
next
  case False
  then have "word_loop terminate qc [] (c # cs, p) = Inr r"
    using assms(2) by (auto simp: readWordParts.simps readTilde_def split: if_splits option.splits)
  then show ?thesis by (rule word_loop_shorter [of terminate, OF assms(1)])
qed


section \<open>Tokens\<close>

fun parse_decimal :: "nat \<Rightarrow> string \<Rightarrow> nat" where
  "parse_decimal n [] = n"
| "parse_decimal n (c # cs) = parse_decimal (10 * n + (of_char c - 48)) cs"

definition readWordToken :: "lexer \<Rightarrow> shell_error + token \<times> lexer" where
  "readWordToken lx =
    bind_result (readWordParts ends_word False lx) (\<lambda>r.
      let word = fst r; after = snd r;
          literalOnly = list_all plain_part word;
          t = concat (map part_text word)
      in Inr (if literalOnly \<and> t \<noteq> [] \<and> list_all is_digit t \<and> (prefix ''<'' (fst after) \<or> prefix ''>'' (fst after))
              then IoNumber (parse_decimal 0 t) (fst (snd lx)) (snd (snd lx))
              else WordToken word t literalOnly (fst (snd lx)) (snd (snd lx)), after))"

definition is_literal_part :: "word_part \<Rightarrow> bool" where
  "is_literal_part part \<longleftrightarrow> (case part of LiteralPart _ _ \<Rightarrow> True | _ \<Rightarrow> False)"

definition is_quoted_literal :: "word_part \<Rightarrow> bool" where
  "is_quoted_literal part \<longleftrightarrow> (case part of LiteralPart _ q \<Rightarrow> q | _ \<Rightarrow> False)"

definition declareHeredoc :: "bool \<Rightarrow> lexer \<Rightarrow> shell_error + heredoc_record \<times> lexer" where
  "declareHeredoc stripTabs lx =
    (let lx = skipBlanks lx in
     bind_result (readWordParts ends_word False lx) (\<lambda>r.
       let word = fst r in
       if word = [] then Inl (lex_error ''a here-document requires a delimiter'' (snd lx))
       else if list_ex (\<lambda>part. \<not> is_literal_part part) word
       then Inl (lex_error ''a here-document delimiter must be a literal word'' (snd lx))
       else Inr (\<lparr>hd_stripTabs = stripTabs, hd_delimiter = concat (map part_text word),
                  hd_quoted = list_ex is_quoted_literal word, hd_body = []\<rparr>, snd r)))"

definition TWO_CHARACTER_OPERATORS :: "string list" where
  "TWO_CHARACTER_OPERATORS = [''&&'', ''||'', '';;'', ''>>'', ''<&'', ''>&'', ''<>'', ''>|'']"

definition readOperator :: "lexer \<Rightarrow> shell_error + token \<times> lexer" where
  "readOperator lx =
    (let (source, line, column) = lx in
     if prefix ''<<-'' source
     then bind_result (declareHeredoc True (advance_by 3 lx)) (\<lambda>r. Inr (OperatorToken ''<<'' (Some (fst r)) line column, snd r))
     else if prefix ''<<'' source
     then bind_result (declareHeredoc False (advance_by 2 lx)) (\<lambda>r. Inr (OperatorToken ''<<'' (Some (fst r)) line column, snd r))
     else if take 2 source \<in> set TWO_CHARACTER_OPERATORS
     then Inr (OperatorToken (take 2 source) None line column, advance_by 2 lx)
     else if source \<noteq> [] \<and> hd source \<in> set OPERATOR_START
     then Inr (OperatorToken [hd source] None line column, advance_by 1 lx)
     else Inl (ShellParseError (''unexpected character '' @ take 1 source) line column))"

text \<open>The lines of a here-document up to its delimiter, which is consumed.\<close>

definition take_line :: "lexer \<Rightarrow> string \<times> lexer" where
  "take_line lx =
    (let raw = takeWhile (\<lambda>c. c \<noteq> newline) (fst lx) in (raw, advance_by (length raw + 1) lx))"

lemma take_line_length: "fst lx \<noteq> [] \<Longrightarrow> length (fst (snd (take_line lx))) < length (fst lx)"
  by (simp add: take_line_def Let_def advance_by_length)

function heredoc_lines :: "heredoc_record \<Rightarrow> nat \<Rightarrow> string list \<Rightarrow> lexer \<Rightarrow> shell_error + string list \<times> lexer" where
  "heredoc_lines doc startLine lines lx =
    (if fst lx = []
     then Inl (ShellParseError (''unterminated here-document; expected the delimiter '' @ hd_delimiter doc) startLine 1)
     else
       let (raw, after) = take_line lx;
           candidate = (if hd_stripTabs doc then dropWhile (\<lambda>c. c = CHR 0x09) raw else raw)
       in if candidate = hd_delimiter doc then Inr (lines, after)
          else heredoc_lines doc startLine (lines @ [candidate]) after)"
  by pat_completeness auto
termination
proof (relation "measure (\<lambda>(_, _, _, lx). length (fst lx))", goal_cases)
  case (2 doc startLine lines lx x raw after candidate)
  then have "length (fst (snd (raw, after))) < length (fst lx)" using take_line_length [of lx] by simp
  then show ?case by simp
qed simp

declare heredoc_lines.simps [simp del]

definition heredoc_body :: "string list \<Rightarrow> string" where
  "heredoc_body lines = (if lines = [] then [] else join [newline] lines @ [newline])"

definition fill_heredoc :: "heredoc_record \<Rightarrow> lexer \<Rightarrow> shell_error + heredoc_record \<times> lexer" where
  "fill_heredoc doc lx =
    bind_result (heredoc_lines doc (fst (snd lx)) [] lx) (\<lambda>r.
      let body = heredoc_body (fst r) in
      bind_result
        (if hd_quoted doc then Inr [LiteralPart body True]
         else bind_result (readQuotedBody None [] (body, fst (snd lx), 1)) (\<lambda>q. Inr (fst q)))
        (\<lambda>word. Inr (doc\<lparr>hd_body := word\<rparr>, snd r)))"

fun token_heredoc :: "token \<Rightarrow> heredoc_record option" where
  "token_heredoc (OperatorToken _ h _ _) = h"
| "token_heredoc _ = None"

fun with_heredoc :: "heredoc_record \<Rightarrow> token \<Rightarrow> token" where
  "with_heredoc h (OperatorToken t _ l c) = OperatorToken t (Some h) l c"
| "with_heredoc h token = token"

fun readPendingHeredocs :: "nat list \<Rightarrow> token list \<Rightarrow> lexer \<Rightarrow> shell_error + token list \<times> lexer" where
  "readPendingHeredocs [] tokens lx = Inr (tokens, lx)"
| "readPendingHeredocs (i # pending) tokens lx =
    (case token_heredoc (tokens ! i) of
       None \<Rightarrow> readPendingHeredocs pending tokens lx
     | Some doc \<Rightarrow> bind_result (fill_heredoc doc lx) (\<lambda>r.
         readPendingHeredocs pending (tokens[i := with_heredoc (fst r) (tokens ! i)]) (snd r)))"

lemma heredoc_lines_lexed: "lexed lx (heredoc_lines doc startLine lines lx)"
proof (induction doc startLine lines lx rule: heredoc_lines.induct)
  case (1 doc startLine lines lx)
  obtain raw after where t: "take_line lx = (raw, after)" by (cases "take_line lx")
  show ?case
  proof (cases "fst lx = []")
    case False
    have a: "length (fst after) < length (fst lx)" using take_line_length [OF False] t by simp
    let ?candidate = "if hd_stripTabs doc then dropWhile (\<lambda>c. c = CHR 0x09) raw else raw"
    show ?thesis
    proof (cases "?candidate = hd_delimiter doc")
      case True
      then show ?thesis using False t a by (simp add: heredoc_lines.simps [of doc startLine lines lx])
    next
      case c: False
      have "heredoc_lines doc startLine lines lx = heredoc_lines doc startLine (lines @ [?candidate]) after"
        using False t c by (simp add: heredoc_lines.simps [of doc startLine lines lx] del: if_split)
      then show ?thesis using lexed_le [OF 1 [OF False t [symmetric] refl refl c]] a by simp
    qed
  qed (simp add: heredoc_lines.simps)
qed

lemma pending_lexed: "lexed lx (readPendingHeredocs pending tokens lx)"
proof (induction pending tokens lx rule: readPendingHeredocs.induct)
  case (2 i pending tokens lx)
  have "lexed lx (fill_heredoc doc lx)" for doc
    unfolding fill_heredoc_def Let_def
  proof (intro lexed_bind)
    fix r w assume r: "heredoc_lines doc (fst (snd lx)) [] lx = Inr r"
    show "lexed lx (Inr (doc\<lparr>hd_body := w\<rparr>, snd r))" using lexedD [OF heredoc_lines_lexed r] by simp
  qed
  then show ?case using 2 by (auto intro!: lexed_seq dest: lexedD split: option.splits)
qed simp

lemma skipBlanks_length: "length (fst (skipBlanks lx)) \<le> length (fst lx)"
  by (induction lx rule: skipBlanks.induct) auto

lemma declareHeredoc_lexed: "lexed lx (declareHeredoc stripTabs lx)"
  unfolding declareHeredoc_def Let_def
proof (rule lexed_bind)
  fix r assume r: "readWordParts ends_word False (skipBlanks lx) = Inr r"
  have "length (fst (snd r)) \<le> length (fst lx)" using lexedD [OF word_length(1) r] skipBlanks_length [of lx] by simp
  then show "lexed lx (if fst r = [] then Inl (lex_error ''a here-document requires a delimiter'' (snd (skipBlanks lx)))
      else if list_ex (\<lambda>part. \<not> is_literal_part part) (fst r)
      then Inl (lex_error ''a here-document delimiter must be a literal word'' (snd (skipBlanks lx)))
      else Inr (\<lparr>hd_stripTabs = stripTabs, hd_delimiter = concat (map part_text (fst r)),
                 hd_quoted = list_ex is_quoted_literal (fst r), hd_body = []\<rparr>, snd r))"
    by simp
qed

lemma operator_length:
  assumes "readOperator lx = Inr r"
  shows "length (fst (snd r)) < length (fst lx)"
proof -
  obtain s l c where lx: "lx = (s, l, c)" by (cases lx)
  have ne: "s \<noteq> []" using assms lx by (cases s) (auto simp: readOperator_def TWO_CHARACTER_OPERATORS_def)
  have h: "length (fst (snd q)) < length s" if "declareHeredoc b (advance_by n (s, l, c)) = Inr q" "0 < n" for b n q
    using lexedD [OF declareHeredoc_lexed that(1)] that(2) ne by (cases s) (auto simp: advance_by_length)
  have two: "length (fst (advance_by n (s, l, c))) < length s" if "0 < n" for n
    using that ne by (simp add: advance_by_length)
  show ?thesis
    using assms two h unfolding lx readOperator_def
    by (auto simp: result_simps simp del: advance_by.simps split: if_splits dest!: h)
qed

lemma word_token_length:
  assumes "readWordToken (c # cs, p) = Inr r" "\<not> ends_word c"
  shows "length (fst (snd r)) \<le> length cs"
proof -
  obtain q where q: "readWordParts ends_word False (c # cs, p) = Inr q" "snd r = snd q"
    using assms(1) by (auto simp: readWordToken_def result_simps Let_def)
  show ?thesis using readWordParts_shorter [of ends_word, OF assms(2) q(1)] q(2) by simp
qed


lemma skipBlanks_head: "skipBlanks lx = (c # cs, p) \<Longrightarrow> c \<noteq> CHR '' '' \<and> c \<noteq> CHR 0x09"
  by (induction lx rule: skipBlanks.induct) (auto split: if_splits)

function tokenize_loop :: "token list \<Rightarrow> nat list \<Rightarrow> lexer \<Rightarrow> shell_error + token list \<times> position" where
  "tokenize_loop tokens pending lx =
    (case skipBlanks lx of
       ([], p) \<Rightarrow>
         (case pending of
            [] \<Rightarrow> Inr (tokens, p)
          | i # _ \<Rightarrow> Inl (lex_error (''unterminated here-document; expected the delimiter '' @
              (case token_heredoc (tokens ! i) of Some doc \<Rightarrow> hd_delimiter doc | None \<Rightarrow> [])) p))
     | (c # cs, p) \<Rightarrow>
         if c = CHR ''#''
         then tokenize_loop tokens pending (advance_by (length (takeWhile (\<lambda>c. c \<noteq> newline) (c # cs))) (c # cs, p))
         else if c = newline
         then bind_result (readPendingHeredocs pending (tokens @ [Newline (fst p) (snd p)]) (cs, step_position c p)) (\<lambda>r.
           tokenize_loop (fst r) [] (snd r))
         else if c = backslash \<and> prefix [newline] cs then tokenize_loop tokens pending (advance_by 2 (c # cs, p))
         else if c \<in> set OPERATOR_START
         then bind_result (readOperator (c # cs, p)) (\<lambda>r.
           tokenize_loop (tokens @ [fst r]) (if token_heredoc (fst r) \<noteq> None then pending @ [length tokens] else pending) (snd r))
         else bind_result (readWordToken (c # cs, p)) (\<lambda>r. tokenize_loop (tokens @ [fst r]) pending (snd r)))"
  by pat_completeness auto
termination
proof (relation "measure (\<lambda>(_, _, lx). length (fst lx))", goal_cases)
  case (2 tokens pending lx x y c cs)
  then have "length (c # cs) \<le> length (fst lx)" using skipBlanks_length [of lx] by (metis fst_conv)
  with 2(3) show ?case by (simp add: advance_by_length del: advance_by.simps)
next
  case (3 tokens pending lx x y c cs a)
  then have "length (c # cs) \<le> length (fst lx)" using skipBlanks_length [of lx] by (metis fst_conv)
  with lexedD [OF pending_lexed 3(5)] show ?case by simp
next
  case (4 tokens pending lx x y c cs)
  then have "length (c # cs) \<le> length (fst lx)" using skipBlanks_length [of lx] by (metis fst_conv)
  then show ?case by (simp add: advance_by_length del: advance_by.simps)
next
  case (5 tokens pending lx x y c cs a)
  then have "length (c # cs) \<le> length (fst lx)" using skipBlanks_length [of lx] by (metis fst_conv)
  with operator_length [OF 5(7)] show ?case by simp
next
  case (6 tokens pending lx x y c cs a)
  then have l: "length (c # cs) \<le> length (fst lx)" using skipBlanks_length [of lx] by (metis fst_conv)
  have "skipBlanks lx = (c # cs, y)" using 6(1,2) by simp
  then have "\<not> ends_word c" using 6(4,6) skipBlanks_head [of lx c cs y] by (auto simp: ends_word_def)
  with word_token_length [OF 6(7)] l show ?case by simp
qed simp

declare tokenize_loop.simps [simp del]

definition tokenize :: "string \<Rightarrow> shell_error + token list \<times> position" where
  "tokenize source = tokenize_loop [] [] (source, 1, 1)"

definition parseShellScript :: "string \<Rightarrow> shell_error + command_list" where
  "parseShellScript source = bind_result (tokenize source) (\<lambda>r. parseProgram (snd r) (fst r))"


section \<open>Quoting\<close>

text \<open>\<open>quoteForDisplay\<close> of \<open>builtins.ts\<close>: a value in single quotes, with its own quotes written outside them.\<close>

definition quote_escape :: "char \<Rightarrow> string" where
  "quote_escape c = (if c = quote then [quote, backslash, quote, quote] else [c])"

definition quoteForDisplay :: "string \<Rightarrow> string" where
  "quoteForDisplay v = quote # concat (map quote_escape v) @ [quote]"

lemma push_part_merge:
  "push_part (push_part parts (LiteralPart a q)) (LiteralPart b q) = push_part parts (LiteralPart (a @ b) q)"
  by (cases parts rule: rev_cases) (auto simp: butlast_append split: word_part.splits)

lemma quoted_scan:
  assumes "\<not> terminate quote" "\<not> terminate backslash"
  shows "bind_result (readSingleQuoted acc (concat (map quote_escape v) @ quote # rest, p)) (\<lambda>r.
      word_loop terminate False (push_part parts (LiteralPart (fst r) True)) (snd r)) =
    word_loop terminate False (push_part parts (LiteralPart (acc @ v) True)) (rest, fold step_position (concat (map quote_escape v) @ [quote]) p)"
proof (induction v arbitrary: acc parts p)
  case (Cons c v)
  show ?case
  proof (cases "c = quote")
    case True
    then show ?thesis
      using assms Cons [of "[]" "step_position quote (step_position quote (step_position backslash (step_position quote p)))"
          "push_part parts (LiteralPart (acc @ [quote]) True)"]
      by (simp add: quote_escape_def word_loop.simps(2) push_part_merge result_simps del: push_part.simps)
  next
    case False
    then show ?thesis using Cons [of "acc @ [c]"] by (simp add: quote_escape_def del: push_part.simps)
  qed
qed (simp del: push_part.simps)

lemma quoted_word:
  assumes "rest = [] \<or> ends_word (hd rest)"
  shows "readWordParts ends_word False (quoteForDisplay v @ rest, p) =
    Inr ([LiteralPart v True], rest, fold step_position (quoteForDisplay v) p)"
  using assms quoted_scan [of ends_word "[]" v rest "step_position quote p" "[]"]
  by (cases rest) (auto simp: readWordParts.simps quoteForDisplay_def word_loop.simps ends_word_def OPERATOR_START_def)

lemma quoted_token:
  assumes "rest = [] \<or> ends_word (hd rest)"
  shows "readWordToken (quoteForDisplay v @ rest, p) =
    Inr (WordToken [LiteralPart v True] v False (fst p) (snd p), rest, fold step_position (quoteForDisplay v) p)"
  by (simp add: readWordToken_def quoted_word [OF assms] result_simps)

text \<open>A command line made of quoted arguments.\<close>

fun quoted_line :: "string list \<Rightarrow> string" where
  "quoted_line [] = []"
| "quoted_line [v] = quoteForDisplay v"
| "quoted_line (v # w # vs) = quoteForDisplay v @ CHR '' '' # quoted_line (w # vs)"

fun quoted_token_of :: "string \<Rightarrow> token \<Rightarrow> bool" where
  "quoted_token_of v (WordToken w t literalOnly _ _) \<longleftrightarrow> w = [LiteralPart v True] \<and> t = v \<and> \<not> literalOnly"
| "quoted_token_of v _ \<longleftrightarrow> False"

lemma tokenize_quoted_word:
  assumes "rest = [] \<or> ends_word (hd rest)"
  shows "tokenize_loop tokens [] (quoteForDisplay v @ rest, p) =
    tokenize_loop (tokens @ [WordToken [LiteralPart v True] v False (fst p) (snd p)]) []
      (rest, fold step_position (quoteForDisplay v) p)"
proof -
  have "skipBlanks (quoteForDisplay v @ rest, p) = (quoteForDisplay v @ rest, p)"
    by (simp add: quoteForDisplay_def)
  moreover obtain cs where cs: "quoteForDisplay v @ rest = quote # cs" by (simp add: quoteForDisplay_def)
  ultimately show ?thesis
    using quoted_token [OF assms, of v p]
    by (subst tokenize_loop.simps) (simp add: OPERATOR_START_def result_simps)
qed

lemma tokenize_blank: "tokenize_loop tokens pending (CHR '' '' # rest, p) = tokenize_loop tokens pending (rest, step_position (CHR '' '') p)"
  by (subst (1 2) tokenize_loop.simps) simp

lemma tokenize_quoted_line:
  "\<exists>ts q. tokenize_loop tokens [] (quoted_line vs, p) = Inr (tokens @ ts, q) \<and> list_all2 quoted_token_of vs ts"
proof (induction vs arbitrary: tokens p rule: quoted_line.induct)
  case 1
  then show ?case by (subst tokenize_loop.simps) simp
next
  case (2 v)
  have "tokenize_loop tokens [] (quoteForDisplay v, p) =
    tokenize_loop (tokens @ [WordToken [LiteralPart v True] v False (fst p) (snd p)]) [] ([], fold step_position (quoteForDisplay v) p)"
    using tokenize_quoted_word [of "[]"] by simp
  then show ?case by (simp add: tokenize_loop.simps [of _ _ "([], _)"])
next
  case (3 v w vs)
  let ?t = "WordToken [LiteralPart v True] v False (fst p) (snd p)"
  obtain ts q where "tokenize_loop (tokens @ [?t]) []
      (quoted_line (w # vs), step_position (CHR '' '') (fold step_position (quoteForDisplay v) p)) = Inr ((tokens @ [?t]) @ ts, q)"
    "list_all2 quoted_token_of (w # vs) ts"
    using 3 by blast
  then show ?case
    by (intro exI [of _ "?t # ts"] exI [of _ q])
       (simp add: tokenize_quoted_word tokenize_blank ends_word_def)
qed

lemma quoted_tokens_parse:
  assumes "list_all2 quoted_token_of vs ts" "words \<noteq> []"
  shows "parseSimpleCommand eof [] words [] ts = Inr (Simple [] (words @ map (\<lambda>v. [LiteralPart v True]) vs) [], [])"
  using assms
proof (induction vs ts arbitrary: words rule: list_all2_induct)
  case Nil
  then show ?case by (simp add: parseSimpleCommand.simps)
next
  case (Cons v vs t ts)
  from Cons(1) obtain l c where "t = WordToken [LiteralPart v True] v False l c" by (cases t) auto
  with Cons show ?case by (subst parseSimpleCommand.simps) (simp add: advance_token_def)
qed

text \<open>
  A command line built from \<open>quoteForDisplay\<close> of any argument strings is read by the lexer and the parser as
  one simple command whose words are exactly those strings, each fully quoted.
\<close>

lemma quoted_line_parses:
  "parseShellScript (quoted_line (v # vs)) =
    Inr (CommandList [AndOrList (Pipeline False [Simple [] (map (\<lambda>v. [LiteralPart v True]) (v # vs)) []]) []])"
proof -
  obtain t ts q where "tokenize (quoted_line (v # vs)) = Inr (t # ts, q)" "quoted_token_of v t" and ts: "list_all2 quoted_token_of vs ts"
    using tokenize_quoted_line [of "[]" "v # vs" "(1, 1)"] by (auto simp: tokenize_def list_all2_Cons1)
  moreover then obtain l c where t: "t = WordToken [LiteralPart v True] v False l c" by (cases t) auto
  moreover have "parseSimpleCommand q [] [] [] (t # ts) = Inr (Simple [] (map (\<lambda>v. [LiteralPart v True]) (v # vs)) [], [])"
    using quoted_tokens_parse [OF ts, of "[[LiteralPart v True]]" q] t
    by (subst parseSimpleCommand.simps) (simp add: advance_token_def splitAssignment_def)
  ultimately show ?thesis
    by (simp add: parseShellScript_def parseProgram_def parseCommandList.simps at_end_def parseAndOr.simps parsePipeline.simps
        parseCommand.simps pipeline_loop.simps and_or_loop.simps and_or_operator_def result_simps)
qed

end
