(* ===== verification/Shell_Expansion.thy ===== *)
theory Shell_Expansion
  imports Shell_Variables Shell_Pattern Shell_Filesystem Shell_Lexer
begin

text \<open>
  Word expansion (\<open>execution/shell/expansion.ts\<close>): tildes, parameters, command substitution and arithmetic, then
  field splitting on \<open>IFS\<close> and pathname expansion.

  What the expansion needs from the running interpreter is the record \<open>expansion_host\<close>, the interface
  \<open>ExpansionHost\<close> with each member as a function of the interpreter's state. A substitution runs shell code, so it
  may end in any signal of \<open>signals.ts\<close>; so a run ends with a value or with a signal.
\<close>

section \<open>Runs\<close>

type_synonym ('s, 'a) run = "'s \<times> (signal + 'a)"

text \<open>A computation that throws only errors, as a run.\<close>

definition thrown :: "('s, 'a) outcome \<Rightarrow> ('s, 'a) run" where
  "thrown m = (fst m, case snd m of Inl e \<Rightarrow> Inl (Thrown e) | Inr a \<Rightarrow> Inr a)"

definition fail :: "'s \<Rightarrow> shell_error \<Rightarrow> ('s, 'a) run" where
  "fail s e = (s, Inl (Thrown e))"

definition no_throw :: "'s \<Rightarrow> shell_error + 'a \<Rightarrow> ('s, 'a) run" where
  "no_throw s r = thrown (s, r)"

lemma thrown_simps [simp]: "thrown (s, Inl e) = (s, Inl (Thrown e))" "thrown (s, Inr a) = (s, Inr a)"
  by (simp_all add: thrown_def)

lemma thrown_Inr_iff [simp]: "thrown m = (s, Inr a) \<longleftrightarrow> m = (s, Inr a)"
  by (cases m; cases "snd m") auto

lemma fail_not_Inr [simp]: "fail s e \<noteq> (s', Inr a)"
  by (simp add: fail_def)

section \<open>The interpreter as the expansion sees it\<close>

record 's expansion_host =
  eh_fs :: "'s \<Rightarrow> shell_fs"
  eh_noglob :: "'s \<Rightarrow> bool"
  eh_nounset :: "'s \<Rightarrow> bool"
  eh_lookup :: "'s \<Rightarrow> string \<Rightarrow> string option"
  eh_assign :: "'s \<Rightarrow> string \<Rightarrow> string \<Rightarrow> ('s, unit) outcome"
  eh_positional :: "'s \<Rightarrow> string list"
  eh_special :: "'s \<Rightarrow> string \<Rightarrow> string option"
  eh_home :: "'s \<Rightarrow> string"
  eh_substitute :: "'s \<Rightarrow> string \<Rightarrow> ('s, string) run"
  eh_charge :: "'s \<Rightarrow> ('s, unit) outcome"

definition AIRSHIP_SH_MAX_EXPANSION_BYTES :: nat where
  "AIRSHIP_SH_MAX_EXPANSION_BYTES = 1024 * 1024"

definition AIRSHIP_SH_MAX_GLOB_RESULTS :: nat where
  "AIRSHIP_SH_MAX_GLOB_RESULTS = 4096"

section \<open>Fields under construction\<close>

record field =
  fd_segments :: "pattern_segment list"
  fd_hasContent :: bool

text \<open>The variables of \<open>expandParts\<close>, next to the interpreter's state.\<close>

record expansion =
  ex_fields :: "field list"
  ex_characters :: nat

type_synonym 's expanding = "'s \<times> expansion"

definition segment :: "string \<Rightarrow> bool \<Rightarrow> pattern_segment" where
  "segment t q = \<lparr>ps_text = t, ps_quoted = q\<rparr>"

definition no_expansion :: expansion where
  "no_expansion = \<lparr>ex_fields = [\<lparr>fd_segments = [], fd_hasContent = False\<rparr>], ex_characters = 0\<rparr>"

definition change_last :: "('a \<Rightarrow> 'a) \<Rightarrow> 'a list \<Rightarrow> 'a list" where
  "change_last f xs = butlast xs @ [f (last xs)]"

text \<open>A run of the interpreter while an expansion is under construction.\<close>

definition in_host :: "('s, 'a) run \<Rightarrow> expansion \<Rightarrow> ('s expanding, 'a) run" where
  "in_host m x = ((fst m, x), snd m)"

definition sink_append :: "'s expansion_host \<Rightarrow> pattern_segment \<Rightarrow> 's expanding \<Rightarrow> ('s expanding, unit) run" where
  "sink_append host sg sx =
    then_do (in_host (thrown (eh_charge host (fst sx))) (snd sx)) (\<lambda>sx _.
      let characters = ex_characters (snd sx) + length (ps_text sg) in
      if AIRSHIP_SH_MAX_EXPANSION_BYTES < characters
      then fail (fst sx, (snd sx)\<lparr>ex_characters := characters\<rparr>)
        (ShellCommandError (''word expansion exceeded '' @ dec_nat AIRSHIP_SH_MAX_EXPANSION_BYTES @ '' bytes'') 1)
      else ((fst sx, (snd sx)\<lparr>ex_characters := characters,
        ex_fields := change_last (\<lambda>f. f\<lparr>fd_segments := fd_segments f @ [sg]\<rparr>) (ex_fields (snd sx))\<rparr>), Inr ()))"

definition sink_mark :: "'s expanding \<Rightarrow> 's expanding" where
  "sink_mark sx = (fst sx, (snd sx)\<lparr>ex_fields := change_last (\<lambda>f. f\<lparr>fd_hasContent := True\<rparr>) (ex_fields (snd sx))\<rparr>)"

definition sink_breakField :: "'s expanding \<Rightarrow> 's expanding" where
  "sink_breakField sx = (fst sx, (snd sx)\<lparr>ex_fields := ex_fields (snd sx) @ [\<lparr>fd_segments = [], fd_hasContent = True\<rparr>]\<rparr>)"

text \<open>\<open>append\<close> followed by \<open>mark\<close>, always or when the part is quoted.\<close>

definition append_mark :: "'s expansion_host \<Rightarrow> bool \<Rightarrow> string \<Rightarrow> bool \<Rightarrow> 's expanding \<Rightarrow> ('s expanding, unit) run" where
  "append_mark host marks t q sx =
    then_do (sink_append host (segment t q) sx) (\<lambda>sx _. (if marks then sink_mark sx else sx, Inr ()))"

definition joinCharacter :: "string option \<Rightarrow> string" where
  "joinCharacter ifs =
    (case ifs of None \<Rightarrow> '' '' | Some t \<Rightarrow> take 1 t)"

definition readParameter :: "string \<Rightarrow> 's expansion_host \<Rightarrow> 's \<Rightarrow> string option" where
  "readParameter name host s =
    (if name \<noteq> [] \<and> list_all is_digit name
     then (if name = ''0'' then eh_special host s ''0''
           else let n = parse_decimal 0 name; ps = eh_positional host s in
             if 0 < n \<and> n \<le> length ps then Some (ps ! (n - 1)) else None)
     else case eh_special host s name of
       Some v \<Rightarrow> Some v
     | None \<Rightarrow> if isName name then eh_lookup host s name else None)"

text \<open>The engine's own \<open>TypeError\<close> when a bracket names something that is no character class.\<close>

fun pattern_failure :: "pattern_error \<Rightarrow> shell_error" where
  "pattern_failure (NotAClass n) = HostError (n @ '' is not a function'')"

definition matched :: "pattern_error + 'a \<Rightarrow> shell_error + 'a" where
  "matched r = (case r of Inl e \<Rightarrow> Inl (pattern_failure e) | Inr a \<Rightarrow> Inr a)"

definition trimByPattern :: "parameter_operator \<Rightarrow> pattern_item list \<Rightarrow> string \<Rightarrow> shell_error + string" where
  "trimByPattern operator items v =
    (if operator = RemoveSmallestPrefix \<or> operator = RemoveLargestPrefix
     then bind_result (matched (matchPrefix items v (operator = RemoveLargestPrefix))) (\<lambda>n.
       Inr (if n \<le> 0 then v else drop (nat n) v))
     else bind_result (matched (matchSuffix items v (operator = RemoveLargestSuffix))) (\<lambda>n.
       Inr (if n \<le> 0 then v else take (length v - nat n) v)))"

text \<open>The forms of \<open>$@\<close> that put each parameter into its own field.\<close>

fun append_positional :: "'s expansion_host \<Rightarrow> bool \<Rightarrow> bool \<Rightarrow> string list \<Rightarrow> 's expanding \<Rightarrow> ('s expanding, unit) run" where
  "append_positional host q first [] sx = (sx, Inr ())"
| "append_positional host q first (v # vs) sx =
    then_do (append_mark host True v q (if first then sx else sink_breakField sx)) (\<lambda>sx _. append_positional host q False vs sx)"

fun append_segments :: "'s expansion_host \<Rightarrow> bool \<Rightarrow> pattern_segment list \<Rightarrow> 's expanding \<Rightarrow> ('s expanding, unit) run" where
  "append_segments host q [] sx = (sx, Inr ())"
| "append_segments host q (sg # sgs) sx =
    then_do (sink_append host (segment (ps_text sg) (q \<or> ps_quoted sg)) sx) (\<lambda>sx _. append_segments host q sgs sx)"

fun append_fields :: "'s expansion_host \<Rightarrow> bool \<Rightarrow> bool \<Rightarrow> field list \<Rightarrow> 's expanding \<Rightarrow> ('s expanding, unit) run" where
  "append_fields host q first [] sx = (sx, Inr ())"
| "append_fields host q first (f # fs) sx =
    then_do (append_segments host q (fd_segments f) (if first then sx else sink_breakField sx)) (\<lambda>sx _.
      append_fields host q False fs (if fd_hasContent f \<or> q then sink_mark sx else sx))"

definition field_text :: "field \<Rightarrow> string" where
  "field_text f = segmentsToText (fd_segments f)"

fun operator_text :: "parameter_operator \<Rightarrow> string" where
  "operator_text NoOperator = ''none''"
| "operator_text UseDefault = ''use-default''"
| "operator_text AssignDefault = ''assign-default''"
| "operator_text ErrorIfUnset = ''error-if-unset''"
| "operator_text Alternative = ''alternative''"
| "operator_text RemoveSmallestPrefix = ''remove-smallest-prefix''"
| "operator_text RemoveLargestPrefix = ''remove-largest-prefix''"
| "operator_text RemoveSmallestSuffix = ''remove-smallest-suffix''"
| "operator_text RemoveLargestSuffix = ''remove-largest-suffix''"


section \<open>Expansion of a word\<close>

function (sequential)
  expandToString :: "'s expansion_host \<Rightarrow> shell_word \<Rightarrow> 's \<Rightarrow> ('s, string) run" and
  expandToPattern :: "'s expansion_host \<Rightarrow> shell_word \<Rightarrow> 's \<Rightarrow> ('s, pattern_segment list) run" and
  expandParts :: "'s expansion_host \<Rightarrow> bool \<Rightarrow> shell_word \<Rightarrow> 's \<Rightarrow> ('s, field list) run" and
  part_loop :: "'s expansion_host \<Rightarrow> bool \<Rightarrow> shell_word \<Rightarrow> 's expanding \<Rightarrow> ('s expanding, unit) run" and
  expand_part :: "'s expansion_host \<Rightarrow> bool \<Rightarrow> word_part \<Rightarrow> 's expanding \<Rightarrow> ('s expanding, unit) run" and
  appendWord :: "'s expansion_host \<Rightarrow> bool \<Rightarrow> shell_word option \<Rightarrow> bool \<Rightarrow> 's expanding \<Rightarrow> ('s expanding, unit) run" and
  argument_string :: "'s expansion_host \<Rightarrow> shell_word option \<Rightarrow> 's \<Rightarrow> ('s, string) run"
where
  "expandToString host w s =
    then_do (expandParts host False w s) (\<lambda>s fields.
      (s, Inr (join (joinCharacter (eh_lookup host s ''IFS'')) (map field_text fields))))"
| "expandToPattern host w s =
    then_do (expandParts host False w s) (\<lambda>s fields. (s, Inr (concat (map fd_segments fields))))"
| "expandParts host splitting w s =
    (case part_loop host splitting w (s, no_expansion) of
       ((s, x), Inl g) \<Rightarrow> (s, Inl g)
     | ((s, x), Inr _) \<Rightarrow> (s, Inr (ex_fields x)))"
| "part_loop host splitting [] sx = (sx, Inr ())"
| "part_loop host splitting (part # parts) sx =
    then_do (in_host (thrown (eh_charge host (fst sx))) (snd sx)) (\<lambda>sx _.
      then_do (expand_part host splitting part sx) (\<lambda>sx _. part_loop host splitting parts sx))"
| "expand_part host splitting (LiteralPart t q) sx = append_mark host True t q sx"
| "expand_part host splitting (TildePart user) sx =
    (if user = [] then append_mark host True (eh_home host (fst sx)) True sx
     else append_mark host True (CHR ''~'' # user) False sx)"
| "expand_part host splitting (CommandPart script q) sx =
    then_do (in_host (eh_substitute host (fst sx) script) (snd sx)) (\<lambda>sx t. append_mark host q t q sx)"
| "expand_part host splitting (ArithmeticPart w q) sx =
    then_do (in_host (expandToString host w (fst sx)) (snd sx)) (\<lambda>sx t.
      then_do (in_host (thrown (evaluateArithmetic t \<lparr>as_read = eh_lookup host, as_assign = eh_assign host\<rparr> (fst sx))) (snd sx))
        (\<lambda>sx v. append_mark host True (dec_int v) q sx))"
| "expand_part host splitting (ParameterPart name operator colon measured argument q) sx =
    (if name = ''@'' \<or> name = ''*''
     then (let ps = eh_positional host (fst sx) in
           if measured then append_mark host True (dec_nat (length ps)) q sx
           else if operator \<noteq> NoOperator
           then fail sx (ShellCommandError (''airship-sh does not implement ${'' @ name @ operator_text operator @ ''} operators'') 2)
           else if name = ''*'' \<or> (\<not> q \<and> \<not> splitting)
           then append_mark host True (join (joinCharacter (eh_lookup host (fst sx) ''IFS'')) ps) q sx
           else append_positional host q True ps sx)
     else
       let raw = readParameter name host (fst sx);
           v = (case raw of Some t \<Rightarrow> t | None \<Rightarrow> []);
           triggered = (if colon then v = [] else raw = None);
           not_set = fail sx (ShellCommandError (name @ '': parameter not set'') 1);
           as_it_is = append_mark host q v q sx
       in
       if measured
       then (if raw = None \<and> eh_nounset host (fst sx) then not_set else append_mark host True (dec_nat (length v)) q sx)
       else case operator of
         NoOperator \<Rightarrow> if raw = None \<and> eh_nounset host (fst sx) then not_set else as_it_is
       | UseDefault \<Rightarrow> if triggered then appendWord host splitting argument q sx else as_it_is
       | AssignDefault \<Rightarrow>
           if triggered
           then then_do (in_host (argument_string host argument (fst sx)) (snd sx)) (\<lambda>sx t.
             then_do (in_host (thrown (eh_assign host (fst sx) name t)) (snd sx)) (\<lambda>sx _. append_mark host True t q sx))
           else as_it_is
       | ErrorIfUnset \<Rightarrow>
           if triggered
           then then_do (in_host (argument_string host argument (fst sx)) (snd sx)) (\<lambda>sx message.
             fail sx (ShellCommandError (name @ '': '' @ (if message = [] then ''parameter null or not set'' else message)) 1))
           else as_it_is
       | Alternative \<Rightarrow> if triggered then (sx, Inr ()) else appendWord host splitting argument q sx
       | _ \<Rightarrow>
           then_do (in_host (case argument of None \<Rightarrow> (fst sx, Inr []) | Some w \<Rightarrow> expandToPattern host w (fst sx)) (snd sx)) (\<lambda>sx sgs.
             then_do (no_throw sx (trimByPattern operator (compilePattern sgs) v)) (\<lambda>sx t. append_mark host q t q sx)))"
| "appendWord host splitting None q sx = ((if q then sink_mark sx else sx), Inr ())"
| "appendWord host splitting (Some w) q sx =
    (if w = [] then ((if q then sink_mark sx else sx), Inr ())
     else then_do (in_host (expandParts host splitting w (fst sx)) (snd sx)) (\<lambda>sx fields. append_fields host q True fields sx))"
| "argument_string host None s = (s, Inr [])"
| "argument_string host (Some w) s = expandToString host w s"
  by pat_completeness auto
termination
proof (relation "measures [case_sum (case_sum (\<lambda>(_, w, _). size_list size w) (case_sum (\<lambda>(_, w, _). size_list size w) (\<lambda>(_, _, w, _). size_list size w)))
    (case_sum (case_sum (\<lambda>(_, _, w, _). size_list size w) (\<lambda>(_, _, p, _). size p))
      (case_sum (\<lambda>(_, _, a, _, _). size_option (size_list size) a) (\<lambda>(_, a, _). size_option (size_list size) a))),
    case_sum (case_sum (\<lambda>_. 2) (case_sum (\<lambda>_. 2) (\<lambda>_. 1))) (case_sum (case_sum (\<lambda>_. 0) (\<lambda>_. 0)) (case_sum (\<lambda>_. 0) (\<lambda>_. 0)))]")
qed auto

declare expandToString.simps [simp del] expandToPattern.simps [simp del] expandParts.simps [simp del] part_loop.simps [simp del]
  expand_part.simps [simp del] appendWord.simps [simp del] argument_string.simps [simp del]


section \<open>Field splitting\<close>

record splitting_state =
  sp_result :: "field list"
  sp_current :: "pattern_segment list"
  sp_buffer :: string

definition flushBuffer :: "splitting_state \<Rightarrow> splitting_state" where
  "flushBuffer st =
    (if sp_buffer st = [] then st
     else st\<lparr>sp_current := sp_current st @ [segment (sp_buffer st) False], sp_buffer := []\<rparr>)"

definition closeField :: "bool \<Rightarrow> splitting_state \<Rightarrow> splitting_state" where
  "closeField force st =
    (let st = flushBuffer st in
     if force \<or> sp_current st \<noteq> []
     then st\<lparr>sp_result := sp_result st @ [\<lparr>fd_segments = sp_current st, fd_hasContent = True\<rparr>], sp_current := []\<rparr>
     else st)"

definition ifs_whitespace :: "char \<Rightarrow> bool" where
  "ifs_whitespace c \<longleftrightarrow> c = CHR '' '' \<or> c = CHR 0x09 \<or> c = CHR 0x0A"

definition split_char :: "string \<Rightarrow> char \<Rightarrow> splitting_state \<Rightarrow> splitting_state" where
  "split_char seps c st =
    (if c \<in> set seps \<and> ifs_whitespace c then closeField False st
     else if c \<in> set seps then closeField True st
     else st\<lparr>sp_buffer := sp_buffer st @ [c]\<rparr>)"

definition split_segment :: "string \<Rightarrow> pattern_segment \<Rightarrow> splitting_state \<Rightarrow> splitting_state" where
  "split_segment seps sg st =
    (if ps_quoted sg then (let st = flushBuffer st in st\<lparr>sp_current := sp_current st @ [sg]\<rparr>)
     else fold (split_char seps) (ps_text sg) st)"

definition split_start :: splitting_state where
  "split_start = \<lparr>sp_result = [], sp_current = [], sp_buffer = []\<rparr>"

definition ifs_separators :: "string option \<Rightarrow> string" where
  "ifs_separators ifs = (case ifs of None \<Rightarrow> [CHR '' '', CHR 0x09, CHR 0x0A] | Some t \<Rightarrow> t)"

definition splitOnIfs :: "string option \<Rightarrow> field \<Rightarrow> field list" where
  "splitOnIfs ifs f =
    (if ifs_separators ifs = [] then [f]
     else
       let result = sp_result (closeField False (fold (split_segment (ifs_separators ifs)) (fd_segments f) split_start)) in
       if result = [] then [\<lparr>fd_segments = [], fd_hasContent = fd_hasContent f\<rparr>] else result)"

section \<open>Pathname expansion\<close>

fun glob_names :: "pattern_item list \<Rightarrow> string \<Rightarrow> string list \<Rightarrow> string list \<Rightarrow> shell_error + string list" where
  "glob_names items directory found [] = Inr found"
| "glob_names items directory found (name # names) =
    bind_result (matched (matchPattern True items name)) (\<lambda>hit.
      if \<not> hit then glob_names items directory found names
      else let found = found @ [joinPath directory name] in
        if AIRSHIP_SH_MAX_GLOB_RESULTS < length found
        then Inl (ShellCommandError (''pathname expansion exceeded '' @ dec_nat AIRSHIP_SH_MAX_GLOB_RESULTS @ '' matches'') 1)
        else glob_names items directory found names)"

definition glob_directory :: "shell_fs \<Rightarrow> pattern_segment list \<Rightarrow> string list \<Rightarrow> string \<Rightarrow> shell_error + string list" where
  "glob_directory fs part found directory =
    (if \<not> isDirectory fs directory then Inr found
     else if \<not> patternHasWildcard (compilePattern part)
     then (let name = segmentsToText part in
           if name = [] \<or> name = ''.'' then Inr (found @ [directory])
           else if name = ''..'' then bind_result (fs_resolve fs (joinPath directory ''..'')) (\<lambda>up. Inr (found @ [up]))
           else Inr (if fs_exists fs (joinPath directory name) then found @ [joinPath directory name] else found))
     else bind_result (fs_list fs directory) (\<lambda>names. glob_names (compilePattern part) directory found names))"

fun glob_level :: "shell_fs \<Rightarrow> pattern_segment list \<Rightarrow> string list \<Rightarrow> string list \<Rightarrow> shell_error + string list" where
  "glob_level fs part found [] = Inr found"
| "glob_level fs part found (directory # frontier) =
    bind_result (glob_directory fs part found directory) (\<lambda>found. glob_level fs part found frontier)"

fun glob_levels :: "shell_fs \<Rightarrow> pattern_segment list list \<Rightarrow> string list \<Rightarrow> shell_error + string list" where
  "glob_levels fs [] frontier = Inr frontier"
| "glob_levels fs (part # parts) frontier =
    bind_result (glob_level fs part [] frontier) (\<lambda>found. glob_levels fs parts found)"

definition relative_name :: "shell_fs \<Rightarrow> string \<Rightarrow> string" where
  "relative_name fs path =
    (if path = fs_current fs then ''.'' else drop (if fs_current fs = ''/'' then 1 else length (fs_current fs) + 1) path)"

definition expandPathname :: "pattern_segment list \<Rightarrow> shell_fs \<Rightarrow> shell_error + string list option" where
  "expandPathname sgs fs =
    (let components = splitSegments sgs (CHR ''/'') in
     if \<not> list_ex (\<lambda>part. patternHasWildcard (compilePattern part)) components then Inr None
     else
       let absolute = prefix ''/'' (segmentsToText sgs) in
       bind_result (glob_levels fs (if absolute then tl components else components) [if absolute then ''/'' else fs_current fs])
         (\<lambda>frontier.
           if frontier = [] then Inr None
           else Inr (Some (sort_by code_unit_cmp (remdups (if absolute then frontier else map (relative_name fs) frontier))))))"

section \<open>Expansion to fields\<close>

definition field_survives :: "field \<Rightarrow> bool" where
  "field_survives f \<longleftrightarrow> fd_hasContent f \<or> list_ex (\<lambda>sg. ps_text sg \<noteq> []) (fd_segments f)"

fun glob_fields :: "bool \<Rightarrow> shell_fs \<Rightarrow> field list \<Rightarrow> shell_error + string list" where
  "glob_fields noglob fs [] = Inr []"
| "glob_fields noglob fs (f # rest) =
    bind_result (if noglob then Inr None else expandPathname (fd_segments f) fs) (\<lambda>globbed.
      bind_result (glob_fields noglob fs rest) (\<lambda>result.
        Inr ((case globbed of Some names \<Rightarrow> names | None \<Rightarrow> [field_text f]) @ result)))"

definition expandToFields :: "'s expansion_host \<Rightarrow> shell_word \<Rightarrow> 's \<Rightarrow> ('s, string list) run" where
  "expandToFields host w s =
    then_do (expandParts host True w s) (\<lambda>s fields.
      no_throw s (glob_fields (eh_noglob host s) (eh_fs host s)
        (filter field_survives (concat (map (splitOnIfs (eh_lookup host s ''IFS'')) fields)))))"


section \<open>What splitting keeps\<close>

text \<open>The characters of some segments, each with its quoting.\<close>

definition tagged :: "pattern_segment list \<Rightarrow> (char \<times> bool) list" where
  "tagged sgs = concat (map (\<lambda>sg. map (\<lambda>c. (c, ps_quoted sg)) (ps_text sg)) sgs)"

definition split_so_far :: "splitting_state \<Rightarrow> pattern_segment list" where
  "split_so_far st = concat (map fd_segments (sp_result st)) @ sp_current st"

definition split_chars :: "splitting_state \<Rightarrow> (char \<times> bool) list" where
  "split_chars st = tagged (split_so_far st) @ map (\<lambda>c. (c, False)) (sp_buffer st)"

lemma tagged_simps [simp]:
  "tagged [] = []" "tagged (sg # sgs) = map (\<lambda>c. (c, ps_quoted sg)) (ps_text sg) @ tagged sgs"
  "tagged (sgs @ sgs') = tagged sgs @ tagged sgs'"
  by (simp_all add: tagged_def)

lemma flushBuffer_keeps:
  "split_chars (flushBuffer st) = split_chars st" "filter ps_quoted (split_so_far (flushBuffer st)) = filter ps_quoted (split_so_far st)"
  "sp_buffer (flushBuffer st) = []"
  by (simp_all add: flushBuffer_def split_chars_def split_so_far_def segment_def)

lemma closeField_keeps:
  "split_chars (closeField force st) = split_chars st"
  "filter ps_quoted (split_so_far (closeField force st)) = filter ps_quoted (split_so_far st)"
  using flushBuffer_keeps [of st]
  by (auto simp: closeField_def Let_def split_chars_def split_so_far_def simp flip: filter_append)

text \<open>The characters at which an unquoted text is split.\<close>

definition split_point :: "string \<Rightarrow> char \<times> bool \<Rightarrow> bool" where
  "split_point seps x \<longleftrightarrow> \<not> snd x \<and> fst x \<in> set seps"

definition kept :: "string \<Rightarrow> char \<times> bool \<Rightarrow> bool" where
  "kept seps x \<longleftrightarrow> \<not> split_point seps x"

lemma split_char_keeps:
  "split_chars (split_char seps c st) = split_chars st @ filter (kept seps) [(c, False)]"
  "filter ps_quoted (split_so_far (split_char seps c st)) = filter ps_quoted (split_so_far st)"
  by (simp_all add: split_char_def closeField_keeps kept_def split_point_def) (simp_all add: split_chars_def split_so_far_def)

lemma fold_split_char:
  "split_chars (fold (split_char seps) t st) = split_chars st @ filter (kept seps) (map (\<lambda>c. (c, False)) t)"
  "filter ps_quoted (split_so_far (fold (split_char seps) t st)) = filter ps_quoted (split_so_far st)"
  by (induction t arbitrary: st) (simp_all add: split_char_keeps)

lemma split_segment_keeps:
  "split_chars (split_segment seps sg st) = split_chars st @ filter (kept seps) (map (\<lambda>c. (c, ps_quoted sg)) (ps_text sg))"
  "filter ps_quoted (split_so_far (split_segment seps sg st)) = filter ps_quoted (split_so_far st) @ filter ps_quoted [sg]"
proof -
  have k: "filter (kept seps) (map (\<lambda>c. (c, True)) (ps_text sg)) = map (\<lambda>c. (c, True)) (ps_text sg)"
    by (simp add: filter_id_conv kept_def split_point_def)
  show "split_chars (split_segment seps sg st) = split_chars st @ filter (kept seps) (map (\<lambda>c. (c, ps_quoted sg)) (ps_text sg))"
    using flushBuffer_keeps [of st] k
    by (simp add: split_segment_def Let_def fold_split_char) (simp add: split_chars_def split_so_far_def)
  show "filter ps_quoted (split_so_far (split_segment seps sg st)) = filter ps_quoted (split_so_far st) @ filter ps_quoted [sg]"
    using flushBuffer_keeps [of st]
    by (simp add: split_segment_def Let_def fold_split_char) (simp add: split_so_far_def)
qed

lemma fold_split_segment:
  "split_chars (fold (split_segment seps) sgs st) = split_chars st @ filter (kept seps) (tagged sgs)"
  "filter ps_quoted (split_so_far (fold (split_segment seps) sgs st)) = filter ps_quoted (split_so_far st) @ filter ps_quoted sgs"
  by (induction sgs arbitrary: st) (simp_all add: split_segment_keeps)

lemma closed_result:
  "split_so_far (closeField False st) = concat (map fd_segments (sp_result (closeField False st)))"
  "sp_buffer (closeField False st) = []"
  using flushBuffer_keeps(3) [of st] by (simp_all add: closeField_def Let_def split_so_far_def)

text \<open>C31: Field splitting takes away the unquoted separator characters and nothing else: the characters of the fields,
  in order and with their quoting, are those of the word without its unquoted \<open>IFS\<close> characters, and every quoted
  segment ends up whole in one field.\<close>

theorem splitting_only_drops_separators:
  "tagged (concat (map fd_segments (splitOnIfs ifs f))) =
     filter (\<lambda>x. \<not> split_point (ifs_separators ifs) x) (tagged (fd_segments f)) \<and>
   filter ps_quoted (concat (map fd_segments (splitOnIfs ifs f))) = filter ps_quoted (fd_segments f)"
proof -
  let ?seps = "ifs_separators ifs"
  let ?st = "closeField False (fold (split_segment ?seps) (fd_segments f) split_start)"
  have kept: "kept ?seps = (\<lambda>x. \<not> split_point ?seps x)" by (auto simp: kept_def)
  have start: "split_chars split_start = []" "split_so_far split_start = []"
    by (simp_all add: split_start_def split_chars_def split_so_far_def)
  have c: "tagged (concat (map fd_segments (sp_result ?st))) = filter (kept ?seps) (tagged (fd_segments f))"
    using closeField_keeps(1) [of False "fold (split_segment ?seps) (fd_segments f) split_start"]
    by (simp add: fold_split_segment start split_chars_def [of ?st] closed_result)
  have q: "filter ps_quoted (concat (map fd_segments (sp_result ?st))) = filter ps_quoted (fd_segments f)"
    using closeField_keeps(2) [of False "fold (split_segment ?seps) (fd_segments f) split_start"]
    by (simp add: fold_split_segment start closed_result)
  show ?thesis
  proof (cases "?seps = []")
    case True
    then show ?thesis by (simp add: splitOnIfs_def split_point_def)
  next
    case False
    show ?thesis
    proof (cases "sp_result ?st = []")
      case True
      with False c q show ?thesis unfolding kept by (simp add: splitOnIfs_def)
    qed (use False c q in \<open>simp add: splitOnIfs_def kept\<close>)
  qed
qed

section \<open>Quoted arguments\<close>

lemma split_quoted:
  assumes "list_all ps_quoted sgs" "sgs \<noteq> []"
  shows "splitOnIfs ifs \<lparr>fd_segments = sgs, fd_hasContent = True\<rparr> = [\<lparr>fd_segments = sgs, fd_hasContent = True\<rparr>]"
proof -
  have "fold (split_segment seps) sgs \<lparr>sp_result = [], sp_current = cur, sp_buffer = []\<rparr> =
      \<lparr>sp_result = [], sp_current = cur @ sgs, sp_buffer = []\<rparr>" for seps cur
    using assms(1) by (induction sgs arbitrary: cur) (simp_all add: split_segment_def flushBuffer_def)
  with assms(2) show ?thesis
    by (simp add: splitOnIfs_def split_start_def closeField_def flushBuffer_def)
qed

lemma split_loop_quoted: "list_all ps_quoted sgs \<Longrightarrow> groups \<noteq> [] \<Longrightarrow> split_loop sep sgs groups = butlast groups @ [last groups @ sgs]"
  by (induction sgs arbitrary: groups) (simp_all add: push_last_def)

lemma glob_quoted:
  assumes "list_all ps_quoted sgs"
  shows "expandPathname sgs fs = Inr None"
  using assms
  by (simp add: expandPathname_def splitSegments_def split_loop_quoted compilePattern_quoted patternHasWildcard_def list_ex_iff)

text \<open>The loop of \<open>executeSimple\<close> over the words of a command.\<close>

fun expand_words :: "'s expansion_host \<Rightarrow> shell_word list \<Rightarrow> 's \<Rightarrow> ('s, string list) run" where
  "expand_words host [] s = (s, Inr [])"
| "expand_words host (w # ws) s =
    then_do (expandToFields host w s) (\<lambda>s vs. then_do (expand_words host ws s) (\<lambda>s vs'. (s, Inr (vs @ vs'))))"

lemma quoted_literal_expands:
  assumes "\<forall>s. \<exists>s'. eh_charge host s = (s', Inr ())" "length v \<le> AIRSHIP_SH_MAX_EXPANSION_BYTES"
  shows "\<exists>s'. expandToFields host [LiteralPart v True] s = (s', Inr [v])"
proof -
  obtain s1 where s1: "eh_charge host s = (s1, Inr ())" using assms(1) by blast
  obtain s2 where s2: "eh_charge host s1 = (s2, Inr ())" using assms(1) by blast
  have "expandParts host True [LiteralPart v True] s = (s2, Inr [\<lparr>fd_segments = [segment v True], fd_hasContent = True\<rparr>])"
    using s1 s2 assms(2)
    by (simp add: expandParts.simps part_loop.simps expand_part.simps append_mark_def sink_append_def sink_mark_def in_host_def
        no_expansion_def change_last_def Let_def segment_def)
  moreover have "list_all ps_quoted [segment v True]" by (simp add: segment_def)
  ultimately show ?thesis
    using split_quoted [of "[segment v True]"] glob_quoted [of "[segment v True]"]
    by (auto simp: expandToFields_def field_survives_def field_text_def segment_def no_throw_def)
qed

lemma quoted_literals_expand:
  assumes "\<forall>s. \<exists>s'. eh_charge host s = (s', Inr ())" "list_all (\<lambda>v. length v \<le> AIRSHIP_SH_MAX_EXPANSION_BYTES) vs"
  shows "\<exists>s'. expand_words host (map (\<lambda>v. [LiteralPart v True]) vs) s = (s', Inr vs)"
  using assms(2)
proof (induction vs arbitrary: s)
  case (Cons v vs)
  then obtain s1 where "expandToFields host [LiteralPart v True] s = (s1, Inr [v])"
    using quoted_literal_expands [OF assms(1)] by force
  moreover obtain s2 where "expand_words host (map (\<lambda>v. [LiteralPart v True]) vs) s1 = (s2, Inr vs)"
    using Cons by auto
  ultimately show ?case by simp
qed simp

text \<open>C8: Quoting protects every argument from the shell: a command line made of \<open>quoteForDisplay\<close> of any strings (each
  within the expansion limit) is lexed, parsed as one simple command with no assignment or redirection, and expanded
  by any interpreter whose budget lasts to exactly those strings: no quote, dollar sign, newline, operator, glob
  character or \<open>IFS\<close> setting adds, removes, splits or changes an argument.\<close>

theorem quoted_arguments_arrive:
  assumes "\<forall>s. \<exists>s'. eh_charge host s = (s', Inr ())" "list_all (\<lambda>v. length v \<le> AIRSHIP_SH_MAX_EXPANSION_BYTES) (v # vs)"
  shows "\<exists>words s'. parseShellScript (quoted_line (v # vs)) =
      Inr (CommandList [AndOrList (Pipeline False [Simple [] words []]) []]) \<and>
    expand_words host words s = (s', Inr (v # vs))"
  using quoted_line_parses [of v vs] quoted_literals_expand [OF assms, of s] by blast


section \<open>What pathname expansion finds\<close>

lemma resolve_parts_append: "list_all plain_segment cs \<Longrightarrow> resolve_parts acc (cs @ ins) = resolve_parts (rev cs @ acc) ins"
  by (induction cs arbitrary: acc) (auto simp: plain_segment_def)

lemma resolve_relative:
  assumes "fs_current fs = path_of cs" "list_all plain_segment cs" "CHR 0x00 \<notin> set input" "\<not> prefix ''/'' input"
  shows "fs_resolve fs input = Inr (path_of (resolve_parts (rev cs) (split_on CHR ''/'' input)))"
proof -
  let ?base = "(if fs_current fs = ''/'' then [] else fs_current fs) @ ''/'' @ input"
  have "split_on CHR ''/'' ?base = [] # cs @ split_on CHR ''/'' input"
    using assms(1,2) split_on_append [of "CHR ''/''" "path_of cs" input]
    by (cases "cs = []") (simp_all add: path_of_root_iff split_path_of)
  then show ?thesis
    using assms(3,4) resolve_parts_append [OF assms(2), of "[]"] by (simp add: fs_resolve_def path_of_def del: split_on.simps)
qed

lemma relative_name_resolves:
  assumes "fs_current fs = path_of cs" "list_all plain_segment (cs @ r)"
  shows "fs_resolve fs (relative_name fs (path_of (cs @ r))) = Inr (path_of (cs @ r))"
proof (cases "r = []")
  case True
  then show ?thesis
    using assms resolve_relative [OF assms(1), of "''.''"] resolve_parts_append [of cs "[]" "[]"]
    by (simp add: relative_name_def resolve_parts_id)
next
  case False
  have cs: "list_all plain_segment cs" and r: "list_all plain_segment r" using assms(2) by simp_all
  have "path_of (cs @ r) \<noteq> path_of cs" using path_of_inject [OF assms(2) cs] False by simp
  then have name: "relative_name fs (path_of (cs @ r)) = join ''/'' r"
    using False assms(1) cs path_of_root_iff [OF cs]
    by (cases "cs = []") (simp_all add: relative_name_def path_of_append, simp add: path_of_def)
  obtain s t where s: "r = s # t" using False by (cases r) auto
  then have "\<not> prefix ''/'' (join ''/'' r)" using r by (cases s; cases t) (auto simp: plain_segment_def)
  moreover have "CHR 0x00 \<notin> set (join ''/'' r)" using nul_path_of [OF r] by (simp add: path_of_def)
  moreover have "split_on CHR ''/'' (join ''/'' r) = r"
    using split_path_of [OF r False] by (simp add: path_of_def)
  ultimately show ?thesis
    using resolve_relative [OF assms(1) cs] resolve_parts_id [OF r] by (simp add: name)
qed

text \<open>An entry of the file system at or below a directory.\<close>

definition found_below :: "shell_fs \<Rightarrow> string list \<Rightarrow> string \<Rightarrow> bool" where
  "found_below fs qs p \<longleftrightarrow> p \<in> set (fs_keys fs) \<and> prefix qs (segments p)"

lemma segments_joinPath: "prefix (segments d) (segments (joinPath d name))"
proof (cases "d = ''/''")
  case False
  then show ?thesis by (simp add: segments_def joinPath_def split_on_append)
qed (simp add: segments_def)

lemma found_below_join:
  assumes "found_below fs qs d" "joinPath d name \<in> set (fs_keys fs)"
  shows "found_below fs qs (joinPath d name)"
  using assms segments_joinPath [of d name] by (auto simp: found_below_def intro: prefix_order.trans)

lemma child_joined:
  assumes "fs_ok fs" "isDirectory fs d" "name \<in> set (child_names fs d)"
  shows "joinPath d name \<in> set (fs_keys fs)"
proof -
  obtain ps where ps: "d = path_of ps" "list_all plain_segment ps"
    using fs_okD(3) [OF assms(1) file_is_key(2) [OF assms(2)]] by (elim canonicalE)
  then obtain r where r: "list_all plain_segment (ps @ name # r)" "path_of (ps @ name # r) \<in> set (fs_keys fs)"
    using assms(3) child_names_iff [OF assms(1) ps(2)] by auto
  then have "path_of (ps @ [name]) \<in> set (fs_keys fs)"
    using fs_ok_ancestor [OF assms(1), of "ps @ [name]" r] by (cases "r = []") (auto simp: fs_keys_def)
  with ps show ?thesis by (simp add: joinPath_path_of)
qed

lemma glob_names_sound:
  assumes "glob_names items d found names = Inr found'" "\<And>n. n \<in> set names \<Longrightarrow> P (joinPath d n)" "list_all P found"
  shows "list_all P found' \<and> (length found \<le> AIRSHIP_SH_MAX_GLOB_RESULTS \<longrightarrow> length found' \<le> AIRSHIP_SH_MAX_GLOB_RESULTS)"
  using assms
proof (induction items d found names rule: glob_names.induct)
  case (2 items d found name names)
  then show ?case
    by (cases "matched (matchPattern True items name)") (auto simp: Let_def split: if_splits)
qed simp

lemma glob_directory_sound:
  assumes "fs_ok fs" "glob_directory fs part found d = Inr found'" "segmentsToText part \<noteq> ''..''"
    and "isDirectory fs d \<Longrightarrow> found_below fs qs d" "list_all (found_below fs qs) found"
  shows "list_all (found_below fs qs) found' \<and>
    (if patternHasWildcard (compilePattern part)
     then length found \<le> AIRSHIP_SH_MAX_GLOB_RESULTS \<longrightarrow> length found' \<le> AIRSHIP_SH_MAX_GLOB_RESULTS
     else length found' \<le> length found + 1)"
proof (cases "isDirectory fs d \<and> patternHasWildcard (compilePattern part)")
  case True
  then have g: "glob_names (compilePattern part) d found (child_names fs d) = Inr found'"
    using assms(2) by (simp add: glob_directory_def fs_list_def)
  have "found_below fs qs (joinPath d n)" if "n \<in> set (child_names fs d)" for n
    using that True assms(4) child_joined [OF assms(1)] found_below_join by blast
  from glob_names_sound [OF g, of "found_below fs qs", OF this assms(5)] True show ?thesis by simp
next
  case False
  then show ?thesis
    using assms(2-5) found_below_join [of fs qs d "segmentsToText part"]
    by (auto simp: glob_directory_def Let_def fs_exists_def key_is split: if_splits)
qed

lemma glob_level_sound:
  assumes "fs_ok fs" "segmentsToText part \<noteq> ''..''"
  shows "glob_level fs part found frontier = Inr found' \<Longrightarrow>
    list_all (\<lambda>d. isDirectory fs d \<longrightarrow> found_below fs qs d) frontier \<Longrightarrow> list_all (found_below fs qs) found \<Longrightarrow>
    list_all (found_below fs qs) found' \<and>
    (if patternHasWildcard (compilePattern part)
     then length found \<le> AIRSHIP_SH_MAX_GLOB_RESULTS \<longrightarrow> length found' \<le> AIRSHIP_SH_MAX_GLOB_RESULTS
     else length found' \<le> length found + length frontier)"
proof (induction frontier arbitrary: found)
  case (Cons d frontier)
  from Cons.prems(1) obtain found1 where f: "glob_directory fs part found d = Inr found1" "glob_level fs part found1 frontier = Inr found'"
    by (auto simp: result_simps)
  have d: "isDirectory fs d \<Longrightarrow> found_below fs qs d" and rest: "list_all (\<lambda>d. isDirectory fs d \<longrightarrow> found_below fs qs d) frontier"
    using Cons.prems(2) by simp_all
  note one = glob_directory_sound [OF assms(1) f(1) assms(2) d Cons.prems(3)]
  from Cons.IH [OF f(2) rest conjunct1 [OF one]] one show ?case by (auto split: if_splits)
qed simp

lemma glob_levels_sound:
  assumes "fs_ok fs"
  shows "glob_levels fs parts frontier = Inr found \<Longrightarrow> list_all (\<lambda>part. segmentsToText part \<noteq> ''..'') parts \<Longrightarrow>
    list_all (\<lambda>d. isDirectory fs d \<longrightarrow> found_below fs qs d) frontier \<Longrightarrow> length frontier \<le> AIRSHIP_SH_MAX_GLOB_RESULTS \<Longrightarrow>
    (parts = [] \<Longrightarrow> list_all (found_below fs qs) frontier) \<Longrightarrow>
    list_all (found_below fs qs) found \<and> length found \<le> AIRSHIP_SH_MAX_GLOB_RESULTS"
proof (induction parts arbitrary: frontier)
  case (Cons part parts)
  from Cons.prems(1) obtain found1 where f: "glob_level fs part [] frontier = Inr found1" "glob_levels fs parts found1 = Inr found"
    by (auto simp: result_simps)
  have "list_all (found_below fs qs) found1 \<and> length found1 \<le> AIRSHIP_SH_MAX_GLOB_RESULTS"
    using glob_level_sound [OF assms _ f(1) Cons.prems(3)] Cons.prems(2,4) by (auto split: if_splits)
  with Cons.IH [OF f(2)] Cons.prems(2) show ?case by (auto simp: list_all_iff)
qed simp




text \<open>
  An absolute directory in quotes is not the directory that is searched: the quoted segment is one component with
  the slash inside it, and the first component of an absolute pattern is dropped. So \<open>"$dir"/*\<close> and \<open>~/*\<close> list the
  root directory.
\<close>

theorem quoted_directory_globs_root:
  "expandPathname [segment ''/workspace'' True, segment ''/*'' False] demo_mount = Inr (Some [''/tmp'', ''/workspace'']) \<and>
    expandPathname [segment ''/workspace/*'' False] demo_mount = Inr (Some [''/workspace/a''])"
  by code_simp

text \<open>
  Names found through \<open>..\<close> are cut at the length of the current directory: from \<open>/workspace/d\<close> the pattern \<open>../*\<close>
  gives an empty name for \<open>/workspace/a\<close>.
\<close>

theorem parent_glob_names_lost:
  "expandPathname [segment ''../*'' False] (demo_tree\<lparr>fs_current := ''/workspace/d''\<rparr>) = Inr (Some ['''', ''.''])"
  by code_simp

text \<open>White space next to another separator delimits a field of its own: with \<open>IFS=' :'\<close> the text \<open>a : b\<close> has an empty field.\<close>

theorem mixed_separators_split_twice:
  "map field_text (splitOnIfs (Some '' :'') \<lparr>fd_segments = [segment ''a : b'' False], fd_hasContent = False\<rparr>) = [''a'', '''', ''b'']"
  by code_simp


section \<open>A small interpreter\<close>

text \<open>A host with the variable table of the shell and nothing to substitute.\<close>

definition demo_host :: "shell_vars expansion_host" where
  "demo_host = \<lparr>eh_fs = (\<lambda>s. demo_mount), eh_noglob = (\<lambda>s. False), eh_nounset = (\<lambda>s. False), eh_lookup = lookup,
    eh_assign = (\<lambda>s name v. assign name v None s), eh_positional = parameters, eh_special = (\<lambda>s name. None),
    eh_home = (\<lambda>s. ''/workspace''), eh_substitute = (\<lambda>s script. (s, Inr [])), eh_charge = (\<lambda>s. (s, Inr ()))\<rparr>"

definition demo_shell :: shell_vars where
  "demo_shell = \<lparr>heap = [\<lparr>sv_value = ''a  b*'', sv_exported = False\<rparr>], variables = [(''x'', 0)],
    parameters = [''p q'', ''r''], depth = 0, localFrames = []\<rparr>"

theorem quoted_arguments_arrive_witness:
  "\<exists>words s'. parseShellScript (quoted_line [''it is '' @ [quote], ''$x; *'']) =
      Inr (CommandList [AndOrList (Pipeline False [Simple [] words []]) []]) \<and>
    expand_words demo_host words demo_shell = (s', Inr [''it is '' @ [quote], ''$x; *''])"
  by (rule quoted_arguments_arrive) (simp_all add: demo_host_def AIRSHIP_SH_MAX_EXPANSION_BYTES_def)

end
