(* ===== verification/Shell_Streams.thy ===== *)
theory Shell_Streams
  imports Shell_Filesystem
begin

text \<open>
  The byte streams of \<open>airship-sh\<close> (\<open>execution/shell/streams.ts\<close>): the bounded output of a run, the buffer
  between two pipeline stages, and the cursor that every standard input is.

  A \<open>Uint8Array\<close> is a list of bytes. The lossy text decoder of the platform is the parameter
  \<open>decode\<close>; what an output stream shows its observer is returned with its new state.
\<close>

definition AIRSHIP_SH_MAX_OUTPUT_BYTES :: nat where
  "AIRSHIP_SH_MAX_OUTPUT_BYTES = 256 * 1024"

definition AIRSHIP_SH_MAX_PIPE_BYTES :: nat where
  "AIRSHIP_SH_MAX_PIPE_BYTES = 4 * 1024 * 1024"

definition concatBytes :: "bytes list \<Rightarrow> bytes" where
  "concatBytes chunks = concat chunks"

section \<open>Bounded output\<close>

record bounded_output =
  bo_limitBytes :: nat
  bo_chunks :: "bytes list"
  bo_accepted :: nat
  bo_dropped :: nat

definition BoundedOutputStream :: "nat \<Rightarrow> bounded_output" where
  "BoundedOutputStream limitBytes = \<lparr>bo_limitBytes = limitBytes, bo_chunks = [], bo_accepted = 0, bo_dropped = 0\<rparr>"

definition output_write :: "(bytes \<Rightarrow> string) \<Rightarrow> bytes \<Rightarrow> bounded_output \<Rightarrow> string option \<times> bounded_output" where
  "output_write decode bytes b =
    (if length bytes = 0 then (None, b)
     else let room = int (bo_limitBytes b) - int (bo_accepted b) in
       if room \<le> 0 then (None, b\<lparr>bo_dropped := bo_dropped b + length bytes\<rparr>)
       else let admitted = (if int (length bytes) \<le> room then bytes else take (nat room) bytes) in
         (Some (decode admitted),
          b\<lparr>bo_dropped := bo_dropped b + (length bytes - length admitted),
            bo_accepted := bo_accepted b + length admitted,
            bo_chunks := bo_chunks b @ [admitted]\<rparr>))"

definition truncated :: "bounded_output \<Rightarrow> bool" where
  "truncated b \<longleftrightarrow> 0 < bo_dropped b"

definition output_text :: "(bytes \<Rightarrow> string) \<Rightarrow> bounded_output \<Rightarrow> string" where
  "output_text decode b = decode (concatBytes (bo_chunks b))"

definition output_writes :: "(bytes \<Rightarrow> string) \<Rightarrow> bytes list \<Rightarrow> bounded_output \<Rightarrow> bounded_output" where
  "output_writes decode ws b = fold (\<lambda>w b. snd (output_write decode w b)) ws b"

lemma output_writes_exact:
  assumes "concat (bo_chunks b) = take (bo_limitBytes b) all" "bo_accepted b = min (bo_limitBytes b) (length all)"
    and "bo_accepted b + bo_dropped b = length all"
  shows "concat (bo_chunks (output_writes decode ws b)) = take (bo_limitBytes b) (all @ concat ws) \<and>
    bo_accepted (output_writes decode ws b) = min (bo_limitBytes b) (length (all @ concat ws)) \<and>
    bo_accepted (output_writes decode ws b) + bo_dropped (output_writes decode ws b) = length (all @ concat ws) \<and>
    bo_limitBytes (output_writes decode ws b) = bo_limitBytes b"
  using assms
proof (induction ws arbitrary: b all)
  case (Cons w ws)
  let ?b = "snd (output_write decode w b)"
  have "concat (bo_chunks ?b) = take (bo_limitBytes b) (all @ w)" "bo_accepted ?b = min (bo_limitBytes b) (length (all @ w))"
    "bo_accepted ?b + bo_dropped ?b = length (all @ w)" "bo_limitBytes ?b = bo_limitBytes b"
    using Cons.prems by (auto simp: output_write_def Let_def min_def nat_diff_distrib)
  with Cons.IH [of ?b "all @ w"] show ?case by (simp add: output_writes_def)
qed (simp add: output_writes_def)

text \<open>The durable output of a run is exactly the first bytes written, up to the limit, whatever the sizes of the
  writes; every byte written is counted as accepted or as dropped, and the stream says it is truncated exactly when
  more was written than the limit.\<close>

theorem bounded_output_is_prefix:
  "output_text decode (output_writes decode ws (BoundedOutputStream n)) = decode (take n (concat ws)) \<and>
    bo_accepted (output_writes decode ws (BoundedOutputStream n)) \<le> n \<and>
    bo_accepted (output_writes decode ws (BoundedOutputStream n)) + bo_dropped (output_writes decode ws (BoundedOutputStream n)) =
      length (concat ws) \<and>
    (truncated (output_writes decode ws (BoundedOutputStream n)) \<longleftrightarrow> n < length (concat ws))"
  using output_writes_exact [of "BoundedOutputStream n" "[]" decode ws]
  by (auto simp: BoundedOutputStream_def output_text_def truncated_def concatBytes_def)

section \<open>Pipe buffers\<close>

record pipe_buffer =
  pb_limitBytes :: nat
  pb_chunks :: "bytes list"
  pb_size :: nat

definition PipeBuffer :: "nat \<Rightarrow> pipe_buffer" where
  "PipeBuffer limitBytes = \<lparr>pb_limitBytes = limitBytes, pb_chunks = [], pb_size = 0\<rparr>"

definition pipe_write :: "bytes \<Rightarrow> pipe_buffer \<Rightarrow> (pipe_buffer, unit) outcome" where
  "pipe_write bytes b =
    (if length bytes = 0 then (b, Inr ())
     else let b = b\<lparr>pb_size := pb_size b + length bytes\<rparr> in
       if pb_limitBytes b < pb_size b
       then (b, Inl (ShellFatalError Budget (''airship-sh: pipe buffer exceeded '' @ dec_nat (pb_limitBytes b) @ '' bytes.'')))
       else (b\<lparr>pb_chunks := pb_chunks b @ [bytes]\<rparr>, Inr ()))"

definition pipe_bytes :: "pipe_buffer \<Rightarrow> bytes" where
  "pipe_bytes b = concatBytes (pb_chunks b)"

fun pipe_writes :: "bytes list \<Rightarrow> pipe_buffer \<Rightarrow> (pipe_buffer, unit) outcome" where
  "pipe_writes [] b = (b, Inr ())"
| "pipe_writes (w # ws) b = then_do (pipe_write w b) (\<lambda>b _. pipe_writes ws b)"

lemma pipe_write_fits:
  assumes "pb_size b = length (pipe_bytes b)" "pb_size b + length w \<le> pb_limitBytes b"
  shows "\<exists>b'. pipe_write w b = (b', Inr ()) \<and> pb_size b' = length (pipe_bytes b') \<and> pb_limitBytes b' = pb_limitBytes b \<and>
    pipe_bytes b' = pipe_bytes b @ w"
  using assms by (cases "w = []") (simp_all add: pipe_write_def pipe_bytes_def concatBytes_def)

lemma pipe_writes_exact:
  assumes "pb_size b = length (pipe_bytes b)" "pb_size b \<le> pb_limitBytes b"
  shows "if length (pipe_bytes b) + length (concat ws) \<le> pb_limitBytes b
    then \<exists>b'. pipe_writes ws b = (b', Inr ()) \<and> pipe_bytes b' = pipe_bytes b @ concat ws
    else \<exists>b' m. pipe_writes ws b = (b', Inl (ShellFatalError Budget m))"
  using assms
proof (induction ws arbitrary: b)
  case (Cons w ws)
  show ?case
  proof (cases "pb_size b + length w \<le> pb_limitBytes b")
    case True
    then obtain b' where b': "pipe_write w b = (b', Inr ())" "pb_size b' = length (pipe_bytes b')" "pb_limitBytes b' = pb_limitBytes b"
      "pipe_bytes b' = pipe_bytes b @ w"
      using pipe_write_fits Cons.prems(1) by blast
    then show ?thesis using Cons.IH [of b'] Cons.prems True by (auto simp: add.assoc split: if_splits)
  next
    case False
    then have "length w \<noteq> 0" using Cons.prems(2) by auto
    with False obtain b' m where "pipe_write w b = (b', Inl (ShellFatalError Budget m))" by (auto simp: pipe_write_def Let_def)
    with False Cons.prems show ?thesis by auto
  qed
qed simp

text \<open>The bytes between two stages: all that were written, in order, or a fatal budget error once the limit is passed.\<close>

theorem pipe_lossless_or_fatal:
  "if length (concat ws) \<le> n
    then \<exists>b. pipe_writes ws (PipeBuffer n) = (b, Inr ()) \<and> pipe_bytes b = concat ws
    else \<exists>b m. pipe_writes ws (PipeBuffer n) = (b, Inl (ShellFatalError Budget m))"
proof -
  have "pipe_bytes (PipeBuffer n) = []" "pb_limitBytes (PipeBuffer n) = n" "pb_size (PipeBuffer n) = 0"
    by (simp_all add: PipeBuffer_def pipe_bytes_def concatBytes_def)
  then show ?thesis using pipe_writes_exact [of "PipeBuffer n" ws] by (simp split: if_splits)
qed

section \<open>Readers\<close>

record byte_reader =
  rd_data :: bytes
  rd_offset :: nat

definition ByteReader :: "bytes \<Rightarrow> byte_reader" where
  "ByteReader data = \<lparr>rd_data = data, rd_offset = 0\<rparr>"

definition reader_atEnd :: "byte_reader \<Rightarrow> bool" where
  "reader_atEnd r \<longleftrightarrow> length (rd_data r) \<le> rd_offset r"

definition readAll :: "byte_reader \<Rightarrow> bytes \<times> byte_reader" where
  "readAll r = (drop (rd_offset r) (rd_data r), r\<lparr>rd_offset := length (rd_data r)\<rparr>)"

text \<open>\<open>indexOf(0x0a, offset)\<close> is where the bytes after the offset stop being other than a newline.\<close>

definition readLine :: "byte_reader \<Rightarrow> bytes option \<times> byte_reader" where
  "readLine r =
    (if reader_atEnd r then (None, r)
     else
       let rest = drop (rd_offset r) (rd_data r); before = takeWhile (\<lambda>c. c \<noteq> CHR 0x0A) rest in
       if CHR 0x0A \<notin> set rest then (Some rest, r\<lparr>rd_offset := length (rd_data r)\<rparr>)
       else (Some before, r\<lparr>rd_offset := rd_offset r + length before + 1\<rparr>))"

lemma readLine_advances: "readLine r = (Some line, r') \<Longrightarrow> rd_offset r < rd_offset r' \<and> rd_offset r < length (rd_data r) \<and> rd_data r' = rd_data r"
  by (auto simp: readLine_def reader_atEnd_def Let_def split: if_splits)

function read_lines :: "byte_reader \<Rightarrow> bytes list" where
  "read_lines r = (case readLine r of (None, _) \<Rightarrow> [] | (Some line, r') \<Rightarrow> line # read_lines r')"
  by pat_completeness auto
termination
  by (relation "measure (\<lambda>r. length (rd_data r) - rd_offset r)") (auto dest!: readLine_advances [OF sym])

declare read_lines.simps [simp del]

text \<open>Splits a text into lines and says whether it ended with a newline.\<close>

definition splitLines :: "(bytes \<Rightarrow> string) \<Rightarrow> bytes \<Rightarrow> string list \<times> bool" where
  "splitLines decode bytes =
    (let text_of = decode bytes in
     if text_of = [] then ([], False)
     else
       let trailingNewline = last text_of = CHR 0x0A;
           body = (if trailingNewline then butlast text_of else text_of)
       in (split_on (CHR 0x0A) body, trailingNewline))"

definition join_lines :: "string list \<times> bool \<Rightarrow> string" where
  "join_lines p = join [CHR 0x0A] (fst p) @ (if snd p then [CHR 0x0A] else [])"

lemma splitLines_joins: "join_lines (splitLines decode bytes) = decode bytes"
proof (cases "decode bytes" rule: rev_cases)
  case Nil
  then show ?thesis by (simp add: splitLines_def join_lines_def)
next
  case (snoc xs x)
  then show ?thesis
    using join_split_on [of "CHR 0x0A" xs] join_split_on [of "CHR 0x0A" "xs @ [x]"]
    by (simp add: splitLines_def join_lines_def Let_def)
qed

lemma read_lines_split:
  "read_lines r =
    (let rest = drop (rd_offset r) (rd_data r) in
     if rest = [] then []
     else split_on (CHR 0x0A) (if last rest = CHR 0x0A then butlast rest else rest))"
proof (induction r rule: read_lines.induct)
  case (1 r)
  let ?rest = "drop (rd_offset r) (rd_data r)"
  show ?case
  proof (cases "?rest = []")
    case True
    then show ?thesis by (simp add: read_lines.simps [of r] readLine_def reader_atEnd_def)
  next
    case ne: False
    then have ne': "\<not> reader_atEnd r" by (simp add: reader_atEnd_def)
    show ?thesis
    proof (cases "CHR 0x0A \<in> set ?rest")
      case False
      then have l: "last ?rest \<noteq> CHR 0x0A" using ne last_in_set [of ?rest] by metis
      have "read_lines (r\<lparr>rd_offset := length (rd_data r)\<rparr>) = []"
        by (simp add: read_lines.simps readLine_def reader_atEnd_def)
      with False l ne ne' show ?thesis
        by (simp add: read_lines.simps [of r] readLine_def split_on_no_sep Let_def)
    next
      case True
      let ?line = "takeWhile (\<lambda>c. c \<noteq> CHR 0x0A) ?rest"
      let ?r = "r\<lparr>rd_offset := rd_offset r + length ?line + 1\<rparr>"
      let ?after = "dropWhile (\<lambda>c. c \<noteq> CHR 0x0A) ?rest"
      have "?after \<noteq> []" using True by (simp add: dropWhile_eq_Nil_conv)
      moreover from this have "hd ?after = CHR 0x0A" using hd_dropWhile by blast
      ultimately have "?after = CHR 0x0A # tl ?after" by (metis list.collapse)
      then obtain more where more: "?rest = ?line @ CHR 0x0A # more" by (metis takeWhile_dropWhile_id)
      have line: "readLine r = (Some ?line, ?r)" using True ne' by (simp add: readLine_def Let_def)
      have d: "drop (rd_offset ?r) (rd_data ?r) = more"
      proof -
        have "drop (length ?line + 1) ?rest = more" by (subst more) simp
        then show ?thesis by (simp add: drop_drop add.commute add.left_commute)
      qed
      have ih: "read_lines ?r =
          (if more = [] then [] else split_on (CHR 0x0A) (if last more = CHR 0x0A then butlast more else more))"
        using 1 [OF line [symmetric] refl] unfolding d Let_def .
      have nl: "CHR 0x0A \<notin> set ?line" by (auto dest: set_takeWhileD)
      have "read_lines r = ?line # read_lines ?r" using line by (simp add: read_lines.simps [of r])
      also have "... = split_on (CHR 0x0A) (if last ?rest = CHR 0x0A then butlast ?rest else ?rest)"
      proof (cases "more = []")
        case True
        then have r: "last ?rest = CHR 0x0A" "butlast ?rest = ?line" by (subst more; simp)+
        show ?thesis unfolding r ih using True nl by (simp add: split_on_no_sep)
      next
        case False
        then have r: "last ?rest = last more" "butlast ?rest = ?line @ CHR 0x0A # butlast more"
          by (subst more; simp add: butlast_append)+
        have e: "split_on (CHR 0x0A) (?line @ CHR 0x0A # t) = ?line # split_on (CHR 0x0A) t" for t
          using split_on_append_sep [OF nl] by simp
        show ?thesis
        proof (cases "last more = CHR 0x0A")
          case True
          show ?thesis unfolding r ih using True False e by simp
        next
          case ln: False
          have "split_on (CHR 0x0A) ?rest = ?line # split_on (CHR 0x0A) more" by (subst more) (rule e)
          then show ?thesis using ln False r(1) ih by simp
        qed
      qed
      finally show ?thesis using ne by (simp add: Let_def)
    qed
  qed
qed

text \<open>C32: Reading a stream line by line ends and loses nothing: the lines are those of splitting the whole input, and
  joined with newlines, with the last newline kept exactly if there was one, they are the input again.\<close>

theorem reading_lines_loses_nothing:
  "read_lines (ByteReader data) = fst (splitLines (\<lambda>b. b) data) \<and> join_lines (splitLines (\<lambda>b. b) data) = data"
  using splitLines_joins [of "\<lambda>b. b" data] read_lines_split [of "ByteReader data"]
  by (simp add: ByteReader_def splitLines_def Let_def)

end
