(* ===== verification/Shell_State.thy ===== *)
theory Shell_State
  imports Shell_Expansion Shell_Streams
begin

text \<open>
  The state of a running interpreter (\<open>execution/shell/interpreter.ts\<close>, \<open>command.ts\<close>) and what its operations do to it:
  the budget, sinks and readers, descriptor tables, redirections.

  What every interpreter of a run shares is the record \<open>shell_world\<close>: the file system, the budget and the objects whose
  identity matters. Sinks, readers and descriptor maps are objects that several commands hold and change in place, so
  they live in stores and are referred to by their index. An interpreter of its own (the script or a subshell) is the
  record \<open>shell\<close> with the world it works on.
\<close>

section \<open>Options and streams\<close>

record shell_options =
  so_errexit :: bool
  so_nounset :: bool
  so_xtrace :: bool
  so_noglob :: bool
  so_pipefail :: bool

definition default_options :: shell_options where
  "default_options = \<lparr>so_errexit = False, so_nounset = False, so_xtrace = False, so_noglob = False, so_pipefail = False\<rparr>"

definition currentOptionFlags :: "shell_options \<Rightarrow> string" where
  "currentOptionFlags options =
    (if so_errexit options then ''e'' else []) @ (if so_noglob options then ''f'' else []) @
    (if so_nounset options then ''u'' else []) @ (if so_xtrace options then ''x'' else [])"

text \<open>The implementations of \<open>ByteSink\<close>. A file sink has its path and the chunks not yet flushed.\<close>

datatype byte_sink =
    OutputSink bounded_output
  | PipeSink pipe_buffer
  | FileSink string "bytes list"
  | NullSink

text \<open>Indices of a reader and of two sinks.\<close>

record command_io =
  io_stdin :: nat
  io_stdout :: nat
  io_stderr :: nat

datatype descriptor = ReadFd nat | WriteFd nat

type_synonym descriptors = "(nat \<times> descriptor) list"

section \<open>The world\<close>

record shell_world =
  sw_fs :: shell_fs
  sw_budget :: shell_budget
  sw_sinks :: "byte_sink list"
  sw_readers :: "byte_reader list"
  sw_tables :: "descriptors list"
  sw_reading :: nat

record shell =
  sh_vars :: shell_vars
  sh_functions :: "(string \<times> command) list"
  sh_aliases :: "(string \<times> string) list"
  sh_traps :: "(string \<times> string) list"
  sh_options :: shell_options
  sh_status :: nat
  sh_scriptName :: string
  sh_runId :: nat
  sh_rootIo :: command_io
  sh_activeIo :: command_io
  sh_conditionDepth :: nat
  sh_lastSubstitutionStatus :: nat
  sh_persistNextRedirections :: bool
  sh_persistentSinks :: "nat list"
  sh_world :: shell_world

text \<open>
  What the platform provides: the text encoder and decoder, the readings of the abort signal and the clock, the time
  stamps of writes, and the deadline of the run. The readings are numbered in the order they are made.
\<close>

record platform =
  pf_encode :: "string \<Rightarrow> bytes"
  pf_decode :: "bytes \<Rightarrow> string"
  pf_reading :: "nat \<Rightarrow> surroundings"
  pf_stamp :: "nat \<Rightarrow> string"
  pf_deadline :: int

abbreviation sh_fs :: "shell \<Rightarrow> shell_fs" where
  "sh_fs s \<equiv> sw_fs (sh_world s)"

definition in_world :: "(shell_world \<Rightarrow> shell_world \<times> 'a) \<Rightarrow> shell \<Rightarrow> shell \<times> 'a" where
  "in_world f s = (s\<lparr>sh_world := fst (f (sh_world s))\<rparr>, snd (f (sh_world s)))"

section \<open>Budget, variables and files\<close>

definition world_charge :: "platform \<Rightarrow> int \<Rightarrow> shell_world \<Rightarrow> (shell_world, unit) outcome" where
  "world_charge pf steps w =
    (let m = charge (pf_deadline pf) (pf_reading pf (sw_reading w)) steps (sw_budget w)
     in (w\<lparr>sw_budget := fst m, sw_reading := sw_reading w + 1\<rparr>, snd m))"

definition world_tick :: "platform \<Rightarrow> shell_world \<Rightarrow> (shell_world, unit) outcome" where
  "world_tick pf w =
    (let m = tick (pf_deadline pf) (pf_reading pf (sw_reading w)) (pf_reading pf (sw_reading w + 1)) 1 (sw_budget w)
     in (w\<lparr>sw_budget := fst m, sw_reading := sw_reading w + 2\<rparr>, case snd m of Inl e \<Rightarrow> Inl e | Inr _ \<Rightarrow> Inr ()))"

definition shell_charge :: "platform \<Rightarrow> shell \<Rightarrow> (shell, unit) outcome" where
  "shell_charge pf s = in_world (world_charge pf 1) s"

definition shell_tick :: "platform \<Rightarrow> shell \<Rightarrow> (shell, unit) run" where
  "shell_tick pf s = thrown (in_world (world_tick pf) s)"

definition on_vars :: "(shell_vars \<Rightarrow> (shell_vars, 'a) outcome) \<Rightarrow> shell \<Rightarrow> (shell, 'a) outcome" where
  "on_vars f s = (s\<lparr>sh_vars := fst (f (sh_vars s))\<rparr>, snd (f (sh_vars s)))"

definition on_file_system :: "(shell_fs \<Rightarrow> (shell_fs, 'a) outcome) \<Rightarrow> shell_world \<Rightarrow> (shell_world, 'a) outcome" where
  "on_file_system f w = (w\<lparr>sw_fs := fst (f (sw_fs w))\<rparr>, snd (f (sw_fs w)))"

definition write_file :: "platform \<Rightarrow> string \<Rightarrow> bytes \<Rightarrow> bool \<Rightarrow> shell_world \<Rightarrow> (shell_world, unit) outcome" where
  "write_file pf path bytes appending w =
    on_file_system (\<lambda>fs. writeFile (pf_stamp pf (sw_reading w)) fs path bytes appending) (w\<lparr>sw_reading := sw_reading w + 1\<rparr>)"

definition shell_changeDirectory :: "string \<Rightarrow> shell \<Rightarrow> (shell, unit) outcome" where
  "shell_changeDirectory path s =
    then_do (in_world (on_file_system (\<lambda>fs. changeDirectory fs path)) s) (\<lambda>s _.
      on_vars (assign ''PWD'' (fs_current (sh_fs s)) (Some True)) s)"

section \<open>Sinks and readers\<close>

definition new_sink :: "byte_sink \<Rightarrow> shell_world \<Rightarrow> shell_world \<times> nat" where
  "new_sink k w = (w\<lparr>sw_sinks := sw_sinks w @ [k]\<rparr>, length (sw_sinks w))"

definition new_reader :: "bytes \<Rightarrow> shell_world \<Rightarrow> shell_world \<times> nat" where
  "new_reader bytes w = (w\<lparr>sw_readers := sw_readers w @ [ByteReader bytes]\<rparr>, length (sw_readers w))"

definition new_table :: "descriptors \<Rightarrow> shell_world \<Rightarrow> shell_world \<times> nat" where
  "new_table fds w = (w\<lparr>sw_tables := sw_tables w @ [fds]\<rparr>, length (sw_tables w))"

definition set_sink :: "nat \<Rightarrow> byte_sink \<Rightarrow> shell_world \<Rightarrow> shell_world" where
  "set_sink i k w = w\<lparr>sw_sinks := (sw_sinks w)[i := k]\<rparr>"

definition set_table :: "nat \<Rightarrow> descriptors \<Rightarrow> shell_world \<Rightarrow> shell_world" where
  "set_table i fds w = w\<lparr>sw_tables := (sw_tables w)[i := fds]\<rparr>"

text \<open>A sink by its index; the references of the code are never dangling.\<close>

definition sink_at :: "shell_world \<Rightarrow> nat \<Rightarrow> byte_sink" where
  "sink_at w i = (if i < length (sw_sinks w) then sw_sinks w ! i else NullSink)"

definition sink_write :: "platform \<Rightarrow> nat \<Rightarrow> bytes \<Rightarrow> shell_world \<Rightarrow> (shell_world, unit) outcome" where
  "sink_write pf i bytes w =
    (case sink_at w i of
       OutputSink b \<Rightarrow> (set_sink i (OutputSink (snd (output_write (pf_decode pf) bytes b))) w, Inr ())
     | PipeSink b \<Rightarrow> (set_sink i (PipeSink (fst (pipe_write bytes b))) w, snd (pipe_write bytes b))
     | FileSink path chunks \<Rightarrow> (set_sink i (FileSink path (chunks @ [bytes])) w, Inr ())
     | NullSink \<Rightarrow> (w, Inr ()))"

definition write_text :: "platform \<Rightarrow> nat \<Rightarrow> string \<Rightarrow> shell \<Rightarrow> (shell, unit) run" where
  "write_text pf i t s = thrown (in_world (sink_write pf i (pf_encode pf t)) s)"

text \<open>The constructor of \<open>FileSink\<close>, which creates or truncates the file, and its \<open>close\<close>.\<close>

definition open_file_sink :: "platform \<Rightarrow> string \<Rightarrow> bool \<Rightarrow> shell_world \<Rightarrow> (shell_world, nat) outcome" where
  "open_file_sink pf path appending w =
    then_do (if \<not> appending \<or> \<not> isFile (sw_fs w) path then write_file pf path [] False w else (w, Inr ())) (\<lambda>w _.
      (fst (new_sink (FileSink path []) w), Inr (snd (new_sink (FileSink path []) w))))"

definition close_sink :: "platform \<Rightarrow> nat \<Rightarrow> shell_world \<Rightarrow> (shell_world, unit) outcome" where
  "close_sink pf i w =
    (case sink_at w i of
       FileSink path chunks \<Rightarrow>
         if chunks = [] then (w, Inr ())
         else write_file pf path (concatBytes chunks) True (set_sink i (FileSink path []) w)
     | _ \<Rightarrow> (w, Inr ()))"

fun close_sinks :: "platform \<Rightarrow> nat list \<Rightarrow> shell_world \<Rightarrow> (shell_world, unit) outcome" where
  "close_sinks pf [] w = (w, Inr ())"
| "close_sinks pf (i # is) w = then_do (close_sink pf i w) (\<lambda>w _. close_sinks pf is w)"

definition shell_close :: "platform \<Rightarrow> nat list \<Rightarrow> shell \<Rightarrow> (shell, unit) run" where
  "shell_close pf is s = thrown (in_world (close_sinks pf is) s)"

definition flushPersistentSinks :: "platform \<Rightarrow> shell \<Rightarrow> (shell, unit) run" where
  "flushPersistentSinks pf s = shell_close pf (sh_persistentSinks s) s"

section \<open>Control\<close>

text \<open>\<open>try ... finally\<close>: what the last block throws replaces the result.\<close>

definition finally_do :: "('s, 'a) run \<Rightarrow> ('s \<Rightarrow> ('s, unit) run) \<Rightarrow> ('s, 'a) run" where
  "finally_do m f = (case f (fst m) of (s, Inl g) \<Rightarrow> (s, Inl g) | (s, Inr _) \<Rightarrow> (s, snd m))"

definition withCondition :: "bool \<Rightarrow> (shell \<Rightarrow> (shell, 'a) run) \<Rightarrow> shell \<Rightarrow> (shell, 'a) run" where
  "withCondition active f s =
    (if \<not> active then f s
     else finally_do (f (s\<lparr>sh_conditionDepth := sh_conditionDepth s + 1\<rparr>))
       (\<lambda>s. (s\<lparr>sh_conditionDepth := sh_conditionDepth s - 1\<rparr>, Inr ())))"

section \<open>Descriptors\<close>

definition table_at :: "nat \<Rightarrow> shell \<Rightarrow> descriptors" where
  "table_at fds s = sw_tables (sh_world s) ! fds"

definition readerFor :: "nat \<Rightarrow> nat \<Rightarrow> shell \<Rightarrow> shell \<times> nat" where
  "readerFor fds fd s =
    (case map_of (table_at fds s) fd of Some (ReadFd r) \<Rightarrow> (s, r) | _ \<Rightarrow> in_world (new_reader []) s)"

definition sinkFor :: "nat \<Rightarrow> nat \<Rightarrow> nat \<Rightarrow> shell \<Rightarrow> nat" where
  "sinkFor fds fd fallback s = (case map_of (table_at fds s) fd of Some (WriteFd k) \<Rightarrow> k | _ \<Rightarrow> fallback)"

definition ioFor :: "nat \<Rightarrow> shell \<Rightarrow> shell \<times> command_io" where
  "ioFor fds s =
    (let (s', r) = readerFor fds 0 s
     in (s', \<lparr>io_stdin = r, io_stdout = sinkFor fds 1 (io_stdout (sh_rootIo s)) s, io_stderr = sinkFor fds 2 (io_stderr (sh_rootIo s)) s\<rparr>))"

definition descriptorsFor :: "command_io \<Rightarrow> shell \<Rightarrow> shell \<times> nat" where
  "descriptorsFor io s = in_world (new_table [(0, ReadFd (io_stdin io)), (1, WriteFd (io_stdout io)), (2, WriteFd (io_stderr io))]) s"

definition openReader :: "string \<Rightarrow> shell \<Rightarrow> (shell, nat) run" where
  "openReader target s =
    (if target = ''/dev/null'' then (let (s', r) = in_world (new_reader []) s in (s', Inr r))
     else then_do (no_throw s (bind_result (fs_resolve (sh_fs s) target) (readFile (sh_fs s)))) (\<lambda>s bytes.
       let (s', r) = in_world (new_reader bytes) s in (s', Inr r)))"

text \<open>Promotion of the redirections of \<open>exec\<close> into the enclosing table, and the close of the others.\<close>

definition settleRedirections :: "platform \<Rightarrow> nat \<Rightarrow> nat list \<Rightarrow> nat \<Rightarrow> shell \<Rightarrow> (shell, unit) run" where
  "settleRedirections pf applied sinks enclosing s =
    (let s = (if sh_persistNextRedirections s
              then s\<lparr>sh_persistNextRedirections := False,
                sh_world := set_table enclosing (fold (\<lambda>(fd, d). AList.update fd d) (table_at applied s) (table_at enclosing s)) (sh_world s),
                sh_persistentSinks := sh_persistentSinks s @ filter (\<lambda>k. k \<notin> set (sh_persistentSinks s)) sinks\<rparr>
              else s)
     in then_do (shell_close pf sinks s) (\<lambda>s _. flushPersistentSinks pf s))"

definition reportRedirectionFailure :: "platform \<Rightarrow> signal \<Rightarrow> nat \<Rightarrow> shell \<Rightarrow> (shell, nat) run" where
  "reportRedirectionFailure pf g fds s =
    (case g of
       Thrown (ShellCommandError message status) \<Rightarrow>
         (let (s, io) = ioFor fds s in
          then_do (write_text pf (io_stderr io) (''airship-sh: '' @ message @ [newline]) s) (\<lambda>s _. (s, Inr status)))
     | _ \<Rightarrow> (s, Inl g))"

definition specialParameter :: "shell \<Rightarrow> string \<Rightarrow> string option" where
  "specialParameter s name =
    (if name = ''?'' then Some (dec_nat (sh_status s))
     else if name = ''#'' then Some (dec_nat (length (parameters (sh_vars s))))
     else if name = ''0'' then Some (sh_scriptName s)
     else if name = ''$'' then Some (dec_nat (sh_runId s))
     else if name = ''!'' then Some []
     else if name = ''-'' then Some (currentOptionFlags (sh_options s))
     else None)"

end
