(* ===== verification/Shell_Options.thy ===== *)
theory Shell_Options
  imports Shell_Filesystem Shell_Parser
begin

text \<open>
  Option parsing of the commands (\<open>execution/shell/options.ts\<close>) and the \<open>test\<close> expressions
  (\<open>test-expression.ts\<close>).
\<close>

section \<open>Options\<close>

record option_spec =
  os_flags :: string
  os_values :: string
  os_longFlags :: "string list"
  os_longValues :: "string list"
  os_stopAtFirstOperand :: bool

definition flag_spec :: "string \<Rightarrow> option_spec" where
  "flag_spec fs = \<lparr>os_flags = fs, os_values = [], os_longFlags = [], os_longValues = [], os_stopAtFirstOperand = False\<rparr>"

record parsed_options =
  po_flags :: "string list"
  po_values :: "(string \<times> string) list"
  po_operands :: "string list"

definition no_options :: parsed_options where
  "no_options = \<lparr>po_flags = [], po_values = [], po_operands = []\<rparr>"

definition add_flag :: "string \<Rightarrow> parsed_options \<Rightarrow> parsed_options" where
  "add_flag f po = po\<lparr>po_flags := List.insert f (po_flags po)\<rparr>"

definition set_value :: "string \<Rightarrow> string \<Rightarrow> parsed_options \<Rightarrow> parsed_options" where
  "set_value n v po = po\<lparr>po_values := AList.update n v (po_values po)\<rparr>"

text \<open>The characters of one argument; the result says whether the next argument was consumed as a value.\<close>

fun short_options :: "string \<Rightarrow> option_spec \<Rightarrow> string list \<Rightarrow> parsed_options \<Rightarrow> string \<Rightarrow> shell_error + parsed_options \<times> bool" where
  "short_options command spec following po [] = Inr (po, False)"
| "short_options command spec following po (c # cs) =
    (if c \<in> set (os_flags spec) then short_options command spec following (add_flag [c] po) cs
     else if c \<in> set (os_values spec)
     then (if cs \<noteq> [] then Inr (set_value [c] cs po, False)
           else case following of
             [] \<Rightarrow> Inl (usageError command (''option -'' @ [c] @ '' requires a value''))
           | v # _ \<Rightarrow> Inr (set_value [c] v po, True))
     else Inl (unsupportedOption command [CHR ''-'', c]))"

definition before_equals :: "string \<Rightarrow> string" where
  "before_equals t = takeWhile (\<lambda>c. c \<noteq> CHR ''='') t"

definition after_equals :: "string \<Rightarrow> string" where
  "after_equals t = tl (dropWhile (\<lambda>c. c \<noteq> CHR ''='') t)"

function (sequential) option_loop :: "string \<Rightarrow> option_spec \<Rightarrow> bool \<Rightarrow> parsed_options \<Rightarrow> string list \<Rightarrow> shell_error + parsed_options" where
  "option_loop command spec optionsEnded po [] = Inr po"
| "option_loop command spec optionsEnded po (argument # rest) =
    (if optionsEnded \<or> argument = ''-'' \<or> \<not> prefix ''-'' argument
     then option_loop command spec (optionsEnded \<or> os_stopAtFirstOperand spec) (po\<lparr>po_operands := po_operands po @ [argument]\<rparr>) rest
     else if argument = ''--'' then option_loop command spec True po rest
     else if prefix ''--'' argument
     then (let name = before_equals argument; inline = CHR ''='' \<in> set argument in
           if name \<in> set (os_longFlags spec)
           then (if inline then Inl (usageError command (''option '' @ name @ '' does not take a value''))
                 else option_loop command spec False (add_flag name po) rest)
           else if name \<in> set (os_longValues spec)
           then (if inline then option_loop command spec False (set_value name (after_equals argument) po) rest
                 else case rest of
                   [] \<Rightarrow> Inl (usageError command (''option '' @ name @ '' requires a value''))
                 | v # rest' \<Rightarrow> option_loop command spec False (set_value name v po) rest')
           else Inl (unsupportedOption command name))
     else (case short_options command spec rest po (tl argument) of
             Inl e \<Rightarrow> Inl e
           | Inr (po, consumedNext) \<Rightarrow> option_loop command spec False po (if consumedNext then tl rest else rest)))"
  by pat_completeness auto
termination
  by (relation "measure (\<lambda>(_, _, _, _, args). length args)") auto

definition parseOptions :: "string \<Rightarrow> string list \<Rightarrow> option_spec \<Rightarrow> shell_error + parsed_options" where
  "parseOptions command argv spec = option_loop command spec False no_options (tl argv)"

definition requireOperands :: "string \<Rightarrow> string list \<Rightarrow> nat \<Rightarrow> string \<Rightarrow> shell_error + unit" where
  "requireOperands command operands minimum usage =
    (if length operands < minimum then Inl (usageError command (''usage: '' @ usage)) else Inr ())"

text \<open>\<open>/^[+-]?[0-9]+$/\<close> and the value of such a text.\<close>

definition is_integer_text :: "string \<Rightarrow> bool" where
  "is_integer_text t =
    (let ds = (case t of c # cs \<Rightarrow> if c = CHR ''+'' \<or> c = CHR ''-'' then cs else t | [] \<Rightarrow> []) in ds \<noteq> [] \<and> list_all is_digit ds)"

fun decimal_value :: "int \<Rightarrow> string \<Rightarrow> int" where
  "decimal_value n [] = n"
| "decimal_value n (c # cs) = decimal_value (10 * n + int (of_char c - 48)) cs"

definition integer_value :: "string \<Rightarrow> int" where
  "integer_value t =
    (case t of
       c # cs \<Rightarrow> if c = CHR ''-'' then - decimal_value 0 cs else if c = CHR ''+'' then decimal_value 0 cs else decimal_value 0 t
     | [] \<Rightarrow> 0)"

definition parseCount :: "string \<Rightarrow> string \<Rightarrow> string \<Rightarrow> shell_error + int" where
  "parseCount command raw label =
    (if is_integer_text raw then Inr (integer_value raw) else Inl (usageError command (''invalid '' @ label @ '': '' @ raw)))"

section \<open>Test expressions\<close>

definition UNARY_FILE_TESTS :: "string list" where
  "UNARY_FILE_TESTS = [''-e'', ''-f'', ''-d'', ''-s'', ''-r'', ''-w'', ''-x'', ''-h'', ''-L'']"

definition UNARY_STRING_TESTS :: "string list" where
  "UNARY_STRING_TESTS = [''-z'', ''-n'']"

definition UNSUPPORTED_UNARY :: "string list" where
  "UNSUPPORTED_UNARY = [''-b'', ''-c'', ''-p'', ''-S'', ''-t'', ''-g'', ''-u'', ''-k'', ''-O'', ''-G'', ''-N'']"

definition BINARY_OPERATORS :: "string list" where
  "BINARY_OPERATORS = [''='', ''=='', ''!='', ''<'', ''>'', ''-eq'', ''-ne'', ''-lt'', ''-le'', ''-gt'', ''-ge'', ''-nt'', ''-ot'', ''-ef'']"

definition isWritable :: "shell_fs \<Rightarrow> string \<Rightarrow> bool" where
  "isWritable fs path \<longleftrightarrow> assertWritablePath fs path = Inr ()"

definition applyFileTest :: "shell_fs \<Rightarrow> string \<Rightarrow> string \<Rightarrow> shell_error + bool" where
  "applyFileTest fs operator operand =
    bind_result (fs_resolve fs operand) (\<lambda>path.
      if operator = ''-e'' \<or> operator = ''-r'' then Inr (fs_exists fs path)
      else if operator = ''-f'' then Inr (isFile fs path)
      else if operator = ''-d'' then Inr (isDirectory fs path)
      else if operator = ''-s''
      then (if isFile fs path then bind_result (fs_stat fs path) (\<lambda>st. Inr (0 < st_size st)) else Inr False)
      else if operator = ''-w'' then Inr (fs_exists fs path \<and> isWritable fs path)
      else Inr False)"

definition parseIntegerOperand :: "string \<Rightarrow> string \<Rightarrow> shell_error + int" where
  "parseIntegerOperand operator raw =
    (if is_integer_text (trim raw) then Inr (integer_value (trim raw))
     else Inl (usageError ''test'' (operator @ '' expects integer operands: '' @ raw)))"

definition test_applyBinary :: "shell_fs \<Rightarrow> string \<Rightarrow> string \<Rightarrow> string \<Rightarrow> shell_error + bool" where
  "test_applyBinary fs operator left right =
    (if operator = ''='' \<or> operator = ''=='' then Inr (left = right)
     else if operator = ''!='' then Inr (left \<noteq> right)
     else if operator = ''<'' then Inr (code_unit_cmp left right < 0)
     else if operator = ''>'' then Inr (0 < code_unit_cmp left right)
     else if operator = ''-nt'' \<or> operator = ''-ot''
     then bind_result (fs_resolve fs left) (\<lambda>l. bind_result (fs_resolve fs right) (\<lambda>r.
       if \<not> fs_exists fs l \<or> \<not> fs_exists fs r then Inr False
       else bind_result (fs_stat fs l) (\<lambda>ls. bind_result (fs_stat fs r) (\<lambda>rs.
         let c = code_unit_cmp (st_updatedAt ls) (st_updatedAt rs) in Inr (if operator = ''-nt'' then 0 < c else c < 0)))))
     else if operator = ''-ef''
     then bind_result (fs_resolve fs left) (\<lambda>l. bind_result (fs_resolve fs right) (\<lambda>r. Inr (l = r)))
     else bind_result (parseIntegerOperand operator left) (\<lambda>l. bind_result (parseIntegerOperand operator right) (\<lambda>r.
       Inr (if operator = ''-eq'' then l = r
            else if operator = ''-ne'' then l \<noteq> r
            else if operator = ''-lt'' then l < r
            else if operator = ''-le'' then l \<le> r
            else if operator = ''-gt'' then r < l
            else r \<le> l))))"

text \<open>The primaries that do not open a parenthesis, on the arguments that are left.\<close>

definition test_operand :: "shell_fs \<Rightarrow> string list \<Rightarrow> shell_error + bool \<times> string list" where
  "test_operand fs args =
    (case args of
       [] \<Rightarrow> Inl (usageError ''test'' ''expected an expression'')
     | t # rest \<Rightarrow>
         if rest \<noteq> [] \<and> hd rest \<in> set BINARY_OPERATORS
         then (case tl rest of
                 [] \<Rightarrow> Inl (usageError ''test'' (hd rest @ '' requires two operands''))
               | right # rest' \<Rightarrow> bind_result (test_applyBinary fs (hd rest) t right) (\<lambda>b. Inr (b, rest')))
         else if t \<in> set UNSUPPORTED_UNARY
         then Inl (usageError ''test'' (t @ '' needs a device, terminal, or ownership model that airship-sh does not have''))
         else if t \<in> set UNARY_STRING_TESTS
         then (case rest of
                 [] \<Rightarrow> Inl (usageError ''test'' (t @ '' requires an operand''))
               | v # rest' \<Rightarrow> Inr (if t = ''-z'' then v = [] else v \<noteq> [], rest'))
         else if t \<in> set UNARY_FILE_TESTS
         then (case rest of
                 [] \<Rightarrow> Inl (usageError ''test'' (t @ '' requires an operand''))
               | v # rest' \<Rightarrow> bind_result (applyFileTest fs t v) (\<lambda>b. Inr (b, rest')))
         else Inr (t \<noteq> [], rest))"

lemma test_operand_length: "test_operand fs args = Inr (b, rest) \<Longrightarrow> length rest < length args"
  by (auto simp: test_operand_def result_simps split: list.splits if_splits)


function (sequential)
  test_parseOr :: "shell_fs \<Rightarrow> string list \<Rightarrow> shell_error + bool \<times> string list" and
  test_or_loop :: "shell_fs \<Rightarrow> bool \<Rightarrow> string list \<Rightarrow> shell_error + bool \<times> string list" and
  test_parseAnd :: "shell_fs \<Rightarrow> string list \<Rightarrow> shell_error + bool \<times> string list" and
  test_and_loop :: "shell_fs \<Rightarrow> bool \<Rightarrow> string list \<Rightarrow> shell_error + bool \<times> string list" and
  test_parseUnary :: "shell_fs \<Rightarrow> string list \<Rightarrow> shell_error + bool \<times> string list" and
  test_parsePrimary :: "shell_fs \<Rightarrow> string list \<Rightarrow> shell_error + bool \<times> string list"
where
  "test_parseOr fs args = bind_result (test_parseAnd fs args) (\<lambda>r. test_or_loop fs (fst r) (snd r))"
| "test_or_loop fs b args =
    (if args \<noteq> [] \<and> hd args = ''-o''
     then bind_result (test_parseAnd fs (tl args)) (\<lambda>r. test_or_loop fs (fst r \<or> b) (snd r))
     else Inr (b, args))"
| "test_parseAnd fs args = bind_result (test_parseUnary fs args) (\<lambda>r. test_and_loop fs (fst r) (snd r))"
| "test_and_loop fs b args =
    (if args \<noteq> [] \<and> hd args = ''-a''
     then bind_result (test_parseUnary fs (tl args)) (\<lambda>r. test_and_loop fs (fst r \<and> b) (snd r))
     else Inr (b, args))"
| "test_parseUnary fs args =
    (if args \<noteq> [] \<and> hd args = ''!''
     then bind_result (test_parseUnary fs (tl args)) (\<lambda>r. Inr (\<not> fst r, snd r))
     else test_parsePrimary fs args)"
| "test_parsePrimary fs args =
    (if args \<noteq> [] \<and> hd args = ''(''
     then bind_result (test_parseOr fs (tl args)) (\<lambda>r.
       if snd r \<noteq> [] \<and> hd (snd r) = '')'' then Inr (fst r, tl (snd r)) else Inl (usageError ''test'' ''expected `)`''))
     else test_operand fs args)"
  by pat_completeness auto

abbreviation "test_dom \<equiv> test_parseOr_test_or_loop_test_parseAnd_test_and_loop_test_parseUnary_test_parsePrimary_dom"

definition test_shorter :: "string list \<Rightarrow> shell_error + bool \<times> string list \<Rightarrow> bool" where
  "test_shorter args r \<longleftrightarrow> (\<forall>b rest. r = Inr (b, rest) \<longrightarrow> length rest < length args)"

definition test_no_longer :: "string list \<Rightarrow> shell_error + bool \<times> string list \<Rightarrow> bool" where
  "test_no_longer args r \<longleftrightarrow> (\<forall>b rest. r = Inr (b, rest) \<longrightarrow> length rest \<le> length args)"

lemma test_bind:
  assumes "test_shorter args' m" "length args' \<le> length args" "\<And>r. m = Inr r \<Longrightarrow> test_no_longer (snd r) (f r)"
  shows "test_shorter args (bind_result m f)" "test_no_longer args (bind_result m f)"
proof -
  show *: "test_shorter args (bind_result m f)"
    unfolding test_shorter_def
  proof (intro allI impI)
    fix b rest assume "bind_result m f = Inr (b, rest)"
    then obtain r where r: "m = Inr r" "f r = Inr (b, rest)" by (auto simp: bind_result_Inr_iff)
    then have "length rest \<le> length (snd r)" using assms(3) by (simp add: test_no_longer_def)
    moreover have "length (snd r) < length args'" using assms(1) r(1) unfolding test_shorter_def by (cases r) auto
    ultimately show "length rest < length args" using assms(2) by simp
  qed
  then show "test_no_longer args (bind_result m f)" unfolding test_shorter_def test_no_longer_def by (meson less_imp_le)
qed

lemma test_shorter_simps [simp]: "test_no_longer args (Inr (b, args))" "test_no_longer args (Inl e)" "test_no_longer args (Inr (b, tl args))"
  by (simp_all add: test_no_longer_def)

lemma test_lengths:
  "test_dom (Inl (Inl (fs, args))) \<Longrightarrow> test_shorter args (test_parseOr fs args)"
  "test_dom (Inl (Inr (Inl (fs, b, args)))) \<Longrightarrow> test_no_longer args (test_or_loop fs b args)"
  "test_dom (Inl (Inr (Inr (fs, args)))) \<Longrightarrow> test_shorter args (test_parseAnd fs args)"
  "test_dom (Inr (Inl (fs, b, args))) \<Longrightarrow> test_no_longer args (test_and_loop fs b args)"
  "test_dom (Inr (Inr (Inl (fs, args)))) \<Longrightarrow> test_shorter args (test_parseUnary fs args)"
  "test_dom (Inr (Inr (Inr (fs, args)))) \<Longrightarrow> test_shorter args (test_parsePrimary fs args)"
proof (induction fs args and fs b args and fs args and fs b args and fs args and fs args
    rule: test_parseOr_test_or_loop_test_parseAnd_test_and_loop_test_parseUnary_test_parsePrimary.pinduct)
  case (1 fs args)
  then show ?case by (auto simp: test_parseOr.psimps intro: test_bind)
next
  case (2 fs b args)
  then show ?case by (auto simp: test_or_loop.psimps intro!: test_bind(2) [of "tl args"])
next
  case (3 fs args)
  then show ?case by (auto simp: test_parseAnd.psimps intro: test_bind)
next
  case (4 fs b args)
  then show ?case by (auto simp: test_and_loop.psimps intro!: test_bind(2) [of "tl args"])
next
  case (5 fs args)
  then show ?case by (auto simp: test_parseUnary.psimps intro!: test_bind(1) [of "tl args"])
next
  case (6 fs args)
  then show ?case
    by (auto simp: test_parsePrimary.psimps test_shorter_def [of _ "test_operand fs args"] dest: test_operand_length intro!: test_bind(1) [of "tl args"])
qed

lemma test_total: "All test_dom"
proof (relation "measures [case_sum (case_sum (\<lambda>(_, args). length args) (case_sum (\<lambda>(_, _, args). length args) (\<lambda>(_, args). length args)))
    (case_sum (\<lambda>(_, _, args). length args) (case_sum (\<lambda>(_, args). length args) (\<lambda>(_, args). length args))),
    case_sum (case_sum (\<lambda>_. 4) (case_sum (\<lambda>_. 4) (\<lambda>_. 3))) (case_sum (\<lambda>_. 3) (case_sum (\<lambda>_. 2) (\<lambda>_. 1)))]", goal_cases)
  case 1
  then show ?case by simp
qed (auto dest!: test_lengths simp: test_shorter_def test_no_longer_def neq_Nil_conv)

termination test_parseOr
  by (rule test_total)

declare test_parseOr.simps [simp del] test_or_loop.simps [simp del] test_parseAnd.simps [simp del]
  test_and_loop.simps [simp del] test_parseUnary.simps [simp del] test_parsePrimary.simps [simp del]

definition evaluateTest :: "string list \<Rightarrow> shell_fs \<Rightarrow> shell_error + nat" where
  "evaluateTest argv fs =
    bind_result (test_parseOr fs argv) (\<lambda>r.
      if snd r \<noteq> [] then Inl (usageError ''test'' (''unexpected argument: '' @ hd (snd r))) else Inr (if fst r then 0 else 1))"


section \<open>What a test expression means\<close>

datatype test_expr =
    TText string
  | TUnary string string
  | TBinary string string string
  | TNot test_expr
  | TAnd test_expr test_expr
  | TOr test_expr test_expr

text \<open>Both sides of a connective are evaluated, and the left side first.\<close>

fun test_meaning :: "shell_fs \<Rightarrow> test_expr \<Rightarrow> shell_error + bool" where
  "test_meaning fs (TText t) = Inr (t \<noteq> [])"
| "test_meaning fs (TUnary operator v) =
    (if operator = ''-z'' then Inr (v = []) else if operator = ''-n'' then Inr (v \<noteq> []) else applyFileTest fs operator v)"
| "test_meaning fs (TBinary operator l r) = test_applyBinary fs operator l r"
| "test_meaning fs (TNot e) = bind_result (test_meaning fs e) (\<lambda>b. Inr (\<not> b))"
| "test_meaning fs (TAnd a b) = bind_result (test_meaning fs a) (\<lambda>x. bind_result (test_meaning fs b) (\<lambda>y. Inr (x \<and> y)))"
| "test_meaning fs (TOr a b) = bind_result (test_meaning fs a) (\<lambda>x. bind_result (test_meaning fs b) (\<lambda>y. Inr (x \<or> y)))"

text \<open>The arguments of an expression, with the operands of connectives in parentheses.\<close>

fun test_args :: "test_expr \<Rightarrow> string list" where
  "test_args (TText t) = [t]"
| "test_args (TUnary operator v) = [operator, v]"
| "test_args (TBinary operator l r) = [l, operator, r]"
| "test_args (TNot e) = [''!'', ''(''] @ test_args e @ ['')'']"
| "test_args (TAnd a b) = [''(''] @ test_args a @ ['')'', ''-a'', ''(''] @ test_args b @ ['')'']"
| "test_args (TOr a b) = [''(''] @ test_args a @ ['')'', ''-o'', ''(''] @ test_args b @ ['')'']"

text \<open>An operand that looks like the start of an expression is not one: \<open>!\<close> and \<open>(\<close> cannot be compared.\<close>

definition starts_expression :: "string \<Rightarrow> bool" where
  "starts_expression t \<longleftrightarrow> t = ''!'' \<or> t = ''(''"

fun wf_test :: "test_expr \<Rightarrow> bool" where
  "wf_test (TText t) \<longleftrightarrow> \<not> starts_expression t \<and> t \<notin> set (UNSUPPORTED_UNARY @ UNARY_STRING_TESTS @ UNARY_FILE_TESTS)"
| "wf_test (TUnary operator v) \<longleftrightarrow> operator \<in> set (UNARY_STRING_TESTS @ UNARY_FILE_TESTS) \<and> v \<notin> set BINARY_OPERATORS"
| "wf_test (TBinary operator l r) \<longleftrightarrow> operator \<in> set BINARY_OPERATORS \<and> \<not> starts_expression l"
| "wf_test (TNot e) \<longleftrightarrow> wf_test e"
| "wf_test (TAnd a b) \<longleftrightarrow> wf_test a \<and> wf_test b"
| "wf_test (TOr a b) \<longleftrightarrow> wf_test a \<and> wf_test b"

definition test_stop :: "string list \<Rightarrow> bool" where
  "test_stop rest \<longleftrightarrow> rest = [] \<or> hd rest = '')''"

definition reads :: "shell_error + bool \<Rightarrow> string list \<Rightarrow> shell_error + bool \<times> string list" where
  "reads m rest = bind_result m (\<lambda>b. Inr (b, rest))"

lemmas test_sets = BINARY_OPERATORS_def UNARY_STRING_TESTS_def UNARY_FILE_TESTS_def UNSUPPORTED_UNARY_def

lemma reads_simps [simp]: "reads (Inl e) rest = Inl e" "reads (Inr b) rest = Inr (b, rest)"
  by (simp_all add: reads_def)

lemma loops_stop:
  assumes "test_stop rest"
  shows "test_or_loop fs b rest = Inr (b, rest)" "test_and_loop fs b rest = Inr (b, rest)"
  using assms by (auto simp: test_stop_def test_or_loop.simps test_and_loop.simps)

lemma parse_operand:
  assumes "test_operand fs args = reads m rest" "args \<noteq> []" "\<not> starts_expression (hd args)" "test_stop rest"
  shows "test_parseOr fs args = reads m rest"
  using assms
  by (cases m) (auto simp: test_parseOr.simps test_parseAnd.simps test_parseUnary.simps test_parsePrimary.simps starts_expression_def loops_stop)

lemma parse_parenthesis:
  assumes "\<And>rest. test_stop rest \<Longrightarrow> test_parseOr fs (args @ rest) = reads m rest"
  shows "test_parseUnary fs (''('' # args @ '')'' # rest) = reads m rest"
  using assms [of "'')'' # rest"]
  by (cases m) (simp_all add: test_parseUnary.simps test_parsePrimary.simps test_stop_def)

lemma operand_reads:
  "wf_test (TText t) \<Longrightarrow> test_stop rest \<Longrightarrow> test_operand fs (t # rest) = reads (Inr (t \<noteq> [])) rest"
  "wf_test (TUnary operator v) \<Longrightarrow> test_operand fs (operator # v # rest) = reads (test_meaning fs (TUnary operator v)) rest"
  "wf_test (TBinary operator l r) \<Longrightarrow> test_operand fs (l # operator # r # rest) = reads (test_applyBinary fs operator l r) rest"
proof -
  assume "wf_test (TText t)" "test_stop rest"
  moreover have "'')'' \<notin> set BINARY_OPERATORS" by (simp add: test_sets)
  ultimately show "test_operand fs (t # rest) = reads (Inr (t \<noteq> [])) rest"
    by (auto simp: test_operand_def test_stop_def)
next
  assume wf: "wf_test (TUnary operator v)"
  have "operator \<notin> set UNSUPPORTED_UNARY" using wf by (auto simp: test_sets)
  moreover have "(operator \<in> set UNARY_STRING_TESTS) = (operator = ''-z'' \<or> operator = ''-n'')" by (simp add: test_sets)
  ultimately show "test_operand fs (operator # v # rest) = reads (test_meaning fs (TUnary operator v)) rest"
    using wf by (auto simp: test_operand_def reads_def)
next
  assume "wf_test (TBinary operator l r)"
  then show "test_operand fs (l # operator # r # rest) = reads (test_applyBinary fs operator l r) rest"
    by (simp add: test_operand_def reads_def)
qed

lemma parse_reads: "wf_test e \<Longrightarrow> test_stop rest \<Longrightarrow> test_parseOr fs (test_args e @ rest) = reads (test_meaning fs e) rest"
proof (induction e arbitrary: rest)
  case (TText t)
  then show ?case using parse_operand [OF operand_reads(1)] by simp
next
  case (TUnary operator v)
  then have "\<not> starts_expression operator" by (auto simp: test_sets starts_expression_def)
  with TUnary show ?case using parse_operand [OF operand_reads(2)] by simp
next
  case (TBinary operator l r)
  then show ?case using parse_operand [OF operand_reads(3)] by simp
next
  case (TNot e)
  then have "test_parseUnary fs (''('' # test_args e @ '')'' # rest) = reads (test_meaning fs e) rest"
    by (intro parse_parenthesis) simp
  with TNot(3) show ?case
    by (cases "test_meaning fs e") (auto simp: test_parseOr.simps test_parseAnd.simps test_parseUnary.simps [of fs "''!'' # _"] loops_stop)
next
  case (TAnd a b)
  then have "test_parseUnary fs (''('' # test_args a @ '')'' # r) = reads (test_meaning fs a) r"
    "test_parseUnary fs (''('' # test_args b @ '')'' # r) = reads (test_meaning fs b) r" for r
    by (intro parse_parenthesis; simp)+
  with TAnd(4) show ?case
    by (cases "test_meaning fs a"; cases "test_meaning fs b")
       (auto simp: test_parseOr.simps test_parseAnd.simps test_and_loop.simps [of fs _ "''-a'' # _"] loops_stop conj_commute)
next
  case (TOr a b)
  then have "test_parseUnary fs (''('' # test_args a @ '')'' # r) = reads (test_meaning fs a) r"
    "test_parseUnary fs (''('' # test_args b @ '')'' # r) = reads (test_meaning fs b) r" for r
    by (intro parse_parenthesis; simp)+
  moreover have "test_and_loop fs x (''-o'' # r) = Inr (x, ''-o'' # r)" for x r by (simp add: test_and_loop.simps)
  ultimately show ?case
    using TOr(4) by (cases "test_meaning fs a"; cases "test_meaning fs b")
       (auto simp: test_parseOr.simps test_parseAnd.simps test_or_loop.simps [of fs _ "''-o'' # _"] loops_stop disj_commute)
qed

text \<open>C35: The recursive-descent evaluator of \<open>test\<close> computes what an expression means: on the arguments of an expression
  (operands of connectives in parentheses, no operand that starts an expression) the status is 0 or 1 for its value,
  or the error of its first bad operand.\<close>

theorem test_decides_meaning:
  assumes "wf_test e"
  shows "evaluateTest (test_args e) fs = bind_result (test_meaning fs e) (\<lambda>b. Inr (if b then 0 else 1))"
  using parse_reads [OF assms, of "[]" fs] by (cases "test_meaning fs e") (simp_all add: evaluateTest_def test_stop_def)

theorem test_decides_meaning_witness:
  "evaluateTest [''('', ''-n'', ''x'', '')'', ''-a'', ''('', ''!'', ''('', ''2'', ''-lt'', ''10'', '')'', '')''] demo_mount = Inr 1"
proof -
  let ?e = "TAnd (TUnary ''-n'' ''x'') (TNot (TBinary ''-lt'' ''2'' ''10''))"
  have "wf_test ?e" "test_meaning demo_mount ?e = Inr False" by code_simp+
  then show ?thesis using test_decides_meaning [of ?e demo_mount] by simp
qed

text \<open>A comparison whose left operand is an exclamation mark or an open parenthesis is not read as a comparison.\<close>

theorem bang_is_not_compared:
  "evaluateTest [''!'', ''='', ''!''] fs = Inl (usageError ''test'' ''unexpected argument: !'')"
  by (simp add: evaluateTest_def test_parseOr.simps test_parseAnd.simps test_parseUnary.simps test_parsePrimary.simps
      test_operand_def test_sets test_and_loop.simps test_or_loop.simps)

section \<open>Operands\<close>

lemma short_options_operands:
  "short_options command spec following po cs = Inr (po', b) \<Longrightarrow> po_operands po' = po_operands po"
  by (induction command spec following po cs rule: short_options.induct)
    (auto simp: add_flag_def set_value_def split: if_splits list.splits)

lemma option_loop_operands:
  "option_loop command spec ended po args = Inr po' \<Longrightarrow> length (po_operands po') \<le> length (po_operands po) + length args"
proof (induction "length args" arbitrary: ended po args rule: less_induct)
  case less
  show ?case
  proof (cases args)
    case (Cons argument rest)
    have later: "length (po_operands po') \<le> length (po_operands po) + length args"
      if "option_loop command spec e p as = Inr po'" "length as < length args"
        "length (po_operands p) + length as \<le> length (po_operands po) + length args" for e p as
      using less(1) [OF that(2,1)] that(3) by simp
    show ?thesis
      using less(2) unfolding Cons
      by (auto simp: Let_def add_flag_def set_value_def Cons split: if_splits list.splits sum.splits prod.splits
          dest!: later short_options_operands)
  qed (use less in simp)
qed

lemma parseOptions_operands: "parseOptions command argv spec = Inr po \<Longrightarrow> length (po_operands po) \<le> length argv - 1"
  using option_loop_operands [of command spec False no_options "tl argv" po] by (simp add: parseOptions_def no_options_def)

end
