(* ===== verification/Shell_Format.thy ===== *)
theory Shell_Format
  imports Shell_Options Shell_Arithmetic
begin

text \<open>
  The text functions of the built-in commands (\<open>execution/shell/builtins.ts\<close>): backslash escapes, \<open>printf\<close> and
  the fields of \<open>read\<close>. An octal escape above \<open>\0377\<close> names a code unit outside the modelled range and is taken
  modulo 256.
\<close>

section \<open>Escapes\<close>

text \<open>One escape, from the text after the backslash: the characters, whether output stops, and what is left.\<close>

definition is_octal :: "char \<Rightarrow> bool" where
  "is_octal c \<longleftrightarrow> c \<in> set ''01234567''"

fun octal_value :: "nat \<Rightarrow> string \<Rightarrow> nat" where
  "octal_value n [] = n"
| "octal_value n (c # cs) = octal_value (8 * n + (of_char c - 48)) cs"

definition SIMPLE_ESCAPES :: "(char \<times> char) list" where
  "SIMPLE_ESCAPES = [(CHR ''n'', CHR 0x0A), (CHR ''t'', CHR 0x09), (CHR ''r'', CHR 0x0D), (CHR ''a'', CHR 0x07), (CHR ''b'', CHR 0x08),
     (CHR ''f'', CHR 0x0C), (CHR ''v'', CHR 0x0B), (CHR 0x5C, CHR 0x5C)]"

definition readEscape :: "string \<Rightarrow> string \<times> bool \<times> string" where
  "readEscape t =
    (case t of
       [] \<Rightarrow> ([CHR 0x5C], False, [])
     | c # cs \<Rightarrow>
         case map_of SIMPLE_ESCAPES c of
           Some d \<Rightarrow> ([d], False, cs)
         | None \<Rightarrow>
             if c = CHR ''c'' then ([], True, [])
             else if c = CHR ''0''
             then (let digits = takeWhile is_octal (take 3 cs) in ([char_of (octal_value 0 digits)], False, drop (length digits) cs))
             else ([CHR 0x5C, c], False, cs))"

lemma readEscape_length: "readEscape t = (e, b, rest) \<Longrightarrow> length rest \<le> length t"
  by (auto simp: readEscape_def Let_def split: list.splits option.splits if_splits)

function expandEscapes :: "string \<Rightarrow> string \<times> bool" where
  "expandEscapes t =
    (case t of
       [] \<Rightarrow> ([], False)
     | c # cs \<Rightarrow>
         if c \<noteq> CHR 0x5C then (c # fst (expandEscapes cs), snd (expandEscapes cs))
         else case readEscape cs of
           (e, True, rest) \<Rightarrow> (e, True)
         | (e, False, rest) \<Rightarrow> (e @ fst (expandEscapes rest), snd (expandEscapes rest)))"
  by pat_completeness auto
termination
  by (relation "measure length") (auto dest!: readEscape_length [OF sym])

declare expandEscapes.simps [simp del]

section \<open>printf\<close>

record conversion =
  cv_flags :: string
  cv_width :: string
  cv_precision :: "string option"
  cv_kind :: char

definition is_flag :: "char \<Rightarrow> bool" where
  "is_flag c \<longleftrightarrow> c \<in> set ''-+ #0''"

definition split_precision :: "string \<Rightarrow> string option \<times> string" where
  "split_precision t =
    (case t of
       c # rest \<Rightarrow> if c = CHR ''.'' \<and> takeWhile is_digit rest \<noteq> [] then (Some (takeWhile is_digit rest), dropWhile is_digit rest) else (None, t)
     | [] \<Rightarrow> (None, t))"

text \<open>The regular expression \<open>CONVERSION\<close> on the text after the percent sign.\<close>

definition match_conversion :: "string \<Rightarrow> (conversion \<times> string) option" where
  "match_conversion t =
    (let flags = takeWhile is_flag t; t1 = dropWhile is_flag t;
         width = takeWhile is_digit t1; (precision, t2) = split_precision (dropWhile is_digit t1)
     in case t2 of
          c # rest \<Rightarrow> if c \<in> set ''diouxXcsb%''
            then Some (\<lparr>cv_flags = flags, cv_width = width, cv_precision = precision, cv_kind = c\<rparr>, rest) else None
        | [] \<Rightarrow> None)"

definition toInteger :: "string \<Rightarrow> shell_error + int" where
  "toInteger argument =
    (let t = trim argument in
     if t = [] then Inr 0
     else if \<not> is_integer_text t then Inl (usageError ''printf'' (''expected a numeric argument: '' @ argument))
     else Inr (wrap (integer_value t)))"

definition radix_digit :: "nat \<Rightarrow> char" where
  "radix_digit d = (if d < 10 then char_of (48 + d) else char_of (87 + d))"

function radix_text :: "nat \<Rightarrow> nat \<Rightarrow> string" where
  "radix_text base n = (if base < 2 \<or> n < base then [radix_digit n] else radix_text base (n div base) @ [radix_digit (n mod base)])"
  by pat_completeness auto
termination
  by (relation "measure snd") auto

declare radix_text.simps [simp del]

definition asUintN64 :: "int \<Rightarrow> nat" where
  "asUintN64 v = nat (v mod 2 ^ 64)"

definition renderConversion :: "conversion \<Rightarrow> string \<Rightarrow> shell_error + string" where
  "renderConversion cv argument =
    (let k = cv_kind cv; unsigned_text = (\<lambda>base. bind_result (toInteger argument) (\<lambda>v. Inr (radix_text base (asUintN64 v)))) in
     if k = CHR ''s''
     then Inr (case cv_precision cv of None \<Rightarrow> argument | Some p \<Rightarrow> take (nat (decimal_value 0 p)) argument)
     else if k = CHR ''b'' then Inr (fst (expandEscapes argument))
     else if k = CHR ''c'' then Inr (take 1 argument)
     else if k = CHR ''d'' \<or> k = CHR ''i'' then bind_result (toInteger argument) (\<lambda>v. Inr (dec_int v))
     else if k = CHR ''u'' then unsigned_text 10
     else if k = CHR ''o'' then unsigned_text 8
     else if k = CHR ''x'' then unsigned_text 16
     else bind_result (unsigned_text 16) (\<lambda>t. Inr (map (\<lambda>c. if 97 \<le> (of_char c :: nat) then char_of (of_char c - 32 :: nat) else c) t)))"

definition pad :: "string \<Rightarrow> string \<Rightarrow> string \<Rightarrow> string" where
  "pad v flags width =
    (let target = nat (decimal_value 0 width) in
     if width = [] \<or> target \<le> length v then v
     else if CHR ''-'' \<in> set flags then v @ replicate (target - length v) (CHR '' '')
     else if CHR ''0'' \<in> set flags \<and> is_integer_text v
     then (if prefix ''-'' v then CHR ''-'' # replicate (target - length v) (CHR ''0'') @ tl v
           else replicate (target - length v) (CHR ''0'') @ v)
     else replicate (target - length v) (CHR '' '') @ v)"

text \<open>
  One pass over the format: the output, whether it was stopped, whether a conversion was seen, and the
  arguments that are left.
\<close>

function printf_pass :: "string \<Rightarrow> string list \<Rightarrow> shell_error + string \<times> bool \<times> bool \<times> string list" where
  "printf_pass format args =
    (case format of
       [] \<Rightarrow> Inr ([], False, False, args)
     | c # cs \<Rightarrow>
         if c = CHR 0x5C
         then (case readEscape cs of
                 (e, True, rest) \<Rightarrow> Inr (e, True, False, args)
               | (e, False, rest) \<Rightarrow>
                   bind_result (printf_pass rest args) (\<lambda>(out, stopped, saw, args'). Inr (e @ out, stopped, saw, args')))
         else if c \<noteq> CHR ''%''
         then bind_result (printf_pass cs args) (\<lambda>(out, stopped, saw, args'). Inr (c # out, stopped, saw, args'))
         else case match_conversion cs of
           None \<Rightarrow> Inl (usageError ''printf'' (''unsupported conversion: '' @ take 2 format))
         | Some (cv, rest) \<Rightarrow>
             if cv_kind cv = CHR ''%''
             then bind_result (printf_pass rest args) (\<lambda>(out, stopped, saw, args'). Inr (CHR ''%'' # out, stopped, saw, args'))
             else bind_result (renderConversion cv (case args of [] \<Rightarrow> [] | a # _ \<Rightarrow> a)) (\<lambda>v.
               bind_result (printf_pass rest (tl args)) (\<lambda>(out, stopped, saw, args').
                 Inr (pad v (cv_flags cv) (cv_width cv) @ out, stopped, True, args'))))"
  by pat_completeness auto

lemma split_precision_length: "length (snd (split_precision t)) \<le> length t"
  using length_dropWhile_le [of is_digit "tl t"] by (auto simp: split_precision_def split: list.splits)

lemma match_conversion_length:
  assumes "match_conversion t = Some (cv, rest)"
  shows "length rest < length t"
proof -
  let ?t = "dropWhile is_digit (dropWhile is_flag t)"
  have "snd (split_precision ?t) = cv_kind cv # rest"
    using assms by (auto simp: match_conversion_def Let_def split_def split: list.splits if_splits)
  then have "length rest < length (snd (split_precision ?t))" by simp
  also have "... \<le> length ?t" by (rule split_precision_length)
  also have "... \<le> length t" by (meson le_trans length_dropWhile_le)
  finally show ?thesis .
qed

termination printf_pass
  by (relation "measure (\<lambda>(format, _). length format)") (auto dest!: match_conversion_length readEscape_length [OF sym])

declare printf_pass.simps [simp del]


lemma printf_pass_args: "printf_pass format args = Inr (out, stopped, saw, args') \<Longrightarrow> length args' \<le> length args"
proof (induction "length format" arbitrary: format args out stopped saw args' rule: less_induct)
  case less
  show ?case
  proof (cases format)
    case (Cons c cs)
    have "args' = args \<or> (\<exists>f as r. printf_pass f as = Inr r \<and> length f < length format \<and> length as \<le> length args \<and> snd (snd (snd r)) = args')"
      using less(2) unfolding Cons printf_pass.simps [of "c # cs"]
      by (auto simp: result_simps split: if_splits prod.splits bool.splits option.splits)
        (metis le_imp_less_Suc match_conversion_length readEscape_length order_refl less_SucI diff_le_self length_tl lessI)+
    then show ?thesis
    proof (elim disjE exE conjE)
      fix f as r assume f: "printf_pass f as = Inr r" "length f < length format" "length as \<le> length args" "snd (snd (snd r)) = args'"
      obtain o' st sw where "r = (o', st, sw, args')" using f(4) by (cases r) auto
      with f show ?thesis using less(1) [OF f(2)] by (metis le_trans)
    qed simp
  qed (use less(2) in \<open>simp add: printf_pass.simps\<close>)
qed

text \<open>The format is used again while arguments are left.\<close>

function formatPrintf :: "string \<Rightarrow> string list \<Rightarrow> shell_error + string" where
  "formatPrintf format args =
    (case printf_pass format args of
       Inl e \<Rightarrow> Inl e
     | Inr (out, stopped, saw, rest) \<Rightarrow>
         if stopped \<or> \<not> saw \<or> rest = [] \<or> length rest = length args then Inr out
         else bind_result (formatPrintf format rest) (\<lambda>more. Inr (out @ more)))"
  by pat_completeness auto
termination
  by (relation "measure (\<lambda>(_, args). length args)") (auto dest!: printf_pass_args simp: nat_less_le)

declare formatPrintf.simps [simp del]

section \<open>The fields of read\<close>

definition is_blank_char :: "char \<Rightarrow> bool" where
  "is_blank_char c \<longleftrightarrow> c = CHR '' '' \<or> c = CHR 0x09 \<or> c = CHR 0x0A"

text \<open>The loop over the characters, with the fields so far and the field under construction.\<close>

function (sequential) read_fields :: "string \<Rightarrow> bool \<Rightarrow> nat \<Rightarrow> string list \<Rightarrow> string \<Rightarrow> string \<Rightarrow> string list \<times> string" where
  "read_fields seps whitespaceOnly wanted done_fields current [] = (done_fields, current)"
| "read_fields seps whitespaceOnly wanted done_fields current (c # cs) =
    (if c \<in> set seps \<and> int (length done_fields) < int wanted - 1
     then read_fields seps whitespaceOnly wanted (done_fields @ [current]) []
       (if whitespaceOnly then dropWhile (\<lambda>c. c \<in> set seps) cs else cs)
     else read_fields seps whitespaceOnly wanted done_fields (current @ [c]) cs)"
  by pat_completeness auto
termination
  by (relation "measure (\<lambda>(_, _, _, _, _, cs). length cs)") (auto simp: le_imp_less_Suc length_dropWhile_le)

definition trim_end :: "string \<Rightarrow> string" where
  "trim_end t = rev (dropWhile is_blank_char (rev t))"

definition splitReadFields :: "string \<Rightarrow> string \<Rightarrow> nat \<Rightarrow> string list" where
  "splitReadFields t ifs wanted =
    (if ifs = [] then [t]
     else
       let whitespaceOnly = list_all is_blank_char ifs;
           start = (if whitespaceOnly then dropWhile (\<lambda>c. c \<in> set ifs) t else t);
           (done_fields, current) = read_fields ifs whitespaceOnly wanted [] [] start
       in done_fields @ [if whitespaceOnly then trim_end current else current])"

text \<open>\<open>text.replace(/\\(.)/gu, "$1")\<close>: the dot matches no line terminator.\<close>

fun unescape_line :: "string \<Rightarrow> string" where
  "unescape_line (c # d # cs) =
    (if c = CHR 0x5C \<and> d \<notin> {CHR 0x0A, CHR 0x0D} then d # unescape_line cs else c # unescape_line (d # cs))"
| "unescape_line cs = cs"


section \<open>What printf writes\<close>

lemma printf_pass_line:
  "printf_pass (''%s'' @ [CHR 0x5C, CHR ''n'']) args = Inr ((case args of [] \<Rightarrow> [] | a # _ \<Rightarrow> a) @ [CHR 0x0A], False, True, tl args)"
  by (simp add: printf_pass.simps match_conversion_def split_precision_def is_flag_def is_digit_def renderConversion_def Let_def
      pad_def readEscape_def SIMPLE_ESCAPES_def)

text \<open>C33: \<open>printf '%s\n'\<close> uses its format once for every argument: it writes each argument unchanged on a line of its
  own, whatever the argument contains, and nothing else.\<close>

theorem printf_writes_each_argument:
  "formatPrintf (''%s'' @ [CHR 0x5C, CHR ''n'']) (a # as) = Inr (concat (map (\<lambda>v. v @ [CHR 0x0A]) (a # as)))"
proof (induction as arbitrary: a)
  case Nil
  then show ?case
    using printf_pass_line [of "[a]"] by (subst formatPrintf.simps) simp
next
  case (Cons b as)
  then show ?case
    using printf_pass_line [of "a # b # as"] by (subst formatPrintf.simps) simp
qed

text \<open>A field never holds a separator unless it is the last one, and there are never more fields than names.\<close>

lemma read_fields_bound:
  "length fs \<le> wanted - 1 \<Longrightarrow> length (fst (read_fields seps ws wanted fs current t)) \<le> wanted - 1"
  by (induction seps ws wanted fs current t rule: read_fields.induct) auto

lemma splitReadFields_bound: "0 < wanted \<Longrightarrow> length (splitReadFields t ifs wanted) \<le> wanted"
  using read_fields_bound [of "[]" wanted ifs "list_all is_blank_char ifs" "[]" "if list_all is_blank_char ifs then dropWhile (\<lambda>c. c \<in> set ifs) t else t"]
  by (auto simp: splitReadFields_def Let_def split: prod.splits)

end
