(* ===== verification/Shell_Builtins.thy ===== *)
theory Shell_Builtins
  imports Shell_State Shell_Format
begin

text \<open>
  The built-in commands that do not run other commands (\<open>execution/shell/builtins.ts\<close>). A handler takes the arguments,
  the streams of the command and the interpreter, and ends with a status or a signal. The commands that run others
  (\<open>eval\<close>, \<open>exec\<close>, \<open>.\<close>, \<open>command\<close>) belong to the interpreter.
\<close>

type_synonym handler = "string list \<Rightarrow> command_io \<Rightarrow> shell \<Rightarrow> (shell, nat) run"

definition AIRSHIP_SH_MAX_ALIASES :: nat where
  "AIRSHIP_SH_MAX_ALIASES = 64"

section \<open>Loops over operands\<close>

fun for_each :: "('a \<Rightarrow> shell \<Rightarrow> (shell, unit) run) \<Rightarrow> 'a list \<Rightarrow> shell \<Rightarrow> (shell, unit) run" where
  "for_each f [] s = (s, Inr ())"
| "for_each f (x # xs) s = then_do (f x s) (\<lambda>s _. for_each f xs s)"

text \<open>A loop whose status is 1 as soon as one step fails.\<close>

fun for_status :: "('a \<Rightarrow> shell \<Rightarrow> (shell, bool) run) \<Rightarrow> 'a list \<Rightarrow> nat \<Rightarrow> shell \<Rightarrow> (shell, nat) run" where
  "for_status f [] status s = (s, Inr status)"
| "for_status f (x # xs) status s = then_do (f x s) (\<lambda>s ok. for_status f xs (if ok then status else 1) s)"

definition succeed :: "shell \<Rightarrow> unit \<Rightarrow> (shell, nat) run" where
  "succeed s u = (s, Inr 0)"

section \<open>Arguments\<close>

definition argument :: "string list \<Rightarrow> nat \<Rightarrow> string option" where
  "argument argv i = (if i < length argv then Some (argv ! i) else None)"

definition parseStatus :: "string \<Rightarrow> string option \<Rightarrow> nat \<Rightarrow> shell_error + nat" where
  "parseStatus command raw fallback =
    (case raw of
       None \<Rightarrow> Inr fallback
     | Some t \<Rightarrow> if t \<noteq> [] \<and> list_all is_digit t then Inr (parse_decimal 0 t mod 256)
         else Inl (usageError command (''numeric argument required: '' @ t)))"

definition loopCount :: "string \<Rightarrow> string option \<Rightarrow> shell_error + nat" where
  "loopCount command raw =
    (case raw of
       None \<Rightarrow> Inr 1
     | Some t \<Rightarrow> if t \<noteq> [] \<and> hd t \<noteq> CHR ''0'' \<and> list_all is_digit t then Inr (parse_decimal 0 t)
         else Inl (usageError command (''loop count must be a positive integer: '' @ t)))"

definition assertName :: "string \<Rightarrow> string \<Rightarrow> shell_error + unit" where
  "assertName command name = (if isName name then Inr () else Inl (usageError command (''not a valid name: '' @ name)))"

text \<open>\<open>name=value\<close>: the name and, if there is an equals sign, the value.\<close>

definition split_operand :: "string \<Rightarrow> string \<times> string option" where
  "split_operand t = (before_equals t, if CHR ''='' \<in> set t then Some (after_equals t) else None)"

section \<open>Options of the shell\<close>

definition SHELL_OPTION_FLAGS :: "(char \<times> string) list" where
  "SHELL_OPTION_FLAGS = [(CHR ''e'', ''errexit''), (CHR ''u'', ''nounset''), (CHR ''x'', ''xtrace''), (CHR ''f'', ''noglob'')]"

definition SHELL_OPTION_NAMES :: "string list" where
  "SHELL_OPTION_NAMES = [''errexit'', ''nounset'', ''xtrace'', ''noglob'', ''pipefail'']"

definition option_value :: "shell_options \<Rightarrow> string \<Rightarrow> bool" where
  "option_value options name =
    (if name = ''errexit'' then so_errexit options
     else if name = ''nounset'' then so_nounset options
     else if name = ''xtrace'' then so_xtrace options
     else if name = ''noglob'' then so_noglob options
     else so_pipefail options)"

definition set_option :: "string \<Rightarrow> bool \<Rightarrow> shell \<Rightarrow> shell" where
  "set_option name enable s =
    s\<lparr>sh_options :=
      (if name = ''errexit'' then (sh_options s)\<lparr>so_errexit := enable\<rparr>
       else if name = ''nounset'' then (sh_options s)\<lparr>so_nounset := enable\<rparr>
       else if name = ''xtrace'' then (sh_options s)\<lparr>so_xtrace := enable\<rparr>
       else if name = ''noglob'' then (sh_options s)\<lparr>so_noglob := enable\<rparr>
       else if name = ''pipefail'' then (sh_options s)\<lparr>so_pipefail := enable\<rparr>
       else sh_options s)\<rparr>"

fun set_flags :: "bool \<Rightarrow> string \<Rightarrow> shell \<Rightarrow> (shell, unit) run" where
  "set_flags enable [] s = (s, Inr ())"
| "set_flags enable (c # cs) s =
    (case map_of SHELL_OPTION_FLAGS c of
       None \<Rightarrow> fail s (unsupportedOption ''set'' [if enable then CHR ''-'' else CHR ''+'', c])
     | Some name \<Rightarrow> set_flags enable cs (set_option name enable s))"

definition list_options :: "platform \<Rightarrow> command_io \<Rightarrow> shell \<Rightarrow> (shell, unit) run" where
  "list_options pf io s =
    for_each (\<lambda>name s. write_text pf (io_stdout io)
      (name @ [CHR 0x09] @ (if option_value (sh_options s) name then ''on'' else ''off'') @ [newline]) s) SHELL_OPTION_NAMES s"

text \<open>
  A long option name is looked up in an object literal, which also answers for the properties it inherits:
  such a name is accepted and changes nothing.
\<close>

definition set_long_option :: "string \<Rightarrow> bool \<Rightarrow> shell \<Rightarrow> (shell, unit) run" where
  "set_long_option name enable s =
    (if name \<in> set SHELL_OPTION_NAMES then (set_option name enable s, Inr ())
     else if name \<in> set inherited_names then (s, Inr ())
     else fail s (usageError ''set''
       (''unsupported option name: '' @ name @ '' (airship-sh implements '' @ join '', '' SHELL_OPTION_NAMES @ '')'')))"

text \<open>The loop of \<open>applySet\<close>; the value is the list of positional parameters, if the arguments name any.\<close>

function (sequential) set_loop ::
  "platform \<Rightarrow> command_io \<Rightarrow> string list option \<Rightarrow> string list \<Rightarrow> shell \<Rightarrow> (shell, string list option) run" where
  "set_loop pf io positional [] s = (s, Inr positional)"
| "set_loop pf io (Some ps) (a # rest) s = set_loop pf io (Some (ps @ [a])) rest s"
| "set_loop pf io None (a # rest) s =
    (if a = ''--'' then set_loop pf io (Some []) rest s
     else if a \<noteq> ''-'' \<and> (prefix ''-'' a \<or> prefix ''+'' a)
     then (if prefix ''o'' (tl a)
           then (if tl (tl a) \<noteq> []
                 then then_do (set_long_option (tl (tl a)) (prefix ''-'' a) s) (\<lambda>s _. set_loop pf io None rest s)
                 else case rest of
                   [] \<Rightarrow> then_do (list_options pf io s) (\<lambda>s _. set_loop pf io None [] s)
                 | name # rest' \<Rightarrow> then_do (set_long_option name (prefix ''-'' a) s) (\<lambda>s _. set_loop pf io None rest' s))
           else then_do (set_flags (prefix ''-'' a) (tl a) s) (\<lambda>s _. set_loop pf io None rest s))
     else set_loop pf io (Some [a]) rest s)"
  by pat_completeness auto
termination
  by (relation "measure (\<lambda>(_, _, _, args, _). length args)") auto

definition applySet :: "platform \<Rightarrow> handler" where
  "applySet pf argv io s =
    (if length argv = 1
     then then_do (for_each (\<lambda>name s. write_text pf (io_stdout io)
         (name @ ''='' @ quoteForDisplay (case lookup (sh_vars s) name of Some v \<Rightarrow> v | None \<Rightarrow> []) @ [newline]) s)
         (variableNames (sh_vars s)) s) succeed
     else then_do (set_loop pf io None (tl argv) s) (\<lambda>s positional.
       case positional of None \<Rightarrow> (s, Inr 0) | Some ps \<Rightarrow> then_do (thrown (on_vars (setPositional ps) s)) succeed))"

section \<open>Traps\<close>

definition upper_ascii :: "string \<Rightarrow> string" where
  "upper_ascii t = map (\<lambda>c. if 97 \<le> (of_char c :: nat) \<and> (of_char c :: nat) \<le> 122 then char_of (of_char c - 32 :: nat) else c) t"

definition is_exit_condition :: "string \<Rightarrow> bool" where
  "is_exit_condition condition =
    (let t = upper_ascii condition; n = (if prefix ''SIG'' t then drop 3 t else t) in n = ''EXIT'' \<or> n = ''0'')"

definition applyTrap :: "platform \<Rightarrow> handler" where
  "applyTrap pf argv io s =
    (case argv of
       _ # action # conditions \<Rightarrow>
         if conditions = [] then fail s (usageError ''trap'' ''usage: trap action EXIT'')
         else then_do (for_each (\<lambda>condition s.
           if \<not> is_exit_condition condition
           then fail s (usageError ''trap'' (''airship-sh has no operating-system process, so only EXIT can be trapped; '' @ condition @ '' is unsupported''))
           else if action = ''-'' \<or> action = [] then (s\<lparr>sh_traps := AList.delete ''EXIT'' (sh_traps s)\<rparr>, Inr ())
           else (s\<lparr>sh_traps := AList.update ''EXIT'' action (sh_traps s)\<rparr>, Inr ())) conditions s) succeed
     | _ \<Rightarrow>
         then_do (for_each (\<lambda>(condition, action) s. write_text pf (io_stdout io)
           (''trap -- '' @ quoteForDisplay action @ '' '' @ condition @ [newline]) s) (sh_traps s) s) succeed)"


section \<open>The special built-ins\<close>

definition SPECIAL_BUILTINS :: "string list" where
  "SPECIAL_BUILTINS = ['':'', ''exit'', ''return'', ''break'', ''continue'', ''shift'', ''eval'', ''exec'', ''export'', ''unset'', ''set'',
     ''trap'', ''.'', ''source'']"

definition raise_signal :: "shell \<Rightarrow> shell_error + signal \<Rightarrow> (shell, nat) run" where
  "raise_signal s r = (s, Inl (case r of Inl e \<Rightarrow> Thrown e | Inr g \<Rightarrow> g))"

definition builtin_shift :: handler where
  "builtin_shift argv io s =
    then_do (no_throw s (case argument argv 1 of None \<Rightarrow> Inr 1 | Some t \<Rightarrow> parseStatus ''shift'' (Some t) 1)) (\<lambda>s n.
      if length (parameters (sh_vars s)) < n then (s, Inr 1)
      else then_do (thrown (on_vars (setPositional (drop n (parameters (sh_vars s)))) s)) succeed)"

definition builtin_export :: "platform \<Rightarrow> handler" where
  "builtin_export pf argv io s =
    then_do (no_throw s (parseOptions ''export'' argv (flag_spec ''p''))) (\<lambda>s parsed.
      if po_operands parsed = [] \<or> ''p'' \<in> set (po_flags parsed)
      then then_do (for_each (\<lambda>(name, v) s. write_text pf (io_stdout io) (''export '' @ name @ ''='' @ quoteForDisplay v @ [newline]) s)
        (environmentEntries (sh_vars s)) s) succeed
      else then_do (for_each (\<lambda>operand s.
        then_do (no_throw s (assertName ''export'' (fst (split_operand operand)))) (\<lambda>s _.
          case split_operand operand of
            (name, None) \<Rightarrow> (s\<lparr>sh_vars := setExported name True (sh_vars s)\<rparr>, Inr ())
          | (name, Some v) \<Rightarrow> thrown (on_vars (assign name v (Some True)) s))) (po_operands parsed) s) succeed)"

definition builtin_unset :: handler where
  "builtin_unset argv io s =
    then_do (no_throw s (parseOptions ''unset'' argv (flag_spec ''fv''))) (\<lambda>s parsed.
      then_do (for_each (\<lambda>name s.
        then_do (no_throw s (assertName ''unset'' name)) (\<lambda>s _.
          if ''f'' \<in> set (po_flags parsed) then (s\<lparr>sh_functions := AList.delete name (sh_functions s)\<rparr>, Inr ())
          else (s\<lparr>sh_vars := unset name (sh_vars s)\<rparr>, Inr ()))) (po_operands parsed) s) succeed)"

text \<open>The special built-ins that run no other command.\<close>

definition special_builtin :: "platform \<Rightarrow> handler" where
  "special_builtin pf argv io s =
    (let name = hd argv in
     if name = ''exit'' then raise_signal s (bind_result (parseStatus ''exit'' (argument argv 1) (sh_status s)) (\<lambda>n. Inr (ExitSignal n)))
     else if name = ''return'' then raise_signal s (bind_result (parseStatus ''return'' (argument argv 1) (sh_status s)) (\<lambda>n. Inr (ReturnSignal n)))
     else if name = ''break'' then raise_signal s (bind_result (loopCount ''break'' (argument argv 1)) (\<lambda>n. Inr (LoopBreak n)))
     else if name = ''continue'' then raise_signal s (bind_result (loopCount ''continue'' (argument argv 1)) (\<lambda>n. Inr (LoopContinue n)))
     else if name = ''shift'' then builtin_shift argv io s
     else if name = ''export'' then builtin_export pf argv io s
     else if name = ''unset'' then builtin_unset argv io s
     else if name = ''set'' then applySet pf argv io s
     else if name = ''trap'' then applyTrap pf argv io s
     else (s, Inr 0))"

section \<open>The regular built-ins\<close>

definition BUILTINS :: "string list" where
  "BUILTINS = [''true'', ''false'', ''cd'', ''pwd'', ''echo'', ''printf'', ''test'', ''['', ''read'', ''local'', ''type'', ''command'', ''alias'', ''unalias'']"

definition builtin_cd :: "platform \<Rightarrow> handler" where
  "builtin_cd pf argv io s =
    then_do (no_throw s (parseOptions ''cd'' argv (flag_spec ''LP''))) (\<lambda>s parsed.
      then_do
        (case po_operands parsed of
           [] \<Rightarrow> (case lookup (sh_vars s) ''HOME'' of None \<Rightarrow> fail s (ShellCommandError ''HOME not set'' 1) | Some home \<Rightarrow> (s, Inr home))
         | requested # _ \<Rightarrow>
             if requested = ''-''
             then (case lookup (sh_vars s) ''OLDPWD'' of
                     None \<Rightarrow> fail s (ShellCommandError ''OLDPWD not set'' 1)
                   | Some previous \<Rightarrow> then_do (write_text pf (io_stdout io) (previous @ [newline]) s) (\<lambda>s _. (s, Inr previous)))
             else (s, Inr requested))
        (\<lambda>s target.
          let previous = fs_current (sh_fs s) in
          then_do (no_throw s (fs_resolve (sh_fs s) target)) (\<lambda>s path.
            then_do (thrown (shell_changeDirectory path s)) (\<lambda>s _.
              then_do (thrown (on_vars (assign ''OLDPWD'' previous (Some True)) s)) succeed))))"

fun echo_options :: "bool \<Rightarrow> bool \<Rightarrow> string list \<Rightarrow> bool \<times> bool \<times> string list" where
  "echo_options final escapes (a # rest) =
    (if a = ''-n'' then echo_options False escapes rest
     else if a = ''-e'' then echo_options final True rest
     else if a = ''-E'' then echo_options final False rest
     else (final, escapes, a # rest))"
| "echo_options final escapes [] = (final, escapes, [])"

definition echo_text :: "string list \<Rightarrow> string" where
  "echo_text args =
    (let (final, escapes, words) = echo_options True False args; body = join '' '' words;
         (rendered, stopped) = (if escapes then expandEscapes body else (body, False))
     in rendered @ (if final \<and> \<not> stopped then [newline] else []))"

definition builtin_read :: "platform \<Rightarrow> handler" where
  "builtin_read pf argv io s =
    then_do (no_throw s (parseOptions ''read'' argv (flag_spec ''r''))) (\<lambda>s parsed.
      let names = (if po_operands parsed = [] then [''REPLY''] else po_operands parsed) in
      then_do (for_each (\<lambda>name s. no_throw s (assertName ''read'' name)) names s) (\<lambda>s _.
        let (line, reader) = readLine (sw_readers (sh_world s) ! io_stdin io);
            s = s\<lparr>sh_world := (sh_world s)\<lparr>sw_readers := (sw_readers (sh_world s))[io_stdin io := reader]\<rparr>\<rparr>
        in case line of
             None \<Rightarrow> (s, Inr 1)
           | Some bytes \<Rightarrow>
               let t = (if ''r'' \<in> set (po_flags parsed) then pf_decode pf bytes else unescape_line (pf_decode pf bytes));
                   vs = splitReadFields t (case lookup (sh_vars s) ''IFS'' of Some ifs \<Rightarrow> ifs | None \<Rightarrow> [CHR '' '', CHR 0x09, newline]) (length names)
               in then_do (for_each (\<lambda>(i, name) s. thrown (on_vars (assign name (case argument vs i of Some v \<Rightarrow> v | None \<Rightarrow> []) None) s))
                    (zip [0..<length names] names) s) succeed))"

definition builtin_local :: handler where
  "builtin_local argv io s =
    then_do (for_each (\<lambda>operand s.
      let (name, v) = split_operand operand in
      then_do (no_throw s (assertName ''local'' name)) (\<lambda>s _.
        then_do (thrown (on_vars (declareLocal name) s)) (\<lambda>s _.
          thrown (on_vars (assign name (case v of Some t \<Rightarrow> t | None \<Rightarrow> []) None) s)))) (tl argv) s) succeed"

datatype command_kind = SpecialBuiltinKind | BuiltinKind | FunctionKind | UtilityKind | UnknownKind

definition resolveKind :: "(string \<Rightarrow> bool) \<Rightarrow> shell \<Rightarrow> string \<Rightarrow> command_kind" where
  "resolveKind is_utility s name =
    (if name \<in> set SPECIAL_BUILTINS then SpecialBuiltinKind
     else if map_of (sh_functions s) name \<noteq> None then FunctionKind
     else if name \<in> set BUILTINS then BuiltinKind
     else if is_utility name then UtilityKind
     else UnknownKind)"

fun kind_text :: "command_kind \<Rightarrow> string" where
  "kind_text SpecialBuiltinKind = ''special builtin''"
| "kind_text BuiltinKind = ''builtin''"
| "kind_text FunctionKind = ''function''"
| "kind_text UtilityKind = ''utility''"
| "kind_text UnknownKind = ''unknown''"

definition builtin_type :: "platform \<Rightarrow> (string \<Rightarrow> bool) \<Rightarrow> handler" where
  "builtin_type pf is_utility argv io s =
    for_status (\<lambda>name s.
      case map_of (sh_aliases s) name of
        Some v \<Rightarrow> then_do (write_text pf (io_stdout io) (name @ '' is an alias for '' @ v @ [newline]) s) (\<lambda>s _. (s, Inr True))
      | None \<Rightarrow>
          if resolveKind is_utility s name = UnknownKind
          then then_do (write_text pf (io_stderr io) (''type: '' @ name @ '': not found'' @ [newline]) s) (\<lambda>s _. (s, Inr False))
          else then_do (write_text pf (io_stdout io) (name @ '' is a shell '' @ kind_text (resolveKind is_utility s name) @ [newline]) s)
            (\<lambda>s _. (s, Inr True))) (tl argv) 0 s"

definition builtin_alias :: "platform \<Rightarrow> handler" where
  "builtin_alias pf argv io s =
    (if length argv = 1
     then then_do (for_each (\<lambda>(name, v) s. write_text pf (io_stdout io) (''alias '' @ name @ ''='' @ quoteForDisplay v @ [newline]) s)
       (sort_by (\<lambda>a b. code_unit_cmp (fst a @ '','' @ snd a) (fst b @ '','' @ snd b)) (sh_aliases s)) s) succeed
     else for_status (\<lambda>operand s.
       case split_operand operand of
         (name, None) \<Rightarrow>
           (case map_of (sh_aliases s) name of
              None \<Rightarrow> then_do (write_text pf (io_stderr io) (''alias: '' @ name @ '': not found'' @ [newline]) s) (\<lambda>s _. (s, Inr False))
            | Some v \<Rightarrow> then_do (write_text pf (io_stdout io) (''alias '' @ name @ ''='' @ quoteForDisplay v @ [newline]) s) (\<lambda>s _. (s, Inr True)))
       | (name, Some v) \<Rightarrow>
           then_do (no_throw s (assertName ''alias'' name)) (\<lambda>s _.
             if map_of (sh_aliases s) name = None \<and> AIRSHIP_SH_MAX_ALIASES \<le> length (sh_aliases s)
             then fail s (ShellCommandError (''airship-sh exceeded '' @ dec_nat AIRSHIP_SH_MAX_ALIASES @ '' aliases'') 1)
             else (s\<lparr>sh_aliases := AList.update name v (sh_aliases s)\<rparr>, Inr True))) (tl argv) 0 s)"

definition builtin_unalias :: "platform \<Rightarrow> handler" where
  "builtin_unalias pf argv io s =
    then_do (no_throw s (parseOptions ''unalias'' argv (flag_spec ''a''))) (\<lambda>s parsed.
      if ''a'' \<in> set (po_flags parsed) then (s\<lparr>sh_aliases := []\<rparr>, Inr 0)
      else for_status (\<lambda>name s.
        if map_of (sh_aliases s) name = None
        then then_do (write_text pf (io_stderr io) (''unalias: '' @ name @ '': not found'' @ [newline]) s) (\<lambda>s _. (s, Inr False))
        else (s\<lparr>sh_aliases := AList.delete name (sh_aliases s)\<rparr>, Inr True)) (po_operands parsed) 0 s)"

text \<open>The regular built-ins but \<open>command\<close>.\<close>

definition regular_builtin :: "platform \<Rightarrow> (string \<Rightarrow> bool) \<Rightarrow> handler" where
  "regular_builtin pf is_utility argv io s =
    (let name = hd argv in
     if name = ''false'' then (s, Inr 1)
     else if name = ''cd'' then builtin_cd pf argv io s
     else if name = ''pwd''
     then then_do (no_throw s (parseOptions ''pwd'' argv (flag_spec ''LP''))) (\<lambda>s _.
       then_do (write_text pf (io_stdout io) (fs_current (sh_fs s) @ [newline]) s) succeed)
     else if name = ''echo'' then then_do (write_text pf (io_stdout io) (echo_text (tl argv)) s) succeed
     else if name = ''printf''
     then (case argument argv 1 of
             None \<Rightarrow> fail s (usageError ''printf'' ''usage: printf format [argument ...]'')
           | Some format \<Rightarrow> then_do (no_throw s (formatPrintf format (drop 2 argv))) (\<lambda>s t.
               then_do (write_text pf (io_stdout io) t s) succeed))
     else if name = ''test'' then no_throw s (evaluateTest (tl argv) (sh_fs s))
     else if name = ''[''
     then (if tl argv = [] \<or> last (tl argv) \<noteq> '']'' then fail s (usageError ''['' ''missing `]`'')
           else no_throw s (evaluateTest (butlast (tl argv)) (sh_fs s)))
     else if name = ''read'' then builtin_read pf argv io s
     else if name = ''local'' then builtin_local argv io s
     else if name = ''type'' then builtin_type pf is_utility argv io s
     else if name = ''alias'' then builtin_alias pf argv io s
     else if name = ''unalias'' then builtin_unalias pf argv io s
     else (s, Inr 0))"

end
