(* ===== verification/Shell_Interpreter.thy ===== *)
theory Shell_Interpreter
  imports Shell_Builtins
begin

text \<open>
  The interpreter proper (\<open>execution/shell/interpreter.ts\<close>): lists, pipelines, compound commands, expansion,
  redirection, dispatch, functions, subshells and command substitution, with the built-ins and utilities that run other
  commands (\<open>eval\<close>, \<open>exec\<close>, \<open>.\<close>, \<open>command\<close> of \<open>builtins.ts\<close>, \<open>env\<close> and \<open>xargs\<close> of \<open>utilities-text.ts\<close>), and the
  entry point \<open>runShellScript\<close> (\<open>run.ts\<close>).

  The code recurses without a bound of its own: a function may call itself and a loop may go on. Every such round begins
  with a tick of the budget, so the rounds are made explicit as tasks: a command, one more iteration of a \<open>while\<close> loop, or
  an invocation by \<open>xargs\<close>. All operations below take the function that performs a task as an argument, and \<open>perform\<close>
  ties the knot with a fuel that bounds how deep tasks nest.
\<close>

section \<open>Tasks\<close>

datatype task =
    RunCommand command nat
  | LoopAgain bool command_list command_list nat nat
  | InvokeNext "string list" command_io

type_synonym performer = "task \<Rightarrow> shell \<Rightarrow> (shell, nat) run"

type_synonym utility_table = "string \<Rightarrow> handler option"

definition AIRSHIP_SH_MAX_FUNCTIONS :: nat where
  "AIRSHIP_SH_MAX_FUNCTIONS = 128"

definition commandNotFound :: nat where
  "commandNotFound = 127"

definition usage_status :: nat where
  "usage_status = 2"

section \<open>Pipelines and lists\<close>

definition pipe_content :: "nat \<Rightarrow> shell \<Rightarrow> bytes" where
  "pipe_content k s = (case sink_at (sh_world s) k of PipeSink b \<Rightarrow> pipe_bytes b | _ \<Rightarrow> [])"

definition new_pipe :: "shell \<Rightarrow> shell \<times> nat" where
  "new_pipe s = in_world (new_sink (PipeSink (PipeBuffer AIRSHIP_SH_MAX_PIPE_BYTES))) s"

fun pipeline_stages :: "performer \<Rightarrow> nat \<Rightarrow> nat \<Rightarrow> command list \<Rightarrow> shell \<Rightarrow> (shell, nat list) run" where
  "pipeline_stages ex fds input [] s = (s, Inr [])"
| "pipeline_stages ex fds input (c # cs) s =
    (let (s, buffer) = (if cs = [] then (s, None) else let (s, k) = new_pipe s in (s, Some k));
         stage = AList.update 0 (ReadFd input) (table_at fds s);
         stage = (case buffer of None \<Rightarrow> stage | Some k \<Rightarrow> AList.update 1 (WriteFd k) stage);
         (s, stage) = in_world (new_table stage) s
     in then_do (withCondition True (ex (RunCommand c stage)) s) (\<lambda>s status.
       let (s, input) = in_world (new_reader (case buffer of None \<Rightarrow> [] | Some k \<Rightarrow> pipe_content k s)) s in
       then_do (pipeline_stages ex fds input cs s) (\<lambda>s statuses. (s, Inr (status # statuses)))))"

definition pipeline_status :: "bool \<Rightarrow> bool \<Rightarrow> nat list \<Rightarrow> nat" where
  "pipeline_status pipefail negated statuses =
    (let status = (case find (\<lambda>v. v \<noteq> 0) (rev statuses) of
           Some failure \<Rightarrow> if pipefail then failure else last statuses
         | None \<Rightarrow> last statuses)
     in if negated then (if status = 0 then 1 else 0) else status)"

fun executePipeline :: "platform \<Rightarrow> performer \<Rightarrow> pipeline \<Rightarrow> nat \<Rightarrow> shell \<Rightarrow> (shell, nat) run" where
  "executePipeline pf ex (Pipeline negated commands) fds s =
    then_do (shell_tick pf s) (\<lambda>s _.
      if length commands = 1 \<and> \<not> negated then ex (RunCommand (hd commands) fds) s
      else
        let (s, input) = readerFor fds 0 s in
        then_do (pipeline_stages ex fds input commands s) (\<lambda>s statuses.
          (s, Inr (pipeline_status (so_pipefail (sh_options s)) negated statuses))))"

fun and_or_rest :: "platform \<Rightarrow> performer \<Rightarrow> nat \<Rightarrow> (string \<times> pipeline) list \<Rightarrow> nat \<Rightarrow> shell \<Rightarrow> (shell, nat) run" where
  "and_or_rest pf ex fds [] status s = (s, Inr status)"
| "and_or_rest pf ex fds ((operator, p) # rest) status s =
    (if operator = ''&&'' \<and> status \<noteq> 0 then and_or_rest pf ex fds rest status s
     else if operator = ''||'' \<and> status = 0 then and_or_rest pf ex fds rest status s
     else then_do (withCondition (rest \<noteq> []) (executePipeline pf ex p fds) s) (\<lambda>s status.
       and_or_rest pf ex fds rest status (s\<lparr>sh_status := status\<rparr>)))"

fun executeAndOr :: "platform \<Rightarrow> performer \<Rightarrow> and_or_list \<Rightarrow> nat \<Rightarrow> shell \<Rightarrow> (shell, nat) run" where
  "executeAndOr pf ex (AndOrList first rest) fds s =
    then_do (withCondition (rest \<noteq> []) (executePipeline pf ex first fds) s) (\<lambda>s status.
      and_or_rest pf ex fds rest status (s\<lparr>sh_status := status\<rparr>))"

fun execute_items :: "platform \<Rightarrow> performer \<Rightarrow> nat \<Rightarrow> and_or_list list \<Rightarrow> nat \<Rightarrow> shell \<Rightarrow> (shell, nat) run" where
  "execute_items pf ex fds [] status s = (s, Inr status)"
| "execute_items pf ex fds (item # items) status s =
    then_do (executeAndOr pf ex item fds s) (\<lambda>s status.
      let s = s\<lparr>sh_status := status\<rparr> in
      if so_errexit (sh_options s) \<and> status \<noteq> 0 \<and> sh_conditionDepth s = 0 then (s, Inl (ExitSignal status))
      else execute_items pf ex fds items status s)"

fun executeList :: "platform \<Rightarrow> performer \<Rightarrow> command_list \<Rightarrow> nat \<Rightarrow> shell \<Rightarrow> (shell, nat) run" where
  "executeList pf ex (CommandList items) fds s = execute_items pf ex fds items (sh_status s) s"

section \<open>Subshells and command substitution\<close>

definition nesting_error :: shell_error where
  "nesting_error = ShellFatalError Budget (''airship-sh: exceeded '' @ dec_nat AIRSHIP_SH_MAX_DEPTH @ '' levels of shell nesting.'')"

text \<open>The child has its own objects for the variables, and everything else by value but the world.\<close>

definition fork_vars :: "shell_vars \<Rightarrow> shell_vars" where
  "fork_vars v =
    \<lparr>heap = map (\<lambda>(_, a). heap v ! a) (variables v), variables = zip (map fst (variables v)) [0..<length (variables v)],
     parameters = parameters v, depth = depth v + 1, localFrames = []\<rparr>"

definition fork :: "shell \<Rightarrow> shell" where
  "fork s = s\<lparr>sh_vars := fork_vars (sh_vars s), sh_conditionDepth := 0, sh_lastSubstitutionStatus := 0,
    sh_persistNextRedirections := False, sh_persistentSinks := []\<rparr>"

definition runSubshell :: "(shell \<Rightarrow> (shell, nat) run) \<Rightarrow> shell \<Rightarrow> (shell, nat) run" where
  "runSubshell body s =
    (if AIRSHIP_SH_MAX_DEPTH \<le> depth (sh_vars s) then fail s nesting_error
     else
       let savedCwd = fs_current (sh_fs s); (child, r) = body (fork s) in
       finally_do (s\<lparr>sh_world := sh_world child\<rparr>, case r of Inl (ExitSignal status) \<Rightarrow> Inr status | _ \<Rightarrow> r)
         (\<lambda>s. thrown (in_world (on_file_system (\<lambda>fs. changeDirectory fs savedCwd)) s)))"

definition drop_final_newlines :: "string \<Rightarrow> string" where
  "drop_final_newlines t = rev (dropWhile (\<lambda>c. c = newline) (rev t))"

definition substitute :: "platform \<Rightarrow> performer \<Rightarrow> shell \<Rightarrow> string \<Rightarrow> (shell, string) run" where
  "substitute pf ex s script =
    (let (s, buffer) = new_pipe s;
         io = \<lparr>io_stdin = io_stdin (sh_activeIo s), io_stdout = buffer, io_stderr = io_stderr (sh_activeIo s)\<rparr>
     in then_do (runSubshell (\<lambda>child.
          then_do (no_throw (child\<lparr>sh_activeIo := io\<rparr>) (parseShellScript script)) (\<lambda>child program.
            let (child, fds) = descriptorsFor io child in executeList pf ex program fds child)) s) (\<lambda>s status.
       (s\<lparr>sh_lastSubstitutionStatus := status\<rparr>, Inr (drop_final_newlines (pf_decode pf (pipe_content buffer s))))))"

definition expansionHost :: "platform \<Rightarrow> performer \<Rightarrow> shell expansion_host" where
  "expansionHost pf ex =
    \<lparr>eh_fs = (\<lambda>s. sh_fs s), eh_noglob = (\<lambda>s. so_noglob (sh_options s)), eh_nounset = (\<lambda>s. so_nounset (sh_options s)),
     eh_lookup = (\<lambda>s. lookup (sh_vars s)), eh_assign = (\<lambda>s name v. on_vars (assign name v None) s),
     eh_positional = (\<lambda>s. parameters (sh_vars s)), eh_special = specialParameter,
     eh_home = (\<lambda>s. case lookup (sh_vars s) ''HOME'' of Some home \<Rightarrow> home | None \<Rightarrow> fs_root (sh_fs s)),
     eh_substitute = substitute pf ex, eh_charge = shell_charge pf\<rparr>"

section \<open>Redirections\<close>

text \<open>\<open>Number.parseInt(text, 10)\<close> as a key of the table of descriptors: \<open>-0\<close> is the key 0, and no other negative number is one.\<close>

definition descriptor_number :: "string \<Rightarrow> nat option" where
  "descriptor_number t =
    (let u = dropWhile is_ws t; negative = prefix ''-'' u;
         digits = takeWhile is_digit (if negative \<or> prefix ''+'' u then tl u else u);
         n = parse_decimal 0 digits
     in if digits = [] \<or> negative \<and> n \<noteq> 0 then None else Some n)"

definition set_fd :: "nat \<Rightarrow> nat \<Rightarrow> descriptor \<Rightarrow> shell \<Rightarrow> shell" where
  "set_fd fds fd d s = s\<lparr>sh_world := set_table fds (AList.update fd d (table_at fds s)) (sh_world s)\<rparr>"

definition set_null :: "nat \<Rightarrow> nat \<Rightarrow> shell \<Rightarrow> (shell, nat list) run" where
  "set_null fds fd s = (let (s, k) = in_world (new_sink NullSink) s in (set_fd fds fd (WriteFd k) s, Inr []))"

definition set_reader :: "nat \<Rightarrow> nat \<Rightarrow> bytes \<Rightarrow> shell \<Rightarrow> (shell, nat list) run" where
  "set_reader fds fd bytes s = (let (s, r) = in_world (new_reader bytes) s in (set_fd fds fd (ReadFd r) s, Inr []))"

text \<open>One redirection, with the file sinks it opens.\<close>

definition apply_redirection :: "platform \<Rightarrow> performer \<Rightarrow> nat \<Rightarrow> redirection \<Rightarrow> shell \<Rightarrow> (shell, nat list) run" where
  "apply_redirection pf ex fds r s =
    then_do (thrown (shell_charge pf s)) (\<lambda>s _.
      if rd_operator r = ''<<''
      then then_do (case rd_here r of None \<Rightarrow> (s, Inr []) | Some w \<Rightarrow> expandToString (expansionHost pf ex) w s) (\<lambda>s body.
        set_reader fds (rd_fd r) (pf_encode pf body) s)
      else
        then_do (expandToFields (expansionHost pf ex) (case rd_target r of None \<Rightarrow> [] | Some w \<Rightarrow> w) s) (\<lambda>s fields.
          if length fields \<noteq> 1 then fail s (ShellCommandError ''ambiguous redirect'' 1)
          else
            let target = hd fields in
            if rd_operator r = ''>&'' \<or> rd_operator r = ''<&''
            then (if target = ''-'' then set_null fds (rd_fd r) s
                  else case (case descriptor_number target of None \<Rightarrow> None | Some n \<Rightarrow> map_of (table_at fds s) n) of
                    None \<Rightarrow> fail s (ShellCommandError (target @ '': bad file descriptor'') 1)
                  | Some d \<Rightarrow> (set_fd fds (rd_fd r) d s, Inr []))
            else if rd_operator r = ''<''
            then then_do (openReader target s) (\<lambda>s i. (set_fd fds (rd_fd r) (ReadFd i) s, Inr []))
            else if target = ''/dev/null'' then set_null fds (rd_fd r) s
            else if rd_operator r = ''<>''
            then then_do (no_throw s (fs_resolve (sh_fs s) target)) (\<lambda>s path.
              then_do (if isFile (sh_fs s) path then (s, Inr ()) else thrown (in_world (write_file pf path [] False) s)) (\<lambda>s _.
                then_do (no_throw s (readFile (sh_fs s) path)) (\<lambda>s bytes. set_reader fds (rd_fd r) bytes s)))
            else
              then_do (no_throw s (fs_resolve (sh_fs s) target)) (\<lambda>s path.
                then_do (thrown (in_world (open_file_sink pf path (rd_operator r = ''>>'')) s)) (\<lambda>s k.
                  (set_fd fds (rd_fd r) (WriteFd k) s, Inr [k])))))"

fun redirection_loop :: "platform \<Rightarrow> performer \<Rightarrow> nat \<Rightarrow> redirection list \<Rightarrow> shell \<Rightarrow> (shell, nat list) run" where
  "redirection_loop pf ex fds [] s = (s, Inr [])"
| "redirection_loop pf ex fds (r # rs) s =
    then_do (apply_redirection pf ex fds r s) (\<lambda>s opened.
      then_do (redirection_loop pf ex fds rs s) (\<lambda>s later. (s, Inr (opened @ later))))"

text \<open>The table the redirections lead to and the file sinks to close.\<close>

definition applyRedirections :: "platform \<Rightarrow> performer \<Rightarrow> redirection list \<Rightarrow> nat \<Rightarrow> shell \<Rightarrow> (shell, nat \<times> nat list) run" where
  "applyRedirections pf ex rs fds s =
    (if rs = [] then (s, Inr (fds, []))
     else
       let (s, applied) = in_world (new_table (table_at fds s)) s in
       then_do (redirection_loop pf ex applied rs s) (\<lambda>s sinks. (s, Inr (applied, sinks))))"


section \<open>Aliases\<close>

fun alias_tokens :: "platform \<Rightarrow> performer \<Rightarrow> string \<Rightarrow> token list \<Rightarrow> shell \<Rightarrow> (shell, string list) run" where
  "alias_tokens pf ex alias (WordToken w t literalOnly l c # ts) s =
    then_do (expandToFields (expansionHost pf ex) w s) (\<lambda>s fields.
      then_do (alias_tokens pf ex alias ts s) (\<lambda>s more. (s, Inr (fields @ more))))"
| "alias_tokens pf ex alias (Newline l c # ts) s = (s, Inr [])"
| "alias_tokens pf ex alias (Eof l c # ts) s = (s, Inr [])"
| "alias_tokens pf ex alias (t # ts) s =
    fail s (ShellCommandError (''alias contains shell syntax airship-sh cannot substitute: '' @ alias) 2)"
| "alias_tokens pf ex alias [] s = (s, Inr [])"

definition aliasWords :: "platform \<Rightarrow> performer \<Rightarrow> string \<Rightarrow> shell \<Rightarrow> (shell, string list) run" where
  "aliasWords pf ex alias s =
    then_do (no_throw s (tokenize alias)) (\<lambda>s ts. alias_tokens pf ex alias (fst ts) s)"

text \<open>The set \<open>seen\<close> is given by its complement in the names the loop starts with.\<close>

function alias_loop :: "platform \<Rightarrow> performer \<Rightarrow> string list \<Rightarrow> string list \<Rightarrow> shell \<Rightarrow> (shell, string list) run" where
  "alias_loop pf ex unseen argv s =
    (case argv of
       [] \<Rightarrow> (s, Inr argv)
     | name # args \<Rightarrow>
         (case map_of (sh_aliases s) name of
            None \<Rightarrow> (s, Inr argv)
          | Some alias \<Rightarrow>
              if name \<notin> set unseen then (s, Inr argv)
              else then_do (thrown (shell_charge pf s)) (\<lambda>s _.
                then_do (aliasWords pf ex alias s) (\<lambda>s ws. alias_loop pf ex (removeAll name unseen) (ws @ args) s))))"
  by pat_completeness auto
termination
  by (relation "measure (\<lambda>(_, _, unseen, _, _). length unseen)") (auto simp: length_removeAll_less)

declare alias_loop.simps [simp del]

definition expandAliases :: "platform \<Rightarrow> performer \<Rightarrow> string list \<Rightarrow> shell \<Rightarrow> (shell, string list) run" where
  "expandAliases pf ex argv s = alias_loop pf ex (map fst (sh_aliases s)) argv s"

section \<open>Dispatch\<close>

definition guard :: "platform \<Rightarrow> string \<Rightarrow> command_io \<Rightarrow> (shell, nat) run \<Rightarrow> (shell, nat) run" where
  "guard pf name io m =
    (case m of
       (s, Inl (Thrown (ShellCommandError message status))) \<Rightarrow>
         then_do (write_text pf (io_stderr io) (name @ '': '' @ message @ [newline]) s) (\<lambda>s _. (s, Inr status))
     | _ \<Rightarrow> m)"

definition runSource :: "platform \<Rightarrow> performer \<Rightarrow> string \<Rightarrow> command_io \<Rightarrow> shell \<Rightarrow> (shell, nat) run" where
  "runSource pf ex source io s =
    then_do (no_throw s (parseShellScript source)) (\<lambda>s program.
      finally_do
        (let (s', fds) = descriptorsFor io (s\<lparr>sh_activeIo := io\<rparr>) in executeList pf ex program fds s')
        (\<lambda>s'. (s'\<lparr>sh_activeIo := sh_activeIo s\<rparr>, Inr ())))"

definition builtin_eval :: "platform \<Rightarrow> performer \<Rightarrow> handler" where
  "builtin_eval pf ex argv io s =
    (let source = join '' '' (tl argv) in if trim source = [] then (s, Inr 0) else runSource pf ex source io s)"

definition sourceFile :: "platform \<Rightarrow> performer \<Rightarrow> handler" where
  "sourceFile pf ex argv io s =
    (case argument argv 1 of
       None \<Rightarrow> fail s (usageError (hd argv) ''filename argument required'')
     | Some path \<Rightarrow>
         then_do (no_throw s (bind_result (fs_resolve (sh_fs s) path) (readFile (sh_fs s)))) (\<lambda>s bytes.
           let extra = drop 2 argv; saved = parameters (sh_vars s) in
           then_do (if extra \<noteq> [] then thrown (on_vars (setPositional extra) s) else (s, Inr ())) (\<lambda>s _.
             finally_do (runSource pf ex (pf_decode pf bytes) io s)
               (\<lambda>s. if extra \<noteq> [] then thrown (on_vars (setPositional saved) s) else (s, Inr ())))))"

definition call_function :: "performer \<Rightarrow> command \<Rightarrow> handler" where
  "call_function ex body argv io s =
    (if AIRSHIP_SH_MAX_DEPTH \<le> depth (sh_vars s) then fail s nesting_error
     else
       let entered = s\<lparr>sh_vars := (sh_vars s)\<lparr>parameters := tl argv, depth := depth (sh_vars s) + 1,
             localFrames := localFrames (sh_vars s) @ [[]]\<rparr>\<rparr>;
           (entered, fds) = descriptorsFor io entered;
           (left, r) = ex (RunCommand body fds) entered
       in (left\<lparr>sh_vars := leave_function (parameters (sh_vars s)) (sh_vars left)\<rparr>,
           case r of Inl (ReturnSignal status) \<Rightarrow> Inr status | _ \<Rightarrow> r))"

text \<open>What \<open>env\<close> does to the variables before it runs its command, and the list of what to undo, last first.\<close>

datatype env_undo = ExportAgain string | UnsetAgain string | AssignAgain string string bool

definition env_withdraw :: "shell \<Rightarrow> shell \<times> env_undo list" where
  "env_withdraw s =
    (let names = map fst (environmentEntries (sh_vars s))
     in (s\<lparr>sh_vars := fold (\<lambda>name. setExported name False) names (sh_vars s)\<rparr>, rev (map ExportAgain names)))"

fun env_assign :: "(string \<times> string) list \<Rightarrow> env_undo list \<Rightarrow> shell \<Rightarrow> (shell, env_undo list) run" where
  "env_assign [] undo s = (s, Inr undo)"
| "env_assign ((name, v) # rest) undo s =
    (let u = (case lookup (sh_vars s) name of
           None \<Rightarrow> UnsetAgain name
         | Some previous \<Rightarrow> AssignAgain name previous (isExported name (sh_vars s)))
     in then_do (thrown (on_vars (assign name v (Some True)) s)) (\<lambda>s _. env_assign rest (u # undo) s))"

fun undo_env :: "env_undo \<Rightarrow> shell \<Rightarrow> (shell, unit) run" where
  "undo_env (ExportAgain name) s = (s\<lparr>sh_vars := setExported name True (sh_vars s)\<rparr>, Inr ())"
| "undo_env (UnsetAgain name) s = (s\<lparr>sh_vars := unset name (sh_vars s)\<rparr>, Inr ())"
| "undo_env (AssignAgain name v exported) s = thrown (on_vars (assign name v (Some exported)) s)"

definition is_env_assignment :: "string \<Rightarrow> bool" where
  "is_env_assignment t \<longleftrightarrow> CHR ''='' \<in> set t \<and> isName (before_equals t)"

text \<open>The items of \<open>xargs\<close>, and a word with its placeholder replaced.\<close>

fun split_ws :: "string \<Rightarrow> string \<Rightarrow> string list" where
  "split_ws current [] = [current]"
| "split_ws current (c # cs) = (if is_ws c then current # split_ws [] cs else split_ws (current @ [c]) cs)"

definition xargs_items :: "bool \<Rightarrow> string \<Rightarrow> string list" where
  "xargs_items zero raw = filter (\<lambda>t. t \<noteq> []) (if zero then split_on (CHR 0x00) raw else split_ws [] raw)"

function replace_text :: "string \<Rightarrow> string \<Rightarrow> string \<Rightarrow> string" where
  "replace_text sep item t =
    (if sep = [] then join item (map (\<lambda>c. [c]) t)
     else case t of
       [] \<Rightarrow> []
     | c # cs \<Rightarrow> if prefix sep t then item @ replace_text sep item (drop (length sep) t) else c # replace_text sep item cs)"
  by pat_completeness auto
termination
  by (relation "measure (\<lambda>(_, _, t). length t)") auto

definition requirePositiveInteger :: "string \<Rightarrow> string \<Rightarrow> string \<Rightarrow> shell_error + nat" where
  "requirePositiveInteger command raw label =
    (if raw \<noteq> [] \<and> list_all is_digit raw then Inr (parse_decimal 0 raw)
     else Inl (ShellCommandError (command @ '': invalid '' @ label @ '': '' @ raw) 2))"

text \<open>The two loops of \<open>xargs\<close>: each round is a tick and an invocation, and a status other than 0 ends the loop.\<close>

fun invoke_each :: "performer \<Rightarrow> command_io \<Rightarrow> string list list \<Rightarrow> nat \<Rightarrow> shell \<Rightarrow> (shell, nat) run" where
  "invoke_each ex io [] status s = (s, Inr status)"
| "invoke_each ex io (argv # argvs) status s =
    then_do (ex (InvokeNext argv io) s) (\<lambda>s status. if status \<noteq> 0 then (s, Inr status) else invoke_each ex io argvs status s)"

function batches :: "nat \<Rightarrow> string list \<Rightarrow> string list list" where
  "batches n items = (if length items \<le> max n 1 then [items] else take (max n 1) items # batches n (drop (max n 1) items))"
  by pat_completeness auto
termination
  by (relation "measure (\<lambda>(_, items). length items)") auto

declare batches.simps [simp del] replace_text.simps [simp del]


definition builtin_xargs :: "platform \<Rightarrow> performer \<Rightarrow> handler" where
  "builtin_xargs pf ex argv io s =
    then_do (no_throw s (parseOptions ''xargs'' argv ((flag_spec ''r0'')\<lparr>os_values := ''nI''\<rparr>))) (\<lambda>s parsed.
      let command = (if po_operands parsed = [] then [''echo''] else po_operands parsed);
          (raw, reader) = readAll (sw_readers (sh_world s) ! io_stdin io);
          s = s\<lparr>sh_world := (sh_world s)\<lparr>sw_readers := (sw_readers (sh_world s))[io_stdin io := reader]\<rparr>\<rparr>;
          items = xargs_items (''0'' \<in> set (po_flags parsed)) (pf_decode pf raw)
      in
      if items = [] \<and> ''r'' \<in> set (po_flags parsed) then (s, Inr 0)
      else
        then_do (no_throw s (case map_of (po_values parsed) ''n'' of
            None \<Rightarrow> Inr (length items)
          | Some n \<Rightarrow> requirePositiveInteger ''xargs'' n ''argument count'')) (\<lambda>s batchSize.
          case map_of (po_values parsed) ''I'' of
            Some replace \<Rightarrow> invoke_each ex io (map (\<lambda>item. map (replace_text replace item) command) items) 0 s
          | None \<Rightarrow> invoke_each ex io (map (\<lambda>batch. command @ batch) (batches batchSize items)) 0 s))"

text \<open>The command table: the special built-ins, the functions, the regular built-ins and the utilities, in this order.\<close>

definition is_utility :: "utility_table \<Rightarrow> string \<Rightarrow> bool" where
  "is_utility ut name \<longleftrightarrow> name = ''env'' \<or> name = ''xargs'' \<or> ut name \<noteq> None"

text \<open>The built-ins and the utility that invoke the rest of their arguments as a command, given how a command is invoked.\<close>

definition builtin_exec :: "handler \<Rightarrow> handler" where
  "builtin_exec invoke argv io s =
    (if length argv \<le> 1 then (s\<lparr>sh_persistNextRedirections := True\<rparr>, Inr 0)
     else then_do (invoke (tl argv) io s) (\<lambda>s status. (s, Inl (ExitSignal status))))"

definition builtin_command :: "platform \<Rightarrow> utility_table \<Rightarrow> handler \<Rightarrow> handler" where
  "builtin_command pf ut invoke argv io s =
    then_do (no_throw s (parseOptions ''command'' argv ((flag_spec ''vV'')\<lparr>os_stopAtFirstOperand := True\<rparr>))) (\<lambda>s parsed.
      case po_operands parsed of
        [] \<Rightarrow> fail s (usageError ''command'' ''usage: command [-v] name [argument ...]'')
      | name # _ \<Rightarrow>
          if ''v'' \<in> set (po_flags parsed) \<or> ''V'' \<in> set (po_flags parsed)
          then (let kind = resolveKind (is_utility ut) s name in
            if kind = UnknownKind then (s, Inr 1)
            else then_do (write_text pf (io_stdout io)
              (if ''V'' \<in> set (po_flags parsed) then name @ '' is a shell '' @ kind_text kind @ [newline] else name @ [newline]) s) succeed)
          else
            let shadowed = map_of (sh_functions s) name in
            finally_do (invoke (po_operands parsed) io (s\<lparr>sh_functions := AList.delete name (sh_functions s)\<rparr>))
              (\<lambda>s. (case shadowed of None \<Rightarrow> s | Some body \<Rightarrow> s\<lparr>sh_functions := AList.update name body (sh_functions s)\<rparr>, Inr ())))"

definition envCommand :: "platform \<Rightarrow> handler \<Rightarrow> handler" where
  "envCommand pf invoke argv io s =
    then_do (no_throw s (parseOptions ''env'' argv (flag_spec ''i''))) (\<lambda>s parsed.
      let clean = ''i'' \<in> set (po_flags parsed);
          assignments = map (\<lambda>t. (before_equals t, after_equals t)) (takeWhile is_env_assignment (po_operands parsed));
          rest = dropWhile is_env_assignment (po_operands parsed)
      in
      if rest = []
      then then_do (for_each (\<lambda>(n, v) s. write_text pf (io_stdout io) (n @ ''='' @ v @ [newline]) s)
        ((if clean then [] else environmentEntries (sh_vars s)) @ assignments) s) succeed
      else
        let (s, undo) = (if clean then env_withdraw s else (s, [])) in
        then_do (env_assign assignments undo s) (\<lambda>s undo.
          finally_do (invoke rest io s) (for_each undo_env undo)))"

text \<open>They invoke only shorter commands than their own.\<close>

lemma builtin_exec_cong [fundef_cong]:
  assumes "argv = argv'" "io = io'" "s = s'" "\<And>args t. length args < length argv' \<Longrightarrow> invoke args io' t = invoke' args io' t"
  shows "builtin_exec invoke argv io s = builtin_exec invoke' argv' io' s'"
  using assms by (simp add: builtin_exec_def)

lemma builtin_command_cong [fundef_cong]:
  assumes "argv = argv'" "io = io'" "s = s'" "pf = pf'" "ut = ut'"
    and "\<And>args t. length args < length argv' \<Longrightarrow> invoke args io' t = invoke' args io' t"
  shows "builtin_command pf ut invoke argv io s = builtin_command pf' ut' invoke' argv' io' s'"
proof -
  have "Suc (length xs) < length argv'" if "parseOptions n argv' spec = Inr po" "po_operands po = x # xs" for n spec po x xs
    using parseOptions_operands [OF that(1)] that(2) by simp
  with assms show ?thesis
    by (auto simp: builtin_command_def no_throw_def Let_def intro!: then_do_cong split: list.split)
qed

lemma envCommand_cong [fundef_cong]:
  assumes "argv = argv'" "io = io'" "s = s'" "pf = pf'"
    and "\<And>args t. length args < length argv' \<Longrightarrow> invoke args io' t = invoke' args io' t"
  shows "envCommand pf invoke argv io s = envCommand pf' invoke' argv' io' s'"
proof -
  have "length (dropWhile is_env_assignment (po_operands po)) < length argv'"
    if "parseOptions n argv' spec = Inr po" "x \<in> set (po_operands po)" for n spec po x
    using parseOptions_operands [OF that(1)] length_dropWhile_le [of is_env_assignment "po_operands po"] length_pos_if_in_set [OF that(2)] by linarith
  with assms show ?thesis
    by (auto simp: envCommand_def no_throw_def Let_def intro!: then_do_cong split: prod.split)
qed

function dispatch :: "platform \<Rightarrow> utility_table \<Rightarrow> performer \<Rightarrow> handler" where
  "dispatch pf ut ex argv io s =
    (case argv of
       [] \<Rightarrow> then_do (write_text pf (io_stderr io) (''airship-sh: undefined: command not found'' @ [newline]) s) (\<lambda>s _. (s, Inr commandNotFound))
     | name # args \<Rightarrow>
         if name \<in> set SPECIAL_BUILTINS
         then guard pf name io
           (if name = ''eval'' then builtin_eval pf ex argv io s
            else if name = ''.'' \<or> name = ''source'' then sourceFile pf ex argv io s
            else if name = ''exec'' then builtin_exec (dispatch pf ut ex) argv io s
            else special_builtin pf argv io s)
         else case map_of (sh_functions s) name of
           Some body \<Rightarrow> call_function ex body argv io s
         | None \<Rightarrow>
             if name \<in> set BUILTINS
             then guard pf name io
               (if name = ''command'' then builtin_command pf ut (dispatch pf ut ex) argv io s
                else regular_builtin pf (is_utility ut) argv io s)
             else if name = ''env'' then guard pf name io (envCommand pf (dispatch pf ut ex) argv io s)
             else if name = ''xargs'' then guard pf name io (builtin_xargs pf ex argv io s)
             else case ut name of
               Some utility \<Rightarrow> guard pf name io (utility argv io s)
             | None \<Rightarrow> then_do (write_text pf (io_stderr io) (''airship-sh: '' @ name @ '': command not found'' @ [newline]) s) (\<lambda>s _. (s, Inr commandNotFound)))"
  by pat_completeness auto
termination
  by (relation "measure (\<lambda>(_, _, _, argv, _, _). length argv)") auto

declare dispatch.simps [simp del]

section \<open>Compound commands\<close>

datatype loop_outcome = BreakLoop | ContinueLoop | RethrowSignal signal

fun handleLoopSignal :: "signal \<Rightarrow> loop_outcome" where
  "handleLoopSignal (LoopBreak n) = (if 1 < n then RethrowSignal (LoopBreak (n - 1)) else BreakLoop)"
| "handleLoopSignal (LoopContinue n) = (if 1 < n then RethrowSignal (LoopContinue (n - 1)) else ContinueLoop)"
| "handleLoopSignal g = RethrowSignal g"

text \<open>The body of a loop: what follows a normal end or \<open>continue\<close> is given, with the status so far.\<close>

definition loop_body :: "(shell, nat) run \<Rightarrow> nat \<Rightarrow> (nat \<Rightarrow> shell \<Rightarrow> (shell, nat) run) \<Rightarrow> (shell, nat) run" where
  "loop_body m status onward =
    (case m of
       (s, Inr status') \<Rightarrow> onward status' s
     | (s, Inl g) \<Rightarrow>
         (case handleLoopSignal g of
            BreakLoop \<Rightarrow> (s, Inr status)
          | ContinueLoop \<Rightarrow> onward status s
          | RethrowSignal g' \<Rightarrow> (s, Inl g')))"

fun for_values :: "platform \<Rightarrow> performer \<Rightarrow> string \<Rightarrow> command_list \<Rightarrow> nat \<Rightarrow> string list \<Rightarrow> nat \<Rightarrow> shell \<Rightarrow> (shell, nat) run" where
  "for_values pf ex name body fds [] status s = (s, Inr status)"
| "for_values pf ex name body fds (v # vs) status s =
    then_do (shell_tick pf s) (\<lambda>s _.
      then_do (thrown (on_vars (assign name v None) s)) (\<lambda>s _.
        loop_body (executeList pf ex body fds s) status (for_values pf ex name body fds vs)))"

definition executeFor :: "platform \<Rightarrow> performer \<Rightarrow> string \<Rightarrow> shell_word list option \<Rightarrow> command_list \<Rightarrow> nat \<Rightarrow> shell \<Rightarrow> (shell, nat) run" where
  "executeFor pf ex name words body fds s =
    then_do (case words of None \<Rightarrow> (s, Inr (parameters (sh_vars s))) | Some ws \<Rightarrow> expand_words (expansionHost pf ex) ws s) (\<lambda>s vs.
      for_values pf ex name body fds vs 0 s)"

text \<open>One iteration of \<open>executeWhile\<close>, after its tick. The condition is outside of the \<open>try\<close> of the body.\<close>

definition loop_again :: "platform \<Rightarrow> performer \<Rightarrow> bool \<Rightarrow> command_list \<Rightarrow> command_list \<Rightarrow> nat \<Rightarrow> nat \<Rightarrow> shell \<Rightarrow> (shell, nat) run" where
  "loop_again pf ex invert condition body fds status s =
    then_do (withCondition True (executeList pf ex condition fds) s) (\<lambda>s c.
      if \<not> (if invert then c \<noteq> 0 else c = 0) then (s, Inr status)
      else loop_body (executeList pf ex body fds s) status (\<lambda>status. ex (LoopAgain invert condition body fds status)))"

definition executeWhile :: "performer \<Rightarrow> bool \<Rightarrow> command_list \<Rightarrow> command_list \<Rightarrow> nat \<Rightarrow> shell \<Rightarrow> (shell, nat) run" where
  "executeWhile ex invert condition body fds s = ex (LoopAgain invert condition body fds 0) s"

fun if_clauses :: "platform \<Rightarrow> performer \<Rightarrow> nat \<Rightarrow> (command_list \<times> command_list) list \<Rightarrow> command_list option \<Rightarrow> shell \<Rightarrow> (shell, nat) run" where
  "if_clauses pf ex fds ((condition, body) # clauses) otherwise s =
    then_do (withCondition True (executeList pf ex condition fds) s) (\<lambda>s c.
      if c = 0 then executeList pf ex body fds s else if_clauses pf ex fds clauses otherwise s)"
| "if_clauses pf ex fds [] otherwise s = (case otherwise of None \<Rightarrow> (s, Inr 0) | Some body \<Rightarrow> executeList pf ex body fds s)"

fun match_patterns :: "platform \<Rightarrow> performer \<Rightarrow> string \<Rightarrow> shell_word list \<Rightarrow> shell \<Rightarrow> (shell, bool) run" where
  "match_patterns pf ex subject [] s = (s, Inr False)"
| "match_patterns pf ex subject (p # ps) s =
    then_do (thrown (shell_charge pf s)) (\<lambda>s _.
      then_do (expandToPattern (expansionHost pf ex) p s) (\<lambda>s sgs.
        then_do (no_throw s (matched (matchPattern False (compilePattern sgs) subject))) (\<lambda>s hit.
          if hit then (s, Inr True) else match_patterns pf ex subject ps s)))"

fun case_items :: "platform \<Rightarrow> performer \<Rightarrow> nat \<Rightarrow> string \<Rightarrow> (shell_word list \<times> command_list) list \<Rightarrow> shell \<Rightarrow> (shell, nat) run" where
  "case_items pf ex fds subject [] s = (s, Inr 0)"
| "case_items pf ex fds subject ((patterns, body) # items) s =
    then_do (match_patterns pf ex subject patterns s) (\<lambda>s hit.
      if hit then (if body = CommandList [] then (s, Inr 0) else executeList pf ex body fds s)
      else case_items pf ex fds subject items s)"

definition executeCase :: "platform \<Rightarrow> performer \<Rightarrow> shell_word \<Rightarrow> (shell_word list \<times> command_list) list \<Rightarrow> nat \<Rightarrow> shell \<Rightarrow> (shell, nat) run" where
  "executeCase pf ex w items fds s =
    then_do (expandToString (expansionHost pf ex) w s) (\<lambda>s subject. case_items pf ex fds subject items s)"

section \<open>Simple commands\<close>

fun bare_assignments :: "platform \<Rightarrow> performer \<Rightarrow> assignment list \<Rightarrow> shell \<Rightarrow> (shell, unit) run" where
  "bare_assignments pf ex [] s = (s, Inr ())"
| "bare_assignments pf ex ((name, w) # rest) s =
    then_do (expandToString (expansionHost pf ex) w s) (\<lambda>s v.
      then_do (thrown (on_vars (assign name v None) s)) (\<lambda>s _. bare_assignments pf ex rest s))"

text \<open>The assignments before a command, with the bindings to put back afterwards, last first, however far they got.\<close>

fun prefix_assignments ::
  "platform \<Rightarrow> performer \<Rightarrow> assignment list \<Rightarrow> (string \<times> nat option) list \<Rightarrow> shell \<Rightarrow> (string \<times> nat option) list \<times> (shell, unit) run" where
  "prefix_assignments pf ex [] undo s = (undo, (s, Inr ()))"
| "prefix_assignments pf ex ((name, w) # rest) undo s =
    (case expandToString (expansionHost pf ex) w s of
       (s, Inl g) \<Rightarrow> (undo, (s, Inl g))
     | (s, Inr v) \<Rightarrow>
         let undo = (name, map_of (variables (sh_vars s)) name) # undo in
         (case thrown (on_vars (assign name v (Some True)) s) of
            (s, Inl g) \<Rightarrow> (undo, (s, Inl g))
          | (s, Inr _) \<Rightarrow> prefix_assignments pf ex rest undo s))"

definition restore_variables :: "(string \<times> nat option) list \<Rightarrow> shell \<Rightarrow> shell" where
  "restore_variables undo s = s\<lparr>sh_vars := (sh_vars s)\<lparr>variables := fold restore_binding undo (variables (sh_vars s))\<rparr>\<rparr>"

definition run_prefixed ::
  "platform \<Rightarrow> utility_table \<Rightarrow> performer \<Rightarrow> assignment list \<Rightarrow> string list \<Rightarrow> command_io \<Rightarrow> nat \<Rightarrow> nat list \<Rightarrow> nat \<Rightarrow> shell \<Rightarrow> (shell, nat) run" where
  "run_prefixed pf ut ex assignments argv io applied sinks fds s =
    (let (undo, m) = prefix_assignments pf ex assignments [] s in
     finally_do
       (then_do m (\<lambda>s _.
         then_do (if so_xtrace (sh_options s) then write_text pf (io_stderr io) (''+ '' @ join '' '' argv @ [newline]) s else (s, Inr ())) (\<lambda>s _.
           dispatch pf ut ex argv io s)))
       (\<lambda>s. settleRedirections pf applied sinks fds (if hd argv \<in> set SPECIAL_BUILTINS then s else restore_variables undo s)))"

text \<open>The words of a simple command, expanded with the streams of the command in place for substitutions.\<close>

definition command_words :: "platform \<Rightarrow> performer \<Rightarrow> shell_word list \<Rightarrow> nat \<Rightarrow> shell \<Rightarrow> (shell, string list) run" where
  "command_words pf ex words fds s =
    (let (s', io) = ioFor fds s in
     finally_do
       (then_do (expand_words (expansionHost pf ex) words (s'\<lparr>sh_activeIo := io\<rparr>)) (\<lambda>s argv. expandAliases pf ex argv s))
       (\<lambda>s'. (s'\<lparr>sh_activeIo := sh_activeIo s\<rparr>, Inr ())))"

definition executeSimple ::
  "platform \<Rightarrow> utility_table \<Rightarrow> performer \<Rightarrow> assignment list \<Rightarrow> shell_word list \<Rightarrow> redirection list \<Rightarrow> nat \<Rightarrow> shell \<Rightarrow> (shell, nat) run" where
  "executeSimple pf ut ex assignments words redirections fds s =
    then_do (command_words pf ex words fds s) (\<lambda>s argv.
      case applyRedirections pf ex redirections fds s of
        (s, Inl g) \<Rightarrow>
          if argv \<noteq> [] \<and> hd argv \<in> set SPECIAL_BUILTINS then (s, Inl g) else reportRedirectionFailure pf g fds s
      | (s, Inr (applied, sinks)) \<Rightarrow>
          let (s, io) = ioFor applied s in
          if argv = []
          then finally_do
            (then_do (bare_assignments pf ex assignments (s\<lparr>sh_lastSubstitutionStatus := 0\<rparr>)) (\<lambda>s _.
              (s, Inr (if assignments \<noteq> [] then sh_lastSubstitutionStatus s else 0))))
            (settleRedirections pf applied sinks fds)
          else run_prefixed pf ut ex assignments argv io applied sinks fds s)"

section \<open>Commands\<close>

definition define_function :: "string \<Rightarrow> command \<Rightarrow> shell \<Rightarrow> (shell, nat) run" where
  "define_function name body s =
    (if map_of (sh_functions s) name = None \<and> AIRSHIP_SH_MAX_FUNCTIONS \<le> length (sh_functions s)
     then fail s (ShellCommandError (''airship-sh exceeded '' @ dec_nat AIRSHIP_SH_MAX_FUNCTIONS @ '' shell functions'') 1)
     else (s\<lparr>sh_functions := AList.update name body (sh_functions s)\<rparr>, Inr 0))"

definition with_redirections ::
  "platform \<Rightarrow> performer \<Rightarrow> redirection list \<Rightarrow> nat \<Rightarrow> (nat \<Rightarrow> shell \<Rightarrow> (shell, nat) run) \<Rightarrow> shell \<Rightarrow> (shell, nat) run" where
  "with_redirections pf ex redirections fds f s =
    (case applyRedirections pf ex redirections fds s of
       (s, Inl g) \<Rightarrow> reportRedirectionFailure pf g fds s
     | (s, Inr (applied, sinks)) \<Rightarrow> finally_do (f applied s) (shell_close pf sinks))"

fun command_body :: "platform \<Rightarrow> utility_table \<Rightarrow> performer \<Rightarrow> command \<Rightarrow> nat \<Rightarrow> shell \<Rightarrow> (shell, nat) run" where
  "command_body pf ut ex (Function name body) fds s = define_function name body s"
| "command_body pf ut ex (Simple assignments words rs) fds s = executeSimple pf ut ex assignments words rs fds s"
| "command_body pf ut ex (Group body rs) fds s = with_redirections pf ex rs fds (executeList pf ex body) s"
| "command_body pf ut ex (Subshell body rs) fds s = with_redirections pf ex rs fds (\<lambda>fds. runSubshell (executeList pf ex body fds)) s"
| "command_body pf ut ex (If clauses otherwise rs) fds s = with_redirections pf ex rs fds (\<lambda>fds. if_clauses pf ex fds clauses otherwise) s"
| "command_body pf ut ex (For name words body rs) fds s = with_redirections pf ex rs fds (executeFor pf ex name words body) s"
| "command_body pf ut ex (While invert condition body rs) fds s = with_redirections pf ex rs fds (executeWhile ex invert condition body) s"
| "command_body pf ut ex (Case w items rs) fds s = with_redirections pf ex rs fds (executeCase pf ex w items) s"

fun perform_body :: "platform \<Rightarrow> utility_table \<Rightarrow> performer \<Rightarrow> performer" where
  "perform_body pf ut ex (RunCommand c fds) s = command_body pf ut ex c fds s"
| "perform_body pf ut ex (LoopAgain invert condition body fds status) s = loop_again pf ex invert condition body fds status s"
| "perform_body pf ut ex (InvokeNext argv io) s = dispatch pf ut ex argv io s"

fun perform :: "platform \<Rightarrow> utility_table \<Rightarrow> nat \<Rightarrow> performer" where
  "perform pf ut 0 t s = then_do (shell_tick pf s) (\<lambda>s _. (s, Inl Exhausted))"
| "perform pf ut (Suc n) t s = then_do (shell_tick pf s) (\<lambda>s _. perform_body pf ut (perform pf ut n) t s)"

definition executeCommand :: "platform \<Rightarrow> utility_table \<Rightarrow> nat \<Rightarrow> command \<Rightarrow> nat \<Rightarrow> shell \<Rightarrow> (shell, nat) run" where
  "executeCommand pf ut n c fds s = perform pf ut n (RunCommand c fds) s"


section \<open>A whole script\<close>

definition loop_kind_error :: "platform \<Rightarrow> string \<Rightarrow> shell \<Rightarrow> (shell, nat) run" where
  "loop_kind_error pf kind s =
    then_do (write_text pf (io_stderr (sh_rootIo s)) (''airship-sh: '' @ kind @ '': only meaningful in a loop'' @ [newline]) s)
      (\<lambda>s _. (s, Inr usage_status))"

fun reportTerminalError :: "platform \<Rightarrow> signal \<Rightarrow> shell \<Rightarrow> (shell, nat) run" where
  "reportTerminalError pf (ExitSignal status) s = (s, Inr status)"
| "reportTerminalError pf (ReturnSignal status) s = (s, Inr status)"
| "reportTerminalError pf (LoopBreak n) s = loop_kind_error pf ''break'' s"
| "reportTerminalError pf (LoopContinue n) s = loop_kind_error pf ''continue'' s"
| "reportTerminalError pf (Thrown (ShellParseError message l c)) s =
    then_do (write_text pf (io_stderr (sh_rootIo s)) (error_message (ShellParseError message l c) @ [newline]) s) (\<lambda>s _. (s, Inr usage_status))"
| "reportTerminalError pf (Thrown (ShellCommandError message status)) s =
    then_do (write_text pf (io_stderr (sh_rootIo s)) (''airship-sh: '' @ message @ [newline]) s) (\<lambda>s _. (s, Inr status))"
| "reportTerminalError pf g s = (s, Inl g)"

text \<open>\<open>try ... catch\<close>.\<close>

definition catch_do :: "('s, 'a) run \<Rightarrow> (signal \<Rightarrow> 's \<Rightarrow> ('s, 'a) run) \<Rightarrow> ('s, 'a) run" where
  "catch_do m f = (case m of (s, Inl g) \<Rightarrow> f g s | (s, Inr a) \<Rightarrow> (s, Inr a))"

definition runExitTrap :: "platform \<Rightarrow> performer \<Rightarrow> nat \<Rightarrow> shell \<Rightarrow> (shell, nat) run" where
  "runExitTrap pf ex status s =
    (case map_of (sh_traps s) ''EXIT'' of
       None \<Rightarrow> (s, Inr status)
     | Some action \<Rightarrow>
         catch_do
           (then_do (runSource pf ex action (sh_rootIo s) (s\<lparr>sh_traps := AList.delete ''EXIT'' (sh_traps s), sh_status := status\<rparr>))
             (\<lambda>s _. (s, Inr status)))
           (reportTerminalError pf))"

definition interpreter_run :: "platform \<Rightarrow> performer \<Rightarrow> string \<Rightarrow> shell \<Rightarrow> (shell, nat) run" where
  "interpreter_run pf ex source s =
    then_do
      (catch_do
        (then_do (no_throw s (parseShellScript source)) (\<lambda>s program.
          let (s, fds) = descriptorsFor (sh_rootIo s) s in executeList pf ex program fds s))
        (reportTerminalError pf)) (\<lambda>s status.
      then_do (runExitTrap pf ex status s) (\<lambda>s status.
        then_do (flushPersistentSinks pf s) (\<lambda>s _. (s, Inr status))))"

text \<open>The constructor. The streams are in the world already; the environment is in the order of its keys.\<close>

definition initial_vars :: "(string \<times> string) list \<Rightarrow> string list \<Rightarrow> shell_fs \<Rightarrow> shell_vars" where
  "initial_vars environment positional fs =
    (let v = fold (\<lambda>(name, t). set_variable name \<lparr>sv_value = t, sv_exported = True\<rparr>) environment
           \<lparr>heap = [], variables = [], parameters = positional, depth = 0, localFrames = []\<rparr>;
         v = (if variable v ''IFS'' = None then set_variable ''IFS'' \<lparr>sv_value = [CHR '' '', CHR 0x09, newline], sv_exported = False\<rparr> v else v);
         v = set_variable ''PWD'' \<lparr>sv_value = fs_current fs, sv_exported = True\<rparr> v
     in if variable v ''HOME'' = None then set_variable ''HOME'' \<lparr>sv_value = fs_root fs, sv_exported = True\<rparr> v else v)"

definition Interpreter :: "(string \<times> string) list \<Rightarrow> string list \<Rightarrow> string \<Rightarrow> nat \<Rightarrow> command_io \<Rightarrow> shell_world \<Rightarrow> shell" where
  "Interpreter environment positional scriptName runId io w =
    \<lparr>sh_vars = initial_vars environment positional (sw_fs w), sh_functions = [], sh_aliases = [], sh_traps = [],
     sh_options = default_options, sh_status = 0, sh_scriptName = scriptName, sh_runId = runId, sh_rootIo = io, sh_activeIo = io,
     sh_conditionDepth = 0, sh_lastSubstitutionStatus = 0, sh_persistNextRedirections = False, sh_persistentSinks = [], sh_world = w\<rparr>"

section \<open>The entry point\<close>

definition AIRSHIP_SH_MAX_SCRIPT_BYTES :: nat where
  "AIRSHIP_SH_MAX_SCRIPT_BYTES = 256 * 1024"

record shell_run_options =
  ro_script :: string
  ro_root :: string
  ro_files :: "shell_file_entry list"
  ro_args :: "string list"
  ro_env :: "(string \<times> string) list"
  ro_timeoutMs :: int
  ro_runId :: nat
  ro_startedAt :: string
  ro_startTime :: int

record shell_run_result =
  rr_exitCode :: nat
  rr_stdout :: string
  rr_stderr :: string
  rr_stdoutTruncated :: bool
  rr_stderrTruncated :: bool
  rr_droppedBytes :: nat
  rr_steps :: int
  rr_files :: "(string \<times> bytes) list"
  rr_emptyDirectories :: "string list"

text \<open>How a run rejects: with the reason of the abort signal, with an \<open>Error\<close>, or with what was thrown.\<close>

datatype run_failure = AbortReason | RunError string | Rethrown signal

definition run_world :: "shell_run_options \<Rightarrow> shell_world" where
  "run_world ro =
    \<lparr>sw_fs = ShellFileSystem (ro_root ro) (ro_files ro) (ro_startedAt ro), sw_budget = ShellBudget,
     sw_sinks = [OutputSink (BoundedOutputStream AIRSHIP_SH_MAX_OUTPUT_BYTES), OutputSink (BoundedOutputStream AIRSHIP_SH_MAX_OUTPUT_BYTES)],
     sw_readers = [ByteReader []], sw_tables = [], sw_reading = 0\<rparr>"

definition run_shell :: "shell_run_options \<Rightarrow> shell" where
  "run_shell ro =
    Interpreter (ro_env ro) (ro_args ro) ''airship-sh'' (ro_runId ro) \<lparr>io_stdin = 0, io_stdout = 0, io_stderr = 1\<rparr> (run_world ro)"

definition output_at :: "shell_world \<Rightarrow> nat \<Rightarrow> bounded_output" where
  "output_at w i = (case sink_at w i of OutputSink b \<Rightarrow> b | _ \<Rightarrow> BoundedOutputStream 0)"

fun run_failed :: "signal \<Rightarrow> run_failure" where
  "run_failed (Thrown (ShellFatalError reason message)) = (if reason = Cancelled then AbortReason else RunError message)"
| "run_failed g = Rethrown g"

definition run_result :: "platform \<Rightarrow> nat \<Rightarrow> shell_world \<Rightarrow> shell_run_result" where
  "run_result pf status w =
    \<lparr>rr_exitCode = status, rr_stdout = output_text (pf_decode pf) (output_at w 0), rr_stderr = output_text (pf_decode pf) (output_at w 1),
     rr_stdoutTruncated = truncated (output_at w 0), rr_stderrTruncated = truncated (output_at w 1),
     rr_droppedBytes = bo_dropped (output_at w 0) + bo_dropped (output_at w 1), rr_steps = sb_steps (sw_budget w),
     rr_files = fs_collect (sw_fs w), rr_emptyDirectories = emptyCreatedDirectories (sw_fs w)\<rparr>"

definition run_with :: "platform \<Rightarrow> performer \<Rightarrow> shell_run_options \<Rightarrow> run_failure + shell_run_result" where
  "run_with pf ex ro =
    (if AIRSHIP_SH_MAX_SCRIPT_BYTES < length (pf_encode pf (ro_script ro))
     then Inl (RunError (''airship-sh script exceeds '' @ dec_nat AIRSHIP_SH_MAX_SCRIPT_BYTES @ '' bytes.''))
     else case interpreter_run pf ex (ro_script ro) (run_shell ro) of
       (s, Inl g) \<Rightarrow> Inl (run_failed g)
     | (s, Inr status) \<Rightarrow> Inr (run_result pf status (sh_world s)))"

text \<open>The fuel is the number of steps a run may take.\<close>

definition run_fuel :: nat where
  "run_fuel = nat AIRSHIP_SH_MAX_STEPS"

definition runShellScript :: "platform \<Rightarrow> utility_table \<Rightarrow> shell_run_options \<Rightarrow> run_failure + shell_run_result" where
  "runShellScript pf ut ro =
    (let pf = pf\<lparr>pf_deadline := ro_startTime ro + ro_timeoutMs ro\<rparr> in run_with pf (perform pf ut run_fuel) ro)"

end
