(* ===== verification/Shell_Contract.thy ===== *)
theory Shell_Contract
  imports Shell_Interpreter
begin

text \<open>
  What can be said of every run of the interpreter. A contract is a relation between the states before and after an
  operation, with the signals an operation may end with. The locale \<open>run_contract\<close> composes contracts along the
  computations of word expansion, and \<open>execution_contract\<close> carries one through every command from the laws of the
  primitive operations on the state. Two runs are compared at once, so that the same argument shows that the result does
  not depend on the fuel. The contracts of the development are the interpretations in the theories below.
\<close>

section \<open>Contracts\<close>

text \<open>From a state with \<open>P\<close>, which the relation keeps, both computations are the same and keep the relation.\<close>

definition sim :: "('s \<Rightarrow> 's \<Rightarrow> bool) \<Rightarrow> (signal \<Rightarrow> bool) \<Rightarrow> ('s \<Rightarrow> bool) \<Rightarrow> 's \<Rightarrow> ('s, 'a) run \<Rightarrow> ('s, 'a) run \<Rightarrow> bool" where
  "sim R Q P s m m' \<longleftrightarrow>
    ((\<forall>a b. R a b \<longrightarrow> P a \<longrightarrow> P b) \<and> P s \<longrightarrow> m' = m \<and> R s (fst m) \<and> (\<forall>g. snd m = Inl g \<longrightarrow> Q g))"

locale run_contract =
  fixes R :: "'s \<Rightarrow> 's \<Rightarrow> bool" and Q :: "signal \<Rightarrow> bool"
  assumes R_refl: "R s s"
    and R_trans: "R s t \<Longrightarrow> R t u \<Longrightarrow> R s u"
    and Q_signal: "g \<noteq> Exhausted \<Longrightarrow> Q g"
begin

lemma sim_return: "sim R Q P s (s, Inr a) (s, Inr a)"
  by (simp add: sim_def R_refl)

lemma sim_raise: "Q g \<Longrightarrow> sim R Q P s (s, Inl g) (s, Inl g)"
  by (simp add: sim_def R_refl)

lemma sim_fail: "sim R Q P s (fail s e) (fail s e)"
  by (simp add: fail_def sim_raise Q_signal)

lemma sim_from: "R s t \<Longrightarrow> sim R Q P t m m' \<Longrightarrow> sim R Q P s m m'"
  unfolding sim_def by (meson R_trans)

lemma sim_thrown: "R s (fst m) \<Longrightarrow> sim R Q P s (thrown m) (thrown m)"
  by (cases m; cases "snd m") (auto simp: sim_def Q_signal)

lemma sim_no_throw: "sim R Q P s (no_throw s r) (no_throw s r)"
  by (simp add: no_throw_def sim_thrown R_refl)

lemma sim_case:
  assumes "sim R Q P s m m'" "\<And>t a. m = (t, Inr a) \<Longrightarrow> sim R Q P t (f t a) (f' t a)" "\<And>t g. Q g \<Longrightarrow> sim R Q P t (h t g) (h' t g)"
  shows "sim R Q P s (case m of (t, r) \<Rightarrow> (case r of Inl g \<Rightarrow> h t g | Inr a \<Rightarrow> f t a))
    (case m' of (t, r) \<Rightarrow> (case r of Inl g \<Rightarrow> h' t g | Inr a \<Rightarrow> f' t a))"
proof (cases m)
  case (Pair t r)
  show ?thesis
  proof (cases r)
    case (Inl g)
    with Pair assms(1) assms(3) [of g t] show ?thesis unfolding sim_def by (auto intro: R_trans)
  next
    case (Inr a)
    with Pair assms(1) assms(2) [of t a] show ?thesis unfolding sim_def by (auto intro: R_trans)
  qed
qed

lemma sim_then:
  assumes "sim R Q P s m m'" "\<And>t a. m = (t, Inr a) \<Longrightarrow> sim R Q P t (f t a) (f' t a)"
  shows "sim R Q P s (then_do m f) (then_do m' f')"
proof -
  have "sim R Q P t (t, Inl g) (t, Inl g)" if "Q g" for t g using that by (rule sim_raise)
  from sim_case [of P s m m' f f' "\<lambda>t g. (t, Inl g)" "\<lambda>t g. (t, Inl g)", OF assms this] show ?thesis
    by (simp add: then_do_def case_prod_beta)
qed

lemma sim_finally:
  assumes "sim R Q P s m m'" "\<And>t. sim R Q P t (f t) (f t)"
  shows "sim R Q P s (finally_do m f) (finally_do m' f)"
proof (cases "f (fst m)")
  case (Pair t r)
  with assms(1) assms(2) [of "fst m"] show ?thesis
    unfolding sim_def finally_do_def by (cases r) (auto intro: R_trans)
qed

lemma sim_done: "R s t \<Longrightarrow> sim R Q P s (t, Inr a) (t, Inr a)"
  by (rule sim_from [OF _ sim_return])

lemma sim_failed: "R s t \<Longrightarrow> sim R Q P s (fail t e) (fail t e)"
  by (rule sim_from [OF _ sim_fail])

lemmas sim_rules = sim_return sim_fail sim_no_throw sim_then

end

text \<open>A contract of the interpreter is one for the states of an expansion.\<close>

definition on_fst :: "('s \<Rightarrow> 's \<Rightarrow> bool) \<Rightarrow> 's \<times> 'x \<Rightarrow> 's \<times> 'x \<Rightarrow> bool" where
  "on_fst R a b = R (fst a) (fst b)"

lemma run_contract_on_fst: "run_contract R Q \<Longrightarrow> run_contract (on_fst R) Q"
  unfolding run_contract_def on_fst_def by blast

lemma sim_in_host: "sim R Q P (fst sx) m m' \<Longrightarrow> sim (on_fst R) Q (\<lambda>x. P (fst x)) sx (in_host m (snd sx)) (in_host m' (snd sx))"
  unfolding sim_def on_fst_def in_host_def by (cases sx) auto

section \<open>Arithmetic\<close>

context run_contract
begin

lemma R_then: "R s (fst m) \<Longrightarrow> (\<And>t a. m = (t, Inr a) \<Longrightarrow> R t (fst (f t a))) \<Longrightarrow> R s (fst (then_do m f))"
  by (cases m; cases "snd m") (auto intro: R_trans)

lemma R_read: "(\<And>v s. R s (fst (evaluator v s))) \<Longrightarrow> R s (fst (readVariable scope evaluator n s))"
  by (auto simp: readVariable_def Let_def R_refl split: sum.splits option.splits)

lemma R_parsed:
  assumes "\<And>s n v. R s (fst (as_assign scope s n v))" "\<And>v s. R s (fst (evaluator v s))"
  shows "R s (fst (parseComma scope evaluator ts s))" "R s (fst (comma_loop scope evaluator v ts s))"
    "R s (fst (parseAssignment scope evaluator ts s))" "R s (fst (parseConditional scope evaluator ts s))"
    "R s (fst (parseBinary scope evaluator level ts s))" "R s (fst (binary_loop scope evaluator level left ts s))"
    "R s (fst (parseUnary scope evaluator ts s))" "R s (fst (parsePostfix scope evaluator ts s))" "R s (fst (parsePrimary scope evaluator ts s))"
  using assms
proof (induction scope evaluator ts s and scope evaluator v ts s and scope evaluator ts s and scope evaluator ts s and
    scope evaluator level ts s and scope evaluator level left ts s and scope evaluator ts s and scope evaluator ts s and scope evaluator ts s
    rule: parseComma_comma_loop_parseAssignment_parseConditional_parseBinary_binary_loop_parseUnary_parsePostfix_parsePrimary.induct)
  case (1 scope evaluator ts s)
  then show ?case unfolding parseComma.simps [of scope] by (intro R_then) auto
next
  case (2 scope evaluator v ts s)
  then show ?case by (subst comma_loop.simps) (auto intro!: R_then R_refl)
next
  case (3 scope evaluator ts s)
  then show ?case by (subst parseAssignment.simps) (auto intro!: R_then R_refl R_read split: option.splits)
next
  case (4 scope evaluator ts s)
  then show ?case by (subst parseConditional.simps) (auto intro!: R_then R_refl)
next
  case (5 scope evaluator level ts s)
  then show ?case by (subst parseBinary.simps) (auto intro!: R_then R_refl)
next
  case (6 scope evaluator level left ts s)
  then show ?case by (subst binary_loop.simps) (auto intro!: R_then R_refl split: option.splits)
next
  case (7 scope evaluator ts s)
  have name: "R s (fst (then_do (readVariable scope evaluator n s) (\<lambda>s current.
      let nxt = wrap (current + d) in then_do (as_assign scope s n (dec_int nxt)) (\<lambda>s _. (s, Inr (nxt, us))))))" for n d us
    using 7(9,10) by (auto simp: Let_def intro!: R_then R_refl R_read)
  show ?case
  proof (cases "peek ts \<in> {Operator ''-'', Operator ''+'', Operator ''!'', Operator ''~''}")
    case True
    then have "R s (fst (parseUnary scope evaluator (advance ts) s))" using 7(1-4,9,10) by blast
    with True show ?thesis by (subst parseUnary.simps) (auto intro!: R_then R_refl)
  next
    case False
    then have "R s (fst (parsePostfix scope evaluator ts s))" if "\<And>v. peek ts = Operator v \<Longrightarrow> \<not> is_step_operator v"
      using that by (cases "peek ts") (use 7(7) [OF _ _ _ _ _ _ 7(9,10)] 7(5,6,8) [OF _ _ _ _ _ 7(9,10)] in auto)
    with False show ?thesis
      by (subst parseUnary.simps) (auto simp: name R_refl split: arith_token.splits)
  qed
next
  case (8 scope evaluator ts s)
  then show ?case by (subst parsePostfix.simps) (auto intro!: R_then R_refl R_read split: option.splits)
next
  case (9 scope evaluator ts s)
  then show ?case by (subst parsePrimary.simps) (auto intro!: R_then R_refl R_read split: arith_token.splits)
qed

end


context run_contract
begin

lemma R_evaluate_at:
  assumes "\<And>s n v. R s (fst (as_assign scope s n v))"
  shows "R s (fst (evaluate_at scope levels source s))"
proof (induction levels arbitrary: source s)
  case (Suc levels)
  then show ?case by (auto intro!: R_then R_refl R_parsed assms)
qed (simp add: R_refl)

lemma R_arithmetic: "(\<And>s n v. R s (fst (as_assign scope s n v))) \<Longrightarrow> R s (fst (evaluateArithmetic source scope s))"
  unfolding evaluateArithmetic_def by (rule R_evaluate_at)

end

section \<open>Word expansion\<close>

text \<open>What an expansion relies on, for two hosts that differ in how they run a substitution.\<close>

definition host_sim :: "('s \<Rightarrow> 's \<Rightarrow> bool) \<Rightarrow> (signal \<Rightarrow> bool) \<Rightarrow> ('s \<Rightarrow> bool) \<Rightarrow> 's expansion_host \<Rightarrow> ('s \<Rightarrow> string \<Rightarrow> ('s, string) run) \<Rightarrow> bool" where
  "host_sim R Q P host sub \<longleftrightarrow>
    (\<forall>s. R s (fst (eh_charge host s))) \<and> (\<forall>s n v. R s (fst (eh_assign host s n v))) \<and>
    (\<forall>s t. sim R Q P s (eh_substitute host s t) (sub s t))"

lemma append_same_host [simp]:
  "sink_append (host\<lparr>eh_substitute := sub\<rparr>) = sink_append host" "append_mark (host\<lparr>eh_substitute := sub\<rparr>) = append_mark host"
  by (simp_all add: fun_eq_iff sink_append_def append_mark_def)

lemma append_positional_same_host [simp]: "append_positional (host\<lparr>eh_substitute := sub\<rparr>) q first vs sx = append_positional host q first vs sx"
  by (induction vs arbitrary: first sx) (simp_all cong: then_do_cong)

lemma append_segments_same_host [simp]: "append_segments (host\<lparr>eh_substitute := sub\<rparr>) q sgs sx = append_segments host q sgs sx"
  by (induction sgs arbitrary: sx) (simp_all cong: then_do_cong)

lemma append_fields_same_host [simp]: "append_fields (host\<lparr>eh_substitute := sub\<rparr>) q first fs sx = append_fields host q first fs sx"
  by (induction fs arbitrary: first sx) (simp_all cong: then_do_cong)

lemma readParameter_same_host [simp]: "readParameter n (host\<lparr>eh_substitute := sub\<rparr>) s = readParameter n host s"
  by (simp add: readParameter_def cong: option.case_cong if_cong)

context run_contract
begin

lemmas lifted = run_contract_on_fst [OF run_contract_axioms]
lemmas lift_rules = run_contract.sim_return [OF lifted] run_contract.sim_fail [OF lifted] run_contract.sim_no_throw [OF lifted]
  run_contract.sim_then [OF lifted] run_contract.sim_done [OF lifted] sim_in_host

lemma on_fst_marks [simp]: "on_fst R sx (sink_mark sx)" "on_fst R sx (sink_breakField sx)"
  by (simp_all add: on_fst_def sink_mark_def sink_breakField_def R_refl)

lemma on_fst_same [simp]: "on_fst R (s, x) (s, y)" "on_fst R sx sx"
  by (simp_all add: on_fst_def R_refl)

lemma sink_append_sim:
  assumes "host_sim R Q P host sub"
  shows "sim (on_fst R) Q (\<lambda>x. P (fst x)) sx (sink_append host sg sx) (sink_append host sg sx)"
proof -
  have "sim (on_fst R) Q (\<lambda>x. P (fst x)) sx (in_host (thrown (eh_charge host (fst sx))) (snd sx)) (in_host (thrown (eh_charge host (fst sx))) (snd sx))"
    using assms by (intro sim_in_host sim_thrown) (simp add: host_sim_def)
  then show ?thesis
    unfolding sink_append_def Let_def
    by (rule run_contract.sim_then [OF lifted]) (simp add: run_contract.sim_done [OF lifted] run_contract.sim_failed [OF lifted] on_fst_def R_refl)
qed

lemma append_mark_sim:
  assumes "host_sim R Q P host sub"
  shows "sim (on_fst R) Q (\<lambda>x. P (fst x)) sx (append_mark host marks t q sx) (append_mark host marks t q sx)"
  unfolding append_mark_def by (intro lift_rules sink_append_sim [OF assms]) simp

lemma append_positional_sim:
  assumes "host_sim R Q P host sub"
  shows "sim (on_fst R) Q (\<lambda>x. P (fst x)) sx (append_positional host q first vs sx) (append_positional host q first vs sx)"
proof (induction vs arbitrary: first sx)
  case (Cons v vs)
  show ?case
    unfolding append_positional.simps
    by (rule run_contract.sim_from [OF lifted, of _ "if first then sx else sink_breakField sx"], simp)
       (rule run_contract.sim_then [OF lifted append_mark_sim [OF assms] Cons.IH])
qed (simp add: run_contract.sim_return [OF lifted])

lemma append_segments_sim:
  assumes "host_sim R Q P host sub"
  shows "sim (on_fst R) Q (\<lambda>x. P (fst x)) sx (append_segments host q sgs sx) (append_segments host q sgs sx)"
  by (induction sgs arbitrary: sx)
     (simp_all add: run_contract.sim_return [OF lifted] run_contract.sim_then [OF lifted sink_append_sim [OF assms]])

lemma append_fields_sim:
  assumes "host_sim R Q P host sub"
  shows "sim (on_fst R) Q (\<lambda>x. P (fst x)) sx (append_fields host q first fs sx) (append_fields host q first fs sx)"
proof (induction fs arbitrary: first sx)
  case (Cons f fs)
  have marked: "sim (on_fst R) Q (\<lambda>x. P (fst x)) tx (append_fields host q False fs (if b then sink_mark tx else tx))
      (append_fields host q False fs (if b then sink_mark tx else tx))" for tx b
    by (rule run_contract.sim_from [OF lifted _ Cons.IH]) simp
  show ?case
    unfolding append_fields.simps
    by (rule run_contract.sim_from [OF lifted, of _ "if first then sx else sink_breakField sx"], simp)
       (rule run_contract.sim_then [OF lifted append_segments_sim [OF assms] marked])
qed (simp add: run_contract.sim_return [OF lifted])

end


context run_contract
begin

lemma sim_parts:
  assumes "sim (on_fst R) Q (\<lambda>x. P (fst x)) (s, no_expansion) m m'"
  shows "sim R Q P s (case m of ((s, x), Inl g) \<Rightarrow> (s, Inl g) | ((s, x), Inr (_ :: unit)) \<Rightarrow> (s, Inr (ex_fields x)))
    (case m' of ((s, x), Inl g) \<Rightarrow> (s, Inl g) | ((s, x), Inr _) \<Rightarrow> (s, Inr (ex_fields x)))"
proof (cases m)
  case (Pair tx r)
  with assms show ?thesis by (cases tx; cases r) (auto simp: sim_def on_fst_def)
qed

lemma expansion_sim:
  assumes "host_sim R Q P host sub"
  shows "sim R Q P s (expandToString host w s) (expandToString (host\<lparr>eh_substitute := sub\<rparr>) w s)"
    and "sim R Q P s (expandToPattern host w s) (expandToPattern (host\<lparr>eh_substitute := sub\<rparr>) w s)"
    and "sim R Q P s (expandParts host splitting w s) (expandParts (host\<lparr>eh_substitute := sub\<rparr>) splitting w s)"
    and "sim (on_fst R) Q (\<lambda>x. P (fst x)) sx (part_loop host splitting w sx) (part_loop (host\<lparr>eh_substitute := sub\<rparr>) splitting w sx)"
    and "sim (on_fst R) Q (\<lambda>x. P (fst x)) sx (expand_part host splitting p sx) (expand_part (host\<lparr>eh_substitute := sub\<rparr>) splitting p sx)"
    and "sim (on_fst R) Q (\<lambda>x. P (fst x)) sx (appendWord host splitting a q sx) (appendWord (host\<lparr>eh_substitute := sub\<rparr>) splitting a q sx)"
    and "sim R Q P s (argument_string host a s) (argument_string (host\<lparr>eh_substitute := sub\<rparr>) a s)"
  using assms
proof (induction host w s and host w s and host splitting w s and host splitting w sx and host splitting p sx and
    host splitting a q sx and host a s
    rule: expandToString_expandToPattern_expandParts_part_loop_expand_part_appendWord_argument_string.induct)
  case (1 host w s)
  then show ?case unfolding expandToString.simps by (auto intro!: sim_then sim_return)
next
  case (2 host w s)
  then show ?case unfolding expandToPattern.simps by (auto intro!: sim_then sim_return)
next
  case (3 host splitting w s)
  then show ?case unfolding expandParts.simps by (auto intro!: sim_parts)
next
  case (4 host splitting sx)
  then show ?case by (simp add: part_loop.simps run_contract.sim_return [OF lifted])
next
  case (5 host splitting part parts sx)
  have charge: "sim R Q P s (thrown (eh_charge host s)) (thrown (eh_charge host s))" for s
    using 5(3) by (intro sim_thrown) (simp add: host_sim_def)
  show ?case
    unfolding part_loop.simps
    using 5 by (auto intro!: run_contract.sim_then [OF lifted] sim_in_host charge)
next
  case (6 host splitting t q sx)
  then show ?case by (simp add: expand_part.simps append_mark_sim)
next
  case (7 host splitting user sx)
  then show ?case by (simp add: expand_part.simps append_mark_sim)
next
  case (8 host splitting script q sx)
  then have "sim R Q P s (eh_substitute host s script) (sub s script)" for s by (simp add: host_sim_def)
  with 8 show ?case by (auto simp: expand_part.simps intro!: run_contract.sim_then [OF lifted] sim_in_host append_mark_sim)
next
  case (9 host splitting w q sx)
  have "sim R Q P s (thrown (evaluateArithmetic t \<lparr>as_read = eh_lookup host, as_assign = eh_assign host\<rparr> s))
      (thrown (evaluateArithmetic t \<lparr>as_read = eh_lookup host, as_assign = eh_assign host\<rparr> s))" for s t
    using 9(2) by (intro sim_thrown R_arithmetic) (simp add: host_sim_def)
  with 9 show ?case by (auto simp: expand_part.simps intro!: run_contract.sim_then [OF lifted] sim_in_host append_mark_sim)
next
  case (10 host splitting name operator colon measured argument q sx)
  note mark = append_mark_sim [OF 10(9)] append_positional_sim [OF 10(9)]
  note lift = run_contract.sim_then [OF lifted] run_contract.sim_no_throw [OF lifted] run_contract.sim_fail [OF lifted]
    run_contract.sim_return [OF lifted] sim_in_host
  show ?case
  proof (cases "name = ''@'' \<or> name = ''*''")
    case True
    then show ?thesis by (auto simp: expand_part.simps mark Let_def run_contract.sim_fail [OF lifted])
  next
    case False
    note ih = 10(1-8) [OF False refl refl refl refl refl]
    have assign: "sim R Q P s (thrown (eh_assign host s n v)) (thrown (eh_assign host s n v))" for s n v
      using 10(9) by (intro sim_thrown) (simp add: host_sim_def)
    show ?thesis
    proof (cases measured)
      case True
      with False show ?thesis by (simp add: expand_part.simps mark Let_def run_contract.sim_fail [OF lifted])
    next
      case unmeasured: False
      have pat: "sim R Q P (fst sx) (case argument of None \<Rightarrow> (fst sx, Inr []) | Some w \<Rightarrow> expandToPattern host w (fst sx))
          (case argument of None \<Rightarrow> (fst sx, Inr []) | Some w \<Rightarrow> expandToPattern (host\<lparr>eh_substitute := sub\<rparr>) w (fst sx))"
        if "operator \<in> {RemoveSmallestPrefix, RemoveLargestPrefix, RemoveSmallestSuffix, RemoveLargestSuffix}"
        using that ih(5-8) [OF unmeasured _ _ 10(9)] by (cases argument) (auto simp: sim_return)
      show ?thesis
        using False unmeasured ih(1-4) [OF unmeasured _ _ 10(9)]
        by (cases operator) (auto simp: expand_part.simps mark Let_def intro!: lift pat assign)
    qed
  qed
next
  case (11 host splitting q sx)
  then show ?case by (simp add: appendWord.simps run_contract.sim_done [OF lifted])
next
  case (12 host splitting w q sx)
  then show ?case
    by (auto simp: appendWord.simps run_contract.sim_done [OF lifted] intro!: run_contract.sim_then [OF lifted] sim_in_host append_fields_sim)
next
  case (13 host s)
  then show ?case by (simp add: argument_string.simps sim_return)
next
  case (14 host w s)
  then show ?case by (simp add: argument_string.simps)
qed

end


context run_contract
begin

lemma expandToFields_sim:
  assumes "host_sim R Q P host sub"
  shows "sim R Q P s (expandToFields host w s) (expandToFields (host\<lparr>eh_substitute := sub\<rparr>) w s)"
  unfolding expandToFields_def by (auto intro!: sim_then expansion_sim assms sim_no_throw)

lemma expand_words_sim:
  assumes "host_sim R Q P host sub"
  shows "sim R Q P s (expand_words host ws s) (expand_words (host\<lparr>eh_substitute := sub\<rparr>) ws s)"
  by (induction ws arbitrary: s) (auto intro!: sim_then sim_return expandToFields_sim assms)

end

section \<open>The laws of the primitive operations\<close>

text \<open>A change that leaves the world and the control state of the interpreter alone.\<close>

definition same_control :: "shell \<Rightarrow> shell \<Rightarrow> bool" where
  "same_control s t \<longleftrightarrow>
    sh_world t = sh_world s \<and> sh_conditionDepth t = sh_conditionDepth s \<and> sh_activeIo t = sh_activeIo s \<and> sh_rootIo t = sh_rootIo s \<and>
    depth (sh_vars t) = depth (sh_vars s) \<and> length (localFrames (sh_vars t)) = length (localFrames (sh_vars s)) \<and>
    sh_scriptName t = sh_scriptName s \<and> sh_runId t = sh_runId s"

text \<open>
  A change of the streams: an output only takes writes, the other sinks keep their kind and a file sink its path, and
  a new sink is neither an output nor a file.
\<close>

fun sink_step :: "byte_sink \<Rightarrow> byte_sink \<Rightarrow> bool" where
  "sink_step (OutputSink b) k \<longleftrightarrow> (\<exists>decode chunks. k = OutputSink (output_writes decode chunks b))"
| "sink_step (PipeSink b) k \<longleftrightarrow> (\<exists>b'. k = PipeSink b')"
| "sink_step (FileSink path chunks) k \<longleftrightarrow> (\<exists>chunks'. k = FileSink path chunks')"
| "sink_step NullSink k \<longleftrightarrow> k = NullSink"

fun plain_sink :: "byte_sink \<Rightarrow> bool" where
  "plain_sink (PipeSink b) = True"
| "plain_sink NullSink = True"
| "plain_sink _ = False"

definition streams_step :: "shell_world \<Rightarrow> shell_world \<Rightarrow> bool" where
  "streams_step w w' \<longleftrightarrow>
    sw_fs w' = sw_fs w \<and> sw_budget w' = sw_budget w \<and> sw_reading w' = sw_reading w \<and>
    (\<exists>changed new. sw_sinks w' = changed @ new \<and> list_all2 sink_step (sw_sinks w) changed \<and> list_all plain_sink new)"

lemma sink_step_refl [simp]: "sink_step k k"
proof (cases k)
  case (OutputSink b)
  have "b = output_writes decode [] b" for decode by (simp add: output_writes_def)
  with OutputSink show ?thesis by auto
qed auto

lemma streams_stepI:
  "sw_fs w' = sw_fs w \<Longrightarrow> sw_budget w' = sw_budget w \<Longrightarrow> sw_reading w' = sw_reading w \<Longrightarrow> sw_sinks w' = changed @ new \<Longrightarrow>
    list_all2 sink_step (sw_sinks w) changed \<Longrightarrow> list_all plain_sink new \<Longrightarrow> streams_step w w'"
  unfolding streams_step_def by blast

lemma streams_step_plain: "plain_sink k \<Longrightarrow> streams_step w (fst (new_sink k w))"
  by (rule streams_stepI [of _ _ "sw_sinks w" "[k]"]) (simp_all add: new_sink_def list_all2_refl)

lemma streams_step_same:
  "sw_fs w' = sw_fs w \<Longrightarrow> sw_budget w' = sw_budget w \<Longrightarrow> sw_reading w' = sw_reading w \<Longrightarrow> sw_sinks w' = sw_sinks w \<Longrightarrow> streams_step w w'"
  by (rule streams_stepI [of _ _ "sw_sinks w" "[]"]) (simp_all add: list_all2_refl)

lemma streams_step_sink:
  assumes "i < length (sw_sinks w) \<Longrightarrow> sink_step (sw_sinks w ! i) k"
  shows "streams_step w (set_sink i k w)"
proof -
  have "list_all2 sink_step (sw_sinks w) ((sw_sinks w)[i := k])"
    unfolding list_all2_conv_all_nth
  proof (intro conjI allI impI)
    fix j
    assume "j < length (sw_sinks w)"
    with assms show "sink_step (sw_sinks w ! j) ((sw_sinks w)[i := k] ! j)" by (cases "j = i") simp_all
  qed simp
  then show ?thesis by (intro streams_stepI [of _ _ "(sw_sinks w)[i := k]" "[]"]) (simp_all add: set_sink_def)
qed

lemma streams_step_write: "streams_step w (fst (sink_write pf i bytes w))"
proof (cases "sink_at w i")
  case (OutputSink b)
  have "snd (output_write decode bytes b) = output_writes decode [bytes] b" for decode by (simp add: output_writes_def)
  with OutputSink show ?thesis
    by (auto simp: sink_write_def sink_at_def intro!: streams_step_sink split: if_splits) blast
qed (auto simp: sink_write_def sink_at_def intro!: streams_step_sink streams_step_same split: if_splits)

locale execution_contract = run_contract R Q for R :: "shell \<Rightarrow> shell \<Rightarrow> bool" and Q :: "signal \<Rightarrow> bool" +
  fixes pf :: platform
  assumes control: "same_control s t \<Longrightarrow> R s t"
    and streams: "streams_step (sh_world s) w \<Longrightarrow> R s (s\<lparr>sh_world := w\<rparr>)"
    and charging: "R s (fst (shell_charge pf s))"
    and ticking: "R s (fst (shell_tick pf s))"
    and opening_file: "fs_resolve (sh_fs s) target = Inr path \<Longrightarrow> R s (fst (in_world (open_file_sink pf path appending) s))"
    and creating: "fs_resolve (sh_fs s) target = Inr path \<Longrightarrow> R s (fst (in_world (write_file pf path [] False) s))"
    and closing: "R s (fst (in_world (close_sink pf i) s))"
    and moving: "R s (fst (in_world (on_file_system (\<lambda>fs. changeDirectory fs path)) s))"
    and conditional: "R (s\<lparr>sh_conditionDepth := sh_conditionDepth s + 1\<rparr>) t \<Longrightarrow> R s (t\<lparr>sh_conditionDepth := sh_conditionDepth t - 1\<rparr>)"
    and redirected: "R (s\<lparr>sh_activeIo := io\<rparr>) t \<Longrightarrow> R s (t\<lparr>sh_activeIo := sh_activeIo s\<rparr>)"
    and called: "R (s\<lparr>sh_vars := v\<rparr>) t \<Longrightarrow> depth v = depth (sh_vars s) + 1 \<Longrightarrow>
      length (localFrames v) = length (localFrames (sh_vars s)) + 1 \<Longrightarrow> R s (t\<lparr>sh_vars := leave_function ps (sh_vars t)\<rparr>)"
    and forked: "R c t \<Longrightarrow> sh_world c = sh_world s \<Longrightarrow> R s (s\<lparr>sh_world := sh_world t\<rparr>)"
begin

lemma R_new_sink: "plain_sink k \<Longrightarrow> R s (fst (in_world (new_sink k) s))"
  by (simp add: in_world_def streams streams_step_plain)

lemma R_new_reader: "R s (fst (in_world (new_reader bytes) s))"
  by (simp add: in_world_def new_reader_def streams streams_step_same)

lemma R_new_table: "R s (fst (in_world (new_table fds) s))"
  by (simp add: in_world_def new_table_def streams streams_step_same)

lemma R_set_table: "R s (s\<lparr>sh_world := set_table i fds (sh_world s)\<rparr>)"
  by (simp add: set_table_def streams streams_step_same)

lemma R_readers: "R s (s\<lparr>sh_world := (sh_world s)\<lparr>sw_readers := rs\<rparr>\<rparr>)"
  by (simp add: streams streams_step_same)

lemma R_vars:
  "depth v = depth (sh_vars s) \<Longrightarrow> length (localFrames v) = length (localFrames (sh_vars s)) \<Longrightarrow> R s (s\<lparr>sh_vars := v\<rparr>)"
  by (rule control) (simp add: same_control_def)

lemma R_assign: "R s (fst (on_vars (assign n v e) s))"
  by (auto simp: on_vars_def assign_def Let_def set_variable_def intro!: R_vars R_refl)

lemma R_setPositional: "R s (fst (on_vars (setPositional vs) s))"
  by (auto simp: on_vars_def setPositional_def intro!: R_vars R_refl)

lemma R_declareLocal: "R s (fst (on_vars (declareLocal n) s))"
  by (auto simp: on_vars_def declareLocal_def Let_def intro!: R_vars R_refl)

lemma sim_write: "sim R Q P s (write_text pf i t s) (write_text pf i t s)"
  unfolding write_text_def by (rule sim_thrown) (simp add: in_world_def streams streams_step_write)

end


section \<open>The built-ins\<close>

context execution_contract
begin

lemma sim_if: "(c \<Longrightarrow> sim R Q P s a a') \<Longrightarrow> (\<not> c \<Longrightarrow> sim R Q P s b b') \<Longrightarrow> sim R Q P s (if c then a else b) (if c then a' else b')"
  by simp

lemma sim_option:
  "(x = None \<Longrightarrow> sim R Q P s a a') \<Longrightarrow> (\<And>y. x = Some y \<Longrightarrow> sim R Q P s (f y) (f' y)) \<Longrightarrow>
    sim R Q P s (case x of None \<Rightarrow> a | Some y \<Rightarrow> f y) (case x of None \<Rightarrow> a' | Some y \<Rightarrow> f' y)"
  by (cases x) auto

lemma sim_list:
  "(x = [] \<Longrightarrow> sim R Q P s a a') \<Longrightarrow> (\<And>y ys. x = y # ys \<Longrightarrow> sim R Q P s (f y ys) (f' y ys)) \<Longrightarrow>
    sim R Q P s (case x of [] \<Rightarrow> a | y # ys \<Rightarrow> f y ys) (case x of [] \<Rightarrow> a' | y # ys \<Rightarrow> f' y ys)"
  by (cases x) auto

lemma sim_pair:
  "(\<And>a b. x = (a, b) \<Longrightarrow> sim R Q P s (f a b) (f' a b)) \<Longrightarrow> sim R Q P s (case x of (a, b) \<Rightarrow> f a b) (case x of (a, b) \<Rightarrow> f' a b)"
  by (cases x) auto

lemma sim_pair_fun:
  "(\<And>a b. x = (a, b) \<Longrightarrow> sim R Q P s (f a b u) (f' a b u)) \<Longrightarrow> sim R Q P s ((case x of (a, b) \<Rightarrow> f a b) u) ((case x of (a, b) \<Rightarrow> f' a b) u)"
  by (cases x) auto

text \<open>A step on the state whose result is used, such as the allocation of a stream.\<close>

lemma sim_alloc:
  "R s (fst x) \<Longrightarrow> (\<And>a b. x = (a, b) \<Longrightarrow> sim R Q P a (f a b) (f' a b)) \<Longrightarrow>
    sim R Q P s (case x of (a, b) \<Rightarrow> f a b) (case x of (a, b) \<Rightarrow> f' a b)"
  by (cases x) (auto intro: sim_from)

lemma sim_succeed: "sim R Q P s (succeed s u) (succeed s u)"
  by (simp add: succeed_def sim_return)

lemma sim_for_each: "(\<And>x s. sim R Q P s (f x s) (f x s)) \<Longrightarrow> sim R Q P s (for_each f xs s) (for_each f xs s)"
  by (induction xs arbitrary: s) (auto intro!: sim_then sim_return)

lemma sim_for_status: "(\<And>x s. sim R Q P s (f x s) (f x s)) \<Longrightarrow> sim R Q P s (for_status f xs st s) (for_status f xs st s)"
  by (induction xs arbitrary: s st) (auto intro!: sim_then sim_return)

lemma sim_signal: "g \<noteq> Exhausted \<Longrightarrow> sim R Q P s (s, Inl g) (s, Inl g)"
  by (simp add: sim_raise Q_signal)

lemma sim_assign: "sim R Q P s (thrown (on_vars (assign n v e) s)) (thrown (on_vars (assign n v e) s))"
  by (rule sim_thrown) (rule R_assign)

lemma sim_setPositional: "sim R Q P s (thrown (on_vars (setPositional vs) s)) (thrown (on_vars (setPositional vs) s))"
  by (rule sim_thrown) (rule R_setPositional)

lemma sim_control: "same_control s t \<Longrightarrow> sim R Q P s (t, Inr a) (t, Inr a)"
  by (rule sim_done) (rule control)

lemmas sim_intros = sim_then sim_return sim_fail sim_no_throw sim_if sim_option sim_list sim_succeed sim_for_each sim_for_status
  sim_write sim_assign sim_setPositional sim_signal

lemma same_control_setExported: "same_control s (s\<lparr>sh_vars := setExported n b (sh_vars s)\<rparr>)"
  by (simp add: same_control_def setExported_def set_variable_def split: option.split)

lemma same_control_set_option: "same_control s (set_option n b s)"
  by (simp add: same_control_def set_option_def)

lemma sim_set_flags: "sim R Q P s (set_flags b cs s) (set_flags b cs s)"
proof (induction cs arbitrary: s)
  case (Cons c cs)
  have "sim R Q P s (set_flags b cs (set_option n b s)) (set_flags b cs (set_option n b s))" for n
    by (rule sim_from [OF control [OF same_control_set_option] Cons.IH])
  then show ?case unfolding set_flags.simps by (intro sim_option sim_fail)
qed (simp add: sim_return)

lemma sim_set_long_option: "sim R Q P s (set_long_option n b s) (set_long_option n b s)"
  by (simp add: set_long_option_def sim_return sim_fail sim_control same_control_set_option)

lemma sim_list_options: "sim R Q P s (list_options pf io s) (list_options pf io s)"
  unfolding list_options_def by (intro sim_for_each sim_write)

lemma sim_set_loop: "sim R Q P s (set_loop pf io positional args s) (set_loop pf io positional args s)"
proof (induction args arbitrary: positional s rule: length_induct)
  case (1 args)
  note ih = 1 [rule_format]
  show ?case
  proof (cases args)
    case Nil
    then show ?thesis by (simp add: sim_return)
  next
    case (Cons a rest)
    show ?thesis
    proof (cases positional)
      case None
      show ?thesis
        unfolding Cons None set_loop.simps
        by (intro sim_if sim_list sim_then sim_set_long_option sim_list_options sim_set_flags ih) (simp_all add: Cons sim_return)
    qed (simp add: Cons ih)
  qed
qed

lemma sim_applySet: "sim R Q P s (applySet pf argv io s) (applySet pf argv io s)"
  unfolding applySet_def by (intro sim_intros sim_set_loop)

lemma sim_applyTrap: "sim R Q P s (applyTrap pf argv io s) (applyTrap pf argv io s)"
  unfolding applyTrap_def by (intro sim_intros sim_pair_fun sim_control) (simp_all add: same_control_def)

lemma sim_raise_signal: "r \<noteq> Inr Exhausted \<Longrightarrow> sim R Q P s (raise_signal s r) (raise_signal s r)"
  unfolding raise_signal_def by (rule sim_signal) (auto split: sum.split)

lemma sim_export: "sim R Q P s (builtin_export pf argv io s) (builtin_export pf argv io s)"
  unfolding builtin_export_def by (intro sim_intros sim_pair sim_pair_fun sim_control same_control_setExported)

lemma sim_shift: "sim R Q P s (builtin_shift argv io s) (builtin_shift argv io s)"
  unfolding builtin_shift_def by (intro sim_intros)

lemma sim_unset: "sim R Q P s (builtin_unset argv io s) (builtin_unset argv io s)"
  unfolding builtin_unset_def by (intro sim_intros sim_control) (simp_all add: same_control_def unset_def)

lemma special_sim: "sim R Q P s (special_builtin pf argv io s) (special_builtin pf argv io s)"
  unfolding special_builtin_def Let_def
  by (intro sim_if sim_raise_signal sim_shift sim_export sim_unset sim_applySet sim_applyTrap sim_return)
     (auto simp: bind_result_def split: sum.splits)

lemma sim_cd: "sim R Q P s (builtin_cd pf argv io s) (builtin_cd pf argv io s)"
proof -
  have "R s (fst (shell_changeDirectory path s))" for s path
    unfolding shell_changeDirectory_def by (rule R_then [OF moving R_assign])
  then have "sim R Q P s (thrown (shell_changeDirectory path s)) (thrown (shell_changeDirectory path s))" for s path
    by (rule sim_thrown)
  then show ?thesis unfolding builtin_cd_def Let_def by (intro sim_intros)
qed

lemma sim_read: "sim R Q P s (builtin_read pf argv io s) (builtin_read pf argv io s)"
  unfolding builtin_read_def Let_def
  apply (intro sim_then sim_no_throw sim_for_each sim_pair)
  subgoal for t parsed u a line reader
    by (rule sim_from [OF R_readers [of u "(sw_readers (sh_world u))[io_stdin io := reader]"]], intro sim_intros sim_pair_fun)
  done

lemma sim_local: "sim R Q P s (builtin_local argv io s) (builtin_local argv io s)"
  unfolding builtin_local_def Let_def by (intro sim_intros sim_pair sim_thrown R_declareLocal)

lemma sim_type: "sim R Q P s (builtin_type pf known argv io s) (builtin_type pf known argv io s)"
  unfolding builtin_type_def by (intro sim_intros)

lemma sim_alias: "sim R Q P s (builtin_alias pf argv io s) (builtin_alias pf argv io s)"
  unfolding builtin_alias_def by (intro sim_intros sim_pair sim_pair_fun sim_control) (simp_all add: same_control_def)

lemma sim_unalias: "sim R Q P s (builtin_unalias pf argv io s) (builtin_unalias pf argv io s)"
  unfolding builtin_unalias_def by (intro sim_intros sim_control) (simp_all add: same_control_def)

lemma regular_sim: "sim R Q P s (regular_builtin pf known argv io s) (regular_builtin pf known argv io s)"
  unfolding regular_builtin_def Let_def
  by (intro sim_intros sim_cd sim_read sim_local sim_type sim_alias sim_unalias)

end


section \<open>The interpreter\<close>

text \<open>The precondition is about the world, and the performer and the utilities keep the contract.\<close>

definition world_only :: "(shell \<Rightarrow> bool) \<Rightarrow> bool" where
  "world_only P \<longleftrightarrow> (\<forall>s t. sh_world s = sh_world t \<longrightarrow> P s = P t)"

definition callback ::
  "(shell \<Rightarrow> shell \<Rightarrow> bool) \<Rightarrow> (signal \<Rightarrow> bool) \<Rightarrow> (shell \<Rightarrow> bool) \<Rightarrow> utility_table \<Rightarrow> performer \<Rightarrow> performer \<Rightarrow> bool" where
  "callback R Q P ut ex ex' \<longleftrightarrow>
    world_only P \<and> (\<forall>t s. sim R Q P s (ex t s) (ex' t s)) \<and>
    (\<forall>name h argv io s. ut name = Some h \<longrightarrow> sim R Q P s (h argv io s) (h argv io s))"

lemma callbackD:
  assumes "callback R Q P ut ex ex'"
  shows "world_only P" "sim R Q P s (ex t s) (ex' t s)" "ut name = Some h \<Longrightarrow> sim R Q P s (h argv io s) (h argv io s)"
  using assms by (auto simp: callback_def)

lemma finally_pure: "finally_do m (\<lambda>s. (k s, Inr ())) = (k (fst m), snd m)"
  by (simp add: finally_do_def)

context execution_contract
begin

text \<open>An operation between a change of the control state and the change back.\<close>

lemma sim_bracket:
  assumes "world_only P" "sh_world s1 = sh_world s" "sim R Q P s1 m m'" "\<And>t. R s1 t \<Longrightarrow> R s (k t)"
    and "\<And>r g'. h r = Inl g' \<Longrightarrow> (\<And>g. r = Inl g \<Longrightarrow> Q g) \<Longrightarrow> Q g'"
  shows "sim R Q P s (k (fst m), h (snd m)) (k (fst m'), h (snd m'))"
proof -
  have "P s1 = P s" using assms(1,2) unfolding world_only_def by blast
  with assms(3) assms(4) [of "fst m"] assms(5) [of "snd m"] show ?thesis
    unfolding sim_def by (auto intro: assms(5))
qed

lemma sim_withCondition:
  assumes "world_only P" "\<And>s. sim R Q P s (f s) (f' s)"
  shows "sim R Q P s (withCondition active f s) (withCondition active f' s)"
proof (cases active)
  case True
  have "sim R Q P s
      ((\<lambda>t. t\<lparr>sh_conditionDepth := sh_conditionDepth t - 1\<rparr>) (fst (f (s\<lparr>sh_conditionDepth := sh_conditionDepth s + 1\<rparr>))),
       id (snd (f (s\<lparr>sh_conditionDepth := sh_conditionDepth s + 1\<rparr>))))
      ((\<lambda>t. t\<lparr>sh_conditionDepth := sh_conditionDepth t - 1\<rparr>) (fst (f' (s\<lparr>sh_conditionDepth := sh_conditionDepth s + 1\<rparr>))),
       id (snd (f' (s\<lparr>sh_conditionDepth := sh_conditionDepth s + 1\<rparr>))))"
    by (rule sim_bracket [OF assms(1) _ assms(2) conditional]) simp_all
  with True show ?thesis by (simp add: withCondition_def finally_pure)
qed (simp add: withCondition_def assms(2))

lemma R_readerFor: "R s (fst (readerFor fds fd s))"
  unfolding readerFor_def using R_new_reader R_refl by (simp split: option.split descriptor.split)

lemma R_ioFor: "R s (fst (ioFor fds s))"
  using R_readerFor [of s fds 0] by (simp add: ioFor_def Let_def case_prod_beta)

lemma R_descriptorsFor: "R s (fst (descriptorsFor io s))"
  unfolding descriptorsFor_def by (rule R_new_table)

lemma R_new_pipe: "R s (fst (new_pipe s))"
  unfolding new_pipe_def by (simp add: R_new_sink)

lemma sim_tick: "sim R Q P s (shell_tick pf s) (shell_tick pf s)"
  unfolding shell_tick_def by (rule sim_thrown) (use ticking [of s] in \<open>simp add: shell_tick_def thrown_def\<close>)

lemma sim_charge: "sim R Q P s (thrown (shell_charge pf s)) (thrown (shell_charge pf s))"
  by (rule sim_thrown) (rule charging)

lemma pipeline_stages_sim:
  assumes "callback R Q P ut ex ex'"
  shows "sim R Q P s (pipeline_stages ex fds input cs s) (pipeline_stages ex' fds input cs s)"
proof (induction cs arbitrary: input s)
  case (Cons c cs)
  have buffer: "R s (fst (if cs = [] then (s, None) else let (s, k) = new_pipe s in (s, Some k)))" for s :: shell
    using R_new_pipe [of s] R_refl by (simp add: case_prod_beta)
  show ?case
    unfolding pipeline_stages.simps Let_def
    by (intro sim_alloc [OF buffer [unfolded Let_def]] sim_alloc [OF R_new_table] sim_alloc [OF R_new_reader] sim_then sim_withCondition callbackD(1,2) [OF assms]
        sim_return Cons.IH)
qed (simp add: sim_return)

lemma executePipeline_sim:
  assumes "callback R Q P ut ex ex'"
  shows "sim R Q P s (executePipeline pf ex p fds s) (executePipeline pf ex' p fds s)"
  unfolding Let_def
  by (cases p) (simp only: executePipeline.simps Let_def, intro sim_then sim_tick sim_if callbackD(2) [OF assms] sim_alloc [OF R_readerFor]
    pipeline_stages_sim [OF assms] sim_return)

lemma sim_status: "sim R Q P (s\<lparr>sh_status := n\<rparr>) m m' \<Longrightarrow> sim R Q P s m m'"
  by (rule sim_from [OF control]) (simp_all add: same_control_def)

lemma and_or_rest_sim:
  assumes "callback R Q P ut ex ex'"
  shows "sim R Q P s (and_or_rest pf ex fds rest status s) (and_or_rest pf ex' fds rest status s)"
proof (induction rest arbitrary: status s)
  case (Cons link rest)
  have onward: "sim R Q P s (and_or_rest pf ex fds rest n (s\<lparr>sh_status := n\<rparr>)) (and_or_rest pf ex' fds rest n (s\<lparr>sh_status := n\<rparr>))" for s n
    by (rule sim_status [OF Cons.IH])
  show ?case
    by (cases link) (simp only: and_or_rest.simps, intro sim_if Cons.IH sim_then sim_withCondition [OF callbackD(1) [OF assms]] executePipeline_sim [OF assms] onward)
qed (simp add: sim_return)

lemma executeAndOr_sim:
  assumes "callback R Q P ut ex ex'"
  shows "sim R Q P s (executeAndOr pf ex l fds s) (executeAndOr pf ex' l fds s)"
  by (cases l) (simp only: executeAndOr.simps, intro sim_then sim_withCondition [OF callbackD(1) [OF assms]] executePipeline_sim [OF assms]
    sim_status [OF and_or_rest_sim [OF assms]])

lemma execute_items_sim:
  assumes "callback R Q P ut ex ex'"
  shows "sim R Q P s (execute_items pf ex fds items status s) (execute_items pf ex' fds items status s)"
proof (induction items arbitrary: status s)
  case (Cons item items)
  have onward: "sim R Q P s
      (if so_errexit (sh_options (s\<lparr>sh_status := n\<rparr>)) \<and> n \<noteq> 0 \<and> sh_conditionDepth (s\<lparr>sh_status := n\<rparr>) = 0
       then (s\<lparr>sh_status := n\<rparr>, Inl (ExitSignal n)) else execute_items pf ex fds items n (s\<lparr>sh_status := n\<rparr>))
      (if so_errexit (sh_options (s\<lparr>sh_status := n\<rparr>)) \<and> n \<noteq> 0 \<and> sh_conditionDepth (s\<lparr>sh_status := n\<rparr>) = 0
       then (s\<lparr>sh_status := n\<rparr>, Inl (ExitSignal n)) else execute_items pf ex' fds items n (s\<lparr>sh_status := n\<rparr>))" for s n
    by (rule sim_status [where n = n], intro sim_if sim_signal Cons.IH) simp
  show ?case unfolding execute_items.simps Let_def by (intro sim_then executeAndOr_sim [OF assms] onward)
qed (simp add: sim_return)

lemma executeList_sim:
  assumes "callback R Q P ut ex ex'"
  shows "sim R Q P s (executeList pf ex l fds s) (executeList pf ex' l fds s)"
  by (cases l) (simp add: execute_items_sim [OF assms])

end


context execution_contract
begin

lemma sim_moving: "sim R Q P s (thrown (in_world (on_file_system (\<lambda>fs. changeDirectory fs path)) s))
    (thrown (in_world (on_file_system (\<lambda>fs. changeDirectory fs path)) s))"
  by (rule sim_thrown) (rule moving)

text \<open>The child may be prepared before its commands run.\<close>

lemma runSubshell_sim:
  assumes "world_only P" "\<And>s. sh_world (prepare s) = sh_world s" "\<And>s. sim R Q P (prepare s) (body s) (body' s)"
  shows "sim R Q P s (runSubshell body s) (runSubshell body' s)"
proof -
  let ?k = "\<lambda>t. s\<lparr>sh_world := sh_world t\<rparr>" and ?h = "\<lambda>r. case r of Inl (ExitSignal status) \<Rightarrow> Inr status | _ \<Rightarrow> r"
  have "sh_world (prepare (fork s)) = sh_world s" by (simp add: assms(2) fork_def)
  then have "sim R Q P s (?k (fst (body (fork s))), ?h (snd (body (fork s)))) (?k (fst (body' (fork s))), ?h (snd (body' (fork s))))"
    by (intro sim_bracket [OF assms(1) _ assms(3), where k = ?k]) (auto intro: forked split: sum.splits signal.splits)
  then show ?thesis
    unfolding runSubshell_def Let_def case_prod_beta by (intro sim_if sim_fail sim_finally sim_moving)
qed

lemma substitute_sim:
  assumes "callback R Q P ut ex ex'"
  shows "sim R Q P s (substitute pf ex s script) (substitute pf ex' s script)"
proof -
  let ?child = "\<lambda>ex io child. then_do (no_throw (child\<lparr>sh_activeIo := io\<rparr>) (parseShellScript script)) (\<lambda>child program.
      case descriptorsFor io child of (child, fds) \<Rightarrow> executeList pf ex program fds child)"
  have "sim R Q P (child\<lparr>sh_activeIo := io\<rparr>) (?child ex io child) (?child ex' io child)" for io child
    by (intro sim_then sim_no_throw sim_alloc [OF R_descriptorsFor] executeList_sim [OF assms])
  then have run: "sim R Q P t (runSubshell (?child ex io) t) (runSubshell (?child ex' io) t)" for t io
    by (intro runSubshell_sim [OF callbackD(1) [OF assms], of "\<lambda>child. child\<lparr>sh_activeIo := io\<rparr>"]) simp_all
  show ?thesis
    unfolding substitute_def Let_def
    by (intro sim_alloc [OF R_new_pipe] sim_then run sim_control) (simp add: same_control_def)
qed

lemma host_of_substitute: "expansionHost pf ex' = (expansionHost pf ex)\<lparr>eh_substitute := substitute pf ex'\<rparr>"
  by (simp add: expansionHost_def)

lemma expansionHost_sim:
  assumes "callback R Q P ut ex ex'"
  shows "host_sim R Q P (expansionHost pf ex) (substitute pf ex')"
  using substitute_sim [OF assms] R_assign charging by (simp add: host_sim_def expansionHost_def)

lemma sim_words:
  assumes "callback R Q P ut ex ex'"
  shows "sim R Q P s (expandToString (expansionHost pf ex) w s) (expandToString (expansionHost pf ex') w s)"
    and "sim R Q P s (expandToPattern (expansionHost pf ex) w s) (expandToPattern (expansionHost pf ex') w s)"
    and "sim R Q P s (expandToFields (expansionHost pf ex) w s) (expandToFields (expansionHost pf ex') w s)"
    and "sim R Q P s (expand_words (expansionHost pf ex) ws s) (expand_words (expansionHost pf ex') ws s)"
  unfolding host_of_substitute [of ex' ex]
  by (rule expansion_sim expandToFields_sim expand_words_sim, rule expansionHost_sim [OF assms])+

lemma R_set_fd: "R s (set_fd fds fd d s)"
  unfolding set_fd_def by (rule R_set_table)

lemma sim_set_fd: "sim R Q P s (set_fd fds fd d s, Inr a) (set_fd fds fd d s, Inr a)"
  by (rule sim_done) (rule R_set_fd)

lemma sim_set_null: "sim R Q P s (set_null fds fd s) (set_null fds fd s)"
  unfolding set_null_def Let_def by (intro sim_alloc [OF R_new_sink] sim_set_fd) simp

lemma sim_set_reader: "sim R Q P s (set_reader fds fd bytes s) (set_reader fds fd bytes s)"
  unfolding set_reader_def Let_def by (intro sim_alloc [OF R_new_reader] sim_set_fd)

lemma sim_openReader: "sim R Q P s (openReader target s) (openReader target s)"
  unfolding openReader_def Let_def by (intro sim_if sim_alloc [OF R_new_reader] sim_return sim_then sim_no_throw)

lemma no_throw_Inr [simp]: "no_throw s r = (t, Inr a) \<longleftrightarrow> t = s \<and> r = Inr a"
  by (auto simp: no_throw_def)

lemma apply_redirection_sim:
  assumes "callback R Q P ut ex ex'"
  shows "sim R Q P s (apply_redirection pf ex fds r s) (apply_redirection pf ex' fds r s)"
  unfolding apply_redirection_def Let_def
  by (intro sim_then sim_charge sim_if sim_option sim_return sim_words [OF assms] sim_set_reader sim_fail sim_set_null sim_set_fd
      sim_openReader sim_no_throw sim_thrown opening_file creating) simp_all

lemma redirection_loop_sim:
  assumes "callback R Q P ut ex ex'"
  shows "sim R Q P s (redirection_loop pf ex fds rs s) (redirection_loop pf ex' fds rs s)"
  by (induction rs arbitrary: s) (auto intro!: sim_then sim_return apply_redirection_sim [OF assms])

lemma applyRedirections_sim:
  assumes "callback R Q P ut ex ex'"
  shows "sim R Q P s (applyRedirections pf ex rs fds s) (applyRedirections pf ex' rs fds s)"
  unfolding applyRedirections_def Let_def
  by (intro sim_if sim_return sim_alloc [OF R_new_table] sim_then redirection_loop_sim [OF assms])

lemma R_close: "R s (fst (in_world (close_sinks pf is) s))"
proof (induction "is" arbitrary: s)
  case (Cons i "is")
  have "in_world (close_sinks pf (i # is)) s = then_do (in_world (close_sink pf i) s) (\<lambda>s _. in_world (close_sinks pf is) s)"
    by (cases "close_sink pf i (sh_world s)"; cases "snd (close_sink pf i (sh_world s))") (auto simp: in_world_def)
  then show ?case by (simp only: R_then closing Cons.IH)
qed (simp add: in_world_def R_refl)

lemma sim_close: "sim R Q P s (shell_close pf is s) (shell_close pf is s)"
  unfolding shell_close_def by (rule sim_thrown) (rule R_close)

lemma sim_flush: "sim R Q P s (flushPersistentSinks pf s) (flushPersistentSinks pf s)"
  unfolding flushPersistentSinks_def by (rule sim_close)

lemma sim_settle: "sim R Q P s (settleRedirections pf applied sinks fds s) (settleRedirections pf applied sinks fds s)"
proof -
  have promote: "R s (s\<lparr>sh_persistNextRedirections := False, sh_world := set_table fds d (sh_world s), sh_persistentSinks := ps\<rparr>)" for s :: shell and d ps
    by (rule R_trans [OF R_set_table [of s fds d] control]) (simp add: same_control_def)
  show ?thesis
    unfolding settleRedirections_def Let_def
    by (rule sim_from [OF _ sim_then [OF sim_close sim_flush]]) (simp add: promote R_refl)
qed

lemma sim_report: "Q g \<Longrightarrow> sim R Q P s (reportRedirectionFailure pf g fds s) (reportRedirectionFailure pf g fds s)"
  unfolding reportRedirectionFailure_def Let_def
  by (auto split: signal.split shell_error.split intro!: sim_raise sim_alloc [OF R_ioFor] sim_then sim_write sim_return)

end


section \<open>Commands\<close>

context execution_contract
begin

lemma alias_tokens_sim:
  assumes "callback R Q P ut ex ex'"
  shows "sim R Q P s (alias_tokens pf ex alias ts s) (alias_tokens pf ex' alias ts s)"
proof (induction ts arbitrary: s)
  case (Cons t ts)
  then show ?case by (cases t) (auto intro!: sim_then sim_return sim_fail sim_words [OF assms])
qed (simp add: sim_return)

lemma alias_loop_sim:
  assumes "callback R Q P ut ex ex'"
  shows "sim R Q P s (alias_loop pf ex unseen argv s) (alias_loop pf ex' unseen argv s)"
proof (induction unseen arbitrary: argv s rule: length_induct)
  case (1 unseen argv s)
  show ?case
    unfolding alias_loop.simps [of pf ex unseen argv s] alias_loop.simps [of pf ex' unseen argv s] aliasWords_def
    by (intro sim_list sim_return sim_option sim_if sim_then sim_charge sim_no_throw alias_tokens_sim [OF assms] 1 [rule_format])
       (simp add: length_removeAll_less)
qed

lemma guard_cases:
  "guard pf name io m =
    (case m of (s, r) \<Rightarrow> (case r of
       Inl g \<Rightarrow> (case g of
         Thrown (ShellCommandError message status) \<Rightarrow>
           then_do (write_text pf (io_stderr io) (name @ '': '' @ message @ [newline]) s) (\<lambda>s _. (s, Inr status))
       | _ \<Rightarrow> (s, Inl g))
     | Inr a \<Rightarrow> (s, Inr a)))"
  by (simp add: guard_def split: prod.split sum.split signal.split shell_error.split)

lemma sim_guard: "sim R Q P s m m' \<Longrightarrow> sim R Q P s (guard pf name io m) (guard pf name io m')"
  unfolding guard_cases
  by (rule sim_case) (auto split: signal.split shell_error.split intro!: sim_return sim_raise sim_then sim_write)

lemma runSource_sim:
  assumes "callback R Q P ut ex ex'"
  shows "sim R Q P s (runSource pf ex source io s) (runSource pf ex' source io s)"
proof -
  let ?run = "\<lambda>ex program s. case descriptorsFor io (s\<lparr>sh_activeIo := io\<rparr>) of (s', fds) \<Rightarrow> executeList pf ex program fds s'"
  have run: "sim R Q P (s\<lparr>sh_activeIo := io\<rparr>) (?run ex program s) (?run ex' program s)" for program s
    by (intro sim_alloc [OF R_descriptorsFor] executeList_sim [OF assms])
  have "sim R Q P s (finally_do (?run ex program s) (\<lambda>t. (t\<lparr>sh_activeIo := sh_activeIo s\<rparr>, Inr ())))
      (finally_do (?run ex' program s) (\<lambda>t. (t\<lparr>sh_activeIo := sh_activeIo s\<rparr>, Inr ())))" for program s
    unfolding finally_pure
    by (rule sim_bracket [OF callbackD(1) [OF assms] _ run redirected, where h = "\<lambda>r. r"]) simp_all
  then show ?thesis unfolding runSource_def Let_def by (intro sim_then sim_no_throw)
qed

lemma eval_sim:
  assumes "callback R Q P ut ex ex'"
  shows "sim R Q P s (builtin_eval pf ex argv io s) (builtin_eval pf ex' argv io s)"
  unfolding builtin_eval_def Let_def by (intro sim_if sim_return runSource_sim [OF assms])

lemma sourceFile_sim:
  assumes "callback R Q P ut ex ex'"
  shows "sim R Q P s (sourceFile pf ex argv io s) (sourceFile pf ex' argv io s)"
  unfolding sourceFile_def Let_def
  by (intro sim_option sim_fail sim_then sim_no_throw sim_if sim_setPositional sim_return sim_finally runSource_sim [OF assms])

lemma call_function_sim:
  assumes "callback R Q P ut ex ex'"
  shows "sim R Q P s (call_function ex body argv io s) (call_function ex' body argv io s)"
proof -
  let ?v = "(sh_vars s)\<lparr>parameters := tl argv, depth := depth (sh_vars s) + 1, localFrames := localFrames (sh_vars s) @ [[]]\<rparr>"
  let ?run = "\<lambda>ex. case descriptorsFor io (s\<lparr>sh_vars := ?v\<rparr>) of (entered, fds) \<Rightarrow> ex (RunCommand body fds) entered"
  let ?k = "\<lambda>t. t\<lparr>sh_vars := leave_function (parameters (sh_vars s)) (sh_vars t)\<rparr>"
  let ?h = "\<lambda>r. case r of Inl (ReturnSignal status) \<Rightarrow> Inr status | _ \<Rightarrow> r"
  have "sim R Q P (s\<lparr>sh_vars := ?v\<rparr>) (?run ex) (?run ex')"
    by (intro sim_alloc [OF R_descriptorsFor] callbackD(2) [OF assms])
  then have "sim R Q P s (?k (fst (?run ex)), ?h (snd (?run ex))) (?k (fst (?run ex')), ?h (snd (?run ex')))"
    by (intro sim_bracket [OF callbackD(1) [OF assms], where k = ?k]) (auto intro: called split: sum.splits signal.splits)
  then show ?thesis
    unfolding call_function_def Let_def case_prod_beta by (simp add: sim_fail)
qed

lemma sim_env_assign: "sim R Q P s (env_assign as undo s) (env_assign as undo s)"
proof (induction "as" arbitrary: undo s)
  case (Cons a "as")
  then show ?case by (cases a) (auto simp: Let_def intro!: sim_then sim_assign)
qed (simp add: sim_return)

lemma sim_undo_env: "sim R Q P s (undo_env u s) (undo_env u s)"
  by (cases u) (auto intro!: sim_assign sim_control same_control_setExported simp: same_control_def unset_def)

lemma R_withdraw: "R s (fst (env_withdraw s))"
proof -
  have "depth (fold (\<lambda>name. setExported name False) names v) = depth v \<and>
      localFrames (fold (\<lambda>name. setExported name False) names v) = localFrames v" for names v
    by (induction names arbitrary: v) (simp_all add: setExported_def set_variable_def split: option.split)
  then show ?thesis by (simp add: env_withdraw_def Let_def R_vars)
qed

lemma invoke_each_sim:
  assumes "callback R Q P ut ex ex'"
  shows "sim R Q P s (invoke_each ex io argvs status s) (invoke_each ex' io argvs status s)"
  by (induction argvs arbitrary: status s) (auto intro!: sim_then sim_return callbackD(2) [OF assms])

lemma xargs_sim:
  assumes "callback R Q P ut ex ex'"
  shows "sim R Q P s (builtin_xargs pf ex argv io s) (builtin_xargs pf ex' argv io s)"
  unfolding builtin_xargs_def Let_def
  apply (intro sim_then sim_no_throw sim_pair)
  subgoal for t parsed raw reader
    by (rule sim_from [OF R_readers [of t "(sw_readers (sh_world t))[io_stdin io := reader]"]],
        intro sim_if sim_return sim_then sim_no_throw sim_option invoke_each_sim [OF assms])
  done

text \<open>The commands that invoke others, given that they may invoke any shorter one.\<close>

lemma exec_sim:
  assumes "\<And>args t. length args < length argv \<Longrightarrow> sim R Q P t (invoke args io t) (invoke' args io t)"
  shows "sim R Q P s (builtin_exec invoke argv io s) (builtin_exec invoke' argv io s)"
  unfolding builtin_exec_def by (intro sim_if sim_then sim_signal sim_control assms) (simp_all add: same_control_def)

lemma command_sim:
  assumes "\<And>args t. length args < length argv \<Longrightarrow> sim R Q P t (invoke args io t) (invoke' args io t)"
  shows "sim R Q P s (builtin_command pf ut invoke argv io s) (builtin_command pf ut invoke' argv io s)"
proof -
  have shadow: "same_control s (case x of None \<Rightarrow> s | Some body \<Rightarrow> s\<lparr>sh_functions := AList.update n body (sh_functions s)\<rparr>)" for s x n
    by (simp add: same_control_def split: option.split)
  have without: "sim R Q P t (invoke args io (t\<lparr>sh_functions := f\<rparr>)) (invoke' args io (t\<lparr>sh_functions := f\<rparr>))" if "length args < length argv" for t args f
    by (rule sim_from [OF control assms [OF that]]) (simp add: same_control_def)
  show ?thesis
    unfolding builtin_command_def Let_def
    by (intro sim_then sim_no_throw sim_list sim_fail sim_if sim_return sim_write sim_succeed sim_finally without sim_control shadow)
       (auto dest!: parseOptions_operands)
qed

lemma env_sim:
  assumes "\<And>args t. length args < length argv \<Longrightarrow> sim R Q P t (invoke args io t) (invoke' args io t)"
  shows "sim R Q P s (envCommand pf invoke argv io s) (envCommand pf invoke' argv io s)"
proof -
  have withdraw: "R s (fst (if clean then env_withdraw s else (s, [])))" for s clean
    using R_withdraw R_refl by simp
  have shorter: "length (dropWhile is_env_assignment (po_operands po)) < length argv"
    if "parseOptions n argv spec = Inr po" "dropWhile is_env_assignment (po_operands po) \<noteq> []" for n spec po
    using parseOptions_operands [OF that(1)] length_dropWhile_le [of is_env_assignment "po_operands po"] that(2)
    by (cases "dropWhile is_env_assignment (po_operands po)") simp_all
  show ?thesis
    unfolding envCommand_def Let_def
    by (intro sim_then sim_no_throw sim_if sim_for_each sim_pair_fun sim_write sim_succeed sim_alloc [OF withdraw] sim_env_assign sim_finally
        sim_undo_env assms shorter) simp_all
qed

lemma dispatch_sim:
  assumes "callback R Q P ut ex ex'"
  shows "sim R Q P s (dispatch pf ut ex argv io s) (dispatch pf ut ex' argv io s)"
proof (induction argv arbitrary: s rule: length_induct)
  case (1 argv s)
  note ih = 1 [rule_format]
  show ?case
    unfolding dispatch.simps [of pf ut ex argv io s] dispatch.simps [of pf ut ex' argv io s]
    by (intro sim_list sim_if sim_option sim_guard sim_then sim_write sim_return eval_sim [OF assms] sourceFile_sim [OF assms] special_sim
        regular_sim call_function_sim [OF assms] xargs_sim [OF assms] exec_sim command_sim env_sim ih callbackD(3) [OF assms]) assumption+
qed

end


context execution_contract
begin

lemma handleLoopSignal_Q: "Q g \<Longrightarrow> handleLoopSignal g = RethrowSignal g' \<Longrightarrow> Q g'"
  by (cases g) (auto simp: Q_signal split: if_splits)

lemma sim_loop_body:
  assumes "sim R Q P s m m'" "\<And>n t. sim R Q P t (onward n t) (onward' n t)"
  shows "sim R Q P s (loop_body m status onward) (loop_body m' status onward')"
  unfolding loop_body_def
  by (rule sim_case [OF assms(1)])
     (auto split: loop_outcome.split intro!: assms(2) sim_return sim_raise dest: handleLoopSignal_Q)

lemma for_values_sim:
  assumes "callback R Q P ut ex ex'"
  shows "sim R Q P s (for_values pf ex name body fds vs status s) (for_values pf ex' name body fds vs status s)"
proof (induction vs arbitrary: status s)
  case (Cons v vs)
  then show ?case
    unfolding for_values.simps by (intro sim_then sim_tick sim_assign sim_loop_body executeList_sim [OF assms])
qed (simp add: sim_return)

lemma executeFor_sim:
  assumes "callback R Q P ut ex ex'"
  shows "sim R Q P s (executeFor pf ex name words body fds s) (executeFor pf ex' name words body fds s)"
  unfolding executeFor_def by (intro sim_then sim_option sim_return sim_words [OF assms] for_values_sim [OF assms])

lemma loop_again_sim:
  assumes "callback R Q P ut ex ex'"
  shows "sim R Q P s (loop_again pf ex invert condition body fds status s) (loop_again pf ex' invert condition body fds status s)"
  unfolding loop_again_def
  by (intro sim_then sim_withCondition [OF callbackD(1) [OF assms]] executeList_sim [OF assms] sim_if sim_return sim_loop_body callbackD(2) [OF assms])

lemma if_clauses_sim:
  assumes "callback R Q P ut ex ex'"
  shows "sim R Q P s (if_clauses pf ex fds clauses otherwise s) (if_clauses pf ex' fds clauses otherwise s)"
proof (induction clauses arbitrary: s)
  case (Cons c clauses)
  then show ?case
    by (cases c) (simp only: if_clauses.simps, intro sim_then sim_withCondition [OF callbackD(1) [OF assms]] executeList_sim [OF assms] sim_if)
qed (simp add: sim_return executeList_sim [OF assms] split: option.split)

lemma match_patterns_sim:
  assumes "callback R Q P ut ex ex'"
  shows "sim R Q P s (match_patterns pf ex subject ps s) (match_patterns pf ex' subject ps s)"
proof (induction ps arbitrary: s)
  case (Cons p ps)
  then show ?case
    unfolding match_patterns.simps by (intro sim_then sim_charge sim_words [OF assms] sim_no_throw sim_if sim_return)
qed (simp add: sim_return)

lemma case_items_sim:
  assumes "callback R Q P ut ex ex'"
  shows "sim R Q P s (case_items pf ex fds subject items s) (case_items pf ex' fds subject items s)"
proof (induction items arbitrary: s)
  case (Cons item items)
  then show ?case
    by (cases item) (simp only: case_items.simps, intro sim_then match_patterns_sim [OF assms] sim_if sim_return executeList_sim [OF assms])
qed (simp add: sim_return)

lemma bare_assignments_sim:
  assumes "callback R Q P ut ex ex'"
  shows "sim R Q P s (bare_assignments pf ex as s) (bare_assignments pf ex' as s)"
proof (induction "as" arbitrary: s)
  case (Cons a "as")
  then show ?case by (cases a) (simp only: bare_assignments.simps, intro sim_then sim_words [OF assms] sim_assign)
qed (simp add: sim_return)

text \<open>The bindings to put back are the same in both runs.\<close>

lemma prefix_assignments_sim:
  assumes "callback R Q P ut ex ex'"
  shows "sim R Q P s (snd (prefix_assignments pf ex as undo s)) (snd (prefix_assignments pf ex' as undo s)) \<and>
    ((\<forall>a b. R a b \<longrightarrow> P a \<longrightarrow> P b) \<and> P s \<longrightarrow> fst (prefix_assignments pf ex' as undo s) = fst (prefix_assignments pf ex as undo s))"
proof (induction "as" arbitrary: undo s)
  case (Cons a "as")
  obtain name w where a: "a = (name, w)" by (cases a)
  obtain t r where r: "expandToString (expansionHost pf ex) w s = (t, r)" by fastforce
  note w = sim_words(1) [OF assms, of s w, unfolded r]
  show ?case
  proof (cases "(\<forall>a b. R a b \<longrightarrow> P a \<longrightarrow> P b) \<and> P s")
    case True
    with w have eq: "expandToString (expansionHost pf ex') w s = (t, r)" and t: "R s t" and q: "\<forall>g. r = Inl g \<longrightarrow> Q g"
      by (auto simp: sim_def)
    show ?thesis
    proof (cases r)
      case (Inl g)
      with q t show ?thesis by (simp add: a r eq sim_def)
    next
      case (Inr v)
      obtain u x where u: "thrown (on_vars (assign name v (Some True)) t) = (u, x)" by fastforce
      have "sim R Q P t (u, x) (u, x)" using sim_assign [of P t name v "Some True"] by (simp add: u)
      with True t have "R s u" "P u" "\<forall>g. x = Inl g \<longrightarrow> Q g" by (auto simp: sim_def intro: R_trans)
      with True Cons.IH [of u] show ?thesis
        by (cases x) (auto simp: a r eq Inr u sim_def Let_def intro: R_trans)
    qed
  next
    case False
    then show ?thesis unfolding sim_def by blast
  qed
qed (simp add: sim_return)

lemma R_restore: "R s (restore_variables undo s)"
  unfolding restore_variables_def by (rule R_vars) simp_all

lemma run_prefixed_sim:
  assumes "callback R Q P ut ex ex'"
  shows "sim R Q P s (run_prefixed pf ut ex as argv io applied sinks fds s) (run_prefixed pf ut ex' as argv io applied sinks fds s)"
proof (cases "(\<forall>a b. R a b \<longrightarrow> P a \<longrightarrow> P b) \<and> P s")
  case True
  note prefixed = prefix_assignments_sim [OF assms, of s "as" "[]"]
  have eq: "fst (prefix_assignments pf ex' as [] s) = fst (prefix_assignments pf ex as [] s)" using prefixed True by blast
  have settle: "sim R Q P t (settleRedirections pf applied sinks fds (if b then t else restore_variables undo t))
      (settleRedirections pf applied sinks fds (if b then t else restore_variables undo t))" for t b undo
    by (rule sim_from [OF _ sim_settle]) (simp add: R_restore R_refl)
  show ?thesis
    unfolding run_prefixed_def Let_def case_prod_beta eq
    by (intro sim_finally sim_then conjunct1 [OF prefixed] sim_if sim_write sim_return dispatch_sim [OF assms] settle)
next
  case False
  then show ?thesis unfolding sim_def by blast
qed

lemma command_words_sim:
  assumes "callback R Q P ut ex ex'"
  shows "sim R Q P s (command_words pf ex words fds s) (command_words pf ex' words fds s)"
proof -
  let ?io = "snd (ioFor fds s)" and ?s = "fst (ioFor fds s)"
  let ?run = "\<lambda>ex. then_do (expand_words (expansionHost pf ex) words (?s\<lparr>sh_activeIo := ?io\<rparr>)) (\<lambda>s argv. expandAliases pf ex argv s)"
  have active: "sh_activeIo ?s = sh_activeIo s"
    by (simp add: ioFor_def Let_def case_prod_beta readerFor_def in_world_def split: option.split descriptor.split)
  have "sim R Q P (?s\<lparr>sh_activeIo := ?io\<rparr>) (?run ex) (?run ex')"
    unfolding expandAliases_def by (intro sim_then sim_words [OF assms] alias_loop_sim [OF assms])
  then have "sim R Q P ?s (finally_do (?run ex) (\<lambda>t. (t\<lparr>sh_activeIo := sh_activeIo ?s\<rparr>, Inr ())))
      (finally_do (?run ex') (\<lambda>t. (t\<lparr>sh_activeIo := sh_activeIo ?s\<rparr>, Inr ())))"
    unfolding finally_pure
    by (intro sim_bracket [OF callbackD(1) [OF assms] _ _ redirected, where h = "\<lambda>r. r"]) simp_all
  then show ?thesis
    unfolding command_words_def Let_def case_prod_beta active by (rule sim_from [OF R_ioFor])
qed

lemma executeSimple_sim:
  assumes "callback R Q P ut ex ex'"
  shows "sim R Q P s (executeSimple pf ut ex as words rs fds s) (executeSimple pf ut ex' as words rs fds s)"
proof -
  have bare: "sim R Q P s (bare_assignments pf ex as (s\<lparr>sh_lastSubstitutionStatus := 0\<rparr>)) (bare_assignments pf ex' as (s\<lparr>sh_lastSubstitutionStatus := 0\<rparr>))" for s
    by (rule sim_from [OF control bare_assignments_sim [OF assms]]) (simp add: same_control_def)
  show ?thesis
    unfolding executeSimple_def Let_def
    by (intro sim_then [OF command_words_sim [OF assms]] sim_case [OF applyRedirections_sim [OF assms]] sim_pair sim_if sim_raise sim_report
        sim_alloc [OF R_ioFor] sim_finally sim_then [OF bare] sim_return sim_settle run_prefixed_sim [OF assms])
qed

lemma with_redirections_sim:
  assumes "callback R Q P ut ex ex'" "\<And>fds s. sim R Q P s (f fds s) (f' fds s)"
  shows "sim R Q P s (with_redirections pf ex rs fds f s) (with_redirections pf ex' rs fds f' s)"
  unfolding with_redirections_def
  by (intro sim_case [OF applyRedirections_sim [OF assms(1)]] sim_pair sim_report sim_finally assms(2) sim_close)

lemma command_body_sim:
  assumes "callback R Q P ut ex ex'"
  shows "sim R Q P s (command_body pf ut ex c fds s) (command_body pf ut ex' c fds s)"
proof (cases c)
  case (Subshell body rs)
  have "sim R Q P s (runSubshell (executeList pf ex body fds) s) (runSubshell (executeList pf ex' body fds) s)" for s fds
    by (rule runSubshell_sim [OF callbackD(1) [OF assms], of "\<lambda>s. s"]) (simp_all add: executeList_sim [OF assms])
  then show ?thesis by (simp add: Subshell with_redirections_sim [OF assms])
next
  case (Function name body)
  then show ?thesis by (simp add: define_function_def sim_fail sim_control same_control_def)
next
  case (Case w items rs)
  then show ?thesis
    by (simp add: executeCase_def with_redirections_sim [OF assms] sim_then [OF sim_words(1) [OF assms]] case_items_sim [OF assms])
qed (simp_all add: executeSimple_sim [OF assms] with_redirections_sim [OF assms] executeList_sim [OF assms] if_clauses_sim [OF assms]
    executeFor_sim [OF assms] executeWhile_def callbackD(2) [OF assms])

lemma perform_body_sim:
  assumes "callback R Q P ut ex ex'"
  shows "sim R Q P s (perform_body pf ut ex t s) (perform_body pf ut ex' t s)"
  by (cases t) (simp_all add: command_body_sim [OF assms] loop_again_sim [OF assms] dispatch_sim [OF assms])

end


section \<open>Whole runs\<close>

text \<open>The utilities keep the contract.\<close>

definition utilities_keep :: "(shell \<Rightarrow> shell \<Rightarrow> bool) \<Rightarrow> (signal \<Rightarrow> bool) \<Rightarrow> utility_table \<Rightarrow> bool" where
  "utilities_keep R Q ut \<longleftrightarrow>
    (\<forall>name h argv io s. ut name = Some h \<longrightarrow> R s (fst (h argv io s)) \<and> (\<forall>g. snd (h argv io s) = Inl g \<longrightarrow> Q g))"

lemma utilities_keep_none [simp]: "utilities_keep R Q (\<lambda>_. None)"
  by (simp add: utilities_keep_def)

context execution_contract
begin

lemma callbackI:
  assumes "world_only P" "utilities_keep R Q ut" "\<And>t s. sim R Q P s (ex t s) (ex' t s)"
  shows "callback R Q P ut ex ex'"
  using assms(1,3) assms(2) [unfolded utilities_keep_def] unfolding callback_def sim_def by blast

text \<open>A contract that allows every signal holds for every performer, whatever its fuel.\<close>

lemma perform_keeps:
  assumes "\<And>g. Q g" "utilities_keep R Q ut"
  shows "sim R Q (\<lambda>_. True) s (perform pf ut n t s) (perform pf ut n t s)"
proof (induction n arbitrary: t s)
  case 0
  then show ?case by (auto intro!: sim_then sim_tick sim_raise assms(1))
next
  case (Suc n)
  have "callback R Q (\<lambda>_. True) ut (perform pf ut n) (perform pf ut n)"
    by (rule callbackI [OF _ assms(2) Suc.IH]) (simp add: world_only_def)
  then show ?case by (simp add: sim_then [OF sim_tick] perform_body_sim)
qed

text \<open>
  Where a successful tick leads from each precondition to the next and none is possible at the last, more fuel makes no
  difference.
\<close>

lemma perform_fuel:
  assumes "\<And>n. world_only (G n)" "utilities_keep R Q ut" "\<And>s t. G 0 s \<Longrightarrow> shell_tick pf s \<noteq> (t, Inr ())"
    and "\<And>n s t. G (Suc n) s \<Longrightarrow> shell_tick pf s = (t, Inr ()) \<Longrightarrow> G n t" "\<And>n a b. R a b \<Longrightarrow> G n a \<Longrightarrow> G n b"
  shows "n \<le> m \<Longrightarrow> sim R Q (G n) s (perform pf ut n t s) (perform pf ut m t s)"
proof (induction n arbitrary: m t s)
  case 0
  obtain u r where u: "shell_tick pf s = (u, r)" by fastforce
  have "sim R Q (G 0) s (u, r) (u, r)" using sim_tick [of "G 0" s] by (simp add: u)
  moreover have "G 0 s \<Longrightarrow> \<exists>g. r = Inl g" using assms(3) [of s u] u by (cases r) auto
  ultimately show ?case by (cases m) (auto simp: u sim_def)
next
  case (Suc n)
  then obtain k where k: "m = Suc k" "n \<le> k" by (cases m) auto
  have "callback R Q (G n) ut (perform pf ut n) (perform pf ut k)"
    by (rule callbackI [OF assms(1,2) Suc.IH [OF k(2)]])
  then have body: "sim R Q (G n) u (perform_body pf ut (perform pf ut n) t u) (perform_body pf ut (perform pf ut k) t u)" for u
    by (rule perform_body_sim)
  obtain u r where u: "shell_tick pf s = (u, r)" by fastforce
  show ?case
  proof (cases r)
    case (Inl g)
    have "sim R Q (G (Suc n)) s (u, r) (u, r)" using sim_tick [of "G (Suc n)" s] by (simp add: u)
    with Inl show ?thesis by (simp add: k u sim_def)
  next
    case (Inr x)
    have "R s u" using sim_tick [of "\<lambda>_. True" s] by (simp add: u sim_def)
    moreover have "G n u" if "G (Suc n) s" using assms(4) [OF that] u Inr by simp
    ultimately show ?thesis using body [of u] assms(5) by (auto simp: k u Inr sim_def intro: R_trans)
  qed
qed


lemma sim_catch:
  "sim R Q P s m m' \<Longrightarrow> (\<And>g t. Q g \<Longrightarrow> sim R Q P t (f g t) (f g t)) \<Longrightarrow> sim R Q P s (catch_do m f) (catch_do m' f)"
  unfolding catch_do_def by (rule sim_case) (simp_all add: sim_return)

lemma sim_terminal: "Q g \<Longrightarrow> sim R Q P s (reportTerminalError pf g s) (reportTerminalError pf g s)"
  by (cases "(pf, g, s)" rule: reportTerminalError.cases) (auto simp: loop_kind_error_def intro!: sim_then sim_write sim_return sim_raise)

lemma interpreter_run_sim:
  assumes "callback R Q P ut ex ex'"
  shows "sim R Q P s (interpreter_run pf ex source s) (interpreter_run pf ex' source s)"
proof -
  have source: "sim R Q P s (runSource pf ex action io (s\<lparr>sh_traps := traps, sh_status := n\<rparr>)) (runSource pf ex' action io (s\<lparr>sh_traps := traps, sh_status := n\<rparr>))"
    for s action io traps n
    by (rule sim_from [OF control runSource_sim [OF assms]]) (simp add: same_control_def)
  have trap: "sim R Q P s (runExitTrap pf ex n s) (runExitTrap pf ex' n s)" for s n
    unfolding runExitTrap_def by (intro sim_option sim_return sim_catch sim_then source sim_terminal)
  show ?thesis
    unfolding interpreter_run_def Let_def
    by (intro sim_then sim_catch sim_no_throw sim_alloc [OF R_descriptorsFor] executeList_sim [OF assms] sim_terminal trap sim_flush sim_return)
qed

end

end
