(* ===== verification/Shell_Runs.thy ===== *)
theory Shell_Runs
  imports Shell_Contract
begin

text \<open>
  The contracts of a run of the interpreter, each an interpretation of the locale \<open>execution_contract\<close>: steps are only
  counted up, so every script ends; the file system is changed only where a script may write; the control state of an
  interpreter is balanced around every command; an output stream only takes writes.
\<close>

section \<open>Every script ends\<close>

definition steps_grow :: "shell \<Rightarrow> shell \<Rightarrow> bool" where
  "steps_grow s t \<longleftrightarrow> sb_steps (sw_budget (sh_world s)) \<le> sb_steps (sw_budget (sh_world t))"

definition not_exhausted :: "signal \<Rightarrow> bool" where
  "not_exhausted g \<longleftrightarrow> g \<noteq> Exhausted"

lemma tick_steps:
  "tick deadline before after 1 b = (b', Inr y) \<Longrightarrow> sb_steps b' = sb_steps b + 1 \<and> sb_steps b' \<le> AIRSHIP_SH_MAX_STEPS"
  by (auto simp: tick_def Let_def result_simps charge_Inr_iff split: if_splits)

lemma charge_grows: "0 \<le> n \<Longrightarrow> sb_steps b \<le> sb_steps (fst (charge deadline x n b))"
  by (simp add: charge_def Let_def)

lemma tick_grows: "sb_steps b \<le> sb_steps (fst (tick deadline before after 1 b))"
  by (auto simp: tick_def charge_def Let_def)

lemma same_budget_write: "sw_budget (fst (write_file pf path bytes app w)) = sw_budget w"
  by (simp add: write_file_def on_file_system_def)

lemma same_budget_open: "sw_budget (fst (open_file_sink pf path app w)) = sw_budget w"
  by (cases "write_file pf path [] False w"; cases "snd (write_file pf path [] False w)")
     (use same_budget_write [of pf path "[]" False w] in \<open>auto simp: open_file_sink_def new_sink_def\<close>)

lemma same_budget_close: "sw_budget (fst (close_sink pf i w)) = sw_budget w"
  by (simp add: close_sink_def same_budget_write set_sink_def split: byte_sink.split)

interpretation steps: execution_contract steps_grow not_exhausted pf for pf
proof unfold_locales
  show "steps_grow s (fst (shell_charge pf s))" for s
    using charge_grows [of 1] by (simp add: steps_grow_def shell_charge_def in_world_def world_charge_def Let_def)
  show "steps_grow s (fst (shell_tick pf s))" for s
    using tick_grows by (simp add: steps_grow_def shell_tick_def thrown_def in_world_def world_tick_def Let_def)
qed (auto simp: steps_grow_def not_exhausted_def same_control_def streams_step_def in_world_def same_budget_open same_budget_write
    same_budget_close on_file_system_def)

text \<open>The steps left are at most the fuel.\<close>

definition fuel_suffices :: "nat \<Rightarrow> shell \<Rightarrow> bool" where
  "fuel_suffices n s \<longleftrightarrow> AIRSHIP_SH_MAX_STEPS \<le> sb_steps (sw_budget (sh_world s)) + int n"

lemma shell_tick_steps:
  assumes "shell_tick pf s = (t, Inr ())"
  shows "sb_steps (sw_budget (sh_world t)) = sb_steps (sw_budget (sh_world s)) + 1 \<and> sb_steps (sw_budget (sh_world t)) \<le> AIRSHIP_SH_MAX_STEPS"
proof -
  obtain b r where b: "tick (pf_deadline pf) (pf_reading pf (sw_reading (sh_world s))) (pf_reading pf (sw_reading (sh_world s) + 1)) 1
      (sw_budget (sh_world s)) = (b, r)" by fastforce
  with assms obtain y where r: "r = Inr y"
    by (cases r) (auto simp: shell_tick_def thrown_def in_world_def world_tick_def Let_def)
  from tick_steps [OF b [unfolded r]] b assms show ?thesis
    by (auto simp: r shell_tick_def thrown_def in_world_def world_tick_def Let_def)
qed

lemma perform_enough:
  assumes "utilities_keep steps_grow not_exhausted ut" "n \<le> m"
  shows "sim steps_grow not_exhausted (fuel_suffices n) s (perform pf ut n t s) (perform pf ut m t s)"
proof (rule steps.perform_fuel [OF _ assms(1) _ _ _ assms(2)])
  show "shell_tick pf s \<noteq> (t, Inr ())" if "fuel_suffices 0 s" for s t
    using that shell_tick_steps [of pf s t] by (auto simp: fuel_suffices_def)
  show "fuel_suffices n t" if "fuel_suffices (Suc n) s" "shell_tick pf s = (t, Inr ())" for n s t
    using that(1) shell_tick_steps [OF that(2)] by (simp add: fuel_suffices_def)
qed (auto simp: world_only_def fuel_suffices_def steps_grow_def)

lemma perform_enough_callback:
  assumes "utilities_keep steps_grow not_exhausted ut" "n \<le> m"
  shows "callback steps_grow not_exhausted (fuel_suffices n) ut (perform pf ut n) (perform pf ut m)"
  by (rule steps.callbackI [OF _ assms(1) perform_enough [OF assms]]) (simp add: world_only_def fuel_suffices_def)

lemma fuel_suffices_grows: "steps_grow a b \<Longrightarrow> fuel_suffices n a \<Longrightarrow> fuel_suffices n b"
  by (simp add: fuel_suffices_def steps_grow_def)


text \<open>C7: Every script ends: with the fuel of one task for each step of the budget, \<open>runShellScript\<close> returns a result or rejects
  as the code does and never because the model ran out of fuel, and any larger fuel gives the same answer. Loops,
  recursive functions, nested substitutions and \<open>eval\<close> included; of the utilities it is only needed that they do not
  count steps back.\<close>

theorem every_script_ends:
  assumes "utilities_keep steps_grow not_exhausted ut" "run_fuel \<le> n"
  shows "runShellScript pf ut ro \<noteq> Inl (Rethrown Exhausted) \<and>
    runShellScript pf ut ro =
      run_with (pf\<lparr>pf_deadline := ro_startTime ro + ro_timeoutMs ro\<rparr>)
        (perform (pf\<lparr>pf_deadline := ro_startTime ro + ro_timeoutMs ro\<rparr>) ut n) ro"
proof -
  let ?pf = "pf\<lparr>pf_deadline := ro_startTime ro + ro_timeoutMs ro\<rparr>"
  let ?m = "\<lambda>n. interpreter_run ?pf (perform ?pf ut n) (ro_script ro) (run_shell ro)"
  have "sim steps_grow not_exhausted (fuel_suffices run_fuel) (run_shell ro) (?m run_fuel) (?m n)"
    by (rule steps.interpreter_run_sim [OF perform_enough_callback [OF assms]])
  moreover have "fuel_suffices run_fuel (run_shell ro)"
    by (simp add: fuel_suffices_def run_fuel_def run_shell_def Interpreter_def run_world_def ShellBudget_def)
  ultimately have eq: "?m n = ?m run_fuel" and q: "\<forall>g. snd (?m run_fuel) = Inl g \<longrightarrow> g \<noteq> Exhausted"
    using fuel_suffices_grows by (auto simp: sim_def not_exhausted_def)
  have "run_failed g \<noteq> Rethrown Exhausted" if "g \<noteq> Exhausted" for g
    using that by (cases g rule: run_failed.cases) auto
  with q have "runShellScript pf ut ro \<noteq> Inl (Rethrown Exhausted)"
    by (auto simp: runShellScript_def run_with_def Let_def split: prod.splits sum.splits if_splits)
  with eq show ?thesis by (simp add: runShellScript_def run_with_def Let_def)
qed

section \<open>What a script may change\<close>

text \<open>The file system is well formed and every open file sink has a canonical path.\<close>

definition files_ok :: "shell_world \<Rightarrow> bool" where
  "files_ok w \<longleftrightarrow> fs_ok (sw_fs w) \<and> (\<forall>path chunks. FileSink path chunks \<in> set (sw_sinks w) \<longrightarrow> canonical path)"

definition confined_step :: "shell_world \<Rightarrow> shell_world \<Rightarrow> bool" where
  "confined_step w w' \<longleftrightarrow>
    (files_ok w \<longrightarrow> files_ok w' \<and> same_outside (\<lambda>p. \<not> protected (sw_fs w) p) (sw_fs w) (sw_fs w') \<and>
      (fs_within (sw_fs w) \<longrightarrow> fs_within (sw_fs w')))"

definition confined :: "shell \<Rightarrow> shell \<Rightarrow> bool" where
  "confined s t \<longleftrightarrow> confined_step (sh_world s) (sh_world t)"

lemma confined_refl: "confined_step w w"
  by (simp add: confined_step_def)

lemma confined_trans:
  assumes "confined_step u v" "confined_step v w"
  shows "confined_step u w"
proof -
  have "protected (sw_fs v) = protected (sw_fs u)" if "files_ok u"
    using assms(1) that by (intro protected_root) (simp add: confined_step_def same_outside_def)
  with assms show ?thesis unfolding confined_step_def by (metis same_outside_trans)
qed

lemma sink_step_file: "sink_step k (FileSink path chunks) \<Longrightarrow> \<exists>chunks'. k = FileSink path chunks'"
  by (cases k) auto

lemma confined_streams:
  assumes "streams_step w w'"
  shows "confined_step w w'"
proof -
  obtain changed new where w: "sw_fs w' = sw_fs w" "sw_sinks w' = changed @ new" "list_all2 sink_step (sw_sinks w) changed" "list_all plain_sink new"
    using assms by (auto simp: streams_step_def)
  have "canonical path" if ok: "files_ok w" and f: "FileSink path chunks \<in> set (sw_sinks w')" for path chunks
  proof -
    have "FileSink path chunks \<in> set changed" using f w(2,4) by (auto simp: list_all_iff)
    then obtain i where i: "i < length changed" "changed ! i = FileSink path chunks" by (auto simp: in_set_conv_nth)
    with w(3) obtain chunks' where "sw_sinks w ! i = FileSink path chunks'" "i < length (sw_sinks w)"
      using sink_step_file by (metis list_all2_lengthD list_all2_nthD2)
    with ok show ?thesis by (metis files_ok_def nth_mem)
  qed
  with w(1) show ?thesis by (auto simp: confined_step_def files_ok_def)
qed

lemma confined_write:
  assumes "canonical path"
  shows "confined_step w (fst (write_file pf path bytes app w))"
  using op_at_keeps [of "sw_fs w" path 0 "pf_stamp pf (sw_reading w)" "WriteOp path bytes app"] assms
  by (auto simp: confined_step_def files_ok_def write_file_def on_file_system_def prod_eq_iff)

lemma confined_open:
  assumes "canonical path"
  shows "confined_step w (fst (open_file_sink pf path app w))"
proof -
  have sink: "confined_step w (fst (new_sink (FileSink path []) w))" for w
    using assms by (auto simp: confined_step_def files_ok_def new_sink_def)
  obtain w1 r where r: "(if \<not> app \<or> \<not> isFile (sw_fs w) path then write_file pf path [] False w else (w, Inr ())) = (w1, r)" by fastforce
  then have "confined_step w w1" using confined_write [OF assms, of w pf "[]" False] confined_refl by (auto split: if_splits)
  moreover from this have "confined_step w (fst (new_sink (FileSink path []) w1))" by (rule confined_trans [OF _ sink])
  ultimately show ?thesis unfolding open_file_sink_def r by (cases r) simp_all
qed

lemma confined_close: "confined_step w (fst (close_sink pf i w))"
proof (cases "sink_at w i")
  case (FileSink path chunks)
  have empty: "confined_step w (set_sink i (FileSink path []) w)"
    using FileSink by (intro confined_streams streams_step_sink) (simp add: sink_at_def)
  show ?thesis
  proof (cases "files_ok w \<and> chunks \<noteq> []")
    case True
    with FileSink have "FileSink path chunks \<in> set (sw_sinks w)" by (metis byte_sink.distinct(11) nth_mem sink_at_def)
    with True have "canonical path" by (auto simp: files_ok_def)
    from confined_trans [OF empty confined_write [OF this]] True FileSink show ?thesis by (simp add: close_sink_def)
  qed (use FileSink confined_refl in \<open>auto simp: close_sink_def confined_step_def\<close>)
qed (simp_all add: close_sink_def confined_refl)

lemma confined_move: "confined_step w (fst (on_file_system (\<lambda>fs. changeDirectory fs path) w))"
proof -
  obtain fs u where fs: "changeDirectory (sw_fs w) path = (fs, u)" by fastforce
  have "same_outside (\<lambda>p. \<not> protected (sw_fs w) p) (sw_fs w) fs" by (rule same_outside_mono [OF changeDirectory_changes [OF fs]]) simp
  then show ?thesis
    using fs_ok_changeDirectory [OF _ fs] within_files [OF _ files_kept(3) [OF fs]]
    by (auto simp: confined_step_def files_ok_def on_file_system_def fs)
qed

lemma resolved_canonical: "files_ok w \<Longrightarrow> fs_resolve (sw_fs w) target = Inr path \<Longrightarrow> canonical path"
  using resolve_canonical fs_okD(8) by (auto simp: files_ok_def)

lemma confined_budget [simp]: "confined_step w (w\<lparr>sw_budget := b, sw_reading := n\<rparr>)"
  by (simp add: confined_step_def files_ok_def)

interpretation confinement: execution_contract confined "\<lambda>_. True" pf for pf
proof unfold_locales
  show "confined s u" if "confined s t" "confined t u" for s t u
    using that confined_trans by (auto simp: confined_def)
  show "confined s (s\<lparr>sh_world := w\<rparr>)" if "streams_step (sh_world s) w" for s w
    using confined_streams [OF that] by (simp add: confined_def)
  show "confined s (fst (in_world (open_file_sink pf path appending) s))" if "fs_resolve (sh_fs s) target = Inr path" for s target path appending
    using confined_open [of path "sh_world s" pf appending] resolved_canonical [OF _ that] by (auto simp: confined_def confined_step_def in_world_def)
  show "confined s (fst (in_world (write_file pf path [] False) s))" if "fs_resolve (sh_fs s) target = Inr path" for s target path
    using confined_write [of path "sh_world s" pf "[]" False] resolved_canonical [OF _ that] by (auto simp: confined_def confined_step_def in_world_def)
qed (auto simp: confined_def confined_refl same_control_def shell_charge_def shell_tick_def thrown_def in_world_def world_charge_def
    world_tick_def Let_def confined_close confined_move intro: confined_streams streams_step_same)


text \<open>Utilities reach the file system through its operations, and write only to the streams they are given.\<close>

definition utilities_use_fs :: "utility_table \<Rightarrow> bool" where
  "utilities_use_fs ut \<longleftrightarrow>
    (\<forall>name h argv io s. ut name = Some h \<longrightarrow>
      (\<exists>stack calls. sh_fs (fst (h argv io s)) = fs_run stack calls (sh_fs s)) \<and>
      (\<forall>path chunks. FileSink path chunks \<in> set (sw_sinks (sh_world (fst (h argv io s)))) \<longrightarrow>
        (\<exists>chunks'. FileSink path chunks' \<in> set (sw_sinks (sh_world s)))))"

lemma utilities_confined:
  assumes "utilities_use_fs ut"
  shows "utilities_keep confined (\<lambda>_. True) ut"
  unfolding utilities_keep_def
proof (intro allI impI conjI)
  fix name h argv io s
  assume h: "ut name = Some h"
  then obtain stack calls where fs: "sh_fs (fst (h argv io s)) = fs_run stack calls (sh_fs s)"
    and sinks: "\<forall>path chunks. FileSink path chunks \<in> set (sw_sinks (sh_world (fst (h argv io s)))) \<longrightarrow>
        (\<exists>chunks'. FileSink path chunks' \<in> set (sw_sinks (sh_world s)))"
    using assms unfolding utilities_use_fs_def by meson
  show "confined s (fst (h argv io s))"
    using fs_run_keeps [of "sh_fs s" stack calls] sinks unfolding confined_def confined_step_def files_ok_def fs by blast
qed simp

text \<open>C6: A script is confined to the workspace: whatever it runs and however it ends, in the file system it leaves behind every path
  outside the mounted root and the scratch tree, and every path below a \<open>.airship\<close>, \<open>.git\<close> or \<open>node_modules\<close> segment of the
  root, has the file or directory it had before, or none if there was none. Of the utilities it is needed that they use
  the operations of the file system.\<close>

theorem whole_run_confined:
  assumes "canonical (ro_root ro)" "list_all (\<lambda>e. canonical (se_path e)) (ro_files ro)" "utilities_use_fs ut"
    and "protected (ShellFileSystem (ro_root ro) (ro_files ro) (ro_startedAt ro)) p"
  shows "map_of (fs_files (sh_fs (fst (interpreter_run pf (perform pf ut n) source (run_shell ro))))) p =
      map_of (fs_files (ShellFileSystem (ro_root ro) (ro_files ro) (ro_startedAt ro))) p \<and>
    (isDirectory (sh_fs (fst (interpreter_run pf (perform pf ut n) source (run_shell ro)))) p \<longleftrightarrow>
      isDirectory (ShellFileSystem (ro_root ro) (ro_files ro) (ro_startedAt ro)) p)"
proof -
  note keep = utilities_confined [OF assms(3)]
  have "callback confined (\<lambda>_. True) (\<lambda>_. True) ut (perform pf ut n) (perform pf ut n)"
    by (rule confinement.callbackI [OF _ keep confinement.perform_keeps [OF _ keep]]) (simp_all add: world_only_def)
  from confinement.interpreter_run_sim [OF this, of "run_shell ro" pf source]
  have "confined (run_shell ro) (fst (interpreter_run pf (perform pf ut n) source (run_shell ro)))"
    by (simp add: sim_def)
  moreover have "sh_fs (run_shell ro) = ShellFileSystem (ro_root ro) (ro_files ro) (ro_startedAt ro)"
    by (simp add: run_shell_def Interpreter_def run_world_def)
  moreover have "files_ok (sh_world (run_shell ro))"
    using mount_ok [OF assms(1,2)] by (simp add: files_ok_def run_shell_def Interpreter_def run_world_def)
  ultimately show ?thesis using assms(4) by (simp add: confined_def confined_step_def same_outside_def)
qed

section \<open>The control state is balanced\<close>

definition balanced :: "shell \<Rightarrow> shell \<Rightarrow> bool" where
  "balanced s t \<longleftrightarrow>
    sh_conditionDepth t = sh_conditionDepth s \<and> sh_activeIo t = sh_activeIo s \<and> sh_rootIo t = sh_rootIo s \<and>
    depth (sh_vars t) = depth (sh_vars s) \<and> length (localFrames (sh_vars t)) = length (localFrames (sh_vars s)) \<and>
    sh_scriptName t = sh_scriptName s \<and> sh_runId t = sh_runId s"

interpretation balance: execution_contract balanced "\<lambda>_. True" pf for pf
  by unfold_locales (auto simp: balanced_def same_control_def shell_charge_def shell_tick_def thrown_def in_world_def leave_function_def)

text \<open>C10: Every command leaves the interpreter as it found it, however it ends, by a status, an error or a signal on its way out of
  loops, functions and conditions: the depth of conditions that suspends \<open>errexit\<close>, the streams of substitutions, the
  nesting depth and the number of function frames are those from before the command.\<close>

theorem control_state_balanced:
  assumes "utilities_keep balanced (\<lambda>_. True) ut" "executeCommand pf ut n c fds s = (t, r)"
  shows "sh_conditionDepth t = sh_conditionDepth s \<and> sh_activeIo t = sh_activeIo s \<and> sh_rootIo t = sh_rootIo s \<and>
    depth (sh_vars t) = depth (sh_vars s) \<and> length (localFrames (sh_vars t)) = length (localFrames (sh_vars s))"
  using balance.perform_keeps [OF _ assms(1), of s pf n "RunCommand c fds"] assms(2)
  by (simp add: sim_def executeCommand_def balanced_def)


section \<open>Subshells\<close>

lemma fork_lookup_offset:
  assumes "\<And>i. i < length xs \<Longrightarrow> hs ! (m + i) = h (snd (xs ! i))"
  shows "map_option ((!) hs) (map_of (zip (map fst xs) [m..<m + length xs]) k) = map_option h (map_of xs k)"
  using assms
proof (induction xs arbitrary: m)
  case (Cons x xs)
  have "map_option ((!) hs) (map_of (zip (map fst xs) [Suc m..<Suc m + length xs]) k) = map_option h (map_of xs k)"
    using Cons.prems [of "Suc _"] by (intro Cons.IH) simp
  with Cons.prems [of 0] show ?case by (cases x) (simp add: upt_conv_Cons del: upt_Suc)
qed simp

lemma fork_lookup: "lookup (fork_vars v) name = lookup v name"
proof -
  have "variable (fork_vars v) name = variable v name"
    using fork_lookup_offset [of "variables v" "heap (fork_vars v)" 0 "\<lambda>a. heap v ! a" name]
    by (simp add: variable_def fork_vars_def case_prod_beta)
  then show ?thesis by (simp add: lookup_def)
qed

lemma changeDirectory_current: "changeDirectory fs path = (fs', Inr u) \<Longrightarrow> fs_current fs' = path"
  by (auto simp: changeDirectory_def on_fs_def result_simps split: if_splits sum.splits)

lemma runSubshell_isolated:
  assumes "runSubshell body s = (t, r)"
  shows "t = s\<lparr>sh_world := sh_world t\<rparr> \<and> (\<forall>status. r = Inr status \<longrightarrow> fs_current (sh_fs t) = fs_current (sh_fs s))"
proof (cases "AIRSHIP_SH_MAX_DEPTH \<le> depth (sh_vars s)")
  case False
  let ?s = "s\<lparr>sh_world := sh_world (fst (body (fork s)))\<rparr>"
  obtain fs u where fs: "changeDirectory (sh_fs ?s) (fs_current (sh_fs s)) = (fs, u)" by fastforce
  show ?thesis
    using assms False changeDirectory_current [of "sh_fs ?s" "fs_current (sh_fs s)" fs] fs
    by (cases u) (auto simp: runSubshell_def Let_def case_prod_beta finally_do_def in_world_def on_file_system_def thrown_def)
qed (use assms in \<open>auto simp: runSubshell_def fail_def\<close>)


section \<open>Output\<close>

definition outputs_written :: "shell \<Rightarrow> shell \<Rightarrow> bool" where
  "outputs_written s t \<longleftrightarrow>
    (\<forall>i b. i < length (sw_sinks (sh_world s)) \<and> sw_sinks (sh_world s) ! i = OutputSink b \<longrightarrow>
      i < length (sw_sinks (sh_world t)) \<and> (\<exists>chunks. sw_sinks (sh_world t) ! i = OutputSink (output_writes (\<lambda>_. []) chunks b)))"

lemma output_writes_decode: "output_writes decode chunks b = output_writes (\<lambda>_. []) chunks b"
  by (induction chunks arbitrary: b) (simp_all add: output_writes_def output_write_def Let_def)

lemma output_writes_append: "output_writes d cs (output_writes d bs b) = output_writes d (bs @ cs) b"
  by (simp add: output_writes_def)

lemma output_writes_none: "output_writes d [] b = b"
  by (simp add: output_writes_def)

lemma outputs_same: "sw_sinks (sh_world t) = sw_sinks (sh_world s) @ new \<Longrightarrow> outputs_written s t"
  by (auto simp: outputs_written_def nth_append intro: exI [of _ "[]"] simp: output_writes_none)

lemma outputs_streams:
  assumes "streams_step (sh_world s) w"
  shows "outputs_written s (s\<lparr>sh_world := w\<rparr>)"
proof -
  obtain changed new where w: "sw_sinks w = changed @ new" "list_all2 sink_step (sw_sinks (sh_world s)) changed"
    using assms by (auto simp: streams_step_def)
  have "i < length (sw_sinks w) \<and> (\<exists>chunks. sw_sinks w ! i = OutputSink (output_writes (\<lambda>_. []) chunks b))"
    if "i < length (sw_sinks (sh_world s))" "sw_sinks (sh_world s) ! i = OutputSink b" for i b
  proof -
    have "sink_step (OutputSink b) (changed ! i)" "i < length changed"
      using that w(2) by (auto simp: list_all2_conv_all_nth)
    with w(1) show ?thesis using output_writes_decode [of _ _ b] by (auto simp: nth_append) blast
  qed
  then show ?thesis by (simp add: outputs_written_def)
qed

lemma outputs_trans: "outputs_written s t \<Longrightarrow> outputs_written t u \<Longrightarrow> outputs_written s u"
  unfolding outputs_written_def by (metis output_writes_append)

lemma outputs_write_file: "sw_sinks (fst (write_file pf path bytes app w)) = sw_sinks w"
  by (simp add: write_file_def on_file_system_def)

lemma outputs_open: "\<exists>new. sw_sinks (fst (open_file_sink pf path app w)) = sw_sinks w @ new"
  by (cases "write_file pf path [] False w"; cases "snd (write_file pf path [] False w)")
     (use outputs_write_file [of pf path "[]" False w] in \<open>auto simp: open_file_sink_def new_sink_def\<close>)

lemma outputs_close: "outputs_written s (s\<lparr>sh_world := fst (close_sink pf i (sh_world s))\<rparr>)"
proof (cases "sink_at (sh_world s) i")
  case (FileSink path chunks)
  have "streams_step (sh_world s) (set_sink i (FileSink path []) (sh_world s))"
    using FileSink by (intro streams_step_sink) (simp add: sink_at_def)
  from outputs_trans [OF outputs_streams [OF this] outputs_same [of _ _ "[]"]] FileSink show ?thesis
    by (auto simp: close_sink_def outputs_write_file intro: outputs_same)
qed (auto simp: close_sink_def intro: outputs_same)

lemma outputs_cong: "outputs_written s' t' \<Longrightarrow> sh_world s' = sh_world s \<Longrightarrow> sh_world t' = sh_world t \<Longrightarrow> outputs_written s t"
  by (simp add: outputs_written_def)

interpretation outputs: execution_contract outputs_written "\<lambda>_. True" pf for pf
proof unfold_locales
  show "outputs_written s u" if "outputs_written s t" "outputs_written t u" for s t u
    using that by (rule outputs_trans)
  show "outputs_written s (fst (in_world (open_file_sink pf path appending) s))" for s path appending
    using outputs_open [of pf path appending "sh_world s"] by (auto simp: in_world_def intro: outputs_same)
qed (auto simp: outputs_streams outputs_close in_world_def outputs_write_file same_control_def on_file_system_def shell_charge_def shell_tick_def
    thrown_def world_charge_def world_tick_def Let_def intro: outputs_same [of _ _ "[]"] elim: outputs_cong)



section \<open>A small run\<close>

definition plain_platform :: platform where
  "plain_platform = \<lparr>pf_encode = (\<lambda>t. t), pf_decode = (\<lambda>b. b), pf_reading = (\<lambda>_. \<lparr>aborted = False, now = 0\<rparr>), pf_stamp = (\<lambda>_. ''u''), pf_deadline = 0\<rparr>"

definition demo_run :: "string \<Rightarrow> shell_run_options" where
  "demo_run script =
    \<lparr>ro_script = script, ro_root = ''/workspace'',
     ro_files = [\<lparr>se_path = ''/workspace/.git/config'', se_bytes = ''x'', se_revision = ''r'', se_updatedAt = ''t''\<rparr>],
     ro_args = [], ro_env = [], ro_timeoutMs = 1000, ro_runId = 1, ro_startedAt = ''t'', ro_startTime = 0\<rparr>"

text \<open>An interpreter with no stream open, and a subshell that defines a function.\<close>

definition small_shell :: shell where
  "small_shell = Interpreter [] [] ''airship-sh'' 1 \<lparr>io_stdin = 0, io_stdout = 0, io_stderr = 0\<rparr>
    \<lparr>sw_fs = demo_mount, sw_budget = ShellBudget, sw_sinks = [NullSink], sw_readers = [], sw_tables = [[]], sw_reading = 0\<rparr>"

definition small_subshell :: command_list where
  "small_subshell = CommandList [AndOrList (Pipeline False [Function ''f'' (Group (CommandList []) [])]) []]"

theorem every_script_ends_witness:
  "runShellScript plain_platform (\<lambda>_. None) (demo_run ''while true; do :; done'') \<noteq> Inl (Rethrown Exhausted)"
  using every_script_ends [of "\<lambda>_. None" run_fuel plain_platform "demo_run ''while true; do :; done''"]
    utilities_keep_none by blast

theorem whole_run_confined_witness:
  "map_of (fs_files (sh_fs (fst (interpreter_run plain_platform (perform plain_platform (\<lambda>_. None) 9) ''echo evil > .git/config''
      (run_shell (demo_run ''echo evil > .git/config'')))))) ''/workspace/.git/config'' = Some \<lparr>fn_bytes = ''x'', fn_updatedAt = ''t''\<rparr>"
proof -
  let ?ro = "demo_run ''echo evil > .git/config''"
  have "canonical (ro_root ?ro)" "list_all (\<lambda>e. canonical (se_path e)) (ro_files ?ro)"
    "protected (ShellFileSystem (ro_root ?ro) (ro_files ?ro) (ro_startedAt ?ro)) ''/workspace/.git/config''"
    "map_of (fs_files (ShellFileSystem (ro_root ?ro) (ro_files ?ro) (ro_startedAt ?ro))) ''/workspace/.git/config'' = Some \<lparr>fn_bytes = ''x'', fn_updatedAt = ''t''\<rparr>"
    by code_simp+
  with whole_run_confined [of ?ro "\<lambda>_. None"] show ?thesis by (simp add: utilities_use_fs_def)
qed

theorem control_state_balanced_witness:
  "sh_conditionDepth (fst (executeCommand plain_platform (\<lambda>_. None) 3 (Subshell small_subshell []) 0 small_shell)) = 0"
  using control_state_balanced [of "\<lambda>_. None" plain_platform 3 "Subshell small_subshell []" 0 small_shell]
  by (cases "executeCommand plain_platform (\<lambda>_. None) 3 (Subshell small_subshell []) 0 small_shell") (simp add: small_shell_def Interpreter_def)




section \<open>Failures of commands\<close>

text \<open>The error of a command, which is a status with a diagnostic.\<close>

fun command_error :: "signal + 'a \<Rightarrow> bool" where
  "command_error (Inl (Thrown (ShellCommandError message status))) = True"
| "command_error _ = False"

lemma write_text_no_command_error: "\<not> command_error (snd (write_text pf i t s))"
proof -
  have "\<exists>e. snd (sink_write pf i bytes w) = Inr () \<or> snd (sink_write pf i bytes w) = Inl (ShellFatalError Budget e)" for bytes w
    by (auto simp: sink_write_def pipe_write_def Let_def split: byte_sink.split)
  from this [of "pf_encode pf t" "sh_world s"] show ?thesis
    by (auto simp: write_text_def thrown_def in_world_def)
qed

lemma command_error_then: "\<not> command_error (snd m) \<Longrightarrow> (\<And>s a. \<not> command_error (snd (f s a))) \<Longrightarrow> \<not> command_error (snd (then_do m f))"
  by (cases m; cases "snd m") (auto elim!: command_error.elims)

lemma guard_no_command_error: "\<not> command_error (snd (guard pf name io m))"
proof -
  have "\<not> command_error (snd (then_do (write_text pf i t s) (\<lambda>s _. (s, Inr n))))" for i t s and n :: nat
    by (rule command_error_then [OF write_text_no_command_error]) simp
  then show ?thesis
    by (cases m; cases "snd m") (auto simp: steps.guard_cases split: signal.split shell_error.split)
qed



lemma execute_items_append:
  "execute_items pf ex fds (xs @ ys) status s = then_do (execute_items pf ex fds xs status s) (\<lambda>s status. execute_items pf ex fds ys status s)"
  by (induction xs arbitrary: status s) (auto simp: Let_def then_do_def split: prod.split sum.split)

text \<open>C13: With \<open>errexit\<close> set and no condition around it, the first command of a list that fails ends the script with its
  status: the commands before it have run, none after it does, whatever they are. In particular a list returns normally
  only with the status 0 of its last command.\<close>

theorem errexit_stops_at_failure:
  assumes "executeList pf ex (CommandList before) fds s = (u, Inr n)" "executeAndOr pf ex item fds u = (v, Inr status)"
    and "so_errexit (sh_options v)" "sh_conditionDepth v = 0"
  shows "(status \<noteq> 0 \<longrightarrow>
      executeList pf ex (CommandList (before @ item # after)) fds s = (v\<lparr>sh_status := status\<rparr>, Inl (ExitSignal status))) \<and>
    (\<forall>t r. executeList pf ex (CommandList (before @ [item])) fds s = (t, Inr r) \<longrightarrow> r = 0 \<and> status = 0)"
  using assms by (simp add: execute_items_append Let_def then_do_def)

theorem errexit_stops_at_failure_witness:
  "snd (executeList plain_platform (perform plain_platform (\<lambda>_. None) 1)
    (CommandList [AndOrList (Pipeline True [Function ''f'' (Group (CommandList []) [])]) [], AndOrList (Pipeline False []) []]) 0
    (set_option ''errexit'' True small_shell)) = Inl (ExitSignal 1)"
proof -
  let ?s = "set_option ''errexit'' True small_shell" and ?ex = "perform plain_platform (\<lambda>_. None) 1"
  let ?item = "AndOrList (Pipeline True [Function ''f'' (Group (CommandList []) [])]) []"
  let ?m = "executeAndOr plain_platform ?ex ?item 0 ?s"
  have m: "snd ?m = Inr 1" "so_errexit (sh_options (fst ?m))" "sh_conditionDepth (fst ?m) = 0" by code_simp+
  then show ?thesis
    using errexit_stops_at_failure [of plain_platform ?ex "[]" 0 ?s ?s "sh_status ?s" ?item "fst ?m" 1 "[AndOrList (Pipeline False []) []]"]
    by (simp add: prod_eq_iff del: executeAndOr.simps)
qed

text \<open>The check looks at the status of the whole list: a command that is only tested, as \<open>false\<close> in \<open>false && true\<close>, ends the
  script as well.\<close>

lemma tested_command_ends_the_script:
  assumes "withCondition True (executePipeline pf ex p fds) s = (v, Inr status)" "status \<noteq> 0"
    and "so_errexit (sh_options v)" "sh_conditionDepth v = 0"
  shows "snd (executeList pf ex (CommandList (AndOrList p [(''&&'', q)] # after)) fds s) = Inl (ExitSignal status)"
  using assms by (simp add: Let_def then_do_def)

end
