(* ===== verification/Spec2Isabelle.thy ===== *)
theory Spec2Isabelle
  imports Content_Codec Profile_Workspace Memory_Journal Approval_Modes Shell_Runs
begin

text \<open>
  \<^bold>\<open>Verification of the core of Airship.\<close>

  Airship (\<open>src/src\<close>) is an agent that runs in a browser page: a loop over an inference provider whose tools read
  and write a workspace of files, run shell scripts and ask a person for approval, and whose every step is recorded in
  an event journal. This library models the parts that decide what is safe and what is recorded, and proves what they
  promise. User interface, provider adapters and platform storage are outside it.

  \<^bold>\<open>Parts and how they interact.\<close>
  \<^item> A \<^emph>\<open>workspace\<close> maps paths to files. Paths are normalised once at its boundary; a profile sees a prefixed
    view of the same store; writes are compare-and-swap on a revision.
  \<^item> The \<^emph>\<open>journal\<close> appends events to a session's hash chain through a storage backend; a record of
    overrides (title, model, approval mode, context policy) is projected from the events.
  \<^item> The \<^emph>\<open>approval policies\<close> decide each effect by mode, by rule or by putting a question to a person through
    the \<^emph>\<open>broker\<close>; the outcome is recorded as provenance.
  \<^item> The \<^emph>\<open>shell\<close> (\<open>airship-sh\<close>) runs scripts on an in-memory copy of a workspace subtree: characters, tokens,
    syntax tree, expanded words, commands over a file system, streams and variables, all under a step budget.

  \<^bold>\<open>Theories, in the order of the code.\<close>
  \<^item> \<open>Prelude\<close>: results (\<open>bind_result\<close>), splitting and joining of strings, sorting by a comparison (locale
    \<open>comparator\<close>), ordered association tables.
  \<^item> \<open>Workspace_Path\<close>: \<open>workspace/contracts.ts\<close>, \<open>addressing.ts\<close>, \<open>tree.ts\<close>. Accepted paths are confined and canonical.
  \<^item> \<open>Content_Codec\<close>: \<open>workspace/content-codec.ts\<close>. Bytes survive the text envelope.
  \<^item> \<open>Memory_Workspace\<close>: \<open>workspace/memory.ts\<close>, \<open>mutations.ts\<close>. The locale of a compare-and-swap store and its
    interpretation on the page-memory store; a move is all or nothing under interference.
  \<^item> \<open>Profile_Workspace\<close>: \<open>workspace/profile-scope.ts\<close>. A profile's port is again such a store, and profiles are
    isolated from each other.
  \<^item> \<open>Json\<close>: \<open>core/hash.ts\<close> and the admission test of \<open>core/journal.ts\<close>. Canonical texts identify values.
  \<^item> \<open>Context_Policy\<close>: \<open>core/context-policy.ts\<close>.
  \<^item> \<open>Journal\<close>, \<open>Memory_Journal\<close>: \<open>core/journal.ts\<close> over an arbitrary backend, \<open>core/memory-journal.ts\<close>, and the step
    relation of several clients over one backend. Reachable histories are sealed chains, a head digest determines its
    history, an append commits exactly its drafts or conflicts, a replay grants nothing.
  \<^item> \<open>Approval_Broker\<close>, \<open>Approval_Modes\<close>: \<open>approvals/\<close>. The gate fails closed, each question is resolved once, and
    nothing is allowed or credited to a person without that person's answer.
  \<^item> \<open>Shell_Core\<close>: \<open>execution/shell/errors.ts\<close>, \<open>contract.ts\<close>, \<open>budget.ts\<close>. Outcomes (\<open>then_do\<close>: state and error
    or value); runs are bounded and cancellable.
  \<^item> \<open>Shell_Pattern\<close> (\<open>pattern.ts\<close>), \<open>Shell_Arithmetic\<close> (\<open>arithmetic.ts\<close>), \<open>Shell_Variables\<close> (the variable table and
    function calls of \<open>interpreter.ts\<close>). Matcher and evaluator agree with their declarative meanings; operators are
    those of 64-bit words; a call gives the caller its state back.
  \<^item> \<open>Shell_Filesystem\<close> (\<open>filesystem.ts\<close>): the state is the record \<open>shell_fs\<close> of two insertion-ordered tables, each
    method a function from it to an outcome. Scripts cannot touch what is protected, the tree stays well formed and
    within its limits, a recursive removal is exact and ends.
  \<^item> \<open>Shell_Streams\<close> (\<open>streams.ts\<close>): the bounded output keeps a prefix and counts the rest; reading lines loses nothing.
  \<^item> \<open>Shell_Parser\<close> (\<open>ast.ts\<close>, \<open>parser.ts\<close>) and \<open>Shell_Lexer\<close> (\<open>lexer.ts\<close>). Both are total functions; a printed
    program is parsed back; a line of quoted arguments is one simple command.
  \<^item> \<open>Shell_Expansion\<close> (\<open>expansion.ts\<close>) over the record \<open>expansion_host\<close> of what the interpreter offers. Quoted
    arguments reach a command unchanged; splitting drops separators only; pathname expansion finds real entries.
  \<^item> \<open>Shell_State\<close> (\<open>command.ts\<close>, the fields, streams, descriptors and redirections of \<open>interpreter.ts\<close>): the record \<open>shell\<close> of
    one interpreter and the record \<open>shell_world\<close> that it shares with its subshells (file system, budget, stores of readers,
    sinks and descriptor tables, referred to by index).
  \<^item> \<open>Shell_Options\<close> (\<open>options.ts\<close>, \<open>test-expression.ts\<close>), \<open>Shell_Format\<close> (\<open>printf\<close>, \<open>echo\<close>, \<open>read\<close> of \<open>builtins.ts\<close>),
    \<open>Shell_Builtins\<close> (the other built-ins). \<open>test\<close> decides the meaning of its expression; \<open>printf\<close> writes its arguments.
  \<^item> \<open>Shell_Interpreter\<close> (the execution part of \<open>interpreter.ts\<close>, \<open>run.ts\<close>, \<open>env\<close> and \<open>xargs\<close>): one function per method,
    over the recursive call as an argument; \<open>perform\<close> ties the knot, one unit of fuel per task.
  \<^item> \<open>Shell_Contract\<close>: two locales, \<open>run_contract\<close> for what the operations on the shared world keep and
    \<open>execution_contract\<close> for what every command keeps, with a lemma per operation of the interpreter, proved once: a
    relation kept by the primitives is kept by every command, and two fuels that both suffice give the same run.
  \<^item> \<open>Shell_Runs\<close>: four interpretations of the contract (steps, confinement, balance, outputs) and what they give: every
    script ends, is confined, leaves the control state balanced and reports its output; subshells are isolated, the
    failure of a command is a status, \<open>errexit\<close> stops at the first failure.

  \<^bold>\<open>How the code is represented.\<close> Errors are values of a sum type with a constructor per error class; classes are
  records and their methods functions on them; maps with insertion order are association lists. JavaScript strings are
  lists of the code units 0 to 255. Promises are the order of their effects: an operation that waits is split into the
  steps before and after, and interference between them is arbitrary where the code allows it. What the platform
  provides is a parameter with named hypotheses: SHA-256 (collisions), text decoders, clocks, the abort signal,
  identifiers, storage; for the shell it is the record \<open>platform\<close>, and the utilities outside the model are the parameter
  \<open>utility_table\<close>. Objects whose identity matters (the variables a function frame shares with the table, streams and
  descriptor tables) live in explicit stores. Signals (\<open>exit\<close>, \<open>return\<close>, \<open>break\<close>) and errors are the left values of a run,
  and \<open>finally_do\<close> is the code's finally. Where the code reads decimal digits with \<open>Number.parseInt\<close>, the model is exact
  beyond the 53 bits of a double.

  \<^bold>\<open>Bounds and fuel.\<close> Parsers, lexer, evaluator, matcher and expansion are total functions with termination proofs.
  Fuel occurs three times: \<open>perform\<close> is indexed by how deep tasks (commands, loop rounds, invoked commands) nest, and as each
  begins with a tick of the budget, \<open>every_script_ends\<close> proves that the step limit of the code is enough and more fuel
  changes nothing; \<open>evaluate_at\<close> is indexed by the nesting limit of the code itself (8 levels of variables), and
  \<open>removeTree\<close> by the depth of the call stack, for which \<open>remove_tree_exact\<close> proves that the depth of the tree is enough.
  Limits of the code (steps, files, bytes, names) are the constants of \<open>contract.ts\<close>.

  \<^bold>\<open>Not modelled.\<close> The file and text utilities of the shell other than \<open>env\<close> and \<open>xargs\<close> (a parameter of the interpreter) and
  the regular expressions some of them take from the platform; the registration of the shell as a runtime; the agent
  loop, session audit and tools, which are glue over the parts above; indexing, retrieval and memory graph, which rank
  with floating-point scores; adapters to git, providers, browser storage and encryption, which wrap platform or
  third-party code; user interface, extension and build scripts.

  \<^bold>\<open>Plan.\<close> Next are the file utilities as entries of the utility table, then the audit of recorded sessions.
\<close>

end
